(* ===== verification/VM_Prelude.thy ===== *)
theory VM_Prelude
  imports Complex_Main "HOL-Library.AList" "HOL-Library.Char_ord" "HOL-Library.List_Lexorder"
    "HOL-Library.Sublist"
begin

text \<open>
  What the components share: the Python values the program passes around, the exceptions it
  raises, and the lemmas about them.

  \<^item> A Python \<^verbatim>\<open>str\<close> is a \<^typ>\<open>string\<close> holding its UTF-8 encoding. Prefix tests, splitting and
    stripping at ASCII characters, equality and the order of \<^verbatim>\<open>sorted\<close> agree with Python's on code
    points, because UTF-8 is self-synchronising and keeps the code point order.
  \<^item> A \<^verbatim>\<open>float\<close> is a rational number, an infinity or not-a-number, with the comparison rules of
    IEEE 754; rounding is not modelled.
  \<^item> A \<^verbatim>\<open>dict\<close> is an association list in insertion order: \<^verbatim>\<open>d[k] = v\<close> is \<^const>\<open>AList.update\<close>,
    \<^verbatim>\<open>d.pop(k, None)\<close> is \<^const>\<open>AList.delete\<close>, \<^verbatim>\<open>d.get(k)\<close> is \<^const>\<open>map_of\<close>.
  \<^item> A raise is the left value of \<open>exn + 'a\<close>. The class of the exception is kept; the text of
    its message is not, since nothing in the program branches on it.
  \<^item> What the interpreter and the platform decide outside the program (the case folding of the
    platform, the text of \<^verbatim>\<open>str()\<close> on a non-string, the parsing of \<^verbatim>\<open>int()\<close> and \<^verbatim>\<open>float()\<close>, the
    text of \<^verbatim>\<open>json\<close> values with sorted keys, SHA-256) is the record \<open>pyenv\<close>, an argument of every
    definition that uses it.
\<close>

section \<open>Named collections\<close>

named_theorems dict_simps \<open>lookups after dictionary updates\<close>
named_theorems float_simps \<open>comparisons of floats\<close>

section \<open>Exceptions\<close>

text \<open>
  One datatype per family of the source, with the family's base class first where the code raises
  it too, and \<open>exn\<close> for any of them: an \<^verbatim>\<open>except\<close> clause that names a base class catches the
  family. The built-in exceptions are the first family.
\<close>

datatype py_error =
    ValueError | RuntimeError | KeyError | TypeError | OverflowError | AssertionError | TimeoutError
  | OSError | FileNotFoundError | FileExistsError | NotADirectoryError | IsADirectoryError
  | UnicodeError | SqliteError | TimeoutExpired | LookupError | PermissionError

datatype veraport_error =
  CapabilityDenied | CollisionBlocked | LaneNotFound | StaleFence | LaneExpired

datatype store_error =
  StateStoreError | IdempotencyConflict | RequestOutcomeUnknown | RequestLedgerCapacityExceeded

datatype auth_error =
  SessionAuthError | PrincipalMismatch | KeyMismatch | CapabilityEscalation | ChallengeMismatch
| SignatureInvalid

datatype stream_error = StreamProtocolError | FrameTooLarge | StreamClosed

datatype routing_error = NoCurrentPath | AmbiguousDelivery

datatype exec_error =
  PathOutsideRoots | ProcessExecutionDisabled | FileReadLimitExceeded | FileVersionChanged
| ReplaceCountMismatch

datatype process_error =
  ProcessHandleNotFound | ProcessHandleOwnerMismatch | ProcessOutputOffsetUnavailable
| ProcessInputUnavailable

datatype read_lane_error =
  LogicalReadLaneError | LogicalReadLaneNotFound | LogicalReadLaneStaleFence
| LogicalReadLaneExpired | LogicalReadLaneCloseIncomplete

datatype gateway_error = GatewayOperationDenied | ControllerBootstrapError
| ControllerIdentityMismatch | WorkstationIdentityMismatch
| PublicGatewayError | PublicGatewayRemoteError string | PublicProcessNotFound

datatype config_error = ControllerConfigError | ServiceConfigError | IdentityStoreError
| OAuthVerifierConfigError | OAuthQualificationError | PublicGatewayConfigError | PublicGatewayRuntimeError

datatype tls_error = TLSHotSessionError | TLSPolicyError | SessionRejected

datatype edge_error = EdgeAdapterError | EdgeUnauthenticated

datatype bridge_error = WorkBridgeLocalError | WorkBridgePathDenied

datatype exn =
  Py py_error | VeraPort veraport_error | Store store_error | Auth auth_error | Stream stream_error
| Routing routing_error | Exec exec_error | Process process_error | ReadLane read_lane_error
| Gateway gateway_error | Config config_error | Tls tls_error | Edge edge_error | Bridge bridge_error

type_synonym 'a result = "exn + 'a"

section \<open>Floats\<close>

datatype pyfloat = Fin rat | PosInf | NegInf | NaN

fun fle :: "pyfloat \<Rightarrow> pyfloat \<Rightarrow> bool" where
  "fle NaN y = False"
| "fle x NaN = False"
| "fle NegInf y = True"
| "fle x PosInf = True"
| "fle (Fin a) (Fin b) = (a \<le> b)"
| "fle x y = False"

fun fadd :: "pyfloat \<Rightarrow> pyfloat \<Rightarrow> pyfloat" where
  "fadd NaN y = NaN"
| "fadd x NaN = NaN"
| "fadd (Fin a) (Fin b) = Fin (a + b)"
| "fadd (Fin a) y = y"
| "fadd x (Fin b) = x"
| "fadd PosInf PosInf = PosInf"
| "fadd NegInf NegInf = NegInf"
| "fadd x y = NaN"

definition flt :: "pyfloat \<Rightarrow> pyfloat \<Rightarrow> bool" where
  "flt x y \<longleftrightarrow> fle x y \<and> \<not> fle y x"

lemma fle_refl [simp]: "fle x x \<longleftrightarrow> x \<noteq> NaN"
  by (cases x) auto

lemma fle_NaN [float_simps]: "fle x NaN = False" "fle NaN x = False"
  by (cases x; simp)+

lemma fle_trans: "fle x y \<Longrightarrow> fle y z \<Longrightarrow> fle x z"
  by (cases x; cases y; cases z; auto)

lemma fadd_NaN [float_simps]: "fadd x NaN = NaN" "fadd NaN x = NaN"
  by (cases x; simp)+

lemma fadd_pos_gt:
  assumes "\<not> fle t (Fin 0)" "t \<noteq> NaN"
  shows "\<not> fle (fadd (Fin a) t) (Fin a)"
  using assms by (cases t) auto

section \<open>JSON values and dictionaries\<close>

datatype json =
    JNull | JBool bool | JInt int | JFloat pyfloat | JStr string
  | JList "json list" | JObj "(string \<times> json) list"

type_synonym dict = "(string \<times> json) list"

record pyenv =
  os_nt :: bool
  str_casefold :: "string \<Rightarrow> string"
  str_lower :: "string \<Rightarrow> string"
  str_other :: "json \<Rightarrow> string"
  parse_int :: "string \<Rightarrow> int option"
  parse_float :: "string \<Rightarrow> pyfloat option"
  json_dumps :: "json \<Rightarrow> string"
  json_loads :: "string \<Rightarrow> json result"
  sha256_hex :: "string \<Rightarrow> string"

text \<open>\<^verbatim>\<open>str(x)\<close>, \<^verbatim>\<open>int(x)\<close> and \<^verbatim>\<open>float(x)\<close> on a JSON value; \<^verbatim>\<open>int\<close> truncates a float towards zero.\<close>

fun py_str :: "pyenv \<Rightarrow> json \<Rightarrow> string" where
  "py_str env (JStr s) = s"
| "py_str env v = str_other env v"

definition trunc :: "rat \<Rightarrow> int" where
  "trunc r = (if r \<ge> 0 then \<lfloor>r\<rfloor> else \<lceil>r\<rceil>)"

fun py_int :: "pyenv \<Rightarrow> json \<Rightarrow> int result" where
  "py_int env (JInt i) = Inr i"
| "py_int env (JBool b) = Inr (if b then 1 else 0)"
| "py_int env (JFloat (Fin r)) = Inr (trunc r)"
| "py_int env (JFloat NaN) = Inl (Py ValueError)"
| "py_int env (JFloat f) = Inl (Py OverflowError)"
| "py_int env (JStr s) = (case parse_int env s of None \<Rightarrow> Inl (Py ValueError) | Some i \<Rightarrow> Inr i)"
| "py_int env v = Inl (Py TypeError)"

fun py_float :: "pyenv \<Rightarrow> json \<Rightarrow> pyfloat result" where
  "py_float env (JInt i) = Inr (Fin (of_int i))"
| "py_float env (JBool b) = Inr (Fin (if b then 1 else 0))"
| "py_float env (JFloat f) = Inr f"
| "py_float env (JStr s) = (case parse_float env s of None \<Rightarrow> Inl (Py ValueError) | Some f \<Rightarrow> Inr f)"
| "py_float env v = Inl (Py TypeError)"

text \<open>\<^verbatim>\<open>d[k]\<close> raises \<^const>\<open>KeyError\<close> where the key is absent; \<^verbatim>\<open>d.get(k, v)\<close> returns the default.\<close>

definition dict_item :: "('k \<times> 'v) list \<Rightarrow> 'k \<Rightarrow> 'v result" where
  "dict_item d k = (case map_of d k of None \<Rightarrow> Inl (Py KeyError) | Some v \<Rightarrow> Inr v)"

definition dict_get :: "('k \<times> 'v) list \<Rightarrow> 'k \<Rightarrow> 'v \<Rightarrow> 'v" where
  "dict_get d k v = (case map_of d k of None \<Rightarrow> v | Some w \<Rightarrow> w)"

definition is_nonempty_str :: "json option \<Rightarrow> bool" where
  "is_nonempty_str v = (case v of Some (JStr s) \<Rightarrow> s \<noteq> [] | _ \<Rightarrow> False)"

lemma is_nonempty_strD: "is_nonempty_str v \<Longrightarrow> \<exists>s. v = Some (JStr s) \<and> s \<noteq> []"
  by (auto simp: is_nonempty_str_def split: option.splits json.splits)

lemma map_of_update [dict_simps]: "map_of (AList.update k v d) = (map_of d)(k \<mapsto> v)"
  by (simp add: update_conv')

lemma map_of_delete [dict_simps]: "map_of (AList.delete k d) = (map_of d)(k := None)"
  by (simp add: delete_conv')

lemma length_update_new: "map_of d k = None \<Longrightarrow> length (AList.update k v d) = Suc (length d)"
  by (induction d) (auto split: if_splits)

lemma length_update_old: "map_of d k = Some w \<Longrightarrow> length (AList.update k v d) = length d"
  by (induction d) (auto split: if_splits)

lemma set_update_subset: "set (AList.update k v d) \<subseteq> insert (k, v) (set d)"
  by (induction d) auto

lemma map_snd_update_new: "map_of d k = None \<Longrightarrow> AList.update k v d = d @ [(k, v)]"
  by (induction d) (auto split: if_splits)

lemma map_of_filter_distinct:
  "distinct (map fst d) \<Longrightarrow>
   map_of (filter P d) k =
     (case map_of d k of None \<Rightarrow> None | Some v \<Rightarrow> if P (k, v) then Some v else None)"
  by (induction d) (auto simp: map_of_eq_None_iff image_iff split: option.splits)

text \<open>
  \<^verbatim>\<open>sort_keys=True\<close>: the value with the keys of every object in order, which is what parsing a
  dumped value gives back. Python compares dictionaries without regard to their order, so the
  sorted value and the original are equal there.
\<close>

fun json_sorted :: "json \<Rightarrow> json" where
  "json_sorted (JList vs) = JList (map json_sorted vs)"
| "json_sorted (JObj kvs) = JObj (sort_key fst (map (\<lambda>(k, v). (k, json_sorted v)) kvs))"
| "json_sorted v = v"

section \<open>Strings\<close>

definition startswith :: "string \<Rightarrow> string \<Rightarrow> bool" where
  "startswith s p = prefix p s"

definition rstrip_char :: "char \<Rightarrow> string \<Rightarrow> string" where
  "rstrip_char c s = rev (dropWhile (\<lambda>x. x = c) (rev s))"

text \<open>\<^verbatim>\<open>s.split(c, 1)\<close>, unpacked into two parts; \<^const>\<open>None\<close> where the unpacking fails.\<close>

definition split1 :: "char \<Rightarrow> string \<Rightarrow> (string \<times> string) option" where
  "split1 c s = (case dropWhile (\<lambda>x. x \<noteq> c) s of [] \<Rightarrow> None
     | _ # r \<Rightarrow> Some (takeWhile (\<lambda>x. x \<noteq> c) s, r))"

lemma split1_Some_iff: "split1 c s = Some (a, b) \<longleftrightarrow> s = a @ c # b \<and> c \<notin> set a"
proof
  assume h: "split1 c s = Some (a, b)"
  then obtain x r where d: "dropWhile (\<lambda>x. x \<noteq> c) s = x # r"
    by (auto simp: split1_def split: list.splits)
  then have "x = c" using hd_dropWhile [of "\<lambda>x. x \<noteq> c" s] by simp
  moreover have "a = takeWhile (\<lambda>x. x \<noteq> c) s" "b = r"
    using h d by (auto simp: split1_def)
  ultimately show "s = a @ c # b \<and> c \<notin> set a"
    using d takeWhile_dropWhile_id [of "\<lambda>x. x \<noteq> c" s] by (auto dest: set_takeWhileD)
next
  assume "s = a @ c # b \<and> c \<notin> set a"
  then have "dropWhile (\<lambda>x. x \<noteq> c) s = c # b" "takeWhile (\<lambda>x. x \<noteq> c) s = a"
    by (auto simp: dropWhile_append3 takeWhile_tail)
  then show "split1 c s = Some (a, b)" by (simp add: split1_def)
qed

lemma split1_eq_None_iff: "split1 c s = None \<longleftrightarrow> c \<notin> set s"
proof
  assume "split1 c s = None"
  then show "c \<notin> set s" by (metis option.distinct(1) split1_Some_iff split_list_first)
next
  assume "c \<notin> set s"
  then show "split1 c s = None"
    by (cases "split1 c s") (auto simp: split1_Some_iff)
qed

text \<open>The code points that \<^verbatim>\<open>str.strip()\<close> removes, each in UTF-8.\<close>

definition py_whitespace :: "string list" where
  "py_whitespace =
    [[CHR 0x09], [CHR 0x0A], [CHR 0x0B], [CHR 0x0C], [CHR 0x0D], [CHR 0x1C], [CHR 0x1D],
     [CHR 0x1E], [CHR 0x1F], [CHR 0x20], [CHR 0xC2, CHR 0x85], [CHR 0xC2, CHR 0xA0],
     [CHR 0xE1, CHR 0x9A, CHR 0x80], [CHR 0xE2, CHR 0x80, CHR 0xA8],
     [CHR 0xE2, CHR 0x80, CHR 0xA9], [CHR 0xE2, CHR 0x80, CHR 0xAF],
     [CHR 0xE2, CHR 0x81, CHR 0x9F], [CHR 0xE3, CHR 0x80, CHR 0x80],
     [CHR 0xE2, CHR 0x80, CHR 0x80], [CHR 0xE2, CHR 0x80, CHR 0x81],
     [CHR 0xE2, CHR 0x80, CHR 0x82], [CHR 0xE2, CHR 0x80, CHR 0x83],
     [CHR 0xE2, CHR 0x80, CHR 0x84], [CHR 0xE2, CHR 0x80, CHR 0x85],
     [CHR 0xE2, CHR 0x80, CHR 0x86], [CHR 0xE2, CHR 0x80, CHR 0x87],
     [CHR 0xE2, CHR 0x80, CHR 0x88], [CHR 0xE2, CHR 0x80, CHR 0x89],
     [CHR 0xE2, CHR 0x80, CHR 0x8A]]"

lemma py_whitespace_nonempty: "w \<in> set py_whitespace \<Longrightarrow> w \<noteq> []"
  by (auto simp: py_whitespace_def)

function lstrip :: "string \<Rightarrow> string" where
  "lstrip s = (case find (\<lambda>w. prefix w s) py_whitespace of None \<Rightarrow> s
     | Some w \<Rightarrow> lstrip (drop (length w) s))"
  by pat_completeness auto
termination
proof (relation "measure length")
  fix s w
  assume "find (\<lambda>w. prefix w s) py_whitespace = Some w"
  then have "w \<in> set py_whitespace" "prefix w s" by (auto simp: find_Some_iff)
  then show "(drop (length w) s, s) \<in> measure length"
    using py_whitespace_nonempty by (auto simp: prefix_def)
qed simp

declare lstrip.simps [simp del]

text \<open>\<^verbatim>\<open>not s.strip()\<close>: nothing is left once the leading white space is gone.\<close>

definition is_blank :: "string \<Rightarrow> bool" where
  "is_blank s = (lstrip s = [])"

text \<open>A string that starts with a character that no white space starts with is not blank.\<close>

lemma not_blankI:
  assumes "\<forall>w \<in> set py_whitespace. hd w \<noteq> c"
  shows "\<not> is_blank (c # s)"
proof -
  have "\<not> prefix w (c # s)" if "w \<in> set py_whitespace" for w
    using assms that py_whitespace_nonempty [OF that] by (cases w) auto
  then have "find (\<lambda>w. prefix w (c # s)) py_whitespace = None"
    by (auto simp: find_None_iff)
  then show ?thesis by (simp add: is_blank_def lstrip.simps [of "c # s"])
qed

lemma is_blank_Nil [simp]: "is_blank []"
proof -
  have "find (\<lambda>w. prefix w []) py_whitespace = None"
    using py_whitespace_nonempty by (auto simp: find_None_iff)
  then show ?thesis by (simp add: is_blank_def lstrip.simps [of "[]"])
qed

definition byte_val :: "char \<Rightarrow> nat" where
  "byte_val c = of_char c"

definition byte_of :: "nat \<Rightarrow> char" where
  "byte_of n = char_of n"

text \<open>Decimal text of an integer, \<^verbatim>\<open>str(n)\<close>.\<close>

fun digits :: "nat \<Rightarrow> string" where
  "digits n = (if n < 10 then [char_of (48 + n)] else digits (n div 10) @ [char_of (48 + n mod 10)])"

declare digits.simps [simp del]

definition str_int :: "int \<Rightarrow> string" where
  "str_int i = (if i < 0 then CHR ''-'' # digits (nat (- i)) else digits (nat i))"

fun join :: "string \<Rightarrow> string list \<Rightarrow> string" where
  "join sep [] = []"
| "join sep [x] = x"
| "join sep (x # y # ys) = x @ sep @ join sep (y # ys)"

lemma byte_val_lt: "byte_val c < 256"
  by (simp add: byte_val_def)

lemma byte_of_val [simp]: "byte_of (byte_val c) = c"
  by (simp add: byte_of_def byte_val_def)

definition digit_val :: "char \<Rightarrow> nat" where
  "digit_val c = byte_val c - 48"

lemma digits_value: "foldl (\<lambda>acc c. acc * 10 + digit_val c) 0 (digits n) = n"
proof (induction n rule: digits.induct)
  case (1 n)
  show ?case
  proof (cases "n < 10")
    case True
    then show ?thesis by (simp add: digits.simps [of n] digit_val_def byte_val_def)
  next
    case False
    have "(48 + n mod 10) mod 256 = 48 + n mod 10" by simp
    then show ?thesis using 1 [OF False] False
      by (simp add: digits.simps [of n] digit_val_def byte_val_def)
  qed
qed

lemma digits_inj: "digits m = digits n \<Longrightarrow> m = n"
  by (metis digits_value)

lemma digits_chars: "c \<in> set (digits n) \<Longrightarrow> 48 \<le> byte_val c \<and> byte_val c < 58"
proof (induction n rule: digits.induct)
  case (1 n)
  have "(48 + n mod 10) mod 256 = 48 + n mod 10" by simp
  with 1 show ?case
    by (cases "n < 10") (auto simp: digits.simps [of n] byte_val_def)
qed

lemma digits_nonempty: "digits n \<noteq> []"
  by (simp add: digits.simps [of n])

lemma digits_no_sign: "CHR '':'' \<notin> set (digits n)" "CHR ''-'' \<notin> set (digits n)"
  using digits_chars [of "CHR '':''" n] digits_chars [of "CHR ''-''" n] by (auto simp: byte_val_def)

lemma str_int_inj: "str_int i = str_int j \<Longrightarrow> i = j"
  using digits_no_sign(2) [of "nat i"] digits_no_sign(2) [of "nat j"] digits_inj
  by (auto simp: str_int_def split: if_splits dest!: digits_inj)
    (metis list.set_intros(1))+

text \<open>A POSIX platform with ASCII text, for concrete runs.\<close>

definition posix_env :: pyenv where
  "posix_env = \<lparr>os_nt = False, str_casefold = (\<lambda>s. s), str_lower = (\<lambda>s. s),
     str_other = (\<lambda>_. ''?''), parse_int = (\<lambda>_. None), parse_float = (\<lambda>_. None),
     json_dumps = (\<lambda>_. ''{}''), json_loads = (\<lambda>_. Inr (JObj [])), sha256_hex = (\<lambda>s. s)\<rparr>"

end
