(* ===== verification/Path_Select.thy ===== *)
theory Path_Select
  imports VM_Prelude
begin

text \<open>
  \<^verbatim>\<open>synchrony.py\<close>: choosing the path of a request. Observations that are in the future, stale,
  unauthenticated or unhealthy are rejected with a reason; of the rest the smallest in the order
  mode, round-trip time, path id is selected.
\<close>

section \<open>Observations and the selection\<close>

datatype path_mode = DIRECT_STREAM | EDGE_STREAM | DURABLE_RELAY

fun mode_int :: "path_mode \<Rightarrow> int" where
  "mode_int DIRECT_STREAM = 0"
| "mode_int EDGE_STREAM = 1"
| "mode_int DURABLE_RELAY = 2"

record path_observation =
  path_id :: string
  path_mode :: path_mode
  authenticated :: bool
  healthy :: bool
  observed_at_ms :: int
  rtt_ms :: "pyfloat option"

definition mk_path_observation :: "path_observation \<Rightarrow> path_observation result" where
  "mk_path_observation p =
     (if path_id p = [] then Inl (Py ValueError)
      else if observed_at_ms p < 0 then Inl (Py ValueError)
      else if (case rtt_ms p of None \<Rightarrow> False | Some r \<Rightarrow> flt r (Fin 0)) then Inl (Py ValueError)
      else Inr p)"

datatype reject_reason = CLOCK_FUTURE | STALE | UNAUTHENTICATED | UNHEALTHY

record path_decision =
  selected :: "path_observation option"
  rejected :: "(string \<times> reject_reason) list"

definition reject :: "int \<Rightarrow> int \<Rightarrow> path_observation \<Rightarrow> reject_reason option" where
  "reject now max_age item =
     (if observed_at_ms item > now then Some CLOCK_FUTURE
      else if now - observed_at_ms item > max_age then Some STALE
      else if \<not> authenticated item then Some UNAUTHENTICATED
      else if \<not> healthy item then Some UNHEALTHY
      else None)"

fun partition_paths ::
  "int \<Rightarrow> int \<Rightarrow> path_observation list \<Rightarrow> path_observation list \<times> (string \<times> reject_reason) list" where
  "partition_paths now max_age [] = ([], [])"
| "partition_paths now max_age (item # items) =
     (let (eligible, rej) = partition_paths now max_age items in
      case reject now max_age item of
        None \<Rightarrow> (item # eligible, rej)
      | Some r \<Rightarrow> (eligible, (path_id item, r) # rej))"

text \<open>
  Python's tuple order: the first component that differs decides. Two NaN round-trip times differ
  and neither is smaller.
\<close>

definition rtt_key :: "path_observation \<Rightarrow> pyfloat" where
  "rtt_key p = (case rtt_ms p of None \<Rightarrow> PosInf | Some r \<Rightarrow> r)"

definition key_less :: "path_observation \<Rightarrow> path_observation \<Rightarrow> bool" where
  "key_less p q =
     (if mode_int (path_mode p) \<noteq> mode_int (path_mode q)
      then mode_int (path_mode p) < mode_int (path_mode q)
      else if \<not> (rtt_key p = rtt_key q \<and> rtt_key p \<noteq> NaN) then flt (rtt_key p) (rtt_key q)
      else path_id p < path_id q)"

text \<open>\<^verbatim>\<open>min(xs, key=...)\<close>: the first of the smallest elements.\<close>

fun min_by :: "('a \<Rightarrow> 'a \<Rightarrow> bool) \<Rightarrow> 'a \<Rightarrow> 'a list \<Rightarrow> 'a" where
  "min_by lt best [] = best"
| "min_by lt best (x # xs) = min_by lt (if lt x best then x else best) xs"

definition select_path :: "path_observation list \<Rightarrow> int \<Rightarrow> int \<Rightarrow> path_decision result" where
  "select_path observations now max_age =
     (if now < 0 \<or> max_age < 0 then Inl (Py ValueError)
      else let (eligible, rej) = partition_paths now max_age observations in
        case eligible of
          [] \<Rightarrow> Inr \<lparr>selected = None, rejected = rej\<rparr>
        | x # xs \<Rightarrow> Inr \<lparr>selected = Some (min_by key_less x xs), rejected = rej\<rparr>)"

section \<open>The order of paths\<close>

definition path_ok :: "path_observation \<Rightarrow> bool" where
  "path_ok p \<longleftrightarrow> rtt_key p \<noteq> NaN"

lemma flt_linear: "x \<noteq> NaN \<Longrightarrow> y \<noteq> NaN \<Longrightarrow> flt x y \<or> x = y \<or> flt y x"
  by (cases x; cases y) (auto simp: flt_def)

lemma flt_trans: "flt x y \<Longrightarrow> flt y z \<Longrightarrow> flt x z"
  by (cases x; cases y; cases z) (auto simp: flt_def)

lemma flt_irrefl [simp]: "\<not> flt x x"
  by (simp add: flt_def)

lemma key_less_irrefl: "\<not> key_less p p"
  by (auto simp: key_less_def)

lemma key_less_trans:
  "path_ok p \<Longrightarrow> path_ok q \<Longrightarrow> path_ok r \<Longrightarrow> key_less p q \<Longrightarrow> key_less q r \<Longrightarrow> key_less p r"
  unfolding key_less_def path_ok_def
  by (auto split: if_splits dest: flt_trans)

lemma key_less_total:
  "path_ok p \<Longrightarrow> path_ok q \<Longrightarrow> path_id p \<noteq> path_id q \<Longrightarrow> key_less p q \<or> key_less q p"
  unfolding key_less_def path_ok_def
  by (metis flt_linear linorder_less_linear)

lemma min_by_in: "min_by lt b xs \<in> set (b # xs)"
proof (induction xs arbitrary: b)
  case (Cons a xs)
  from Cons.IH [of "if lt a b then a else b"] show ?case by (auto split: if_splits)
qed simp

lemma min_by_least:
  assumes irrefl: "\<And>x. \<not> lt x x"
    and trans: "\<And>x y z. x \<in> S \<Longrightarrow> y \<in> S \<Longrightarrow> z \<in> S \<Longrightarrow> lt x y \<Longrightarrow> lt y z \<Longrightarrow> lt x z"
    and "set (b # xs) \<subseteq> S" and "y \<in> set (b # xs)"
  shows "\<not> lt y (min_by lt b xs)"
proof -
  have "\<not> lt y (min_by lt b xs) \<and> (\<forall>z \<in> S. lt z (min_by lt b xs) \<longrightarrow> lt z b)"
    if "set (b # xs) \<subseteq> S" "y \<in> set (b # xs)" for b y
    using that
  proof (induction xs arbitrary: b y)
    case Nil
    then show ?case using irrefl by auto
  next
    case (Cons x xs)
    let ?c = "if lt x b then x else b"
    have S: "set (?c # xs) \<subseteq> S" "b \<in> S" "x \<in> S" using Cons.prems by auto
    have mn: "min_by lt ?c xs \<in> S" using min_by_in [of lt ?c xs] S(1) by auto
    have down: "\<forall>z \<in> S. lt z (min_by lt ?c xs) \<longrightarrow> lt z ?c"
      using Cons.IH [OF S(1), of ?c] by simp
    have "lt z b" if "z \<in> S" "lt z ?c" for z
      using that trans [of z x b] S by (auto split: if_splits)
    moreover have "\<not> lt y (min_by lt ?c xs)"
    proof (cases "y \<in> set (?c # xs)")
      case True
      then show ?thesis using Cons.IH [OF S(1)] by blast
    next
      case False
      then consider "y = b" "lt x b" | "y = x" "\<not> lt x b"
        using Cons.prems(2) by (auto split: if_splits)
      then show ?thesis
      proof cases
        case 1
        then show ?thesis using down irrefl trans [of b x b] S by auto
      next
        case 2
        then show ?thesis using down S by auto
      qed
    qed
    ultimately show ?case using down by auto
  qed
  then show ?thesis using assms(3,4) by blast
qed

lemma partition_paths_eq:
  "partition_paths now max_age obs =
     (filter (\<lambda>p. reject now max_age p = None) obs,
      map (\<lambda>p. (path_id p, the (reject now max_age p))) (filter (\<lambda>p. reject now max_age p \<noteq> None) obs))"
  by (induction obs) (auto split: option.splits)

section \<open>The contract of a path selector\<close>

text \<open>
  What the session pool and the read lane router rely on: a selected path is one of those offered
  and usable, and nothing usable is left when none is selected.
\<close>

locale path_selector =
  fixes select :: "path_observation list \<Rightarrow> path_observation option"
    and usable :: "path_observation \<Rightarrow> bool"
  assumes select_in: "select obs = Some p \<Longrightarrow> p \<in> set obs \<and> usable p"
    and select_None: "select obs = None \<Longrightarrow> p \<in> set obs \<Longrightarrow> \<not> usable p"
begin

lemma select_Nil [simp]: "select [] = None"
  using select_in [of "[]"] by (cases "select []") auto

lemma select_usable_iff: "(\<exists>p. select obs = Some p) \<longleftrightarrow> (\<exists>p \<in> set obs. usable p)"
  using select_in select_None by (metis not_None_eq)

lemma selected_owner:
  assumes "select (map f items) = Some p"
  shows "\<exists>x. find (\<lambda>y. path_id (f y) = path_id p) items = Some x \<and> x \<in> set items"
proof -
  obtain y where "y \<in> set items" "f y = p" using select_in [OF assms] by auto
  then have "find (\<lambda>y. path_id (f y) = path_id p) items \<noteq> None" by (auto simp: find_None_iff)
  then show ?thesis by (metis find_Some_iff not_None_eq nth_mem)
qed

end

definition select_value :: "int \<Rightarrow> int \<Rightarrow> path_observation list \<Rightarrow> path_observation option" where
  "select_value now max_age obs = (case select_path obs now max_age of Inl e \<Rightarrow> None | Inr d \<Rightarrow> selected d)"

definition path_usable :: "int \<Rightarrow> int \<Rightarrow> path_observation \<Rightarrow> bool" where
  "path_usable now max_age p \<longleftrightarrow> 0 \<le> now \<and> 0 \<le> max_age \<and> reject now max_age p = None"

lemma select_path_cases:
  assumes "0 \<le> now" "0 \<le> max_age"
  shows "select_path obs now max_age =
    Inr \<lparr>selected = select_value now max_age obs, rejected = snd (partition_paths now max_age obs)\<rparr>"
  using assms by (auto simp: select_value_def select_path_def Let_def split: prod.splits list.splits)

lemma select_path_min:
  assumes "0 \<le> now" "0 \<le> max_age"
  shows "select_value now max_age obs =
    (case filter (\<lambda>p. reject now max_age p = None) obs of [] \<Rightarrow> None
     | x # xs \<Rightarrow> Some (min_by key_less x xs))"
  using assms
  by (auto simp: select_value_def select_path_def partition_paths_eq split: list.splits)

interpretation sel: path_selector "select_value now max_age" "path_usable now max_age"
proof
  fix obs p
  assume s: "select_value now max_age obs = Some p"
  then have nn: "0 \<le> now" "0 \<le> max_age"
    by (auto simp: select_value_def select_path_def split: sum.splits if_splits)
  obtain x xs where f: "filter (\<lambda>p. reject now max_age p = None) obs = x # xs"
    and "p = min_by key_less x xs"
    using s unfolding select_path_min [OF nn] by (auto split: list.splits)
  then have "p \<in> set (filter (\<lambda>p. reject now max_age p = None) obs)"
    using min_by_in [of key_less x xs] by simp
  then show "p \<in> set obs \<and> path_usable now max_age p" using nn by (simp add: path_usable_def)
next
  fix obs p
  assume "select_value now max_age obs = None" "p \<in> set obs"
  then show "\<not> path_usable now max_age p"
    by (auto simp: path_usable_def select_path_min filter_empty_conv split: list.splits)
qed

lemma select_value_least:
  assumes "select_value now max_age obs = Some s" "\<forall>p \<in> set obs. path_ok p"
    and "q \<in> set obs" "path_usable now max_age q"
  shows "\<not> key_less q s"
proof -
  have nn: "0 \<le> now" "0 \<le> max_age" and r: "reject now max_age q = None"
    using assms(4) by (auto simp: path_usable_def)
  obtain x xs where f: "filter (\<lambda>p. reject now max_age p = None) obs = x # xs"
    and s: "s = min_by key_less x xs"
    using assms(1) unfolding select_path_min [OF nn] by (auto split: list.splits)
  have q: "q \<in> set (x # xs)" "set (x # xs) \<subseteq> {p. path_ok p}"
    using r assms(2,3) unfolding f [symmetric] by auto
  show ?thesis
    unfolding s
  proof (rule min_by_least [OF _ _ q(2) q(1)])
    show "key_less x y \<Longrightarrow> key_less y z \<Longrightarrow> key_less x z"
      if "x \<in> {p. path_ok p}" "y \<in> {p. path_ok p}" "z \<in> {p. path_ok p}" for x y z
      using key_less_trans [of x y z] that by simp
  qed (simp_all add: key_less_irrefl)
qed

lemma select_value_unique_best:
  assumes "select_value now max_age obs = Some s" "\<forall>p \<in> set obs. path_ok p"
    and "distinct (map path_id obs)" "q \<in> set obs" "path_usable now max_age q"
  shows "q = s \<or> key_less s q"
proof (cases "path_id q = path_id s")
  case True
  then show ?thesis using assms(3,4) sel.select_in [OF assms(1)] by (auto dest: inj_onD simp: distinct_map)
next
  case False
  then show ?thesis
    using key_less_total [of q s] select_value_least [OF assms(1,2,4,5)] assms(2,4)
      sel.select_in [OF assms(1)] by auto
qed

text \<open>
  The selected path is the best usable one. With valid times, round-trip times that are
  numbers and distinct path ids: a path is selected exactly when a current, authenticated and healthy
  one is offered; it comes before every other usable path in the order mode, round-trip time, id,
  so a relay never displaces a direct stream; every other path is reported with its first reason;
  and the choice does not depend on the order of the observations.
\<close>

theorem select_path_best:
  assumes "0 \<le> now" "0 \<le> max_age" "\<forall>p \<in> set obs. path_ok p" "distinct (map path_id obs)"
  shows "\<exists>d. select_path obs now max_age = Inr d
    \<and> rejected d = [(path_id p, the (reject now max_age p)). p \<leftarrow> obs, reject now max_age p \<noteq> None]
    \<and> (selected d = None \<longleftrightarrow> (\<forall>p \<in> set obs. reject now max_age p \<noteq> None))
    \<and> (\<forall>s. selected d = Some s \<longrightarrow> s \<in> set obs \<and> reject now max_age s = None
        \<and> (\<forall>q \<in> set obs. reject now max_age q = None \<longrightarrow>
             q = s \<or> (mode_int (path_mode s) \<le> mode_int (path_mode q) \<and> key_less s q)))
    \<and> (\<forall>obs' d'. set obs' = set obs \<and> distinct (map path_id obs')
         \<and> select_path obs' now max_age = Inr d' \<longrightarrow> selected d' = selected d)"
proof -
  note sp = select_path_cases [OF assms(1,2)]
  have rej: "snd (partition_paths now max_age obs)
      = [(path_id p, the (reject now max_age p)). p \<leftarrow> obs, reject now max_age p \<noteq> None]"
    by (simp add: partition_paths_eq) (induction obs, auto)
  have us: "path_usable now max_age p \<longleftrightarrow> reject now max_age p = None" for p
    using assms(1,2) by (simp add: path_usable_def)
  have none: "select_value now max_age obs = None \<longleftrightarrow> (\<forall>p \<in> set obs. reject now max_age p \<noteq> None)"
    using sel.select_usable_iff [of now max_age obs] us by (metis not_None_eq)
  have mode: "key_less s q \<Longrightarrow> mode_int (path_mode s) \<le> mode_int (path_mode q)" for s q
    by (auto simp: key_less_def split: if_splits)
  have best: "s \<in> set obs \<and> reject now max_age s = None
      \<and> (\<forall>q \<in> set obs. reject now max_age q = None \<longrightarrow> q = s \<or> key_less s q)"
    if "select_value now max_age obs = Some s" for s
    using sel.select_in [OF that] select_value_unique_best [OF that assms(3,4)] us by auto
  have same: "select_value now max_age obs' = select_value now max_age obs"
    if eq: "set obs' = set obs" "distinct (map path_id obs')" for obs'
  proof (cases "select_value now max_age obs'")
    case None
    then show ?thesis
      using sel.select_usable_iff [of now max_age obs'] sel.select_usable_iff [of now max_age obs] that(1)
      by simp
  next
    case (Some s)
    then obtain t where t: "select_value now max_age obs = Some t"
      using sel.select_in [OF Some] sel.select_usable_iff [of now max_age obs] unfolding eq(1) by blast
    have "s = t \<or> key_less t s"
      by (rule select_value_unique_best [OF t assms(3,4)]) (use sel.select_in [OF Some] that in auto)
    moreover have "\<not> key_less t s"
      by (rule select_value_least [OF Some]) (use assms(3) sel.select_in [OF t] that in auto)
    ultimately show ?thesis using Some t by simp
  qed
  show ?thesis
    unfolding sp
  proof (intro exI conjI)
    show "\<forall>s. selected \<lparr>selected = select_value now max_age obs,
            rejected = snd (partition_paths now max_age obs)\<rparr> = Some s \<longrightarrow>
        s \<in> set obs \<and> reject now max_age s = None
        \<and> (\<forall>q \<in> set obs. reject now max_age q = None \<longrightarrow>
             q = s \<or> (mode_int (path_mode s) \<le> mode_int (path_mode q) \<and> key_less s q))"
      using best mode by (simp, blast)
  qed (use rej none same in simp_all)
qed

definition demo_path :: "string \<Rightarrow> path_mode \<Rightarrow> int \<Rightarrow> path_observation" where
  "demo_path pid m t = \<lparr>path_id = pid, path_mode = m, authenticated = True, healthy = True,
     observed_at_ms = t, rtt_ms = None\<rparr>"

lemma select_path_best_witness:
  "\<exists>d. select_path [demo_path ''r'' DURABLE_RELAY 9, demo_path ''e'' EDGE_STREAM 8, demo_path ''d'' DIRECT_STREAM 1] 10 5 = Inr d
    \<and> selected d = Some (demo_path ''e'' EDGE_STREAM 8) \<and> rejected d = [(''d'', STALE)]
    \<and> (\<forall>d'. select_path [demo_path ''d'' DIRECT_STREAM 1, demo_path ''e'' EDGE_STREAM 8, demo_path ''r'' DURABLE_RELAY 9] 10 5 = Inr d'
         \<longrightarrow> selected d' = Some (demo_path ''e'' EDGE_STREAM 8))"
proof -
  let ?o = "[demo_path ''r'' DURABLE_RELAY 9, demo_path ''e'' EDGE_STREAM 8, demo_path ''d'' DIRECT_STREAM 1]"
  have perm: "set [demo_path ''d'' DIRECT_STREAM 1, demo_path ''e'' EDGE_STREAM 8, demo_path ''r'' DURABLE_RELAY 9] = set ?o"
    "distinct (map path_id [demo_path ''d'' DIRECT_STREAM 1, demo_path ''e'' EDGE_STREAM 8, demo_path ''r'' DURABLE_RELAY 9])"
    by (auto simp: demo_path_def)
  have run: "select_path ?o 10 5 = Inr \<lparr>selected = Some (demo_path ''e'' EDGE_STREAM 8), rejected = [(''d'', STALE)]\<rparr>"
    by (simp add: select_path_def reject_def demo_path_def key_less_def)
  have ok: "\<forall>p \<in> set ?o. path_ok p" by (simp add: path_ok_def rtt_key_def demo_path_def)
  have dist: "distinct (map path_id ?o)" by (simp add: demo_path_def)
  obtain d where d: "select_path ?o 10 5 = Inr d"
      "\<forall>obs' d'. set obs' = set ?o \<and> distinct (map path_id obs')
         \<and> select_path obs' 10 5 = Inr d' \<longrightarrow> selected d' = selected d"
    using select_path_best [OF _ _ ok dist, of 10 5] by fastforce
  have "d = \<lparr>selected = Some (demo_path ''e'' EDGE_STREAM 8), rejected = [(''d'', STALE)]\<rparr>"
    using d(1) unfolding run by simp
  then show ?thesis
    using d perm by (intro exI [of _ d]) (metis path_decision.select_convs)
qed

end
