(* ===== verification/Hot_Session.thy ===== *)
theory Hot_Session
  imports VM_Prelude
begin

text \<open>
  \<^verbatim>\<open>hot_session.py\<close>: the mutual authentication of a controller and a workstation. Bytes are strings
  of characters, like the UTF-8 texts. The cryptography package is the record \<open>crypto\<close>, an argument
  of the definitions: key curves, the public key of a private key, the SHA-256 of the DER form of a
  key, ECDSA signing and verification. Randomness (\<^verbatim>\<open>os.urandom\<close>) is an argument too.
\<close>

section \<open>Base64url\<close>

definition b64_alphabet :: string where
  "b64_alphabet = ''ABCDEFGHIJKLMNOPQRSTUVWXYZabcdefghijklmnopqrstuvwxyz0123456789-_''"

definition b64_char :: "nat \<Rightarrow> char" where
  "b64_char n = b64_alphabet ! n"

fun b64_sextets :: "string \<Rightarrow> nat list" where
  "b64_sextets [] = []"
| "b64_sextets [a] = [byte_val a div 4, (byte_val a mod 4) * 16]"
| "b64_sextets [a, b] =
     [byte_val a div 4, (byte_val a mod 4) * 16 + byte_val b div 16, (byte_val b mod 16) * 4]"
| "b64_sextets (a # b # c # r) =
     byte_val a div 4 # ((byte_val a mod 4) * 16 + byte_val b div 16)
       # ((byte_val b mod 16) * 4 + byte_val c div 64) # byte_val c mod 64 # b64_sextets r"

text \<open>\<^verbatim>\<open>urlsafe_b64encode(value).rstrip(b"=")\<close>: the sextets without the padding.\<close>

definition b64u :: "string \<Rightarrow> string" where
  "b64u bs = map b64_char (b64_sextets bs)"

text \<open>
  The decoding table of \<^verbatim>\<open>urlsafe_b64decode\<close>: \<^verbatim>\<open>-\<close> and \<^verbatim>\<open>_\<close> are translated to \<^verbatim>\<open>+\<close> and \<^verbatim>\<open>/\<close>, which are
  accepted as well; any other character is skipped.
\<close>

definition b64_value :: "char \<Rightarrow> nat option" where
  "b64_value c =
     (let n = byte_val c in
      if 65 \<le> n \<and> n \<le> 90 then Some (n - 65)
      else if 97 \<le> n \<and> n \<le> 122 then Some (n - 71)
      else if 48 \<le> n \<and> n \<le> 57 then Some (n + 4)
      else if n = 45 \<or> n = 43 then Some 62
      else if n = 95 \<or> n = 47 then Some 63
      else None)"

text \<open>
  \<^verbatim>\<open>binascii.a2b_base64\<close> in its lenient mode: position in the quantum, bits left over, padding
  characters seen.
\<close>

fun a2b :: "nat \<Rightarrow> nat \<Rightarrow> nat \<Rightarrow> string \<Rightarrow> string result" where
  "a2b q l p [] = (if q = 0 then Inr [] else Inl (Py ValueError))"
| "a2b q l p (c # cs) =
     (if c = CHR ''='' then
        (if 2 \<le> q then (if 4 \<le> q + Suc p then Inr [] else a2b q l (Suc p) cs) else a2b q l p cs)
      else case b64_value c of
        None \<Rightarrow> a2b q l p cs
      | Some v \<Rightarrow>
          if q = 0 then a2b 1 v 0 cs
          else if q = 1 then map_sum id (Cons (byte_of (l * 4 + v div 16))) (a2b 2 (v mod 16) 0 cs)
          else if q = 2 then map_sum id (Cons (byte_of (l * 16 + v div 4))) (a2b 3 (v mod 4) 0 cs)
          else map_sum id (Cons (byte_of (l * 64 + v))) (a2b 0 0 0 cs))"

definition b64u_decode :: "string \<Rightarrow> string result" where
  "b64u_decode value =
     (let pad = replicate ((4 - length value mod 4) mod 4) (CHR ''='') in
      if \<exists>c \<in> set value. 128 \<le> byte_val c then Inl (Py UnicodeError)
      else a2b 0 0 0 (value @ pad))"

section \<open>Keys, principals and signatures\<close>

record ('sk, 'pk) crypto =
  p256_private :: "'sk \<Rightarrow> bool"
  p256_public :: "'pk \<Rightarrow> bool"
  public_of :: "'sk \<Rightarrow> 'pk"
  spki_sha256_hex :: "'pk \<Rightarrow> string"
  ecdsa_sign :: "'sk \<Rightarrow> string \<Rightarrow> int \<times> int"
  ecdsa_verify :: "'pk \<Rightarrow> int \<times> int \<Rightarrow> string \<Rightarrow> bool"

definition key_id :: "('sk, 'pk) crypto \<Rightarrow> 'pk \<Rightarrow> string result" where
  "key_id cr pk = (if p256_public cr pk then Inr (spki_sha256_hex cr pk) else Inl (Auth KeyMismatch))"

definition principal_id :: "('sk, 'pk) crypto \<Rightarrow> 'pk \<Rightarrow> string \<Rightarrow> string result" where
  "principal_id cr pk pre =
     (if p256_public cr pk then Inr (pre @ '':'' @ spki_sha256_hex cr pk)
      else Inl (Auth KeyMismatch))"

definition field :: "string \<Rightarrow> string \<Rightarrow> string" where
  "field nm value = nm @ ''='' @ digits (length value) @ '':'' @ value @ [CHR 0x0A]"

definition capabilities_text :: "string list \<Rightarrow> string" where
  "capabilities_text values = join '','' (sorted_list_of_set (set values))"

text \<open>\<^verbatim>\<open>int.to_bytes(n, "big")\<close> and \<^verbatim>\<open>int.from_bytes(..., "big")\<close>.\<close>

fun be_bytes :: "nat \<Rightarrow> nat \<Rightarrow> string" where
  "be_bytes 0 v = []"
| "be_bytes (Suc n) v = be_bytes n (v div 256) @ [byte_of (v mod 256)]"

definition to_bytes :: "nat \<Rightarrow> int \<Rightarrow> string result" where
  "to_bytes n v =
     (if v < 0 \<or> 256 ^ n \<le> v then Inl (Py OverflowError) else Inr (be_bytes n (nat v)))"

definition from_bytes :: "string \<Rightarrow> int" where
  "from_bytes bs = int (foldl (\<lambda>acc b. acc * 256 + byte_val b) 0 bs)"

definition sign_p1363 :: "('sk, 'pk) crypto \<Rightarrow> 'sk \<Rightarrow> string \<Rightarrow> string result" where
  "sign_p1363 cr sk payload =
     (if \<not> p256_private cr sk then Inl (Auth KeyMismatch)
      else let (r, s) = ecdsa_sign cr sk payload in
        case to_bytes 32 r of Inl e \<Rightarrow> Inl e
        | Inr rb \<Rightarrow> (case to_bytes 32 s of Inl e \<Rightarrow> Inl e | Inr sb \<Rightarrow> Inr (b64u (rb @ sb))))"

definition verify_p1363 :: "('sk, 'pk) crypto \<Rightarrow> 'pk \<Rightarrow> string \<Rightarrow> string \<Rightarrow> unit result" where
  "verify_p1363 cr pk signature payload =
     (if \<not> p256_public cr pk then Inl (Auth KeyMismatch)
      else case b64u_decode signature of
        Inl e \<Rightarrow> Inl (Auth SignatureInvalid)
      | Inr raw \<Rightarrow>
          if length raw \<noteq> 64 then Inl (Auth SignatureInvalid)
          else if ecdsa_verify cr pk (from_bytes (take 32 raw), from_bytes (drop 32 raw)) payload
            then Inr () else Inl (Auth SignatureInvalid))"

section \<open>Messages\<close>

definition DOMAIN_CLIENT :: string where
  "DOMAIN_CLIENT = ''veramesh-veraport-v1/session-client-auth'' @ [CHR 0x0A]"

definition DOMAIN_SERVER :: string where
  "DOMAIN_SERVER = ''veramesh-veraport-v1/session-server-accept'' @ [CHR 0x0A]"

definition VERAPORT_V1 :: string where
  "VERAPORT_V1 = ''veraport-v1''"

record server_challenge =
  sc_protocol_version :: string
  sc_workstation_principal :: string
  sc_workstation_key_id :: string
  sc_challenge :: string

record client_auth =
  ca_protocol_version :: string
  ca_controller_principal :: string
  ca_controller_key_id :: string
  ca_workstation_principal :: string
  ca_server_challenge :: string
  ca_client_nonce :: string
  ca_requested_capabilities :: "string list"
  ca_signature :: string

record server_accept =
  sa_protocol_version :: string
  sa_session_id :: string
  sa_controller_principal :: string
  sa_workstation_principal :: string
  sa_workstation_key_id :: string
  sa_server_challenge :: string
  sa_client_nonce :: string
  sa_granted_capabilities :: "string list"
  sa_expires_at_ms :: int
  sa_signature :: string

record session_binding =
  session_id :: string
  controller_principal :: string
  workstation_principal :: string
  granted_capabilities :: "string set"
  expires_at_ms :: int

definition create_challenge :: "('sk, 'pk) crypto \<Rightarrow> 'pk \<Rightarrow> string \<Rightarrow> server_challenge result" where
  "create_challenge cr pk random =
     (case principal_id cr pk ''workstation'' of Inl e \<Rightarrow> Inl e
      | Inr prin \<Rightarrow>
          (case key_id cr pk of Inl e \<Rightarrow> Inl e
           | Inr kid \<Rightarrow> Inr \<lparr>sc_protocol_version = VERAPORT_V1, sc_workstation_principal = prin,
                            sc_workstation_key_id = kid, sc_challenge = b64u random\<rparr>))"

definition client_signature_base :: "client_auth \<Rightarrow> string" where
  "client_signature_base c =
     DOMAIN_CLIENT
     @ field ''protocol_version'' (ca_protocol_version c)
     @ field ''controller_principal'' (ca_controller_principal c)
     @ field ''controller_key_id'' (ca_controller_key_id c)
     @ field ''workstation_principal'' (ca_workstation_principal c)
     @ field ''server_challenge'' (ca_server_challenge c)
     @ field ''client_nonce'' (ca_client_nonce c)
     @ field ''requested_capabilities'' (capabilities_text (ca_requested_capabilities c))"

definition server_signature_base :: "server_accept \<Rightarrow> string" where
  "server_signature_base a =
     DOMAIN_SERVER
     @ field ''protocol_version'' (sa_protocol_version a)
     @ field ''session_id'' (sa_session_id a)
     @ field ''controller_principal'' (sa_controller_principal a)
     @ field ''workstation_principal'' (sa_workstation_principal a)
     @ field ''workstation_key_id'' (sa_workstation_key_id a)
     @ field ''server_challenge'' (sa_server_challenge a)
     @ field ''client_nonce'' (sa_client_nonce a)
     @ field ''granted_capabilities'' (capabilities_text (sa_granted_capabilities a))
     @ field ''expires_at_ms'' (str_int (sa_expires_at_ms a))"

definition create_client_auth ::
  "('sk, 'pk) crypto \<Rightarrow> 'sk \<Rightarrow> string \<Rightarrow> string \<Rightarrow> string list \<Rightarrow> string \<Rightarrow> client_auth result" where
  "create_client_auth cr sk workstation challenge requested nonce =
     (if \<not> p256_private cr sk then Inl (Auth KeyMismatch)
      else case principal_id cr (public_of cr sk) ''controller'' of Inl e \<Rightarrow> Inl e
      | Inr prin \<Rightarrow>
      (case key_id cr (public_of cr sk) of Inl e \<Rightarrow> Inl e
       | Inr kid \<Rightarrow>
         let unsigned = \<lparr>ca_protocol_version = VERAPORT_V1, ca_controller_principal = prin,
               ca_controller_key_id = kid, ca_workstation_principal = workstation,
               ca_server_challenge = challenge, ca_client_nonce = b64u nonce,
               ca_requested_capabilities = sorted_list_of_set (set requested), ca_signature = []\<rparr> in
         (case sign_p1363 cr sk (client_signature_base unsigned) of Inl e \<Rightarrow> Inl e
          | Inr sig \<Rightarrow> Inr (unsigned\<lparr>ca_signature := sig\<rparr>))))"

section \<open>The workstation\<close>

record ('sk, 'pk) authenticator =
  workstation_private_key :: 'sk
  auth_workstation_principal :: string
  auth_workstation_key_id :: string
  allowed_controllers :: "(string \<times> 'pk) list"
  capability_policy :: "(string \<times> string set) list"

definition WorkstationAuthenticator ::
  "('sk, 'pk) crypto \<Rightarrow> 'sk \<Rightarrow> (string \<times> 'pk) list \<Rightarrow> (string \<times> string set) list
   \<Rightarrow> ('sk, 'pk) authenticator result" where
  "WorkstationAuthenticator cr sk allowed policy =
     (case principal_id cr (public_of cr sk) ''workstation'' of Inl e \<Rightarrow> Inl e
      | Inr prin \<Rightarrow>
          (case key_id cr (public_of cr sk) of Inl e \<Rightarrow> Inl e
           | Inr kid \<Rightarrow> Inr \<lparr>workstation_private_key = sk, auth_workstation_principal = prin,
               auth_workstation_key_id = kid, allowed_controllers = allowed,
               capability_policy = policy\<rparr>))"

definition nonces_ok :: "string \<Rightarrow> string \<Rightarrow> unit result" where
  "nonces_ok challenge nonce =
     (case b64u_decode challenge of Inl e \<Rightarrow> Inl e
      | Inr c \<Rightarrow> if length c \<noteq> 32 then Inl (Auth ChallengeMismatch)
          else (case b64u_decode nonce of Inl e \<Rightarrow> Inl e
            | Inr n \<Rightarrow> if length n \<noteq> 32 then Inl (Auth ChallengeMismatch) else Inr ()))"

text \<open>The checks of \<^verbatim>\<open>accept\<close> up to the signature, which return the controller's public key.\<close>

definition accept_checks ::
  "('sk, 'pk) crypto \<Rightarrow> ('sk, 'pk) authenticator \<Rightarrow> server_challenge \<Rightarrow> client_auth \<Rightarrow> unit result"
  where
  "accept_checks cr au ch cl =
     (if sc_protocol_version ch \<noteq> VERAPORT_V1 \<or> ca_protocol_version cl \<noteq> VERAPORT_V1
      then Inl (Auth SessionAuthError)
      else case nonces_ok (sc_challenge ch) (ca_client_nonce cl) of Inl e \<Rightarrow> Inl e
      | Inr _ \<Rightarrow>
      if sc_workstation_principal ch \<noteq> auth_workstation_principal au
      then Inl (Auth PrincipalMismatch)
      else if sc_workstation_key_id ch \<noteq> auth_workstation_key_id au then Inl (Auth KeyMismatch)
      else if ca_workstation_principal cl \<noteq> auth_workstation_principal au
      then Inl (Auth PrincipalMismatch)
      else if ca_server_challenge cl \<noteq> sc_challenge ch then Inl (Auth ChallengeMismatch)
      else case map_of (allowed_controllers au) (ca_controller_principal cl) of
        None \<Rightarrow> Inl (Auth PrincipalMismatch)
      | Some public \<Rightarrow>
      (case key_id cr public of Inl e \<Rightarrow> Inl e
       | Inr kid \<Rightarrow> if kid \<noteq> ca_controller_key_id cl then Inl (Auth KeyMismatch)
      else case principal_id cr public ''controller'' of Inl e \<Rightarrow> Inl e
       | Inr prin \<Rightarrow> if prin \<noteq> ca_controller_principal cl then Inl (Auth PrincipalMismatch)
      else verify_p1363 cr public (ca_signature cl) (client_signature_base cl)))"

definition accept ::
  "('sk, 'pk) crypto \<Rightarrow> ('sk, 'pk) authenticator \<Rightarrow> server_challenge \<Rightarrow> client_auth \<Rightarrow> int \<Rightarrow> int
   \<Rightarrow> string \<Rightarrow> (server_accept \<times> session_binding) result" where
  "accept cr au ch cl now ttl random =
     (case accept_checks cr au ch cl of Inl e \<Rightarrow> Inl e
      | Inr _ \<Rightarrow>
      let ceiling = dict_get (capability_policy au) (ca_controller_principal cl) {};
          requested = set (ca_requested_capabilities cl) in
      if \<not> requested \<subseteq> ceiling then Inl (Auth CapabilityEscalation)
      else if ttl \<le> 0 then Inl (Py ValueError)
      else
        let unsigned = \<lparr>sa_protocol_version = VERAPORT_V1, sa_session_id = b64u random,
              sa_controller_principal = ca_controller_principal cl,
              sa_workstation_principal = auth_workstation_principal au,
              sa_workstation_key_id = auth_workstation_key_id au,
              sa_server_challenge = sc_challenge ch, sa_client_nonce = ca_client_nonce cl,
              sa_granted_capabilities = sorted_list_of_set requested,
              sa_expires_at_ms = now + ttl, sa_signature = []\<rparr> in
        (case sign_p1363 cr (workstation_private_key au) (server_signature_base unsigned) of
           Inl e \<Rightarrow> Inl e
         | Inr sig \<Rightarrow>
             Inr (unsigned\<lparr>sa_signature := sig\<rparr>,
                  \<lparr>session_id = b64u random, controller_principal = ca_controller_principal cl,
                   workstation_principal = auth_workstation_principal au,
                   granted_capabilities = requested, expires_at_ms = now + ttl\<rparr>)))"

section \<open>The controller\<close>

definition verify_server_accept ::
  "('sk, 'pk) crypto \<Rightarrow> server_challenge \<Rightarrow> client_auth \<Rightarrow> server_accept \<Rightarrow> 'pk \<Rightarrow> int
   \<Rightarrow> session_binding result" where
  "verify_server_accept cr ch cl ac pk now =
     (if sc_protocol_version ch \<noteq> VERAPORT_V1 \<or> ca_protocol_version cl \<noteq> VERAPORT_V1
         \<or> sa_protocol_version ac \<noteq> VERAPORT_V1
      then Inl (Auth SessionAuthError)
      else case nonces_ok (sc_challenge ch) (ca_client_nonce cl) of Inl e \<Rightarrow> Inl e
      | Inr _ \<Rightarrow>
      (case principal_id cr pk ''workstation'' of Inl e \<Rightarrow> Inl e
       | Inr expected \<Rightarrow>
      if sa_workstation_principal ac \<noteq> expected then Inl (Auth PrincipalMismatch)
      else case key_id cr pk of Inl e \<Rightarrow> Inl e
       | Inr kid \<Rightarrow>
      if sa_workstation_key_id ac \<noteq> kid then Inl (Auth KeyMismatch)
      else if sa_controller_principal ac \<noteq> ca_controller_principal cl
      then Inl (Auth PrincipalMismatch)
      else if sa_server_challenge ac \<noteq> sc_challenge ch \<or> sa_client_nonce ac \<noteq> ca_client_nonce cl
      then Inl (Auth ChallengeMismatch)
      else if \<not> set (sa_granted_capabilities ac) \<subseteq> set (ca_requested_capabilities cl)
      then Inl (Auth CapabilityEscalation)
      else if now \<ge> sa_expires_at_ms ac then Inl (Auth SessionAuthError)
      else case verify_p1363 cr pk (sa_signature ac) (server_signature_base ac) of
        Inl e \<Rightarrow> Inl e
      | Inr _ \<Rightarrow>
          Inr \<lparr>session_id = sa_session_id ac, controller_principal = sa_controller_principal ac,
               workstation_principal = sa_workstation_principal ac,
               granted_capabilities = set (sa_granted_capabilities ac),
               expires_at_ms = sa_expires_at_ms ac\<rparr>))"

section \<open>Encodings can be read back\<close>

lemma b64_char_facts:
  assumes "n < 64"
  shows "b64_value (b64_char n) = Some n \<and> b64_char n \<noteq> CHR ''='' \<and> byte_val (b64_char n) < 128"
proof -
  have "\<forall>(n, c) \<in> set (enumerate 0 b64_alphabet). b64_value c = Some n \<and> c \<noteq> CHR ''='' \<and> byte_val c < 128"
    unfolding b64_alphabet_def by (simp add: b64_value_def byte_val_def)
  moreover have len: "length b64_alphabet = 64" by (simp add: b64_alphabet_def)
  moreover have "(n, b64_char n) \<in> set (enumerate 0 b64_alphabet)"
    using assms len by (simp add: in_set_enumerate_eq b64_char_def)
  ultimately show ?thesis by blast
qed

lemma b64_sextets_lt: "n \<in> set (b64_sextets bs) \<Longrightarrow> n < 64"
proof (induction bs rule: b64_sextets.induct)
  case (2 a)
  then show ?case using byte_val_lt [of a] by auto
next
  case (3 a b)
  then show ?case using byte_val_lt [of a] byte_val_lt [of b] by auto
next
  case (4 a b c r)
  then show ?case using byte_val_lt [of a] byte_val_lt [of b] byte_val_lt [of c] by auto
qed simp

lemma a2b_char:
  "n < 64 \<Longrightarrow> a2b q l p (b64_char n # cs) =
     (if q = 0 then a2b 1 n 0 cs
      else if q = 1 then map_sum id (Cons (byte_of (l * 4 + n div 16))) (a2b 2 (n mod 16) 0 cs)
      else if q = 2 then map_sum id (Cons (byte_of (l * 16 + n div 4))) (a2b 3 (n mod 4) 0 cs)
      else map_sum id (Cons (byte_of (l * 64 + n))) (a2b 0 0 0 cs))"
  using b64_char_facts [of n] by simp

lemma a2b_pad:
  "2 \<le> q \<Longrightarrow> a2b q l p (CHR ''='' # cs) = (if 4 \<le> q + Suc p then Inr [] else a2b q l (Suc p) cs)"
  "a2b 0 l p [] = Inr []"
  by simp_all

declare a2b.simps [simp del]

lemma b64_split:
  assumes "(a::nat) < 256" "b < 256" "c < 256"
  shows "(a div 4) * 4 + ((a mod 4) * 16 + b div 16) div 16 = a"
    and "(((a mod 4) * 16 + b div 16) mod 16) * 16 + ((b mod 16) * 4 + c div 64) div 4 = b"
    and "((b mod 16) * 4 + c div 64) mod 4 * 64 + c mod 64 = c"
    and "(a div 4) * 4 + ((a mod 4) * 16) div 16 = a"
    and "(((a mod 4) * 16 + b div 16) mod 16) * 16 + ((b mod 16) * 4) div 4 = b"
proof -
  have d: "(x div y) * y + x mod y = x" for x y :: nat by simp
  have m: "b div 16 < 16" "c div 64 < 4" using assms by auto
  have e1: "((a mod 4) * 16 + b div 16) div 16 = a mod 4" using m by simp
  have e2: "((a mod 4) * 16 + b div 16) mod 16 = b div 16" using m by simp
  have e3: "((b mod 16) * 4 + c div 64) div 4 = b mod 16" using m by simp
  have e4: "((b mod 16) * 4 + c div 64) mod 4 = c div 64" using m by simp
  show "(a div 4) * 4 + ((a mod 4) * 16 + b div 16) div 16 = a" unfolding e1 by (rule d)
  show "(((a mod 4) * 16 + b div 16) mod 16) * 16 + ((b mod 16) * 4 + c div 64) div 4 = b"
    unfolding e2 e3 by (rule d)
  show "((b mod 16) * 4 + c div 64) mod 4 * 64 + c mod 64 = c" unfolding e4 by (rule d)
  show "(a div 4) * 4 + ((a mod 4) * 16) div 16 = a" by simp
  show "(((a mod 4) * 16 + b div 16) mod 16) * 16 + ((b mod 16) * 4) div 4 = b"
    unfolding e2 by simp
qed

definition b64_pad :: "string \<Rightarrow> string" where
  "b64_pad s = replicate ((4 - length s mod 4) mod 4) (CHR ''='')"

lemma b64_pad_step: "b64_pad (w # x # y # z # s) = b64_pad s"
  by (simp add: b64_pad_def)

lemma b64_pad_tail: "length s = 2 \<Longrightarrow> b64_pad s = ''==''" "length s = 3 \<Longrightarrow> b64_pad s = ''=''"
  by (simp_all add: b64_pad_def numeral_2_eq_2)

lemma a2b_b64u: "a2b 0 0 0 (b64u bs @ b64_pad (b64u bs)) = Inr bs"
proof (induction bs rule: b64_sextets.induct)
  case 1
  then show ?case by (simp add: b64u_def b64_pad_def a2b_pad)
next
  case (2 a)
  have lt: "byte_val a div 4 < 64" "byte_val a mod 4 * 16 < 64" using byte_val_lt [of a] by auto
  have "b64_pad (b64u [a]) = ''==''" by (rule b64_pad_tail(1)) (simp add: b64u_def)
  then show ?case by (simp add: b64u_def a2b_char a2b_pad lt b64_split(4))
next
  case (3 a b)
  have lt: "byte_val a div 4 < 64" "byte_val a mod 4 * 16 + byte_val b div 16 < 64"
    "byte_val b mod 16 * 4 < 64" using byte_val_lt [of a] byte_val_lt [of b] by auto
  have "b64_pad (b64u [a, b]) = ''=''" by (rule b64_pad_tail(2)) (simp add: b64u_def)
  then show ?case
    using b64_split(1,5) [OF byte_val_lt [of a] byte_val_lt [of b] byte_val_lt [of b]]
    by (simp add: b64u_def a2b_char a2b_pad lt)
next
  case (4 a b c r)
  have lt: "byte_val a div 4 < 64" "byte_val a mod 4 * 16 + byte_val b div 16 < 64"
    "byte_val b mod 16 * 4 + byte_val c div 64 < 64" "byte_val c mod 64 < 64"
    using byte_val_lt [of a] byte_val_lt [of b] byte_val_lt [of c] by auto
  note sp = b64_split(1,2,3) [OF byte_val_lt [of a] byte_val_lt [of b] byte_val_lt [of c]]
  from 4 show ?case
    using sp by (simp add: b64u_def a2b_char a2b_pad lt b64_pad_step)
qed

lemma b64u_roundtrip [simp]: "b64u_decode (b64u bs) = Inr bs"
proof -
  have "\<not> (\<exists>c \<in> set (b64u bs). 128 \<le> byte_val c)"
    using b64_char_facts b64_sextets_lt [of _ bs] by (fastforce simp: b64u_def)
  then show ?thesis using a2b_b64u [of bs] by (simp add: b64u_decode_def b64_pad_def Let_def)
qed

lemma be_bytes_length [simp]: "length (be_bytes n v) = n"
  by (induction n arbitrary: v) auto

lemma be_bytes_value:
  "v < 256 ^ n \<Longrightarrow> foldl (\<lambda>acc b. acc * 256 + byte_val b) 0 (be_bytes n v) = v"
proof (induction n arbitrary: v)
  case (Suc n)
  have "v div 256 < 256 ^ n" using Suc.prems by (simp add: less_mult_imp_div_less mult.commute)
  moreover have "byte_val (byte_of (v mod 256)) = v mod 256"
    by (simp add: byte_val_def byte_of_def)
  ultimately show ?case using Suc.IH by simp
qed simp

lemma to_bytes_roundtrip:
  assumes "to_bytes n v = Inr bs"
  shows "from_bytes bs = v \<and> length bs = n"
proof -
  have "0 \<le> v" "v < 256 ^ n" "bs = be_bytes n (nat v)"
    using assms by (auto simp: to_bytes_def split: if_splits)
  moreover then have "nat v < 256 ^ n" by (simp add: nat_less_iff)
  ultimately show ?thesis by (simp add: from_bytes_def be_bytes_value)
qed

lemma verify_signed:
  assumes "sign_p1363 cr sk m = Inr sig" "p256_public cr pk"
  shows "verify_p1363 cr pk sig m = Inr () \<longleftrightarrow> ecdsa_verify cr pk (ecdsa_sign cr sk m) m"
proof -
  obtain r s rb sb where e: "ecdsa_sign cr sk m = (r, s)" "to_bytes 32 r = Inr rb"
      "to_bytes 32 s = Inr sb" "sig = b64u (rb @ sb)"
    using assms(1) by (auto simp: sign_p1363_def Let_def split: if_splits prod.splits sum.splits)
  then show ?thesis
    using assms(2) to_bytes_roundtrip [OF e(2)] to_bytes_roundtrip [OF e(3)]
    by (simp add: verify_p1363_def)
qed

section \<open>Signed texts determine the message\<close>

lemma field_inj: "field nm v @ r = field nm w @ r' \<longleftrightarrow> v = w \<and> r = r'"
proof
  assume "field nm v @ r = field nm w @ r'"
  then have e: "digits (length v) @ CHR '':'' # (v @ CHR 0x0A # r)
      = digits (length w) @ CHR '':'' # (w @ CHR 0x0A # r')"
    by (simp add: field_def)
  have "split1 (CHR '':'') (digits (length v) @ CHR '':'' # (v @ CHR 0x0A # r))
      = Some (digits (length v), v @ CHR 0x0A # r)" for v r
    using digits_no_sign(1) by (simp add: split1_Some_iff)
  then have "digits (length v) = digits (length w)" "v @ CHR 0x0A # r = w @ CHR 0x0A # r'"
    using e by (metis option.inject prod.inject)+
  then show "v = w \<and> r = r'" using digits_inj by auto
qed simp

lemma field_end_inj: "field nm v = field nm w \<longleftrightarrow> v = w"
  using field_inj [of nm v "[]" w "[]"] by simp

text \<open>A set of capability names without commas is recovered from its text.\<close>

definition plain_name :: "string \<Rightarrow> bool" where
  "plain_name s \<longleftrightarrow> s \<noteq> [] \<and> CHR '','' \<notin> set s"

lemma join_comma_inj:
  "\<lbrakk>\<forall>x \<in> set xs. plain_name x; \<forall>y \<in> set ys. plain_name y; join '','' xs = join '','' ys\<rbrakk> \<Longrightarrow> xs = ys"
proof (induction xs arbitrary: ys rule: remdups_adj.induct)
  case 1
  then show ?case by (cases ys rule: remdups_adj.cases) (auto simp: plain_name_def)
next
  case (2 x)
  then show ?case by (cases ys rule: remdups_adj.cases) (auto simp: plain_name_def)
next
  case (3 x x' xs)
  from 3(3-) obtain y y' ys' where ys: "ys = y # y' # ys'"
    by (cases ys rule: remdups_adj.cases) (auto simp: plain_name_def)
  have nc: "CHR '','' \<notin> set x" "CHR '','' \<notin> set y" using 3(3,4) ys by (auto simp: plain_name_def)
  have "split1 (CHR '','') (join '','' (x # x' # xs)) = Some (x, join '','' (x' # xs))"
    "split1 (CHR '','') (join '','' ys) = Some (y, join '','' (y' # ys'))"
    using nc ys by (auto simp: split1_Some_iff)
  then have "x = y" "join '','' (x' # xs) = join '','' (y' # ys')" using 3(5) by auto
  then show ?case using 3(2) [of "y' # ys'"] 3(1) [of "y' # ys'"] 3(3,4) ys by auto
qed

lemma capabilities_text_inj:
  assumes "\<forall>x \<in> set xs. plain_name x" "\<forall>y \<in> set ys. plain_name y"
    and "capabilities_text xs = capabilities_text ys"
  shows "set xs = set ys"
proof -
  have "sorted_list_of_set (set xs) = sorted_list_of_set (set ys)"
    using assms by (intro join_comma_inj) (auto simp: capabilities_text_def)
  then show ?thesis by (metis List.finite_set set_sorted_list_of_set)
qed

lemma client_base_inj:
  "client_signature_base c = client_signature_base d \<longleftrightarrow>
     ca_protocol_version c = ca_protocol_version d
     \<and> ca_controller_principal c = ca_controller_principal d
     \<and> ca_controller_key_id c = ca_controller_key_id d
     \<and> ca_workstation_principal c = ca_workstation_principal d
     \<and> ca_server_challenge c = ca_server_challenge d \<and> ca_client_nonce c = ca_client_nonce d
     \<and> capabilities_text (ca_requested_capabilities c) = capabilities_text (ca_requested_capabilities d)"
  by (simp add: client_signature_base_def field_inj field_end_inj)

lemma server_base_inj:
  "server_signature_base a = server_signature_base b \<longleftrightarrow>
     sa_protocol_version a = sa_protocol_version b \<and> sa_session_id a = sa_session_id b
     \<and> sa_controller_principal a = sa_controller_principal b
     \<and> sa_workstation_principal a = sa_workstation_principal b
     \<and> sa_workstation_key_id a = sa_workstation_key_id b
     \<and> sa_server_challenge a = sa_server_challenge b \<and> sa_client_nonce a = sa_client_nonce b
     \<and> capabilities_text (sa_granted_capabilities a) = capabilities_text (sa_granted_capabilities b)
     \<and> sa_expires_at_ms a = sa_expires_at_ms b"
  by (auto simp: server_signature_base_def field_inj field_end_inj dest: str_int_inj)

lemma bases_separate: "client_signature_base c \<noteq> server_signature_base a"
proof
  assume "client_signature_base c = server_signature_base a"
  then have "take 30 (client_signature_base c) = take 30 (server_signature_base a)" by simp
  then show False
    by (simp add: client_signature_base_def server_signature_base_def DOMAIN_CLIENT_def DOMAIN_SERVER_def)
qed

section \<open>What an accepted handshake guarantees\<close>

lemma accept_checksD:
  assumes "accept_checks cr au ch cl = Inr u"
  shows "\<exists>pk. map_of (allowed_controllers au) (ca_controller_principal cl) = Some pk
    \<and> p256_public cr pk \<and> ca_controller_key_id cl = spki_sha256_hex cr pk
    \<and> ca_controller_principal cl = ''controller:'' @ spki_sha256_hex cr pk
    \<and> ca_server_challenge cl = sc_challenge ch
    \<and> ca_workstation_principal cl = auth_workstation_principal au
    \<and> verify_p1363 cr pk (ca_signature cl) (client_signature_base cl) = Inr ()"
  using assms
  by (auto simp: accept_checks_def key_id_def principal_id_def
      split: if_splits sum.splits option.splits)

lemma verify_p1363D:
  "verify_p1363 cr pk sig m = Inr u \<Longrightarrow> \<exists>rs. ecdsa_verify cr pk rs m"
  by (auto simp: verify_p1363_def split: if_splits sum.splits)

lemma acceptD:
  assumes "accept cr au ch cl now ttl random = Inr (ac, b)"
  shows "accept_checks cr au ch cl = Inr ()"
    and "set (ca_requested_capabilities cl)
           \<subseteq> dict_get (capability_policy au) (ca_controller_principal cl) {}"
    and "b = \<lparr>session_id = b64u random, controller_principal = ca_controller_principal cl,
           workstation_principal = auth_workstation_principal au,
           granted_capabilities = set (ca_requested_capabilities cl), expires_at_ms = now + ttl\<rparr>"
    and "0 < ttl"
  using assms by (auto simp: accept_def Let_def split: if_splits sum.splits)

lemma verify_server_acceptD:
  assumes "verify_server_accept cr ch cl ac pk now = Inr b"
  shows "verify_p1363 cr pk (sa_signature ac) (server_signature_base ac) = Inr ()"
    and "sa_server_challenge ac = sc_challenge ch" "sa_client_nonce ac = ca_client_nonce cl"
    and "sa_controller_principal ac = ca_controller_principal cl"
    and "set (sa_granted_capabilities ac) \<subseteq> set (ca_requested_capabilities cl)"
    and "now < sa_expires_at_ms ac"
    and "b = \<lparr>session_id = sa_session_id ac, controller_principal = sa_controller_principal ac,
               workstation_principal = sa_workstation_principal ac,
               granted_capabilities = set (sa_granted_capabilities ac),
               expires_at_ms = sa_expires_at_ms ac\<rparr>"
  using assms by (auto simp: verify_server_accept_def split: if_splits sum.splits)

text \<open>What the program needs of a key pair: signatures fit in 32 byte halves and verify.\<close>

definition key_pair_ok :: "('sk, 'pk) crypto \<Rightarrow> 'sk \<Rightarrow> bool" where
  "key_pair_ok cr sk \<longleftrightarrow> p256_private cr sk \<and> p256_public cr (public_of cr sk)
     \<and> (\<forall>m. ecdsa_verify cr (public_of cr sk) (ecdsa_sign cr sk m) m
          \<and> 0 \<le> fst (ecdsa_sign cr sk m) \<and> fst (ecdsa_sign cr sk m) < 256 ^ 32
          \<and> 0 \<le> snd (ecdsa_sign cr sk m) \<and> snd (ecdsa_sign cr sk m) < 256 ^ 32)"

lemma key_pair_signs:
  assumes "key_pair_ok cr sk"
  obtains sig where "sign_p1363 cr sk m = Inr sig" "verify_p1363 cr (public_of cr sk) sig m = Inr ()"
proof -
  obtain r s where rs: "ecdsa_sign cr sk m = (r, s)" by fastforce
  have ok: "p256_private cr sk" "p256_public cr (public_of cr sk)"
      "ecdsa_verify cr (public_of cr sk) (ecdsa_sign cr sk m) m"
      "0 \<le> fst (ecdsa_sign cr sk m)" "fst (ecdsa_sign cr sk m) < 256 ^ 32"
      "0 \<le> snd (ecdsa_sign cr sk m)" "snd (ecdsa_sign cr sk m) < 256 ^ 32"
    using assms unfolding key_pair_ok_def by blast+
  then have "sign_p1363 cr sk m = Inr (b64u (be_bytes 32 (nat r) @ be_bytes 32 (nat s)))"
    unfolding sign_p1363_def to_bytes_def rs by simp
  with ok verify_signed [OF this, of "public_of cr sk"] that show thesis by blast
qed

lemma client_base_signature [simp]:
  "client_signature_base (c\<lparr>ca_signature := s\<rparr>) = client_signature_base c"
  by (simp add: client_signature_base_def)

lemma server_base_signature [simp]:
  "server_signature_base (a\<lparr>sa_signature := s\<rparr>) = server_signature_base a"
  by (simp add: server_signature_base_def)

lemma key_pair_public: "key_pair_ok cr sk \<Longrightarrow> p256_private cr sk \<and> p256_public cr (public_of cr sk)"
  by (simp add: key_pair_ok_def)

text \<open>
  An honest handshake succeeds and both ends agree: with an enrolled controller whose policy
  covers the requested capabilities, fresh 32-byte nonces and a positive lifetime, the workstation
  accepts the controller's message, the controller verifies the answer before it expires, and
  both hold the same session, with exactly the requested capabilities.
\<close>

theorem handshake_agreement:
  assumes keys: "key_pair_ok cr wsk" "key_pair_ok cr csk"
    and enrolled: "map_of allowed (''controller:'' @ spki_sha256_hex cr (public_of cr csk))
                     = Some (public_of cr csk)"
    and covered: "set requested
      \<subseteq> dict_get policy (''controller:'' @ spki_sha256_hex cr (public_of cr csk)) {}"
    and nonces: "length rnd = 32" "length nonce = 32"
    and times: "0 < ttl" "now' < now + ttl"
  shows "\<exists>au ch cl ac b.
    WorkstationAuthenticator cr wsk allowed policy = Inr au
    \<and> create_challenge cr (public_of cr wsk) rnd = Inr ch
    \<and> create_client_auth cr csk (sc_workstation_principal ch) (sc_challenge ch) requested nonce = Inr cl
    \<and> accept cr au ch cl now ttl sid = Inr (ac, b)
    \<and> verify_server_accept cr ch cl ac (public_of cr wsk) now' = Inr b
    \<and> granted_capabilities b = set requested \<and> session_id b = b64u sid
    \<and> expires_at_ms b = now + ttl
    \<and> controller_principal b = ''controller:'' @ spki_sha256_hex cr (public_of cr csk)
    \<and> workstation_principal b = ''workstation:'' @ spki_sha256_hex cr (public_of cr wsk)"
proof -
  let ?wk = "spki_sha256_hex cr (public_of cr wsk)" and ?ck = "spki_sha256_hex cr (public_of cr csk)"
  note pub = key_pair_public [OF keys(1)] key_pair_public [OF keys(2)]
  define au where "au = \<lparr>workstation_private_key = wsk, auth_workstation_principal = ''workstation:'' @ ?wk,
    auth_workstation_key_id = ?wk, allowed_controllers = allowed, capability_policy = policy\<rparr>"
  define ch where "ch = \<lparr>sc_protocol_version = VERAPORT_V1, sc_workstation_principal = ''workstation:'' @ ?wk,
    sc_workstation_key_id = ?wk, sc_challenge = b64u rnd\<rparr>"
  define un where "un = \<lparr>ca_protocol_version = VERAPORT_V1, ca_controller_principal = ''controller:'' @ ?ck,
    ca_controller_key_id = ?ck, ca_workstation_principal = ''workstation:'' @ ?wk,
    ca_server_challenge = b64u rnd, ca_client_nonce = b64u nonce,
    ca_requested_capabilities = sorted_list_of_set (set requested), ca_signature = []\<rparr>"
  define us where "us = \<lparr>sa_protocol_version = VERAPORT_V1, sa_session_id = b64u sid,
    sa_controller_principal = ''controller:'' @ ?ck, sa_workstation_principal = ''workstation:'' @ ?wk,
    sa_workstation_key_id = ?wk, sa_server_challenge = b64u rnd, sa_client_nonce = b64u nonce,
    sa_granted_capabilities = sorted_list_of_set (set requested), sa_expires_at_ms = now + ttl,
    sa_signature = []\<rparr>"
  obtain cs where cs: "sign_p1363 cr csk (client_signature_base un) = Inr cs"
      "verify_p1363 cr (public_of cr csk) cs (client_signature_base un) = Inr ()"
    using key_pair_signs [OF keys(2)] .
  obtain ss where ss: "sign_p1363 cr wsk (server_signature_base us) = Inr ss"
      "verify_p1363 cr (public_of cr wsk) ss (server_signature_base us) = Inr ()"
    using key_pair_signs [OF keys(1)] .
  define cl where "cl = un\<lparr>ca_signature := cs\<rparr>"
  have un: "ca_protocol_version un = VERAPORT_V1" "ca_controller_principal un = ''controller:'' @ ?ck"
      "ca_controller_key_id un = ?ck" "ca_workstation_principal un = ''workstation:'' @ ?wk"
      "ca_server_challenge un = b64u rnd" "ca_client_nonce un = b64u nonce"
      "ca_requested_capabilities un = sorted_list_of_set (set requested)"
    by (simp_all add: un_def)
  have us: "sa_protocol_version us = VERAPORT_V1" "sa_controller_principal us = ''controller:'' @ ?ck"
      "sa_session_id us = b64u sid" "sa_workstation_principal us = ''workstation:'' @ ?wk"
      "sa_workstation_key_id us = ?wk" "sa_server_challenge us = b64u rnd"
      "sa_client_nonce us = b64u nonce" "sa_expires_at_ms us = now + ttl"
      "sa_granted_capabilities us = sorted_list_of_set (set requested)"
    by (simp_all add: us_def)
  have "WorkstationAuthenticator cr wsk allowed policy = Inr au"
    using pub by (simp add: WorkstationAuthenticator_def principal_id_def key_id_def au_def)
  moreover have "create_challenge cr (public_of cr wsk) rnd = Inr ch"
    using pub by (simp add: create_challenge_def principal_id_def key_id_def ch_def)
  moreover have "create_client_auth cr csk (sc_workstation_principal ch) (sc_challenge ch) requested nonce
      = Inr cl"
    using pub cs(1) by (simp add: create_client_auth_def principal_id_def key_id_def ch_def un_def cl_def)
  moreover have "accept_checks cr au ch cl = Inr ()"
    using pub nonces enrolled cs(2)
    by (simp add: accept_checks_def nonces_ok_def au_def ch_def cl_def principal_id_def key_id_def un)
  moreover have "accept cr au ch cl now ttl sid = Inr (us\<lparr>sa_signature := ss\<rparr>,
      \<lparr>session_id = b64u sid, controller_principal = ''controller:'' @ ?ck,
       workstation_principal = ''workstation:'' @ ?wk, granted_capabilities = set requested,
       expires_at_ms = now + ttl\<rparr>)"
    unfolding accept_def calculation(4) using covered times ss(1)
    by (simp add: au_def ch_def cl_def us_def un Let_def)
  moreover have "verify_server_accept cr ch cl (us\<lparr>sa_signature := ss\<rparr>) (public_of cr wsk) now' =
      Inr \<lparr>session_id = b64u sid, controller_principal = ''controller:'' @ ?ck,
       workstation_principal = ''workstation:'' @ ?wk, granted_capabilities = set requested,
       expires_at_ms = now + ttl\<rparr>"
    using pub nonces times ss(2)
    by (simp add: verify_server_accept_def nonces_ok_def principal_id_def key_id_def ch_def cl_def un us)
  ultimately show ?thesis by auto
qed


text \<open>
  A toy signature scheme for concrete runs: keys are numbers, every private key is its own public
  key, a signature is the pair (1, 1), and it verifies for the messages of a given set.
\<close>

definition toy_crypto :: "string set \<Rightarrow> (nat, nat) crypto" where
  "toy_crypto M = \<lparr>p256_private = (\<lambda>_. True), p256_public = (\<lambda>_. True), public_of = (\<lambda>k. k),
     spki_sha256_hex = (\<lambda>k. replicate k (CHR ''a'')), ecdsa_sign = (\<lambda>_ _. (1, 1)),
     ecdsa_verify = (\<lambda>_ sg m. sg = (1, 1) \<and> m \<in> M)\<rparr>"

lemma handshake_agreement_witness:
  "\<exists>au ch cl ac b.
    WorkstationAuthenticator (toy_crypto UNIV) 1 [(''controller:aa'', 2)] [(''controller:aa'', {''fs.read''})]
      = Inr au
    \<and> create_challenge (toy_crypto UNIV) (public_of (toy_crypto UNIV) 1) (replicate 32 (CHR ''r'')) = Inr ch
    \<and> create_client_auth (toy_crypto UNIV) 2 (sc_workstation_principal ch) (sc_challenge ch) [''fs.read'']
        (replicate 32 (CHR ''n'')) = Inr cl
    \<and> accept (toy_crypto UNIV) au ch cl 100 50 ''sid'' = Inr (ac, b)
    \<and> verify_server_accept (toy_crypto UNIV) ch cl ac (public_of (toy_crypto UNIV) 1) 120 = Inr b
    \<and> granted_capabilities b = set [''fs.read''] \<and> session_id b = b64u ''sid''
    \<and> expires_at_ms b = 100 + 50
    \<and> controller_principal b = ''controller:'' @ spki_sha256_hex (toy_crypto UNIV) (public_of (toy_crypto UNIV) 2)
    \<and> workstation_principal b = ''workstation:'' @ spki_sha256_hex (toy_crypto UNIV) (public_of (toy_crypto UNIV) 1)"
  by (rule handshake_agreement)
    (simp_all add: key_pair_ok_def toy_crypto_def dict_get_def numeral_2_eq_2)

text \<open>
  (C8) What the workstation accepts is what the enrolled key holder asked for. Suppose signatures
  of the enrolled key verify only on texts in a set \<open>signed\<close>, and the holder of the key puts
  there only the texts of its own requests and, at worst, texts of server answers. Then an
  accepted message was requested by that holder for this very challenge and this workstation with the
  same nonce; the granted capabilities are within the local policy and, when capability names hold
  no comma, are the capabilities requested.
\<close>

theorem accepted_client_is_authentic:
  assumes acc: "accept cr au ch cl now ttl random = Inr (ac, b)"
    and unforgeable: "\<And>pk rs m. map_of (allowed_controllers au) (ca_controller_principal cl) = Some pk \<Longrightarrow>
      ecdsa_verify cr pk rs m \<Longrightarrow> m \<in> signed"
    and usage: "signed \<subseteq> client_signature_base ` requests \<union> range server_signature_base"
  shows "\<exists>c \<in> requests. ca_server_challenge c = sc_challenge ch
    \<and> ca_workstation_principal c = auth_workstation_principal au
    \<and> ca_controller_principal c = controller_principal b \<and> ca_client_nonce c = ca_client_nonce cl
    \<and> granted_capabilities b \<subseteq> dict_get (capability_policy au) (controller_principal b) {}
    \<and> expires_at_ms b = now + ttl \<and> now < expires_at_ms b
    \<and> ((\<forall>x \<in> set (ca_requested_capabilities c) \<union> granted_capabilities b. plain_name x)
        \<longrightarrow> granted_capabilities b = set (ca_requested_capabilities c))"
proof -
  note a = acceptD [OF acc]
  obtain pk where pk: "map_of (allowed_controllers au) (ca_controller_principal cl) = Some pk"
      "ca_server_challenge cl = sc_challenge ch" "ca_workstation_principal cl = auth_workstation_principal au"
      "verify_p1363 cr pk (ca_signature cl) (client_signature_base cl) = Inr ()"
    using accept_checksD [OF a(1)] by auto
  then obtain rs where "ecdsa_verify cr pk rs (client_signature_base cl)"
    using verify_p1363D [OF pk(4)] by blast
  then have "client_signature_base cl \<in> signed" using unforgeable pk(1) by blast
  then obtain c where c: "c \<in> requests" "client_signature_base cl = client_signature_base c"
    using usage bases_separate by blast
  then show ?thesis
    using a pk capabilities_text_inj [of "ca_requested_capabilities cl" "ca_requested_capabilities c"]
    unfolding client_base_inj by (intro bexI [OF _ c(1)]) auto
qed

definition demo_sig :: string where
  "demo_sig = b64u (be_bytes 32 1 @ be_bytes 32 1)"

lemma toy_sign: "sign_p1363 (toy_crypto M) k m = Inr demo_sig"
  by (simp add: sign_p1363_def toy_crypto_def to_bytes_def demo_sig_def)

lemma toy_verify: "m \<in> M \<Longrightarrow> verify_p1363 (toy_crypto M) k demo_sig m = Inr ()"
  using verify_signed [OF toy_sign [of M k m], of k] by (simp add: toy_crypto_def)

lemma toy_ids:
  "key_id (toy_crypto M) k = Inr (replicate k (CHR ''a''))"
  "principal_id (toy_crypto M) k pre = Inr (pre @ '':'' @ replicate k (CHR ''a''))"
  by (simp_all add: key_id_def principal_id_def toy_crypto_def)

definition demo_request :: client_auth where
  "demo_request = \<lparr>ca_protocol_version = VERAPORT_V1, ca_controller_principal = ''controller:aa'',
     ca_controller_key_id = ''aa'', ca_workstation_principal = ''workstation:a'',
     ca_server_challenge = b64u (replicate 32 (CHR ''r'')), ca_client_nonce = b64u (replicate 32 (CHR ''n'')),
     ca_requested_capabilities = [''fs.read''],
     ca_signature = demo_sig\<rparr>"

definition demo_challenge :: server_challenge where
  "demo_challenge = \<lparr>sc_protocol_version = VERAPORT_V1, sc_workstation_principal = ''workstation:a'',
     sc_workstation_key_id = ''a'', sc_challenge = b64u (replicate 32 (CHR ''r''))\<rparr>"

definition demo_authenticator :: "(nat, nat) authenticator" where
  "demo_authenticator = \<lparr>workstation_private_key = 1, auth_workstation_principal = ''workstation:a'',
     auth_workstation_key_id = ''a'', allowed_controllers = [(''controller:aa'', 2)],
     capability_policy = [(''controller:aa'', {''fs.read''})]\<rparr>"

definition demo_answer :: server_accept where
  "demo_answer = \<lparr>sa_protocol_version = VERAPORT_V1, sa_session_id = b64u ''sid'',
     sa_controller_principal = ''controller:aa'', sa_workstation_principal = ''workstation:a'',
     sa_workstation_key_id = ''a'', sa_server_challenge = b64u (replicate 32 (CHR ''r'')),
     sa_client_nonce = b64u (replicate 32 (CHR ''n'')), sa_granted_capabilities = [''fs.read''],
     sa_expires_at_ms = 150, sa_signature = demo_sig\<rparr>"

definition demo_session :: session_binding where
  "demo_session = \<lparr>session_id = b64u ''sid'', controller_principal = ''controller:aa'',
     workstation_principal = ''workstation:a'', granted_capabilities = {''fs.read''},
     expires_at_ms = 150\<rparr>"

lemma demo_accept:
  "accept (toy_crypto {client_signature_base demo_request}) demo_authenticator demo_challenge
     demo_request 100 50 ''sid'' = Inr (demo_answer, demo_session)"
proof -
  have "ca_signature demo_request = demo_sig" by (simp add: demo_request_def)
  then have "accept_checks (toy_crypto {client_signature_base demo_request}) demo_authenticator
      demo_challenge demo_request = Inr ()"
    unfolding accept_checks_def nonces_ok_def toy_ids
    by (simp add: toy_verify)
      (simp add: demo_authenticator_def demo_challenge_def demo_request_def numeral_2_eq_2
        toy_verify)
  then show ?thesis
    by (simp add: accept_def toy_sign Let_def)
      (simp add: dict_get_def demo_authenticator_def demo_challenge_def demo_answer_def
        demo_session_def demo_request_def)
qed

lemma accepted_client_is_authentic_witness:
  "\<exists>c \<in> {demo_request}. ca_server_challenge c = sc_challenge demo_challenge
    \<and> ca_workstation_principal c = auth_workstation_principal demo_authenticator
    \<and> ca_controller_principal c = controller_principal demo_session
    \<and> ca_client_nonce c = ca_client_nonce demo_request
    \<and> granted_capabilities demo_session
        \<subseteq> dict_get (capability_policy demo_authenticator) (controller_principal demo_session) {}
    \<and> expires_at_ms demo_session = 100 + 50 \<and> 100 < expires_at_ms demo_session
    \<and> ((\<forall>x \<in> set (ca_requested_capabilities c) \<union> granted_capabilities demo_session. plain_name x)
        \<longrightarrow> granted_capabilities demo_session = set (ca_requested_capabilities c))"
  by (rule accepted_client_is_authentic [OF demo_accept, where signed = "{client_signature_base demo_request}"])
    (auto simp: toy_crypto_def)

text \<open>
  (C9) What the controller verifies is what the pinned workstation answered to it: under the same
  assumptions on the workstation's key, a verified answer was issued by the workstation for this
  challenge, this nonce and this controller, grants no capability that was not requested, has not
  expired, and carries the issued session id and expiry.
\<close>

theorem verified_answer_is_authentic:
  assumes ver: "verify_server_accept cr ch cl ac pk now = Inr b"
    and unforgeable: "\<And>rs m. ecdsa_verify cr pk rs m \<Longrightarrow> m \<in> signed"
    and usage: "signed \<subseteq> server_signature_base ` issued \<union> range client_signature_base"
  shows "\<exists>a \<in> issued. sa_server_challenge a = sc_challenge ch \<and> sa_client_nonce a = ca_client_nonce cl
    \<and> sa_controller_principal a = ca_controller_principal cl
    \<and> session_id b = sa_session_id a \<and> expires_at_ms b = sa_expires_at_ms a \<and> now < expires_at_ms b
    \<and> workstation_principal b = sa_workstation_principal a
    \<and> granted_capabilities b \<subseteq> set (ca_requested_capabilities cl)
    \<and> ((\<forall>x \<in> set (sa_granted_capabilities a) \<union> granted_capabilities b. plain_name x)
        \<longrightarrow> granted_capabilities b = set (sa_granted_capabilities a))"
proof -
  note v = verify_server_acceptD [OF ver]
  obtain rs where "ecdsa_verify cr pk rs (server_signature_base ac)" using verify_p1363D [OF v(1)] by blast
  then have "server_signature_base ac \<in> signed" using unforgeable by blast
  then obtain a where a: "a \<in> issued" "server_signature_base ac = server_signature_base a"
    using usage bases_separate [symmetric] by blast
  then show ?thesis
    using v capabilities_text_inj [of "sa_granted_capabilities ac" "sa_granted_capabilities a"]
    unfolding server_base_inj by (intro bexI [OF _ a(1)]) auto
qed

lemma demo_verify:
  "verify_server_accept (toy_crypto {server_signature_base demo_answer}) demo_challenge demo_request
     demo_answer 1 120 = Inr demo_session"
proof -
  have "sa_signature demo_answer = demo_sig" by (simp add: demo_answer_def)
  then show ?thesis
    unfolding verify_server_accept_def nonces_ok_def toy_ids
    by (simp add: toy_verify)
      (simp add: demo_challenge_def demo_request_def demo_answer_def demo_session_def toy_verify)
qed

lemma verified_answer_is_authentic_witness:
  "\<exists>a \<in> {demo_answer}. sa_server_challenge a = sc_challenge demo_challenge
    \<and> sa_client_nonce a = ca_client_nonce demo_request
    \<and> sa_controller_principal a = ca_controller_principal demo_request
    \<and> session_id demo_session = sa_session_id a \<and> expires_at_ms demo_session = sa_expires_at_ms a
    \<and> 120 < expires_at_ms demo_session \<and> workstation_principal demo_session = sa_workstation_principal a
    \<and> granted_capabilities demo_session \<subseteq> set (ca_requested_capabilities demo_request)
    \<and> ((\<forall>x \<in> set (sa_granted_capabilities a) \<union> granted_capabilities demo_session. plain_name x)
        \<longrightarrow> granted_capabilities demo_session = set (sa_granted_capabilities a))"
  by (rule verified_answer_is_authentic [OF demo_verify, where signed = "{server_signature_base demo_answer}"])
    (auto simp: toy_crypto_def)

end
