(* ===== verification/Session_Pool.thy ===== *)
theory Session_Pool
  imports Path_Select Hot_Session
begin

text \<open>
  \<^verbatim>\<open>controller.py\<close>: the pool of hot sessions of a controller. A request goes to the best current
  endpoint of its exact route and fails over to another one when the transport is lost; a mutation
  fails over only within its application session and between durably idempotent endpoints. The
  channel of an endpoint is an argument \<open>send\<close>: what awaiting its \<^verbatim>\<open>request\<close> under the timeout gives,
  a response or an exception (a lapsed timeout is \<^const>\<open>TimeoutError\<close>). The model returns the
  endpoints attempted beside the result.
\<close>

section \<open>Endpoints and the pool\<close>

definition MUTATING_OPERATIONS :: "string set" where
  "MUTATING_OPERATIONS =
     {''lane.open'', ''lane.renew'', ''lane.close'', ''fs.write_text'', ''fs.append_text'', ''fs.mkdir'',
      ''fs.move'', ''fs.replace_text'', ''process.exec'', ''process.start'', ''process.input'',
      ''process.terminate''}"

record session_endpoint =
  endpoint_id :: string
  binding :: session_binding
  path :: path_observation
  durable_idempotency :: bool

definition mk_session_endpoint :: "session_endpoint \<Rightarrow> session_endpoint result" where
  "mk_session_endpoint e =
     (if endpoint_id e = [] then Inl (Py ValueError)
      else if \<not> authenticated (path e) then Inl (Py ValueError)
      else Inr e)"

type_synonym route = "string \<times> string"
type_synonym pool = "(route \<times> (string \<times> session_endpoint) list) list"

definition route_key :: "session_binding \<Rightarrow> route" where
  "route_key b = (workstation_principal b, controller_principal b)"

definition pool_register :: "pool \<Rightarrow> session_endpoint \<Rightarrow> pool" where
  "pool_register p e =
     (let r = route_key (binding e) in
      AList.update r (AList.update (endpoint_id e) e (dict_get p r [])) p)"

definition pool_remove :: "pool \<Rightarrow> string \<Rightarrow> string \<Rightarrow> string \<Rightarrow> pool" where
  "pool_remove p ws ctl eid =
     (case map_of p (ws, ctl) of
        None \<Rightarrow> p
      | Some grp \<Rightarrow>
          let grp' = AList.delete eid grp in
          if grp' = [] then AList.delete (ws, ctl) p else AList.update (ws, ctl) grp' p)"

definition current_endpoints :: "pool \<Rightarrow> string \<Rightarrow> string \<Rightarrow> int \<Rightarrow> session_endpoint list" where
  "current_endpoints p ws ctl now =
     filter (\<lambda>e. \<not> now \<ge> expires_at_ms (binding e)
               \<and> \<not> (workstation_principal (binding e) \<noteq> ws \<or> controller_principal (binding e) \<noteq> ctl))
       (map snd (dict_get p (ws, ctl) []))"

section \<open>Requests\<close>

text \<open>The endpoints attempted are kept in order; the set \<^verbatim>\<open>attempted\<close> of the code holds their ids.\<close>

definition eligible_retry :: "string option \<Rightarrow> session_endpoint list \<Rightarrow> session_endpoint \<Rightarrow> bool" where
  "eligible_retry retry attempted e \<longleftrightarrow> endpoint_id e \<notin> endpoint_id ` set attempted
     \<and> (case retry of None \<Rightarrow> True
        | Some sid \<Rightarrow> session_id (binding e) = sid \<and> durable_idempotency e)"

definition transport_error :: "exn \<Rightarrow> bool" where
  "transport_error e \<longleftrightarrow> e = Stream StreamClosed \<or> e = Py TimeoutError"

text \<open>Every round attempts an endpoint that was not attempted before.\<close>

definition untried :: "session_endpoint list \<Rightarrow> session_endpoint list \<Rightarrow> nat" where
  "untried candidates attempted = length (filter (\<lambda>e. endpoint_id e \<notin> endpoint_id ` set attempted) candidates)"

lemma untried_decreases:
  assumes "find P (filter (eligible_retry retry attempted) candidates) = Some e"
  shows "untried candidates (attempted @ [e]) < untried candidates attempted"
proof -
  have e: "e \<in> set candidates" "endpoint_id e \<notin> endpoint_id ` set attempted"
    using assms by (auto simp: find_Some_iff eligible_retry_def dest: nth_mem)
  have "filter (\<lambda>x. endpoint_id x \<notin> endpoint_id ` set (attempted @ [e])) candidates
      = filter (\<lambda>x. endpoint_id x \<noteq> endpoint_id e)
          (filter (\<lambda>x. endpoint_id x \<notin> endpoint_id ` set attempted) candidates)"
    by (simp add: conj_commute)
  moreover have "e \<in> set (filter (\<lambda>x. endpoint_id x \<notin> endpoint_id ` set attempted) candidates)"
    using e by simp
  ultimately show ?thesis unfolding untried_def by (metis (mono_tags, lifting) length_filter_less)
qed

function request_loop ::
  "int \<Rightarrow> int \<Rightarrow> (session_endpoint \<Rightarrow> dict result) \<Rightarrow> bool \<Rightarrow> session_endpoint list
   \<Rightarrow> session_endpoint list \<Rightarrow> exn option \<Rightarrow> string option \<Rightarrow> dict result \<times> session_endpoint list" where
  "request_loop now max_age send mutating candidates attempted last_error retry =
     (let remaining = filter (eligible_retry retry attempted) candidates in
      case select_path (map path remaining) now max_age of
        Inl e \<Rightarrow> (Inl e, attempted)
      | Inr decision \<Rightarrow>
        (case selected decision of
           None \<Rightarrow> (Inl (case last_error of Some e \<Rightarrow> e | None \<Rightarrow> Routing NoCurrentPath), attempted)
         | Some s \<Rightarrow>
           (case find (\<lambda>e. path_id (path e) = path_id s) remaining of
              None \<Rightarrow> (Inl (Py RuntimeError), attempted)
            | Some endpoint \<Rightarrow>
              let attempted' = attempted @ [endpoint] in
              (case send endpoint of
                 Inr response \<Rightarrow> (Inr response, attempted')
               | Inl e \<Rightarrow>
                 if \<not> transport_error e then (Inl e, attempted')
                 else if mutating then
                   (if \<not> durable_idempotency endpoint then (Inl (Routing AmbiguousDelivery), attempted')
                    else let sid = session_id (binding endpoint) in
                      if \<not> list_ex (eligible_retry (Some sid) attempted') candidates
                      then (Inl (Routing AmbiguousDelivery), attempted')
                      else request_loop now max_age send mutating candidates attempted'
                             (Some (Stream StreamClosed)) (Some sid))
                 else request_loop now max_age send mutating candidates attempted'
                        (Some (Stream StreamClosed)) retry))))"
  by pat_completeness auto

termination
  by (relation "measure (\<lambda>(_, _, _, _, candidates, attempted, _, _). untried candidates attempted)")
    (auto dest: untried_decreases)

declare request_loop.simps [simp del]

definition pool_request ::
  "(session_endpoint \<Rightarrow> dict \<Rightarrow> dict result) \<Rightarrow> pool \<Rightarrow> string \<Rightarrow> string \<Rightarrow> dict \<Rightarrow> int \<Rightarrow> int \<Rightarrow> pyfloat
   \<Rightarrow> dict result \<times> session_endpoint list" where
  "pool_request send p ws ctl request now max_age timeout =
     (if \<not> is_nonempty_str (map_of request ''request_id'') then (Inl (Py ValueError), [])
      else if \<not> is_nonempty_str (map_of request ''operation'') then (Inl (Py ValueError), [])
      else if fle timeout (Fin 0) then (Inl (Py ValueError), [])
      else request_loop now max_age (\<lambda>e. send e request)
             (map_of request ''operation'' \<in> Some ` JStr ` MUTATING_OPERATIONS)
             (current_endpoints p ws ctl now) [] None None)"

section \<open>The loop, one round at a time\<close>

definition next_endpoint ::
  "int \<Rightarrow> int \<Rightarrow> session_endpoint list \<Rightarrow> session_endpoint list \<Rightarrow> string option \<Rightarrow> session_endpoint option" where
  "next_endpoint now max_age candidates attempted retry =
     (let remaining = filter (eligible_retry retry attempted) candidates in
      case select_value now max_age (map path remaining) of
        None \<Rightarrow> None
      | Some s \<Rightarrow> find (\<lambda>e. path_id (path e) = path_id s) remaining)"

lemma next_endpointD:
  assumes "next_endpoint now max_age candidates attempted retry = Some e"
  shows "e \<in> set candidates \<and> eligible_retry retry attempted e
     \<and> untried candidates (attempted @ [e]) < untried candidates attempted"
proof -
  obtain s :: path_observation where f: "find (\<lambda>e. path_id (path e) = path_id s) (filter (eligible_retry retry attempted) candidates)
      = Some e"
    using assms by (auto simp: next_endpoint_def Let_def split: option.splits)
  then have "e \<in> set (filter (eligible_retry retry attempted) candidates)"
    by (metis find_Some_iff nth_mem)
  then show ?thesis using untried_decreases [OF f] by simp
qed

lemma next_endpoint_None_iff:
  "next_endpoint now max_age candidates attempted retry = None \<longleftrightarrow>
     (\<forall>e \<in> set candidates. eligible_retry retry attempted e \<longrightarrow> \<not> path_usable now max_age (path e))"
  using sel.selected_owner [of now max_age path "filter (eligible_retry retry attempted) candidates"]
    sel.select_usable_iff [of now max_age "map path (filter (eligible_retry retry attempted) candidates)"]
  by (auto simp: next_endpoint_def split: option.splits)

lemma request_loop_round:
  assumes "0 \<le> now" "0 \<le> max_age"
  shows "request_loop now max_age send mutating candidates attempted last_error retry =
    (case next_endpoint now max_age candidates attempted retry of
       None \<Rightarrow> (Inl (case last_error of Some e \<Rightarrow> e | None \<Rightarrow> Routing NoCurrentPath), attempted)
     | Some e \<Rightarrow>
       (case send e of
          Inr response \<Rightarrow> (Inr response, attempted @ [e])
        | Inl x \<Rightarrow>
          if \<not> transport_error x then (Inl x, attempted @ [e])
          else if mutating \<and> (\<not> durable_idempotency e
                 \<or> \<not> list_ex (eligible_retry (Some (session_id (binding e))) (attempted @ [e])) candidates)
          then (Inl (Routing AmbiguousDelivery), attempted @ [e])
          else request_loop now max_age send mutating candidates (attempted @ [e])
                 (Some (Stream StreamClosed)) (if mutating then Some (session_id (binding e)) else retry)))"
proof -
  let ?rem = "filter (eligible_retry retry attempted) candidates"
  have "\<exists>x. find (\<lambda>y. path_id (path y) = path_id p) ?rem = Some x"
    if "select_value now max_age (map path ?rem) = Some p" for p
    using sel.selected_owner [OF that] by blast
  then show ?thesis
    by (subst request_loop.simps)
      (fastforce simp: select_path_cases [OF assms] next_endpoint_def Let_def split: option.split sum.split)
qed

text \<open>The shape of a run: what was attempted, in which order and with which outcome.\<close>

definition same_session :: "string option \<Rightarrow> session_endpoint list \<Rightarrow> bool" where
  "same_session retry es \<longleftrightarrow> (\<forall>sid. retry = Some sid \<longrightarrow>
     (\<forall>e \<in> set es. durable_idempotency e \<and> session_id (binding e) = sid))"

definition good_run ::
  "(session_endpoint \<Rightarrow> dict result) \<Rightarrow> bool \<Rightarrow> session_endpoint list \<Rightarrow> session_endpoint list
   \<Rightarrow> exn option \<Rightarrow> string option \<Rightarrow> dict result \<Rightarrow> session_endpoint list \<Rightarrow> bool" where
  "good_run send mutating candidates attempted last_error retry r es \<longleftrightarrow>
     set es \<subseteq> set candidates \<and> distinct (map endpoint_id es)
     \<and> endpoint_id ` set es \<inter> endpoint_id ` set attempted = {}
     \<and> (\<forall>e \<in> set (butlast es). \<exists>x. send e = Inl x \<and> transport_error x)
     \<and> (mutating \<longrightarrow> same_session retry es
          \<and> (2 \<le> length es \<longrightarrow> (\<exists>sid. same_session (Some sid) es)))
     \<and> (case r of
          Inr response \<Rightarrow> es \<noteq> [] \<and> send (last es) = Inr response
        | Inl x \<Rightarrow>
            if es = [] then x = (case last_error of Some e \<Rightarrow> e | None \<Rightarrow> Routing NoCurrentPath)
            else (\<exists>y. send (last es) = Inl y
                   \<and> (if transport_error y then x = Stream StreamClosed \<or> mutating \<and> x = Routing AmbiguousDelivery
                      else x = y)))"

lemma good_run_step:
  assumes "e \<in> set candidates" "eligible_retry retry attempted e"
    and "send e = Inl y" "transport_error y" "mutating \<longrightarrow> durable_idempotency e"
    and run: "good_run send mutating candidates (attempted @ [e]) (Some (Stream StreamClosed))
      (if mutating then Some (session_id (binding e)) else retry) r es"
  shows "good_run send mutating candidates attempted last_error retry r (e # es)"
proof -
  have "same_session (Some (session_id (binding e))) (e # es)" if mutating
    using that assms(5) run by (auto simp: good_run_def same_session_def)
  moreover have "same_session retry (e # es)" if mutating
    using calculation [OF that] assms(2)
    by (auto simp: same_session_def eligible_retry_def split: option.splits)
  moreover have "distinct (map endpoint_id (e # es))"
    "endpoint_id ` set (e # es) \<inter> endpoint_id ` set attempted = {}" "set (e # es) \<subseteq> set candidates"
    using run assms(1,2) by (auto simp: good_run_def eligible_retry_def)
  moreover have "\<forall>e' \<in> set (butlast (e # es)). \<exists>x. send e' = Inl x \<and> transport_error x"
    using run assms(3,4) by (auto simp: good_run_def)
  moreover have "case r of
          Inr response \<Rightarrow> send (last (e # es)) = Inr response
        | Inl x \<Rightarrow> \<exists>y. send (last (e # es)) = Inl y
             \<and> (if transport_error y then x = Stream StreamClosed \<or> mutating \<and> x = Routing AmbiguousDelivery
                else x = y)"
    using run assms(3,4) by (cases "es = []") (auto simp: good_run_def split: sum.splits)
  ultimately show ?thesis unfolding good_run_def by (auto split: sum.splits)
qed

lemma good_run_single:
  assumes "e \<in> set candidates" "eligible_retry retry attempted e"
    and "case send e of Inr response \<Rightarrow> r = Inr response
       | Inl y \<Rightarrow> r = Inl (if transport_error y then Routing AmbiguousDelivery else y)
           \<and> (transport_error y \<longrightarrow> mutating)"
  shows "good_run send mutating candidates attempted last_error retry r [e]"
  using assms
  by (auto simp: good_run_def same_session_def eligible_retry_def split: sum.splits option.splits)

lemma request_loop_good:
  assumes "0 \<le> now" "0 \<le> max_age"
  shows "\<exists>es. snd (request_loop now max_age send mutating candidates attempted last_error retry) = attempted @ es
     \<and> good_run send mutating candidates attempted last_error retry
         (fst (request_loop now max_age send mutating candidates attempted last_error retry)) es"
proof (induction "untried candidates attempted" arbitrary: attempted last_error retry rule: less_induct)
  case less
  let ?L = "request_loop now max_age send mutating candidates"
  show ?case
  proof (cases "next_endpoint now max_age candidates attempted retry")
    case None
    then show ?thesis
      by (simp add: request_loop_round [OF assms] good_run_def same_session_def split: option.splits)
  next
    case (Some e)
    note e = next_endpointD [OF Some]
    let ?retry = "if mutating then Some (session_id (binding e)) else retry"
    show ?thesis
    proof (cases "\<exists>y. send e = Inl y \<and> transport_error y \<and> \<not> (mutating \<and> (\<not> durable_idempotency e
        \<or> \<not> list_ex (eligible_retry (Some (session_id (binding e))) (attempted @ [e])) candidates))")
      case True
      then obtain y where y: "send e = Inl y" "transport_error y" "mutating \<longrightarrow> durable_idempotency e"
        and eq: "?L attempted last_error retry = ?L (attempted @ [e]) (Some (Stream StreamClosed)) ?retry"
        by (auto simp: request_loop_round [OF assms, of _ _ _ attempted] Some)
      obtain es where es: "snd (?L (attempted @ [e]) (Some (Stream StreamClosed)) ?retry) = (attempted @ [e]) @ es"
          "good_run send mutating candidates (attempted @ [e]) (Some (Stream StreamClosed)) ?retry
             (fst (?L (attempted @ [e]) (Some (Stream StreamClosed)) ?retry)) es"
        using less [of "attempted @ [e]"] e by blast
      show ?thesis
        unfolding eq using es good_run_step [OF _ _ y es(2)] e by (intro exI [of _ "e # es"]) auto
    next
      case False
      then have "snd (?L attempted last_error retry) = attempted @ [e]"
        and "case send e of Inr response \<Rightarrow> fst (?L attempted last_error retry) = Inr response
          | Inl y \<Rightarrow> fst (?L attempted last_error retry)
                = Inl (if transport_error y then Routing AmbiguousDelivery else y)
              \<and> (transport_error y \<longrightarrow> mutating)"
        by (auto simp: request_loop_round [OF assms, of _ _ _ attempted] Some split: sum.splits)
      then show ?thesis using good_run_single e by blast
    qed
  qed
qed

section \<open>The registered endpoints\<close>

inductive pool_reach :: "pool \<Rightarrow> bool" where
  pool_empty: "pool_reach []"
| pool_add: "pool_reach p \<Longrightarrow> mk_session_endpoint e = Inr e \<Longrightarrow> pool_reach (pool_register p e)"
| pool_drop: "pool_reach p \<Longrightarrow> pool_reach (pool_remove p ws ctl eid)"

definition group_inv :: "route \<Rightarrow> (string \<times> session_endpoint) list \<Rightarrow> bool" where
  "group_inv r g \<longleftrightarrow> distinct (map fst g)
     \<and> (\<forall>(k, e) \<in> set g. k = endpoint_id e \<and> route_key (binding e) = r \<and> authenticated (path e))"

definition pool_inv :: "pool \<Rightarrow> bool" where
  "pool_inv p \<longleftrightarrow> (\<forall>r g. map_of p r = Some g \<longrightarrow> group_inv r g \<and> g \<noteq> [])"

lemma group_inv_add:
  "group_inv (route_key (binding e)) g \<Longrightarrow> authenticated (path e) \<Longrightarrow>
   group_inv (route_key (binding e)) (AList.update (endpoint_id e) e g)"
  using set_update_subset [of "endpoint_id e" e g]
  by (auto simp: group_inv_def distinct_update dest!: subsetD split: prod.splits) 

lemma group_inv_drop: "group_inv r g \<Longrightarrow> group_inv r (AList.delete k g)"
  by (auto simp: group_inv_def AList.delete_eq distinct_map_filter)

lemma group_inv_ids: "group_inv r g \<Longrightarrow> map endpoint_id (map snd g) = map fst g"
  by (auto simp: group_inv_def)

lemma pool_invD: "pool_inv p \<Longrightarrow> map_of p r = Some g \<Longrightarrow> group_inv r g \<and> g \<noteq> []"
  unfolding pool_inv_def by blast

lemma pool_group_inv: "pool_inv p \<Longrightarrow> group_inv r (dict_get p r [])"
  by (cases "map_of p r") (auto simp: dict_get_def dest: pool_invD, simp add: group_inv_def)

lemma pool_reach_inv: "pool_reach p \<Longrightarrow> pool_inv p"
proof (induction rule: pool_reach.induct)
  case pool_empty
  then show ?case by (simp add: pool_inv_def)
next
  case (pool_add p e)
  have auth: "authenticated (path e)" using pool_add.hyps(2) by (auto simp: mk_session_endpoint_def split: if_splits)
  have "group_inv (route_key (binding e)) (dict_get p (route_key (binding e)) [])"
    using pool_add.IH by (rule pool_group_inv)
  then have "group_inv (route_key (binding e))
      (AList.update (endpoint_id e) e (dict_get p (route_key (binding e)) []))"
    using group_inv_add auth by blast
  then show ?case
    using pool_add.IH by (auto simp: pool_inv_def pool_register_def Let_def map_of_update update_nonempty)
next
  case (pool_drop p ws ctl eid)
  show ?case
    unfolding pool_inv_def
  proof (intro allI impI)
    fix r g
    assume g: "map_of (pool_remove p ws ctl eid) r = Some g"
    show "group_inv r g \<and> g \<noteq> []"
    proof (cases "map_of p (ws, ctl)")
      case None
      then show ?thesis using g pool_invD [OF pool_drop.IH] by (simp add: pool_remove_def)
    next
      case (Some g0)
      then have "group_inv (ws, ctl) (AList.delete eid g0)"
        using pool_invD [OF pool_drop.IH] group_inv_drop by blast
      with Some g pool_invD [OF pool_drop.IH] show ?thesis
        unfolding pool_remove_def Let_def
        by (auto simp: map_of_update map_of_delete split: if_splits)
    qed
  qed
qed

lemma current_endpoints_facts:
  assumes "pool_reach p"
  shows "distinct (map endpoint_id (current_endpoints p ws ctl now))"
    and "e \<in> set (current_endpoints p ws ctl now) \<Longrightarrow>
      route_key (binding e) = (ws, ctl) \<and> now < expires_at_ms (binding e) \<and> authenticated (path e)"
proof -
  have g: "group_inv (ws, ctl) (dict_get p (ws, ctl) [])"
    using pool_reach_inv [OF assms] by (rule pool_group_inv)
  have "distinct (map endpoint_id (map snd (dict_get p (ws, ctl) [])))"
    unfolding group_inv_ids [OF g] using g by (simp add: group_inv_def)
  then show "distinct (map endpoint_id (current_endpoints p ws ctl now))"
    unfolding current_endpoints_def by (rule distinct_map_filter)
  show "route_key (binding e) = (ws, ctl) \<and> now < expires_at_ms (binding e) \<and> authenticated (path e)"
    if cur: "e \<in> set (current_endpoints p ws ctl now)"
  proof -
    obtain k where "(k, e) \<in> set (dict_get p (ws, ctl) [])" "now < expires_at_ms (binding e)"
      using cur by (auto simp: current_endpoints_def)
    then show ?thesis using g by (auto simp: group_inv_def)
  qed
qed

lemma pool_request_loop:
  assumes "is_nonempty_str (map_of request ''request_id'')" "map_of request ''operation'' = Some (JStr opn)"
    and "opn \<noteq> []" "\<not> fle timeout (Fin 0)"
  shows "pool_request send p ws ctl request now max_age timeout =
    request_loop now max_age (\<lambda>e. send e request) (opn \<in> MUTATING_OPERATIONS)
      (current_endpoints p ws ctl now) [] None None"
proof -
  have "Some (JStr opn) \<in> Some ` JStr ` MUTATING_OPERATIONS \<longleftrightarrow> opn \<in> MUTATING_OPERATIONS" by blast
  then show ?thesis using assms by (simp add: pool_request_def is_nonempty_str_def)
qed

section \<open>Failover\<close>

text \<open>
  (C7) Failover never risks a second execution. For every pool built by registrations and removals
  and every behaviour of the channels, a request attempts each endpoint at most once, only
  unexpired endpoints of its exact route, and goes on only after the transport was lost; when a
  mutation is sent more than once, every attempt is on the same application session and every
  endpoint attempted is durably idempotent. A response is the answer of the last endpoint attempted,
  and a lost transport ends in a stream error or, for mutations only, in an ambiguous delivery.
\<close>

theorem failover_is_safe:
  assumes "pool_reach p" "0 \<le> now" "0 \<le> max_age"
    and "is_nonempty_str (map_of request ''request_id'')" "map_of request ''operation'' = Some (JStr opn)"
    and "opn \<noteq> []" "\<not> fle timeout (Fin 0)"
    and run: "pool_request send p ws ctl request now max_age timeout = (r, es)"
  shows "distinct (map endpoint_id es)
    \<and> (\<forall>e \<in> set es. route_key (binding e) = (ws, ctl) \<and> now < expires_at_ms (binding e))
    \<and> (\<forall>e \<in> set (butlast es). \<exists>x. send e request = Inl x \<and> transport_error x)
    \<and> (opn \<in> MUTATING_OPERATIONS \<and> 2 \<le> length es \<longrightarrow>
         (\<exists>sid. \<forall>e \<in> set es. session_id (binding e) = sid \<and> durable_idempotency e))
    \<and> (case r of
         Inr response \<Rightarrow> es \<noteq> [] \<and> send (last es) request = Inr response
       | Inl x \<Rightarrow> if es = [] then x = Routing NoCurrentPath
           else (\<exists>y. send (last es) request = Inl y
             \<and> (if transport_error y
                then x = Stream StreamClosed \<or> opn \<in> MUTATING_OPERATIONS \<and> x = Routing AmbiguousDelivery
                else x = y)))"
proof -
  note eq = pool_request_loop [OF assms(4-7), of send p ws ctl now max_age]
  have "good_run (\<lambda>e. send e request) (opn \<in> MUTATING_OPERATIONS) (current_endpoints p ws ctl now) [] None None r es"
    using request_loop_good [OF assms(2,3), of "\<lambda>e. send e request" "opn \<in> MUTATING_OPERATIONS"
        "current_endpoints p ws ctl now" "[]" None None] run unfolding eq by auto
  then show ?thesis
    using current_endpoints_facts(2) [OF assms(1)]
    unfolding good_run_def same_session_def by (cases r) (auto split: if_splits)
qed

lemma read_loop_answers:
  assumes "0 \<le> now" "0 \<le> max_age"
    and "\<forall>x \<in> set candidates. case send x of Inl y \<Rightarrow> transport_error y | Inr _ \<Rightarrow> True"
    and "distinct (map endpoint_id candidates)" "set attempted \<subseteq> set candidates"
    and "e \<in> set candidates" "e \<notin> set attempted" "path_usable now max_age (path e)" "send e = Inr response"
  shows "\<exists>answer. fst (request_loop now max_age send False candidates attempted last_error None) = Inr answer"
  using assms(5,7)
proof (induction "untried candidates attempted" arbitrary: attempted last_error rule: less_induct)
  case less
  have "endpoint_id e \<notin> endpoint_id ` set attempted"
    using assms(4,6) less.prems by (auto simp: distinct_map dest: inj_onD)
  then obtain x where x: "next_endpoint now max_age candidates attempted None = Some x"
    using next_endpoint_None_iff [of now max_age candidates attempted None] assms(6,8)
    by (auto simp: eligible_retry_def)
  note nx = next_endpointD [OF x]
  show ?case
  proof (cases "send x")
    case (Inl y)
    then have "x \<noteq> e" "transport_error y" using assms(3,9) nx by force+
    then show ?thesis
      using less(1) [of "attempted @ [x]"] less.prems nx Inl
      by (auto simp: request_loop_round [OF assms(1,2), of _ _ _ attempted] x)
  next
    case (Inr answer)
    then show ?thesis by (simp add: request_loop_round [OF assms(1,2)] x)
  qed
qed

text \<open>
  (C12) Reads survive transport loss: as long as one current endpoint of the route has a usable path
  and answers, a read-only request gets an answer, provided that the other endpoints only lose
  their transport.
\<close>

theorem read_failover_answers:
  assumes "pool_reach p" "0 \<le> now" "0 \<le> max_age"
    and "is_nonempty_str (map_of request ''request_id'')" "map_of request ''operation'' = Some (JStr opn)"
    and "opn \<noteq> []" "opn \<notin> MUTATING_OPERATIONS" "\<not> fle timeout (Fin 0)"
    and "\<forall>x \<in> set (current_endpoints p ws ctl now). \<forall>y. send x request = Inl y \<longrightarrow> transport_error y"
    and "e \<in> set (current_endpoints p ws ctl now)" "path_usable now max_age (path e)"
    and "send e request = Inr response"
  shows "\<exists>answer es. pool_request send p ws ctl request now max_age timeout = (Inr answer, es)"
proof -
  have "\<exists>answer. fst (request_loop now max_age (\<lambda>e. send e request) False
      (current_endpoints p ws ctl now) [] None None) = Inr answer"
    using assms(9-12) current_endpoints_facts(1) [OF assms(1)]
    by (intro read_loop_answers [OF assms(2,3), where e = e]) (auto split: sum.splits)
  then show ?thesis
    unfolding pool_request_loop [OF assms(4-6) assms(8)] using assms(7) by (metis prod.collapse)
qed

section \<open>Concrete runs\<close>

definition demo_binding :: session_binding where
  "demo_binding = \<lparr>session_id = ''s'', controller_principal = ''c'', workstation_principal = ''w'',
     granted_capabilities = {}, expires_at_ms = 100\<rparr>"

definition demo_endpoint :: "string \<Rightarrow> path_mode \<Rightarrow> int \<Rightarrow> session_endpoint" where
  "demo_endpoint eid m t = \<lparr>endpoint_id = eid, binding = demo_binding, path = demo_path eid m t,
     durable_idempotency = True\<rparr>"

definition demo_pool :: "int \<Rightarrow> pool" where
  "demo_pool t = pool_register (pool_register [] (demo_endpoint ''a'' DIRECT_STREAM 10))
     (demo_endpoint ''b'' EDGE_STREAM t)"

definition demo_call :: "string \<Rightarrow> dict" where
  "demo_call opn = [(''request_id'', JStr ''r''), (''operation'', JStr opn)]"

definition demo_send :: "session_endpoint \<Rightarrow> dict \<Rightarrow> dict result" where
  "demo_send e request = (if endpoint_id e = ''a'' then Inl (Py TimeoutError) else Inr [])"

lemma demo_pool_reach: "pool_reach (demo_pool t)"
  unfolding demo_pool_def
  by (intro pool_reach.intros) (auto simp: mk_session_endpoint_def demo_endpoint_def demo_path_def)

lemma demo_current: "current_endpoints (demo_pool t) ''w'' ''c'' 10
    = [demo_endpoint ''a'' DIRECT_STREAM 10, demo_endpoint ''b'' EDGE_STREAM t]"
  by (simp add: current_endpoints_def demo_pool_def pool_register_def dict_get_def demo_endpoint_def
      demo_binding_def route_key_def)

lemmas demo_defs = demo_endpoint_def demo_path_def demo_binding_def

lemma demo_sel [simp]:
  "endpoint_id (demo_endpoint eid m t) = eid" "session_id (binding (demo_endpoint eid m t)) = ''s''"
  "durable_idempotency (demo_endpoint eid m t)"
  by (simp_all add: demo_defs)

lemma demo_next:
  "next_endpoint 10 5 [demo_endpoint ''a'' DIRECT_STREAM 10, demo_endpoint ''b'' EDGE_STREAM t] [] None
     = Some (demo_endpoint ''a'' DIRECT_STREAM 10)"
  "next_endpoint 10 5 [demo_endpoint ''a'' DIRECT_STREAM 10, demo_endpoint ''b'' EDGE_STREAM 10]
     [demo_endpoint ''a'' DIRECT_STREAM 10] (Some ''s'') = Some (demo_endpoint ''b'' EDGE_STREAM 10)"
  "next_endpoint 10 5 [demo_endpoint ''a'' DIRECT_STREAM 10, demo_endpoint ''b'' EDGE_STREAM 0]
     [demo_endpoint ''a'' DIRECT_STREAM 10] (Some ''s'') = None"
  by (simp_all add: next_endpoint_def select_value_def select_path_def reject_def eligible_retry_def
      key_less_def Let_def demo_defs)

lemma demo_call_ok:
  "is_nonempty_str (map_of (demo_call opn) ''request_id'')"
  "map_of (demo_call opn) ''operation'' = Some (JStr opn)" "\<not> fle (Fin 5) (Fin 0)"
  by (simp_all add: demo_call_def is_nonempty_str_def)

lemma demo_failover:
  "pool_request demo_send (demo_pool 10) ''w'' ''c'' (demo_call ''fs.write_text'') 10 5 (Fin 5)
     = (Inr [], [demo_endpoint ''a'' DIRECT_STREAM 10, demo_endpoint ''b'' EDGE_STREAM 10])"
  by (simp add: pool_request_loop [OF demo_call_ok(1,2) _ demo_call_ok(3)] demo_current
      request_loop_round demo_next demo_send_def MUTATING_OPERATIONS_def transport_error_def
      eligible_retry_def)

lemma failover_is_safe_witness:
  "distinct (map endpoint_id [demo_endpoint ''a'' DIRECT_STREAM 10, demo_endpoint ''b'' EDGE_STREAM 10])
   \<and> (\<exists>sid. \<forall>e \<in> set [demo_endpoint ''a'' DIRECT_STREAM 10, demo_endpoint ''b'' EDGE_STREAM 10].
        session_id (binding e) = sid \<and> durable_idempotency e)"
  using failover_is_safe [OF demo_pool_reach _ _ demo_call_ok(1,2) _ demo_call_ok(3) demo_failover]
  by (simp add: MUTATING_OPERATIONS_def)

lemma read_failover_answers_witness:
  "\<exists>answer es. pool_request demo_send (demo_pool 10) ''w'' ''c'' (demo_call ''fs.read_text'') 10 5 (Fin 5)
     = (Inr answer, es)"
  by (rule read_failover_answers [OF demo_pool_reach _ _ demo_call_ok(1,2) _ _ demo_call_ok(3),
        where e = "demo_endpoint ''b'' EDGE_STREAM 10"])
    (auto simp: demo_current demo_send_def MUTATING_OPERATIONS_def transport_error_def path_usable_def
      reject_def demo_defs split: if_splits)

text \<open>
  A mutation whose transport was lost may end in a plain stream error. When the only
  same-session durable alternative is registered but its path is stale, it counts as compatible,
  is then not selected, and the caller receives \<^verbatim>\<open>STREAM_CLOSED\<close> instead of \<^verbatim>\<open>AMBIGUOUS_DELIVERY\<close>,
  although the mutation may have been executed.
\<close>

theorem stale_alternative_hides_ambiguity:
  "pool_request demo_send (demo_pool 0) ''w'' ''c'' (demo_call ''fs.write_text'') 10 5 (Fin 5)
     = (Inl (Stream StreamClosed), [demo_endpoint ''a'' DIRECT_STREAM 10])"
  by (simp add: pool_request_loop [OF demo_call_ok(1,2) _ demo_call_ok(3)] demo_current
      request_loop_round demo_next demo_send_def MUTATING_OPERATIONS_def transport_error_def
      eligible_retry_def)

end
