(* ===== verification/Lane_Registry.thy ===== *)
theory Lane_Registry
  imports VM_Prelude
begin

text \<open>
  \<^verbatim>\<open>core.py\<close>: the registry of execution lanes. A lane is a lease on a set of capabilities and of
  resource claims, identified by a fencing token. The registry narrows capabilities to the
  session ceiling, refuses conflicting claims, expires leases lazily and rejects stale tokens.

  Every operation takes the time \<open>now\<close> that the code reads (\<^verbatim>\<open>time.monotonic()\<close> or the
  argument), and returns the result or the exception together with the registry afterwards: a
  failing operation can still change the table, since an expired lane is deleted before
  \<^const>\<open>LaneExpired\<close> is raised.
\<close>

section \<open>Claims\<close>

datatype claim_mode = READ | WRITE

fun mode_value :: "claim_mode \<Rightarrow> string" where
  "mode_value READ = ''read''"
| "mode_value WRITE = ''write''"

definition claim_mode_of :: "string \<Rightarrow> claim_mode result" where
  "claim_mode_of s =
     (if s = ''read'' then Inr READ else if s = ''write'' then Inr WRITE else Inl (Py ValueError))"

datatype resource_claim = ResourceClaim (ckey: string) (cmode: claim_mode)

definition mk_resource_claim :: "string \<Rightarrow> claim_mode \<Rightarrow> resource_claim result" where
  "mk_resource_claim k m =
     (if k = [] \<or> CHR '':'' \<notin> set k then Inl (Py ValueError) else Inr (ResourceClaim k m))"

text \<open>\<^verbatim>\<open>@dataclass(order=True)\<close>: claims compare by key, then by the text of the mode.\<close>

instantiation resource_claim :: linorder
begin

definition less_eq_resource_claim :: "resource_claim \<Rightarrow> resource_claim \<Rightarrow> bool" where
  "less_eq_resource_claim a b \<longleftrightarrow>
     ckey a < ckey b \<or> (ckey a = ckey b \<and> mode_value (cmode a) \<le> mode_value (cmode b))"

definition less_resource_claim :: "resource_claim \<Rightarrow> resource_claim \<Rightarrow> bool" where
  "less_resource_claim a b \<longleftrightarrow> a \<le> b \<and> \<not> b \<le> (a :: resource_claim)"

instance
proof
  have mode_inj: "mode_value m = mode_value m' \<Longrightarrow> m = m'" for m m'
    by (cases m; cases m') auto
  fix x y z :: resource_claim
  show "x < y \<longleftrightarrow> x \<le> y \<and> \<not> y \<le> x" by (simp add: less_resource_claim_def)
  show "x \<le> x" by (simp add: less_eq_resource_claim_def)
  show "x \<le> y \<Longrightarrow> y \<le> z \<Longrightarrow> x \<le> z" by (auto simp: less_eq_resource_claim_def)
  show "x \<le> y \<Longrightarrow> y \<le> x \<Longrightarrow> x = y"
    by (cases x; cases y) (auto simp: less_eq_resource_claim_def intro: mode_inj)
  show "x \<le> y \<or> y \<le> x" by (auto simp: less_eq_resource_claim_def)
qed

end

text \<open>The part of a key after its namespace, without trailing slashes, case-folded on Windows.\<close>

definition norm_value :: "pyenv \<Rightarrow> string \<Rightarrow> string" where
  "norm_value env v =
     (let v' = rstrip_char (CHR ''/'') v in if os_nt env then str_casefold env v' else v')"

definition resources_overlap :: "pyenv \<Rightarrow> string \<Rightarrow> string \<Rightarrow> bool result" where
  "resources_overlap env left right =
     (case (split1 (CHR '':'') left, split1 (CHR '':'') right) of
        (Some (l_namespace, l_raw), Some (r_namespace, r_raw)) \<Rightarrow>
          if l_namespace \<noteq> r_namespace then Inr False
          else (let l_value = norm_value env l_raw; r_value = norm_value env r_raw in
            Inr (l_value = r_value \<or> startswith l_value (r_value @ ''/'')
                 \<or> startswith r_value (l_value @ ''/'')))
      | _ \<Rightarrow> Inl (Py ValueError))"

definition claim_covers :: "pyenv \<Rightarrow> resource_claim \<Rightarrow> string \<Rightarrow> claim_mode \<Rightarrow> bool result" where
  "claim_covers env claim resource_key requested_mode =
     (if requested_mode = WRITE \<and> cmode claim \<noteq> WRITE then Inr False
      else case (split1 (CHR '':'') (ckey claim), split1 (CHR '':'') resource_key) of
        (Some (claim_namespace, claim_raw), Some (resource_namespace, resource_raw)) \<Rightarrow>
          if claim_namespace \<noteq> resource_namespace then Inr False
          else (let claim_value = norm_value env claim_raw;
                    resource_value = norm_value env resource_raw in
            Inr (resource_value = claim_value \<or> startswith resource_value (claim_value @ ''/'')))
      | _ \<Rightarrow> Inl (Py ValueError))"

text \<open>\<^verbatim>\<open>any(...)\<close> over the claims of a lane: stops at the first that covers, propagates a raise.\<close>

fun any_claim_covers ::
  "pyenv \<Rightarrow> resource_claim list \<Rightarrow> string \<Rightarrow> claim_mode \<Rightarrow> bool result" where
  "any_claim_covers env [] k m = Inr False"
| "any_claim_covers env (c # cs) k m =
     (case claim_covers env c k m of Inl e \<Rightarrow> Inl e | Inr True \<Rightarrow> Inr True
      | Inr False \<Rightarrow> any_claim_covers env cs k m)"

fun first_conflict_with ::
  "pyenv \<Rightarrow> resource_claim \<Rightarrow> resource_claim list \<Rightarrow> (resource_claim \<times> resource_claim) option result"
  where
  "first_conflict_with env a [] = Inr None"
| "first_conflict_with env a (b # bs) =
     (case resources_overlap env (ckey a) (ckey b) of
        Inl e \<Rightarrow> Inl e
      | Inr overlap \<Rightarrow>
          if overlap \<and> WRITE \<in> {cmode a, cmode b} then Inr (Some (a, b))
          else first_conflict_with env a bs)"

fun first_conflict ::
  "pyenv \<Rightarrow> resource_claim list \<Rightarrow> resource_claim list
   \<Rightarrow> (resource_claim \<times> resource_claim) option result" where
  "first_conflict env [] right = Inr None"
| "first_conflict env (a # left) right =
     (case first_conflict_with env a right of
        Inl e \<Rightarrow> Inl e
      | Inr (Some c) \<Rightarrow> Inr (Some c)
      | Inr None \<Rightarrow> first_conflict env left right)"

section \<open>Lanes and the registry\<close>

record lane =
  lane_id :: string
  task_id :: string
  capabilities :: "string set"
  claims :: "resource_claim list"
  fencing_token :: int
  expires_at :: pyfloat

record registry =
  session_capabilities :: "string set"
  max_lanes :: int
  lanes :: "(string \<times> lane) list"
  last_fence :: int

definition LaneRegistry :: "string set \<Rightarrow> int \<Rightarrow> registry result" where
  "LaneRegistry caps n =
     (if n < 1 then Inl (Py ValueError)
      else Inr \<lparr>session_capabilities = caps, max_lanes = n, lanes = [], last_fence = 0\<rparr>)"

text \<open>
  The fence allocator is an optional callback with a state of its own (the durable store):
  \<open>None\<close> is the counter of the registry.
\<close>

type_synonym 's allocator = "('s \<Rightarrow> int result \<times> 's) option"

definition expired :: "pyfloat \<Rightarrow> lane \<Rightarrow> bool" where
  "expired now l = fle (expires_at l) now"

definition reap_expired_locked :: "pyfloat \<Rightarrow> registry \<Rightarrow> lane list \<times> registry" where
  "reap_expired_locked now reg =
     (let gone = filter (expired now) (map snd (lanes reg)) in
      (sort_key lane_id gone,
       reg\<lparr>lanes := fold (\<lambda>l d. AList.delete (lane_id l) d) gone (lanes reg)\<rparr>))"

definition require_lane_locked ::
  "string \<Rightarrow> int \<Rightarrow> pyfloat \<Rightarrow> registry \<Rightarrow> lane result \<times> registry" where
  "require_lane_locked lid tok now reg =
     (case map_of (lanes reg) lid of
        None \<Rightarrow> (Inl (VeraPort LaneNotFound), reg)
      | Some l \<Rightarrow>
          if fencing_token l \<noteq> tok then (Inl (VeraPort StaleFence), reg)
          else if expired now l
            then (Inl (VeraPort LaneExpired), reg\<lparr>lanes := AList.delete lid (lanes reg)\<rparr>)
          else (Inr l, reg))"

fun check_collisions :: "pyenv \<Rightarrow> resource_claim list \<Rightarrow> lane list \<Rightarrow> unit result" where
  "check_collisions env cs [] = Inr ()"
| "check_collisions env cs (existing # ls) =
     (case first_conflict env cs (claims existing) of
        Inl e \<Rightarrow> Inl e
      | Inr (Some c) \<Rightarrow> Inl (VeraPort CollisionBlocked)
      | Inr None \<Rightarrow> check_collisions env cs ls)"

definition take_fence :: "'s allocator \<Rightarrow> registry \<Rightarrow> 's \<Rightarrow> int result \<times> registry \<times> 's" where
  "take_fence alloc reg s =
     (case alloc of
        None \<Rightarrow> (let f = last_fence reg + 1 in (Inr f, reg\<lparr>last_fence := f\<rparr>, s))
      | Some a \<Rightarrow>
          (case a s of
             (Inl e, s') \<Rightarrow> (Inl e, reg, s')
           | (Inr f, s') \<Rightarrow>
               if f \<le> last_fence reg then (Inl (Py RuntimeError), reg, s')
               else (Inr f, reg\<lparr>last_fence := f\<rparr>, s')))"

definition open_lane ::
  "pyenv \<Rightarrow> 's allocator \<Rightarrow> string \<Rightarrow> string \<Rightarrow> string set \<Rightarrow> resource_claim list \<Rightarrow> pyfloat
   \<Rightarrow> pyfloat \<Rightarrow> registry \<Rightarrow> 's \<Rightarrow> lane result \<times> registry \<times> 's" where
  "open_lane env alloc lid tid caps cs ttl now reg s =
     (if is_blank lid \<or> is_blank tid then (Inl (Py ValueError), reg, s)
      else if fle ttl (Fin 0) then (Inl (Py ValueError), reg, s)
      else if \<not> caps \<subseteq> session_capabilities reg then (Inl (VeraPort CapabilityDenied), reg, s)
      else let claim_tuple = sorted_list_of_set (set cs);
               reg1 = snd (reap_expired_locked now reg) in
        if map_of (lanes reg1) lid \<noteq> None then (Inl (VeraPort CollisionBlocked), reg1, s)
        else if int (length (lanes reg1)) \<ge> max_lanes reg1
          then (Inl (VeraPort CollisionBlocked), reg1, s)
        else case check_collisions env claim_tuple (map snd (lanes reg1)) of
            Inl e \<Rightarrow> (Inl e, reg1, s)
          | Inr _ \<Rightarrow>
              (case take_fence alloc reg1 s of
                 (Inl e, reg2, s') \<Rightarrow> (Inl e, reg2, s')
               | (Inr tok, reg2, s') \<Rightarrow>
                   let l = \<lparr>lane_id = lid, task_id = tid, capabilities = caps,
                            claims = claim_tuple, fencing_token = tok,
                            expires_at = fadd now ttl\<rparr> in
                   (Inr l, reg2\<lparr>lanes := AList.update lid l (lanes reg2)\<rparr>, s')))"

definition renew :: "string \<Rightarrow> int \<Rightarrow> pyfloat \<Rightarrow> pyfloat \<Rightarrow> registry \<Rightarrow> lane result \<times> registry" where
  "renew lid tok ttl now reg =
     (if fle ttl (Fin 0) then (Inl (Py ValueError), reg)
      else case require_lane_locked lid tok now reg of
          (Inl e, reg1) \<Rightarrow> (Inl e, reg1)
        | (Inr l, reg1) \<Rightarrow>
            let updated = l\<lparr>expires_at := fadd now ttl\<rparr> in
            (Inr updated, reg1\<lparr>lanes := AList.update lid updated (lanes reg1)\<rparr>))"

definition close :: "string \<Rightarrow> int \<Rightarrow> pyfloat \<Rightarrow> registry \<Rightarrow> lane result \<times> registry" where
  "close lid tok now reg =
     (case require_lane_locked lid tok now reg of
        (Inl e, reg1) \<Rightarrow> (Inl e, reg1)
      | (Inr l, reg1) \<Rightarrow> (Inr l, reg1\<lparr>lanes := AList.delete lid (lanes reg1)\<rparr>))"

definition authorize ::
  "pyenv \<Rightarrow> string \<Rightarrow> int \<Rightarrow> string \<Rightarrow> string option \<Rightarrow> claim_mode option \<Rightarrow> pyfloat \<Rightarrow> registry
   \<Rightarrow> lane result \<times> registry" where
  "authorize env lid tok cap resource_key resource_mode now reg =
     (case require_lane_locked lid tok now reg of
        (Inl e, reg1) \<Rightarrow> (Inl e, reg1)
      | (Inr l, reg1) \<Rightarrow>
          if cap \<notin> capabilities l then (Inl (VeraPort CapabilityDenied), reg1)
          else (case resource_key of
              None \<Rightarrow> (Inr l, reg1)
            | Some k \<Rightarrow>
                (case resource_mode of
                   None \<Rightarrow> (Inl (Py ValueError), reg1)
                 | Some m \<Rightarrow>
                     (case any_claim_covers env (claims l) k m of
                        Inl e \<Rightarrow> (Inl e, reg1)
                      | Inr True \<Rightarrow> (Inr l, reg1)
                      | Inr False \<Rightarrow> (Inl (VeraPort CapabilityDenied), reg1)))))"

definition snapshot :: "pyfloat \<Rightarrow> registry \<Rightarrow> lane list \<times> registry" where
  "snapshot now reg =
     (let reg1 = snd (reap_expired_locked now reg)
      in (sort_key lane_id (map snd (lanes reg1)), reg1))"

section \<open>Coverage and overlap\<close>

text \<open>Both tests compare normalised values: \<open>r\<close> lies at or below \<open>c\<close> in the resource tree.\<close>

definition res_within :: "string \<Rightarrow> string \<Rightarrow> bool" where
  "res_within r c \<longleftrightarrow> r = c \<or> prefix (c @ ''/'') r"

definition claims_conflict :: "pyenv \<Rightarrow> resource_claim \<Rightarrow> resource_claim \<Rightarrow> bool" where
  "claims_conflict env a b \<longleftrightarrow>
     resources_overlap env (ckey a) (ckey b) = Inr True \<and> (cmode a = WRITE \<or> cmode b = WRITE)"

lemma within_trans: "res_within r c \<Longrightarrow> res_within c d \<Longrightarrow> res_within r d"
  unfolding res_within_def by (auto simp: prefix_def)

lemma within_common:
  assumes "res_within r a" "res_within r b"
  shows "res_within a b \<or> res_within b a"
proof -
  consider "r = a" | "r = b" | "prefix (a @ ''/'') r" "prefix (b @ ''/'') r"
    using assms by (auto simp: res_within_def)
  then show ?thesis
  proof cases
    case 3
    then consider "prefix (a @ ''/'') (b @ ''/'')" | "prefix (b @ ''/'') (a @ ''/'')"
      using prefix_same_cases by blast
    then show ?thesis by cases (auto simp: res_within_def prefix_snoc)
  qed (use assms in auto)
qed

lemma resources_overlap_iff:
  "resources_overlap env x y = Inr True \<longleftrightarrow>
   (\<exists>n u v. split1 (CHR '':'') x = Some (n, u) \<and> split1 (CHR '':'') y = Some (n, v)
      \<and> (res_within (norm_value env u) (norm_value env v) \<or> res_within (norm_value env v) (norm_value env u)))"
  unfolding resources_overlap_def res_within_def startswith_def Let_def
  by (auto split: option.splits prod.splits if_splits)

lemma claim_covers_iff:
  "claim_covers env c k m = Inr True \<longleftrightarrow>
   (m = WRITE \<longrightarrow> cmode c = WRITE) \<and>
   (\<exists>n u v. split1 (CHR '':'') (ckey c) = Some (n, u) \<and> split1 (CHR '':'') k = Some (n, v)
      \<and> res_within (norm_value env v) (norm_value env u))"
  unfolding claim_covers_def res_within_def startswith_def Let_def
  by (auto split: option.splits prod.splits if_splits)

lemma resources_overlap_sym:
  "resources_overlap env x y = Inr True \<Longrightarrow> resources_overlap env y x = Inr True"
  by (auto simp: resources_overlap_iff)

lemma claims_conflict_sym: "claims_conflict env a b \<Longrightarrow> claims_conflict env b a"
  by (auto simp: claims_conflict_def intro: resources_overlap_sym)

lemma covering_claims_conflict:
  assumes "claim_covers env a r m = Inr True" "claim_covers env b r' m' = Inr True"
    and "resources_overlap env r r' = Inr True" and "m = WRITE \<or> m' = WRITE"
  shows "claims_conflict env a b"
proof -
  obtain n u v u' v' where
    a: "split1 (CHR '':'') (ckey a) = Some (n, u)" "split1 (CHR '':'') r = Some (n, v)"
       "res_within (norm_value env v) (norm_value env u)"
    and b: "split1 (CHR '':'') (ckey b) = Some (n, u')" "split1 (CHR '':'') r' = Some (n, v')"
       "res_within (norm_value env v') (norm_value env u')"
    and o: "res_within (norm_value env v) (norm_value env v') \<or> res_within (norm_value env v') (norm_value env v)"
    using assms(1-3) by (auto simp: claim_covers_iff resources_overlap_iff)
  have "res_within (norm_value env u) (norm_value env u') \<or> res_within (norm_value env u') (norm_value env u)"
    using o
  proof
    assume "res_within (norm_value env v) (norm_value env v')"
    then show ?thesis using a(3) b(3) within_common within_trans by blast
  next
    assume "res_within (norm_value env v') (norm_value env v)"
    then show ?thesis using a(3) b(3) within_common within_trans by blast
  qed
  moreover have "cmode a = WRITE \<or> cmode b = WRITE"
    using assms by (auto simp: claim_covers_iff)
  ultimately show ?thesis
    using a(1) b(1) by (auto simp: claims_conflict_def resources_overlap_iff)
qed

lemma any_claim_covers_True:
  "any_claim_covers env cs k m = Inr True \<Longrightarrow> \<exists>c \<in> set cs. claim_covers env c k m = Inr True"
  by (induction cs) (auto split: sum.splits bool.splits)

lemma first_conflict_with_None:
  "first_conflict_with env a bs = Inr None \<Longrightarrow> b \<in> set bs \<Longrightarrow> \<not> claims_conflict env a b"
  by (induction bs) (auto simp: claims_conflict_def split: sum.splits if_splits)

lemma first_conflict_None:
  "first_conflict env cs bs = Inr None \<Longrightarrow> a \<in> set cs \<Longrightarrow> b \<in> set bs \<Longrightarrow> \<not> claims_conflict env a b"
  by (induction cs) (auto dest: first_conflict_with_None split: sum.splits option.splits)

lemma check_collisions_ok:
  "check_collisions env cs ls = Inr u \<Longrightarrow> l \<in> set ls \<Longrightarrow> a \<in> set cs \<Longrightarrow> b \<in> set (claims l)
   \<Longrightarrow> \<not> claims_conflict env a b"
  by (induction ls) (auto dest: first_conflict_None split: sum.splits option.splits)

section \<open>The invariant of the registry\<close>

definition lane_ok :: "registry \<Rightarrow> string \<Rightarrow> lane \<Rightarrow> bool" where
  "lane_ok reg k l \<longleftrightarrow> lane_id l = k \<and> capabilities l \<subseteq> session_capabilities reg
     \<and> 0 < fencing_token l \<and> fencing_token l \<le> last_fence reg"

definition lanes_compatible :: "pyenv \<Rightarrow> lane \<Rightarrow> lane \<Rightarrow> bool" where
  "lanes_compatible env l l' \<longleftrightarrow> fencing_token l \<noteq> fencing_token l'
     \<and> (\<forall>a \<in> set (claims l). \<forall>b \<in> set (claims l'). \<not> claims_conflict env a b)"

definition registry_inv :: "pyenv \<Rightarrow> registry \<Rightarrow> bool" where
  "registry_inv env reg \<longleftrightarrow>
     distinct (map fst (lanes reg)) \<and> 0 \<le> last_fence reg
     \<and> (\<forall>k l. map_of (lanes reg) k = Some l \<longrightarrow> lane_ok reg k l)
     \<and> (\<forall>k l k' l'. map_of (lanes reg) k = Some l \<longrightarrow> map_of (lanes reg) k' = Some l' \<longrightarrow> k \<noteq> k'
          \<longrightarrow> lanes_compatible env l l')
     \<and> int (length (lanes reg)) \<le> max_lanes reg"

lemma lanes_compatible_sym: "lanes_compatible env l l' \<Longrightarrow> lanes_compatible env l' l"
  by (auto simp: lanes_compatible_def dest: claims_conflict_sym)

lemma registry_invD:
  assumes "registry_inv env reg"
  shows "distinct (map fst (lanes reg))"
    and "map_of (lanes reg) k = Some l \<Longrightarrow> lane_ok reg k l"
    and "map_of (lanes reg) k = Some l \<Longrightarrow> map_of (lanes reg) k' = Some l' \<Longrightarrow> k \<noteq> k'
      \<Longrightarrow> lanes_compatible env l l'"
    and "int (length (lanes reg)) \<le> max_lanes reg"
    and "0 \<le> last_fence reg"
  using assms unfolding registry_inv_def by blast+

text \<open>Dropping lanes keeps the invariant: every operation that only removes entries is an instance.\<close>

lemma registry_inv_shrink:
  assumes inv: "registry_inv env reg" and d: "distinct (map fst ls)"
    and sub: "\<And>k l. map_of ls k = Some l \<Longrightarrow> map_of (lanes reg) k = Some l"
    and len: "length ls \<le> length (lanes reg)"
  shows "registry_inv env (reg\<lparr>lanes := ls\<rparr>)"
  unfolding registry_inv_def
proof (intro conjI allI impI)
  show "distinct (map fst (lanes (reg\<lparr>lanes := ls\<rparr>)))" using d by simp
  show "0 \<le> last_fence (reg\<lparr>lanes := ls\<rparr>)" using registry_invD(5) [OF inv] by simp
  show "int (length (lanes (reg\<lparr>lanes := ls\<rparr>))) \<le> max_lanes (reg\<lparr>lanes := ls\<rparr>)"
    using len registry_invD(4) [OF inv] by simp
  fix k l assume "map_of (lanes (reg\<lparr>lanes := ls\<rparr>)) k = Some l"
  then have kl: "map_of (lanes reg) k = Some l" by (intro sub) simp
  then show "lane_ok (reg\<lparr>lanes := ls\<rparr>) k l"
    using registry_invD(2) [OF inv] by (simp add: lane_ok_def)
  fix k' l' assume "map_of (lanes (reg\<lparr>lanes := ls\<rparr>)) k' = Some l'" and ne: "k \<noteq> k'"
  then have "map_of (lanes reg) k' = Some l'" by (intro sub) simp
  then show "lanes_compatible env l l'"
    using kl ne by (intro registry_invD(3) [OF inv])
qed

lemma fold_delete_filter:
  "fold (\<lambda>l d. AList.delete (lane_id l) d) gone d = filter (\<lambda>(k, l). k \<notin> lane_id ` set gone) d"
  by (induction gone arbitrary: d) (auto simp: AList.delete_eq intro!: filter_cong)

lemma registry_inv_unique:
  assumes "registry_inv env reg" "(k, l) \<in> set (lanes reg)" "(k', l') \<in> set (lanes reg)"
    and "lane_id l' = k"
  shows "l' = l"
proof -
  note d = registry_invD(1) [OF assms(1)]
  have "map_of (lanes reg) k' = Some l'" "map_of (lanes reg) k = Some l"
    using assms(2,3) d by simp_all
  then have "lane_id l' = k'" using registry_invD(2) [OF assms(1)] by (simp only: lane_ok_def)
  then show ?thesis using assms(4) \<open>map_of (lanes reg) k' = Some l'\<close> \<open>map_of (lanes reg) k = Some l\<close>
    by simp
qed

lemma registry_inv_id:
  assumes "registry_inv env reg" "(k, l) \<in> set (lanes reg)"
  shows "lane_id l = k"
  using registry_invD(2) [OF assms(1), of k l] assms registry_invD(1) [OF assms(1)]
  by (simp add: lane_ok_def)

lemma reap_lanes:
  assumes "registry_inv env reg"
  shows "lanes (snd (reap_expired_locked now reg)) = filter (\<lambda>(k, l). \<not> expired now l) (lanes reg)"
proof -
  have "k \<notin> lane_id ` set (filter (expired now) (map snd (lanes reg))) \<longleftrightarrow> \<not> expired now l"
    if kl: "(k, l) \<in> set (lanes reg)" for k l
  proof
    assume "k \<notin> lane_id ` set (filter (expired now) (map snd (lanes reg)))"
    then show "\<not> expired now l" using kl registry_inv_id [OF assms kl] by force
  next
    assume "\<not> expired now l"
    then show "k \<notin> lane_id ` set (filter (expired now) (map snd (lanes reg)))"
      using registry_inv_unique [OF assms kl] by fastforce
  qed
  then show ?thesis
    unfolding reap_expired_locked_def fold_delete_filter Let_def
    by (simp, intro filter_cong [OF refl]) auto
qed

lemma reap_fields [simp]:
  "session_capabilities (snd (reap_expired_locked now reg)) = session_capabilities reg"
  "max_lanes (snd (reap_expired_locked now reg)) = max_lanes reg"
  "last_fence (snd (reap_expired_locked now reg)) = last_fence reg"
  by (simp_all add: reap_expired_locked_def Let_def)

lemma map_of_reap:
  assumes "registry_inv env reg"
  shows "map_of (lanes (snd (reap_expired_locked now reg))) k =
    (case map_of (lanes reg) k of None \<Rightarrow> None | Some l \<Rightarrow> if expired now l then None else Some l)"
  unfolding reap_lanes [OF assms] map_of_filter_distinct [OF registry_invD(1) [OF assms]]
  by (simp split: option.splits)

lemma reap_inv:
  assumes "registry_inv env reg"
  shows "registry_inv env (snd (reap_expired_locked now reg))"
proof -
  let ?ls = "lanes (snd (reap_expired_locked now reg))"
  have "registry_inv env (reg\<lparr>lanes := ?ls\<rparr>)"
  proof (rule registry_inv_shrink [OF assms])
    show "distinct (map fst ?ls)"
      unfolding reap_lanes [OF assms] using registry_invD(1) [OF assms] by (rule distinct_map_filter)
    show "length ?ls \<le> length (lanes reg)"
      unfolding reap_lanes [OF assms] by (rule length_filter_le)
    show "map_of ?ls k = Some l \<Longrightarrow> map_of (lanes reg) k = Some l" for k l
      unfolding map_of_reap [OF assms] by (auto split: option.splits if_splits)
  qed
  then show ?thesis by (simp add: reap_expired_locked_def Let_def)
qed

lemma delete_inv:
  assumes "registry_inv env reg"
  shows "registry_inv env (reg\<lparr>lanes := AList.delete k (lanes reg)\<rparr>)"
proof (rule registry_inv_shrink [OF assms])
  show "distinct (map fst (AList.delete k (lanes reg)))"
    using registry_invD(1) [OF assms] by (rule distinct_delete)
  show "length (AList.delete k (lanes reg)) \<le> length (lanes reg)"
    by (rule length_delete_le)
  show "map_of (AList.delete k (lanes reg)) k' = Some l \<Longrightarrow> map_of (lanes reg) k' = Some l" for k' l
    by (simp add: dict_simps split: if_splits)
qed

lemma require_inv:
  "registry_inv env reg \<Longrightarrow> registry_inv env (snd (require_lane_locked lid tok now reg))"
  by (auto simp: require_lane_locked_def intro: delete_inv split: option.splits)

lemma require_ok:
  "require_lane_locked lid tok now reg = (Inr l, reg') \<longleftrightarrow>
     reg' = reg \<and> map_of (lanes reg) lid = Some l \<and> fencing_token l = tok \<and> \<not> expired now l"
  by (auto simp: require_lane_locked_def split: option.splits if_splits)

lemma authorize_inv:
  assumes "registry_inv env reg"
  shows "registry_inv env (snd (authorize env lid tok cap rk rm now reg))"
  using require_inv [OF assms, of lid tok now]
  by (auto simp: authorize_def split: prod.splits sum.splits option.splits bool.splits)

lemma close_inv:
  assumes "registry_inv env reg"
  shows "registry_inv env (snd (close lid tok now reg))"
  using require_inv [OF assms, of lid tok now]
  by (auto simp: close_def intro: delete_inv split: prod.splits sum.splits)

lemma put_inv:
  assumes inv: "registry_inv env reg" and ok: "lane_ok reg k l"
    and compat: "\<And>k' l'. map_of (lanes reg) k' = Some l' \<Longrightarrow> k' \<noteq> k \<Longrightarrow> lanes_compatible env l l'"
    and room: "map_of (lanes reg) k \<noteq> None \<or> int (length (lanes reg)) < max_lanes reg"
  shows "registry_inv env (reg\<lparr>lanes := AList.update k l (lanes reg)\<rparr>)"
  unfolding registry_inv_def
proof (intro conjI allI impI)
  let ?r = "reg\<lparr>lanes := AList.update k l (lanes reg)\<rparr>"
  show "distinct (map fst (lanes ?r))" using registry_invD(1) [OF inv] by (simp add: distinct_update)
  show "0 \<le> last_fence ?r" using registry_invD(5) [OF inv] by simp
  show "int (length (lanes ?r)) \<le> max_lanes ?r"
    using room registry_invD(4) [OF inv]
    by (cases "map_of (lanes reg) k") (auto simp: length_update_new length_update_old)
  fix k1 l1 assume 1: "map_of (lanes ?r) k1 = Some l1"
  then show "lane_ok ?r k1 l1"
    using ok registry_invD(2) [OF inv, of k1 l1]
    by (auto simp: dict_simps lane_ok_def split: if_splits)
  fix k2 l2 assume 2: "map_of (lanes ?r) k2 = Some l2" and ne: "k1 \<noteq> k2"
  have m1: "k1 \<noteq> k \<Longrightarrow> map_of (lanes reg) k1 = Some l1" "k1 = k \<Longrightarrow> l1 = l"
    using 1 by (simp_all add: dict_simps)
  have m2: "k2 \<noteq> k \<Longrightarrow> map_of (lanes reg) k2 = Some l2" "k2 = k \<Longrightarrow> l2 = l"
    using 2 by (simp_all add: dict_simps)
  consider "k1 = k" "k2 \<noteq> k" | "k2 = k" "k1 \<noteq> k" | "k1 \<noteq> k" "k2 \<noteq> k" using ne by blast
  then show "lanes_compatible env l1 l2"
  proof cases
    case 1
    then show ?thesis using m1(2) compat m2(1) by blast
  next
    case 2
    then show ?thesis using m2(2) compat m1(1) lanes_compatible_sym by blast
  next
    case 3
    then show ?thesis using m1(1) m2(1) ne by (intro registry_invD(3) [OF inv])
  qed
qed

lemma bump_fence_inv:
  "registry_inv env reg \<Longrightarrow> last_fence reg \<le> f \<Longrightarrow> registry_inv env (reg\<lparr>last_fence := f\<rparr>)"
  unfolding registry_inv_def lane_ok_def by fastforce

lemma take_fence_Inr:
  "take_fence alloc reg s = (Inr tok, reg', s') \<Longrightarrow> last_fence reg < tok \<and> reg' = reg\<lparr>last_fence := tok\<rparr>"
  by (auto simp: take_fence_def Let_def split: option.splits prod.splits sum.splits if_splits)

lemma take_fence_Inl: "take_fence alloc reg s = (Inl e, reg', s') \<Longrightarrow> reg' = reg"
  by (auto simp: take_fence_def Let_def split: option.splits prod.splits sum.splits if_splits)

lemma open_lane_Inr:
  assumes "open_lane env alloc lid tid caps cs ttl now reg s = (Inr l, reg', s')"
  defines "reg1 \<equiv> snd (reap_expired_locked now reg)"
  shows "caps \<subseteq> session_capabilities reg" "\<not> fle ttl (Fin 0)"
    "map_of (lanes reg1) lid = None" "int (length (lanes reg1)) < max_lanes reg"
    "check_collisions env (claims l) (map snd (lanes reg1)) = Inr ()"
    "last_fence reg < fencing_token l"
    "l = \<lparr>lane_id = lid, task_id = tid, capabilities = caps, claims = sorted_list_of_set (set cs),
          fencing_token = fencing_token l, expires_at = fadd now ttl\<rparr>"
    "reg' = reg1\<lparr>last_fence := fencing_token l, lanes := AList.update lid l (lanes reg1)\<rparr>"
  using assms(1) unfolding open_lane_def reg1_def Let_def
  by (auto split: if_splits sum.splits prod.splits dest!: take_fence_Inr)

lemma open_lane_Inl:
  assumes "open_lane env alloc lid tid caps cs ttl now reg s = (Inl e, reg', s')"
  shows "reg' = reg \<or> reg' = snd (reap_expired_locked now reg)"
  using assms unfolding open_lane_def Let_def
  by (auto split: if_splits sum.splits prod.splits dest!: take_fence_Inl)

lemma open_inv:
  assumes inv: "registry_inv env reg"
  shows "registry_inv env (fst (snd (open_lane env alloc lid tid caps cs ttl now reg s)))"
proof -
  obtain r reg' s' where o: "open_lane env alloc lid tid caps cs ttl now reg s = (r, reg', s')"
    by (metis prod_cases3)
  show ?thesis
  proof (cases r)
    case (Inl e)
    then show ?thesis using open_lane_Inl o inv reap_inv [OF inv] by fastforce
  next
    case (Inr l)
    let ?reg1 = "snd (reap_expired_locked now reg)"
    let ?reg2 = "?reg1\<lparr>last_fence := fencing_token l\<rparr>"
    note facts = open_lane_Inr [OF o [unfolded Inr]]
    have lf: "last_fence reg < fencing_token l" by (rule facts(6))
    have 1: "registry_inv env ?reg1" by (rule reap_inv [OF inv])
    have 2: "registry_inv env ?reg2"
      by (rule bump_fence_inv [OF 1]) (use lf in simp)
    have "registry_inv env (?reg2\<lparr>lanes := AList.update lid l (lanes ?reg2)\<rparr>)"
    proof (rule put_inv [OF 2])
      show "lane_ok ?reg2 lid l"
        using facts(1,7) lf registry_invD(5) [OF inv] by (simp add: lane_ok_def) (metis lane.select_convs(1,3))
      show "map_of (lanes ?reg2) lid \<noteq> None \<or> int (length (lanes ?reg2)) < max_lanes ?reg2"
        using facts(4) by simp
      fix k' l' assume m: "map_of (lanes ?reg2) k' = Some l'"
      then have "lane_ok ?reg1 k' l'" using registry_invD(2) [OF 1] by simp
      then have tok: "fencing_token l \<noteq> fencing_token l'" using lf by (simp add: lane_ok_def)
      have "l' \<in> set (map snd (lanes ?reg1))" using m by (force dest: map_of_SomeD)
      then show "lanes_compatible env l l'"
        using tok check_collisions_ok [OF facts(5)] by (auto simp: lanes_compatible_def)
    qed
    then show ?thesis using facts(8) o by simp
  qed
qed

lemma renew_ok:
  "renew lid tok ttl now reg = (Inr l, reg') \<longleftrightarrow>
     \<not> fle ttl (Fin 0) \<and> (\<exists>l0. map_of (lanes reg) lid = Some l0 \<and> fencing_token l0 = tok
       \<and> \<not> expired now l0 \<and> l = l0\<lparr>expires_at := fadd now ttl\<rparr>)
     \<and> reg' = reg\<lparr>lanes := AList.update lid l (lanes reg)\<rparr>"
  unfolding renew_def Let_def
  by (auto simp: require_ok split: prod.splits sum.splits) (auto simp: require_lane_locked_def)

lemma renew_Inl:
  "renew lid tok ttl now reg = (Inl e, reg') \<Longrightarrow>
     reg' = reg \<or> reg' = snd (require_lane_locked lid tok now reg)"
  unfolding renew_def Let_def by (auto split: prod.splits sum.splits if_splits)

lemma renew_inv:
  assumes inv: "registry_inv env reg"
  shows "registry_inv env (snd (renew lid tok ttl now reg))"
proof (cases "renew lid tok ttl now reg")
  case (Pair r reg')
  show ?thesis
  proof (cases r)
    case (Inl e)
    then show ?thesis using Pair renew_Inl inv require_inv [OF inv] by fastforce
  next
    case (Inr l)
    then obtain l0 where l0: "map_of (lanes reg) lid = Some l0" "l = l0\<lparr>expires_at := fadd now ttl\<rparr>"
      and r: "reg' = reg\<lparr>lanes := AList.update lid l (lanes reg)\<rparr>"
      using Pair by (auto simp: renew_ok)
    have "registry_inv env (reg\<lparr>lanes := AList.update lid l (lanes reg)\<rparr>)"
    proof (rule put_inv [OF inv])
      show "lane_ok reg lid l" using l0 registry_invD(2) [OF inv l0(1)] by (simp add: lane_ok_def)
      show "map_of (lanes reg) k' = Some l' \<Longrightarrow> k' \<noteq> lid \<Longrightarrow> lanes_compatible env l l'" for k' l'
        using l0 registry_invD(3) [OF inv l0(1)] by (simp add: lanes_compatible_def)
    qed (use l0 in simp)
    then show ?thesis using Pair r by simp
  qed
qed

section \<open>Reachable registries\<close>

text \<open>
  One step is one call of an operation with any arguments, at any time. The allocator's state is
  part of the configuration.
\<close>

inductive reg_step ::
  "pyenv \<Rightarrow> 's allocator \<Rightarrow> registry \<times> 's \<Rightarrow> registry \<times> 's \<Rightarrow> bool" for env alloc where
  open_step: "reg_step env alloc (reg, s) (snd (open_lane env alloc lid tid caps cs ttl now reg s))"
| renew_step: "reg_step env alloc (reg, s) (snd (renew lid tok ttl now reg), s)"
| close_step: "reg_step env alloc (reg, s) (snd (close lid tok now reg), s)"
| authorize_step: "reg_step env alloc (reg, s) (snd (authorize env lid tok cap rk rm now reg), s)"
| snapshot_step: "reg_step env alloc (reg, s) (snd (snapshot now reg), s)"
| reap_step: "reg_step env alloc (reg, s) (snd (reap_expired_locked now reg), s)"

inductive reg_reach :: "pyenv \<Rightarrow> 's allocator \<Rightarrow> registry \<times> 's \<Rightarrow> bool" for env alloc where
  start: "LaneRegistry caps n = Inr reg \<Longrightarrow> reg_reach env alloc (reg, s)"
| step: "reg_reach env alloc c \<Longrightarrow> reg_step env alloc c c' \<Longrightarrow> reg_reach env alloc c'"

lemma LaneRegistry_inv: "LaneRegistry caps n = Inr reg \<Longrightarrow> registry_inv env reg"
  by (auto simp: LaneRegistry_def registry_inv_def split: if_splits)

lemma reg_step_inv:
  "reg_step env alloc c c' \<Longrightarrow> registry_inv env (fst c) \<Longrightarrow> registry_inv env (fst c')"
  by (induction rule: reg_step.induct)
    (simp_all add: open_inv renew_inv close_inv authorize_inv reap_inv snapshot_def Let_def)

lemma reg_reach_inv: "reg_reach env alloc c \<Longrightarrow> registry_inv env (fst c)"
  by (induction rule: reg_reach.induct) (auto intro: LaneRegistry_inv reg_step_inv)

lemma first_conflict_with_exn: "first_conflict_with env a bs = Inl e \<Longrightarrow> e = Py ValueError"
  by (induction bs) (auto simp: resources_overlap_def Let_def split: sum.splits if_splits option.splits)

lemma first_conflict_exn: "first_conflict env cs bs = Inl e \<Longrightarrow> e = Py ValueError"
  by (induction cs) (auto dest: first_conflict_with_exn split: sum.splits option.splits)

lemma check_collisions_exn:
  "check_collisions env cs ls = Inl e \<Longrightarrow> e = Py ValueError \<or> e = VeraPort CollisionBlocked"
  by (induction ls) (auto dest: first_conflict_exn split: sum.splits option.splits)

section \<open>The contract of a fence allocator\<close>

text \<open>
  What \<^const>\<open>open_lane\<close> needs of the callback it is given: every token is larger than all tokens
  handed out before, over the life of the allocator's state, which outlives the registry.
\<close>

locale fence_source =
  fixes alloc :: "'s \<Rightarrow> int result \<times> 's" and high :: "'s \<Rightarrow> int"
  assumes alloc_Inr: "alloc s = (Inr f, s') \<Longrightarrow> high s < f \<and> high s' = f"
    and alloc_Inl: "alloc s = (Inl e, s') \<Longrightarrow> high s \<le> high s' \<and> e \<noteq> Py RuntimeError"
begin

lemma take_fence_high:
  assumes "take_fence (Some alloc) reg s = (r, reg', s')" "last_fence reg \<le> high s"
  shows "r \<noteq> Inl (Py RuntimeError)" "last_fence reg' \<le> high s'" "high s \<le> high s'"
    "r = Inr tok \<Longrightarrow> high s < tok"
  using assms alloc_Inr alloc_Inl
  by (fastforce simp: take_fence_def split: prod.splits sum.splits if_splits)+

lemma open_lane_high:
  assumes "open_lane env (Some alloc) lid tid caps cs ttl now reg s = (r, reg', s')"
    and "last_fence reg \<le> high s"
  shows "r \<noteq> Inl (Py RuntimeError)" "last_fence reg' \<le> high s'" "high s \<le> high s'"
    "r = Inr l \<Longrightarrow> high s < fencing_token l"
proof -
  let ?reg1 = "snd (reap_expired_locked now reg)"
  have lf: "last_fence ?reg1 \<le> high s" using assms(2) by simp
  note out = assms(1) [unfolded open_lane_def Let_def]
  have "r \<noteq> Inl (Py RuntimeError) \<and> last_fence reg' \<le> high s' \<and> high s \<le> high s'
      \<and> (\<forall>l. r = Inr l \<longrightarrow> high s < fencing_token l)"
  proof (cases "take_fence (Some alloc) ?reg1 s")
    case (fields f reg2 s2)
    note t = take_fence_high [OF fields lf]
    show ?thesis
      using out t(1-3) t(4) assms(2) unfolding fields
      by (auto split: if_splits sum.splits dest: check_collisions_exn)
  qed
  then show "r \<noteq> Inl (Py RuntimeError)" "last_fence reg' \<le> high s'" "high s \<le> high s'"
    "r = Inr l \<Longrightarrow> high s < fencing_token l" by blast+
qed

end


section \<open>Fencing over time\<close>

definition holds :: "registry \<Rightarrow> string \<Rightarrow> int \<Rightarrow> bool" where
  "holds reg lid tok \<longleftrightarrow> (\<exists>l. map_of (lanes reg) lid = Some l \<and> fencing_token l = tok)"

lemma holds_delete: "holds (reg\<lparr>lanes := AList.delete k (lanes reg)\<rparr>) lid tok \<Longrightarrow> holds reg lid tok"
  by (auto simp: holds_def dict_simps split: if_splits)

lemma require_holds:
  assumes "require_lane_locked l t now reg = (r, reg')"
  shows "last_fence reg' = last_fence reg" "holds reg' lid tok \<Longrightarrow> holds reg lid tok"
  using assms
  by (auto simp: require_lane_locked_def holds_def dict_simps split: option.splits if_splits)

lemma reap_holds:
  "registry_inv env reg \<Longrightarrow> holds (snd (reap_expired_locked now reg)) lid tok \<Longrightarrow> holds reg lid tok"
  by (auto simp: holds_def map_of_reap split: option.splits if_splits)

text \<open>A step never lowers the fence counter, and every token it adds to the table is fresh.\<close>

definition fence_step :: "registry \<Rightarrow> registry \<Rightarrow> bool" where
  "fence_step reg reg' \<longleftrightarrow> last_fence reg \<le> last_fence reg'
     \<and> (\<forall>lid tok. holds reg' lid tok \<longrightarrow> holds reg lid tok \<or> last_fence reg < tok)"

lemma fence_step_open:
  assumes inv: "registry_inv env reg"
  shows "fence_step reg (fst (snd (open_lane env alloc lid tid caps cs ttl now reg s)))"
proof -
  obtain r reg' s' where o: "open_lane env alloc lid tid caps cs ttl now reg s = (r, reg', s')"
    by (metis prod_cases3)
  show ?thesis
  proof (cases r)
    case (Inl e)
    then show ?thesis
      using open_lane_Inl o reap_holds [OF inv] by (fastforce simp: fence_step_def)
  next
    case (Inr l)
    note facts = open_lane_Inr [OF o [unfolded Inr]]
    show ?thesis
      using facts(6) reap_holds [OF inv] unfolding o fence_step_def facts(8)
      by (fastforce simp: holds_def dict_simps split: if_splits)
  qed
qed

lemma fence_step_refl [simp]: "fence_step reg reg"
  by (simp add: fence_step_def)

lemma fence_step_trans: "fence_step a b \<Longrightarrow> fence_step b c \<Longrightarrow> fence_step a c"
  unfolding fence_step_def by (meson order.strict_trans1 order_trans)

lemma fence_step_delete: "fence_step reg (reg\<lparr>lanes := AList.delete k (lanes reg)\<rparr>)"
  by (auto simp: fence_step_def dest: holds_delete)

lemma fence_step_require: "fence_step reg (snd (require_lane_locked lid tok now reg))"
  by (auto simp: require_lane_locked_def fence_step_delete split: option.split)

lemma fence_step_reap: "registry_inv env reg \<Longrightarrow> fence_step reg (snd (reap_expired_locked now reg))"
  by (auto simp: fence_step_def dest: reap_holds)

lemma fence_step_renew: "fence_step reg (snd (renew lid tok ttl now reg))"
proof (cases "renew lid tok ttl now reg")
  case (Pair r reg')
  show ?thesis
  proof (cases r)
    case (Inl e)
    then show ?thesis using Pair renew_Inl fence_step_require by fastforce
  next
    case (Inr l)
    then obtain l0 where "map_of (lanes reg) lid = Some l0" "fencing_token l = fencing_token l0"
      "reg' = reg\<lparr>lanes := AList.update lid l (lanes reg)\<rparr>"
      using Pair by (auto simp: renew_ok)
    then show ?thesis unfolding Pair by (auto simp: fence_step_def holds_def dict_simps)
  qed
qed

lemma fence_step_close: "fence_step reg (snd (close lid tok now reg))"
proof (cases "require_lane_locked lid tok now reg")
  case (Pair r reg1)
  then have "fence_step reg reg1" using fence_step_require by (metis snd_conv)
  then show ?thesis
    by (cases r) (auto simp: close_def Pair intro: fence_step_trans fence_step_delete)
qed

lemma authorize_snd [simp]:
  "snd (authorize env lid tok cap rk rm now reg) = snd (require_lane_locked lid tok now reg)"
  by (auto simp: authorize_def split: prod.splits sum.splits option.splits bool.splits)

lemma reg_step_fence:
  "reg_step env alloc c c' \<Longrightarrow> registry_inv env (fst c) \<Longrightarrow> fence_step (fst c) (fst c')"
  by (induction rule: reg_step.induct)
    (simp_all add: fence_step_open fence_step_renew fence_step_close fence_step_require
      fence_step_reap snapshot_def Let_def)

lemma reg_steps_fence:
  "(reg_step env alloc)\<^sup>*\<^sup>* c c' \<Longrightarrow> registry_inv env (fst c)
   \<Longrightarrow> registry_inv env (fst c') \<and> fence_step (fst c) (fst c')"
proof (induction rule: rtranclp_induct)
  case base
  then show ?case by simp
next
  case (step d e)
  then have "registry_inv env (fst d)" "fence_step (fst c) (fst d)" by auto
  with step.hyps(2) show ?case by (auto intro: reg_step_inv fence_step_trans reg_step_fence)
qed

section \<open>The lease table\<close>

text \<open>
  The abstract view: at time \<open>now\<close> the registry is the map of the leases that have not expired,
  whatever expired entries the table still holds.
\<close>

definition live :: "pyfloat \<Rightarrow> registry \<Rightarrow> string \<Rightarrow> lane option" where
  "live now reg lid =
     (case map_of (lanes reg) lid of None \<Rightarrow> None | Some l \<Rightarrow> if expired now l then None else Some l)"

definition lease :: "(string \<Rightarrow> lane option) \<Rightarrow> string \<Rightarrow> int \<Rightarrow> lane option" where
  "lease m lid tok =
     (case m lid of None \<Rightarrow> None | Some l \<Rightarrow> if fencing_token l = tok then Some l else None)"

lemma live_reap: "registry_inv env reg \<Longrightarrow> live now (snd (reap_expired_locked now reg)) = live now reg"
  by (rule ext) (simp add: live_def map_of_reap split: option.splits)

lemma lease_live_iff:
  "lease (live now reg) lid tok = Some l \<longleftrightarrow>
     map_of (lanes reg) lid = Some l \<and> fencing_token l = tok \<and> \<not> expired now l"
  by (auto simp: lease_def live_def split: option.splits if_splits)

lemma require_live: "live now (snd (require_lane_locked lid tok now reg)) = live now reg"
  by (rule ext) (auto simp: live_def require_lane_locked_def dict_simps split: option.splits)

lemma require_lease:
  "fst (require_lane_locked lid tok now reg) = Inr l \<longleftrightarrow> lease (live now reg) lid tok = Some l"
  by (auto simp: require_lane_locked_def lease_live_iff split: option.splits if_splits)

lemma live_update: "\<not> expired now l \<Longrightarrow>
   live now (reg\<lparr>lanes := AList.update lid l (lanes reg)\<rparr>) = (live now reg)(lid \<mapsto> l)"
  by (rule ext) (simp add: live_def dict_simps)

lemma live_delete: "live now (reg\<lparr>lanes := AList.delete lid (lanes reg)\<rparr>) = (live now reg)(lid := None)"
  by (rule ext) (simp add: live_def dict_simps)

lemma live_fence [simp]: "live now (reg\<lparr>last_fence := f\<rparr>) = live now reg"
  by (rule ext) (simp add: live_def)

lemma fresh_not_expired:
  "\<not> fle ttl (Fin 0) \<Longrightarrow> expires_at l = fadd (Fin t) ttl \<Longrightarrow> \<not> expired (Fin t) l"
  by (cases "ttl = NaN") (auto simp: expired_def float_simps dest: fadd_pos_gt)

lemma authorize_Inr:
  "authorize env lid tok cap rk rm now reg = (Inr l, reg') \<longleftrightarrow>
     reg' = reg \<and> map_of (lanes reg) lid = Some l \<and> fencing_token l = tok \<and> \<not> expired now l
     \<and> cap \<in> capabilities l \<and> (rk = None \<or>
        (\<exists>k md. rk = Some k \<and> rm = Some md \<and> any_claim_covers env (claims l) k md = Inr True))"
proof (cases "require_lane_locked lid tok now reg")
  case (Pair r reg1)
  show ?thesis
  proof (cases r)
    case (Inl e)
    then have "\<not> (map_of (lanes reg) lid = Some l \<and> fencing_token l = tok \<and> \<not> expired now l)"
      using Pair by (auto simp: require_lane_locked_def split: if_splits)
    then show ?thesis using Pair Inl by (auto simp: authorize_def)
  next
    case (Inr l1)
    then have "reg1 = reg" "map_of (lanes reg) lid = Some l1" "fencing_token l1 = tok" "\<not> expired now l1"
      using Pair by (auto simp: require_ok)
    then show ?thesis using Pair Inr by (auto simp: authorize_def split: option.splits sum.splits bool.splits)
  qed
qed

lemma authorize_snd_of_Inr:
  "fst (authorize env lid tok cap rk rm now reg) = Inr l \<Longrightarrow>
   authorize env lid tok cap rk rm now reg = (Inr l, reg)"
  using authorize_Inr by (metis prod.collapse)

lemma authorize_lease:
  "fst (authorize env lid tok cap rk rm now reg) = Inr l \<longleftrightarrow>
     lease (live now reg) lid tok = Some l \<and> cap \<in> capabilities l \<and> (rk = None \<or>
       (\<exists>k md. rk = Some k \<and> rm = Some md \<and> any_claim_covers env (claims l) k md = Inr True))"
  (is "?L = ?R")
proof
  assume ?L
  then have "authorize env lid tok cap rk rm now reg = (Inr l, reg)" by (rule authorize_snd_of_Inr)
  then show ?R unfolding authorize_Inr lease_live_iff by blast
next
  assume ?R
  then have "authorize env lid tok cap rk rm now reg = (Inr l, reg)"
    unfolding authorize_Inr lease_live_iff by blast
  then show ?L by simp
qed

lemma renew_live:
  "live (Fin t) (snd (renew lid tok ttl (Fin t) reg)) =
     (if fle ttl (Fin 0) then live (Fin t) reg
      else case lease (live (Fin t) reg) lid tok of None \<Rightarrow> live (Fin t) reg
        | Some l \<Rightarrow> (live (Fin t) reg)(lid \<mapsto> l\<lparr>expires_at := fadd (Fin t) ttl\<rparr>))"
proof (cases "require_lane_locked lid tok (Fin t) reg")
  case (Pair r reg1)
  have live1: "live (Fin t) reg1 = live (Fin t) reg" using require_live Pair by (metis snd_conv)
  show ?thesis
  proof (cases r)
    case (Inl e)
    then have "lease (live (Fin t) reg) lid tok = None"
      using Pair require_lease [of lid tok "Fin t" reg] by (cases "lease (live (Fin t) reg) lid tok") auto
    then show ?thesis using Pair Inl live1 by (simp add: renew_def)
  next
    case (Inr l)
    have "lease (live (Fin t) reg) lid tok = Some l"
      using Pair Inr require_lease [of lid tok "Fin t" reg l] by simp
    moreover have "\<not> fle ttl (Fin 0) \<Longrightarrow> \<not> expired (Fin t) (l\<lparr>expires_at := fadd (Fin t) ttl\<rparr>)"
      by (rule fresh_not_expired) simp_all
    ultimately show ?thesis
      using Pair Inr live1 by (simp add: renew_def Let_def live_update)
  qed
qed

lemma close_live:
  "live now (snd (close lid tok now reg)) =
     (case lease (live now reg) lid tok of None \<Rightarrow> live now reg | Some l \<Rightarrow> (live now reg)(lid := None))"
proof (cases "require_lane_locked lid tok now reg")
  case (Pair r reg1)
  have live1: "live now reg1 = live now reg" using require_live Pair by (metis snd_conv)
  show ?thesis
  proof (cases r)
    case (Inl e)
    then have "lease (live now reg) lid tok = None"
      using Pair require_lease [of lid tok now reg] by (cases "lease (live now reg) lid tok") auto
    then show ?thesis using Pair Inl live1 by (simp add: close_def)
  next
    case (Inr l)
    have "lease (live now reg) lid tok = Some l"
      using Pair Inr require_lease [of lid tok now reg l] by simp
    then show ?thesis using Pair Inr live1 by (simp add: close_def live_delete)
  qed
qed

lemma card_dom_live:
  assumes "registry_inv env reg"
  shows "card (dom (live now reg)) = length (lanes (snd (reap_expired_locked now reg)))"
proof -
  let ?ls = "lanes (snd (reap_expired_locked now reg))"
  have "live now reg = map_of ?ls"
    by (rule ext) (simp add: live_def map_of_reap [OF assms])
  then have "dom (live now reg) = set (map fst ?ls)" by (simp add: dom_map_of_conv_image_fst)
  then show ?thesis
    using registry_invD(1) [OF reap_inv [OF assms]] distinct_card [of "map fst ?ls"] by simp
qed

lemma open_live:
  assumes inv: "registry_inv env reg"
    and o: "open_lane env alloc lid tid caps cs ttl (Fin t) reg s = (Inr l, reg', s')"
  shows "live (Fin t) reg lid = None \<and> caps \<subseteq> session_capabilities reg
    \<and> int (card (dom (live (Fin t) reg))) < max_lanes reg
    \<and> live (Fin t) reg' = (live (Fin t) reg)(lid \<mapsto> l)"
proof -
  note f = open_lane_Inr [OF o]
  let ?reg1 = "snd (reap_expired_locked (Fin t) reg)"
  have "live (Fin t) reg lid = None"
    using f(3) unfolding map_of_reap [OF inv] by (simp add: live_def)
  moreover have "int (card (dom (live (Fin t) reg))) < max_lanes reg"
    using f(4) by (simp add: card_dom_live [OF inv])
  moreover have "\<not> expired (Fin t) l"
    by (rule fresh_not_expired [OF f(2)], subst f(7), simp)
  then have "live (Fin t) reg' = (live (Fin t) reg)(lid \<mapsto> l)"
    using live_update [where now = "Fin t" and l = l and lid = lid and reg = "?reg1\<lparr>last_fence := fencing_token l\<rparr>"]
      live_reap [OF inv, of "Fin t"] unfolding f(8) by simp
  ultimately show ?thesis using f(1) by blast
qed



lemma no_conflict_value:
  "CHR '':'' \<in> set (ckey a) \<Longrightarrow> CHR '':'' \<in> set (ckey b) \<Longrightarrow>
   \<exists>v. resources_overlap env (ckey a) (ckey b) = Inr v"
  using split1_eq_None_iff [of "CHR '':''" "ckey a"] split1_eq_None_iff [of "CHR '':''" "ckey b"]
  by (auto simp: resources_overlap_def Let_def split: option.splits)

lemma first_conflict_with_complete:
  assumes "CHR '':'' \<in> set (ckey a)"
    and "\<forall>b \<in> set bs. CHR '':'' \<in> set (ckey b) \<and> \<not> claims_conflict env a b"
  shows "first_conflict_with env a bs = Inr None"
  using assms(2)
proof (induction bs)
  case (Cons b bs)
  then obtain v where "resources_overlap env (ckey a) (ckey b) = Inr v"
    using no_conflict_value assms(1) by fastforce
  then show ?case using Cons by (auto simp: claims_conflict_def)
qed simp

lemma first_conflict_complete:
  "\<forall>a \<in> set cs. CHR '':'' \<in> set (ckey a) \<Longrightarrow>
   \<forall>b \<in> set bs. CHR '':'' \<in> set (ckey b) \<and> (\<forall>a \<in> set cs. \<not> claims_conflict env a b) \<Longrightarrow>
   first_conflict env cs bs = Inr None"
  by (induction cs) (simp_all add: first_conflict_with_complete)

lemma check_collisions_complete:
  assumes "\<forall>a \<in> set cs. CHR '':'' \<in> set (ckey a)"
    and "\<And>l b. l \<in> set ls \<Longrightarrow> b \<in> set (claims l) \<Longrightarrow>
      CHR '':'' \<in> set (ckey b) \<and> (\<forall>a \<in> set cs. \<not> claims_conflict env a b)"
  shows "check_collisions env cs ls = Inr ()"
  using assms(2)
proof (induction ls)
  case (Cons l ls)
  have "\<forall>b \<in> set (claims l). CHR '':'' \<in> set (ckey b) \<and> (\<forall>a \<in> set cs. \<not> claims_conflict env a b)"
    using Cons.prems [of l] by simp
  then have "first_conflict env cs (claims l) = Inr None"
    by (rule first_conflict_complete [OF assms(1)])
  moreover have "check_collisions env cs ls = Inr ()" by (rule Cons.IH) (use Cons.prems in auto)
  ultimately show ?case by simp
qed simp

section \<open>A concrete registry\<close>

definition demo_registry :: registry where
  "demo_registry = \<lparr>session_capabilities = {''fs.read'', ''fs.write''}, max_lanes = 2, lanes = [],
     last_fence = 0\<rparr>"

definition demo_lane :: lane where
  "demo_lane = \<lparr>lane_id = ''s::a'', task_id = ''t'', capabilities = {''fs.write''},
     claims = [ResourceClaim ''fs:/w'' WRITE], fencing_token = 1, expires_at = Fin 310\<rparr>"

definition demo_open_registry :: registry where
  "demo_open_registry = demo_registry\<lparr>lanes := [(''s::a'', demo_lane)], last_fence := 1\<rparr>"

lemma demo_not_blank [simp]: "\<not> is_blank (CHR ''s'' # s)" "\<not> is_blank (CHR ''t'' # s)"
  by (rule not_blankI, simp add: py_whitespace_def)+

lemma demo_open:
  "open_lane posix_env None ''s::a'' ''t'' {''fs.write''} [ResourceClaim ''fs:/w'' WRITE]
     (Fin 300) (Fin 10) demo_registry s = (Inr demo_lane, demo_open_registry, s)"
  by (simp add: open_lane_def demo_registry_def demo_lane_def demo_open_registry_def
      reap_expired_locked_def take_fence_def Let_def)

lemma demo_covers:
  "claim_covers posix_env (ResourceClaim ''fs:/w'' WRITE) ''fs:/w/x'' WRITE = Inr True"
  "claim_covers posix_env (ResourceClaim ''fs:/w'' WRITE) ''fs:/w'' WRITE = Inr True"
  by code_simp+

lemma demo_overlap: "resources_overlap posix_env ''fs:/w/x'' ''fs:/w'' = Inr True"
  by code_simp

lemma demo_authorize:
  assumes "k = ''fs:/w/x'' \<or> k = ''fs:/w''"
  shows "authorize posix_env ''s::a'' 1 ''fs.write'' (Some k) (Some WRITE) (Fin 20) demo_open_registry
    = (Inr demo_lane, demo_open_registry)"
  using assms
  by (auto simp: authorize_def require_lane_locked_def demo_open_registry_def demo_lane_def
      expired_def demo_covers)

lemma demo_start: "LaneRegistry {''fs.read'', ''fs.write''} 2 = Inr demo_registry"
  by (simp add: LaneRegistry_def demo_registry_def)

lemma demo_reach: "reg_reach posix_env None (demo_open_registry, ())"
proof -
  have "reg_step posix_env None (demo_registry, ()) (snd (open_lane posix_env None ''s::a'' ''t''
      {''fs.write''} [ResourceClaim ''fs:/w'' WRITE] (Fin 300) (Fin 10) demo_registry ()))"
    by (rule reg_step.open_step)
  then show ?thesis
    using reg_reach.step [OF reg_reach.start [OF demo_start]] unfolding demo_open by simp
qed

section \<open>Properties\<close>

text \<open>
  (C1) Mutual exclusion of claims. In every reachable registry, two authorized accesses to
  overlapping resources, one of them for writing, are by the same lane with the same token: no
  other lane can read or write what a lane may write.
\<close>

theorem lane_exclusion:
  assumes "reg_reach env alloc (reg, s)"
    and "authorize env lid tok cap (Some k) (Some m) now reg = (Inr l, reg1)"
    and "authorize env lid' tok' cap' (Some k') (Some m') now' reg1 = (Inr l', reg2)"
    and "resources_overlap env k k' = Inr True" and "m = WRITE \<or> m' = WRITE"
  shows "lid = lid' \<and> tok = tok' \<and> l = l'"
proof -
  have inv: "registry_inv env reg" using reg_reach_inv [OF assms(1)] by simp
  obtain 1: "map_of (lanes reg) lid = Some l" "fencing_token l = tok" "reg1 = reg"
    and c: "any_claim_covers env (claims l) k m = Inr True"
    using assms(2) by (auto simp: authorize_Inr)
  obtain 2: "map_of (lanes reg) lid' = Some l'" "fencing_token l' = tok'"
    and c': "any_claim_covers env (claims l') k' m' = Inr True"
    using assms(3) \<open>reg1 = reg\<close> by (auto simp: authorize_Inr)
  obtain a b where ab: "a \<in> set (claims l)" "b \<in> set (claims l')"
    and "claim_covers env a k m = Inr True" "claim_covers env b k' m' = Inr True"
    using any_claim_covers_True c c' by metis
  then have "claims_conflict env a b" using covering_claims_conflict assms(4,5) by metis
  then have "\<not> lanes_compatible env l l'" using ab by (auto simp: lanes_compatible_def)
  then have "lid = lid'" using registry_invD(3) [OF inv 1(1) 2(1)] by blast
  then show ?thesis using 1 2 by simp
qed

theorem lane_exclusion_witness:
  "reg_reach posix_env None (demo_open_registry, ()) \<and>
   authorize posix_env ''s::a'' 1 ''fs.write'' (Some ''fs:/w/x'') (Some WRITE) (Fin 20) demo_open_registry
     = (Inr demo_lane, demo_open_registry) \<and>
   authorize posix_env ''s::a'' 1 ''fs.write'' (Some ''fs:/w'') (Some WRITE) (Fin 20) demo_open_registry
     = (Inr demo_lane, demo_open_registry) \<and>
   ''s::a'' = ''s::a'' \<and> (1::int) = 1 \<and> demo_lane = demo_lane"
  using lane_exclusion [OF demo_reach demo_authorize demo_authorize demo_overlap]
    demo_reach demo_authorize by blast

text \<open>
  (C2) Fencing. Once a lane id does not hold a token that was already handed out (the lane was
  closed, expired or reopened), no sequence of registry operations makes that token usable
  again: authorize, renew and close all refuse it.
\<close>

theorem stale_token_rejected:
  assumes "reg_reach env alloc c" and "(reg_step env alloc)\<^sup>*\<^sup>* c c'"
    and "\<not> holds (fst c) lid tok" and "tok \<le> last_fence (fst c)"
  shows "fst (authorize env lid tok cap rk rm now (fst c')) \<noteq> Inr l
    \<and> fst (renew lid tok ttl now (fst c')) \<noteq> Inr l \<and> fst (close lid tok now (fst c')) \<noteq> Inr l"
proof -
  have "fence_step (fst c) (fst c')"
    using reg_steps_fence [OF assms(2) reg_reach_inv [OF assms(1)]] by blast
  then have no: "\<not> holds (fst c') lid tok" 
    using assms(3,4) unfolding fence_step_def by (metis linorder_not_less)
  then have "\<nexists>x. fst (require_lane_locked lid tok now (fst c')) = Inr x"
    by (auto simp: holds_def require_lease lease_live_iff)
  then show ?thesis
    by (auto simp: authorize_def renew_def close_def Let_def split: prod.splits sum.splits)
qed

theorem stale_token_rejected_witness:
  "reg_reach posix_env None (demo_open_registry, ()) \<and>
   fst (authorize posix_env ''s::a'' 0 ''fs.write'' None None (Fin 20) demo_open_registry) \<noteq> Inr demo_lane"
proof -
  have "\<not> holds (fst (demo_open_registry, ())) ''s::a'' 0"
    by (simp add: holds_def demo_open_registry_def demo_lane_def)
  moreover have "0 \<le> last_fence (fst (demo_open_registry, ()))" by (simp add: demo_open_registry_def)
  ultimately show ?thesis
    using stale_token_rejected [OF demo_reach rtranclp.rtrancl_refl] demo_reach by fastforce
qed



text \<open>
  Admission. A request to open a lane with non-blank ids, a positive lease time,
  capabilities within the ceiling, a free id, a free slot and namespaced claims that conflict with
  no unexpired lane is granted: with the built-in counter the lane gets the next token and the
  expiry \<open>now + ttl\<close>.
\<close>

theorem open_lane_admits:
  assumes "reg_reach env None (reg, s)"
    and "\<not> is_blank lid" "\<not> is_blank tid" "\<not> fle ttl (Fin 0)" "caps \<subseteq> session_capabilities reg"
    and "live now reg lid = None" "int (card (dom (live now reg))) < max_lanes reg"
    and "\<forall>c \<in> set cs. CHR '':'' \<in> set (ckey c)"
    and "\<forall>k l. live now reg k = Some l \<longrightarrow> (\<forall>b \<in> set (claims l). CHR '':'' \<in> set (ckey b)
           \<and> (\<forall>a \<in> set cs. \<not> claims_conflict env a b))"
  shows "fst (open_lane env None lid tid caps cs ttl now reg s) =
    Inr \<lparr>lane_id = lid, task_id = tid, capabilities = caps, claims = sorted_list_of_set (set cs),
         fencing_token = last_fence reg + 1, expires_at = fadd now ttl\<rparr>"
proof -
  let ?reg1 = "snd (reap_expired_locked now reg)"
  have inv: "registry_inv env reg" using reg_reach_inv [OF assms(1)] by simp
  have lv: "map_of (lanes ?reg1) k = live now reg k" for k
    by (simp add: live_def map_of_reap [OF inv])
  have free: "map_of (lanes ?reg1) lid = None" using lv assms(6) by simp
  have room: "\<not> max_lanes reg \<le> int (length (lanes ?reg1))"
    using assms(7) by (simp add: card_dom_live [OF inv])
  have "check_collisions env (sorted_list_of_set (set cs)) (map snd (lanes ?reg1)) = Inr ()"
  proof (rule check_collisions_complete)
    show "\<forall>a \<in> set (sorted_list_of_set (set cs)). CHR '':'' \<in> set (ckey a)" using assms(8) by simp
    fix l b assume "l \<in> set (map snd (lanes ?reg1))" and b: "b \<in> set (claims l)"
    then obtain k where "(k, l) \<in> set (lanes ?reg1)" by auto
    then have "live now reg k = Some l"
      using lv registry_invD(1) [OF reap_inv [OF inv, of now]] by (metis map_of_is_SomeI)
    then show "CHR '':'' \<in> set (ckey b) \<and>
        (\<forall>a \<in> set (sorted_list_of_set (set cs)). \<not> claims_conflict env a b)"
      using assms(9) b by simp
  qed
  then show ?thesis
    using assms(2-5) free room by (simp add: open_lane_def take_fence_def Let_def)
qed

theorem open_lane_admits_witness:
  "reg_reach posix_env None (demo_registry, ()) \<and>
   fst (open_lane posix_env None ''s::b'' ''t'' {''fs.read''} [ResourceClaim ''fs:/r'' READ] (Fin 60)
     (Fin 5) demo_registry ()) =
    Inr \<lparr>lane_id = ''s::b'', task_id = ''t'', capabilities = {''fs.read''},
         claims = sorted_list_of_set (set [ResourceClaim ''fs:/r'' READ]),
         fencing_token = last_fence demo_registry + 1, expires_at = fadd (Fin 5) (Fin 60)\<rparr>"
proof -
  have r: "reg_reach posix_env None (demo_registry, ())" by (rule reg_reach.start [OF demo_start])
  have l: "live (Fin 5) demo_registry = (\<lambda>_. None)" by (rule ext) (simp add: live_def demo_registry_def)
  show ?thesis
    using open_lane_admits [OF r, of "''s::b''" "''t''" "Fin 60" "{''fs.read''}" "Fin 5"
        "[ResourceClaim ''fs:/r'' READ]"] r l
    by (simp add: demo_registry_def)
qed

text \<open>
  A lease time that is not a number passes the check \<^verbatim>\<open>ttl_s <= 0\<close> and gives a lane that never
  expires: at no time does the registry reap it or refuse its token for expiry. The same holds of
  a renewal.
\<close>

theorem nan_ttl_never_expires:
  "(fst (open_lane env alloc lid tid caps cs NaN now reg s) = Inr l \<longrightarrow> \<not> expired later l)
   \<and> (fst (renew lid tok NaN now reg) = Inr l \<longrightarrow> \<not> expired later l)"
proof -
  have "\<not> expired later l" if o: "fst (open_lane env alloc lid tid caps cs NaN now reg s) = Inr l"
  proof -
    obtain reg' s' where "open_lane env alloc lid tid caps cs NaN now reg s = (Inr l, reg', s')"
      using o by (metis prod.collapse)
    from open_lane_Inr(7) [OF this] have "expires_at l = NaN"
      by (metis fadd_NaN(1) lane.select_convs(6))
    then show ?thesis by (simp add: expired_def float_simps)
  qed
  moreover have "\<not> expired later l" if r: "fst (renew lid tok NaN now reg) = Inr l"
  proof -
    have "renew lid tok NaN now reg = (Inr l, snd (renew lid tok NaN now reg))"
      using r by (metis prod.collapse)
    then show ?thesis by (auto simp: renew_ok expired_def float_simps)
  qed
  ultimately show ?thesis by blast
qed

theorem nan_ttl_never_expires_witness:
  "\<exists>l. fst (open_lane posix_env None ''s::a'' ''t'' {''fs.write''} [ResourceClaim ''fs:/w'' WRITE]
       NaN (Fin 10) demo_registry ()) = Inr l \<and> \<not> expired (Fin 1000000) l"
proof -
  obtain l where "fst (open_lane posix_env None ''s::a'' ''t'' {''fs.write''}
       [ResourceClaim ''fs:/w'' WRITE] NaN (Fin 10) demo_registry ()) = Inr l"
    by (simp add: open_lane_def demo_registry_def reap_expired_locked_def take_fence_def Let_def)
  moreover from this have "\<not> expired (Fin 1000000) l"
    by (rule nan_ttl_never_expires [THEN conjunct1, THEN mp])
  ultimately show ?thesis by blast
qed

end
