(* ===== verification/Request_Ledger.thy ===== *)
theory Request_Ledger
  imports Lane_Registry
begin

text \<open>
  \<^verbatim>\<open>state.py\<close>: the durable store of the workstation agent, a fence counter and a ledger of mutation
  requests. The SQLite file is the record \<open>state_store\<close>: the row of the \<^verbatim>\<open>metadata\<close> table and the
  rows of the \<^verbatim>\<open>requests\<close> table by primary key. Each operation is one transaction; the flag \<open>fault\<close>
  is a database error raised inside it, which rolls the transaction back.
\<close>

section \<open>The store\<close>

datatype row_status = PENDING | COMPLETED

record request_row =
  request_sha256 :: string
  status :: row_status
  response_json :: "string option"
  started_at_ms :: int
  completed_at_ms :: "int option"

record state_store =
  max_mutation_requests :: int
  warn_at_records :: int
  fence_counter :: "int option"
  requests :: "(string \<times> request_row) list"

datatype begin_disposition = NEW | REPLAY dict

definition default_warn :: "int \<Rightarrow> int" where
  "default_warn n = max 1 (trunc (of_int n * 9 / 10))"

definition AgentStateStore :: "int \<Rightarrow> int option \<Rightarrow> state_store result" where
  "AgentStateStore n warn =
     (if n < 1 then Inl (Py ValueError)
      else let w = (case warn of None \<Rightarrow> default_warn n | Some w \<Rightarrow> w) in
        if w < 1 \<or> w > n then Inl (Py ValueError)
        else Inr \<lparr>max_mutation_requests = n, warn_at_records = w, fence_counter = None,
                  requests = []\<rparr>)"

definition next_fence :: "bool \<Rightarrow> state_store \<Rightarrow> int result \<times> state_store" where
  "next_fence fault st =
     (if fault then (Inl (Py SqliteError), st)
      else let current = (case fence_counter st of None \<Rightarrow> 0 | Some v \<Rightarrow> v); v = current + 1
        in (Inr v, st\<lparr>fence_counter := Some v\<rparr>))"

definition request_record_count :: "state_store \<Rightarrow> int" where
  "request_record_count st = int (length (requests st))"

definition request_ledger_health :: "state_store \<Rightarrow> dict" where
  "request_ledger_health st =
     (let n = request_record_count st;
          s = (if n \<ge> max_mutation_requests st then ''FULL_FAIL_CLOSED''
               else if n \<ge> warn_at_records st then ''DEGRADED_NEAR_CAPACITY''
               else ''HEALTHY'')
      in [(''schema'', JStr ''VERAPORT_REQUEST_LEDGER_HEALTH_V1''),
          (''status'', JStr s),
          (''mutation_records'', JInt n),
          (''warn_at_records'', JInt (warn_at_records st)),
          (''max_mutation_requests'', JInt (max_mutation_requests st)),
          (''remaining_new_mutations'', JInt (max 0 (max_mutation_requests st - n))),
          (''retention'', JStr ''NO_AUTOMATIC_EVICTION_FAIL_CLOSED_AT_CAPACITY'')])"

definition begin_request ::
  "pyenv \<Rightarrow> bool \<Rightarrow> string \<Rightarrow> string \<Rightarrow> int \<Rightarrow> state_store \<Rightarrow> begin_disposition result \<times> state_store"
  where
  "begin_request env fault rid sha now st =
     (if fault then (Inl (Store StateStoreError), st)
      else case map_of (requests st) rid of
        None \<Rightarrow>
          if request_record_count st \<ge> max_mutation_requests st
          then (Inl (Store RequestLedgerCapacityExceeded), st)
          else (Inr NEW, st\<lparr>requests := AList.update rid
                 \<lparr>request_sha256 = sha, status = PENDING, response_json = None,
                  started_at_ms = now, completed_at_ms = None\<rparr> (requests st)\<rparr>)
      | Some row \<Rightarrow>
          if request_sha256 row \<noteq> sha then (Inl (Store IdempotencyConflict), st)
          else if status row = COMPLETED then
            (case response_json row of
               None \<Rightarrow> (Inl (Store StateStoreError), st)
             | Some text \<Rightarrow>
                 (case json_loads env text of
                    Inl e \<Rightarrow> (Inl e, st)
                  | Inr (JObj v) \<Rightarrow> (Inr (REPLAY v), st)
                  | Inr _ \<Rightarrow> (Inl (Store StateStoreError), st)))
          else (Inl (Store RequestOutcomeUnknown), st))"

definition complete_request ::
  "pyenv \<Rightarrow> bool \<Rightarrow> string \<Rightarrow> string \<Rightarrow> dict \<Rightarrow> int \<Rightarrow> state_store \<Rightarrow> unit result \<times> state_store" where
  "complete_request env fault rid sha response now st =
     (let payload = json_dumps env (JObj response) in
      if fault then (Inl (Store StateStoreError), st)
      else case map_of (requests st) rid of
        None \<Rightarrow> (Inl (Store StateStoreError), st)
      | Some row \<Rightarrow>
          if request_sha256 row \<noteq> sha then (Inl (Store IdempotencyConflict), st)
          else if status row = COMPLETED then
            (if response_json row \<noteq> Some payload then (Inl (Store IdempotencyConflict), st)
             else (Inr (), st))
          else (Inr (), st\<lparr>requests := AList.update rid
                 (row\<lparr>status := COMPLETED, response_json := Some payload,
                      completed_at_ms := Some now\<rparr>) (requests st)\<rparr>))"

section \<open>The fence counter is a fence source\<close>

definition fence_high :: "state_store \<Rightarrow> int" where
  "fence_high st = (case fence_counter st of None \<Rightarrow> 0 | Some v \<Rightarrow> v)"

interpretation durable_fence: fence_source "next_fence fault" fence_high
  by unfold_locales (auto simp: next_fence_def fence_high_def Let_def split: if_splits)

section \<open>Ledger histories\<close>

datatype ledger_op =
    Begin bool string string int
  | Complete bool string string dict int
  | NextFence bool

datatype ledger_out = Began "begin_disposition result" | Finished "unit result" | Fenced "int result"

fun ledger_exec :: "pyenv \<Rightarrow> ledger_op \<Rightarrow> state_store \<Rightarrow> ledger_out \<times> state_store" where
  "ledger_exec env (Begin f rid sha now) st =
     (let (r, st') = begin_request env f rid sha now st in (Began r, st'))"
| "ledger_exec env (Complete f rid sha resp now) st =
     (let (r, st') = complete_request env f rid sha resp now st in (Finished r, st'))"
| "ledger_exec env (NextFence f) st = (let (r, st') = next_fence f st in (Fenced r, st'))"

fun ledger_run :: "pyenv \<Rightarrow> ledger_op list \<Rightarrow> state_store \<Rightarrow> ledger_out list \<times> state_store" where
  "ledger_run env [] st = ([], st)"
| "ledger_run env (x # xs) st =
     (let (out, st') = ledger_exec env x st; (outs, st'') = ledger_run env xs st'
      in (out # outs, st''))"

definition admits :: "string \<Rightarrow> ledger_op \<times> ledger_out \<Rightarrow> bool" where
  "admits rid p = (case p of (Begin f r sha now, Began (Inr NEW)) \<Rightarrow> r = rid | _ \<Rightarrow> False)"

text \<open>The number of times a history admits a request id for execution.\<close>

definition admissions :: "pyenv \<Rightarrow> ledger_op list \<Rightarrow> state_store \<Rightarrow> string \<Rightarrow> nat" where
  "admissions env xs st rid = length (filter (admits rid) (zip xs (fst (ledger_run env xs st))))"

section \<open>Rows only move forward\<close>

text \<open>No operation removes a row, changes its digest, or changes a completed row.\<close>

definition row_later :: "request_row \<Rightarrow> request_row \<Rightarrow> bool" where
  "row_later r r' \<longleftrightarrow> request_sha256 r' = request_sha256 r \<and> (status r = COMPLETED \<longrightarrow> r' = r)"

definition ledger_later :: "state_store \<Rightarrow> state_store \<Rightarrow> bool" where
  "ledger_later st st' \<longleftrightarrow> fence_high st \<le> fence_high st' \<and>
     (\<forall>rid r. map_of (requests st) rid = Some r \<longrightarrow>
        (\<exists>r'. map_of (requests st') rid = Some r' \<and> row_later r r'))"

lemma ledger_later_refl [simp]: "ledger_later st st"
  by (simp add: ledger_later_def row_later_def)

lemma ledger_later_trans: "ledger_later a b \<Longrightarrow> ledger_later b c \<Longrightarrow> ledger_later a c"
  unfolding ledger_later_def row_later_def by (metis order_trans)

lemma begin_later: "ledger_later st (snd (begin_request env f rid sha now st))"
  by (auto simp: begin_request_def ledger_later_def row_later_def dict_simps fence_high_def
      split: option.splits sum.splits json.splits)

lemma complete_later: "ledger_later st (snd (complete_request env f rid sha resp now st))"
  by (auto simp: complete_request_def ledger_later_def row_later_def dict_simps fence_high_def Let_def
      split: option.splits)

lemma next_fence_later: "ledger_later st (snd (next_fence f st))"
  by (auto simp: next_fence_def ledger_later_def row_later_def fence_high_def Let_def split: option.splits)

lemma exec_later: "ledger_later st (snd (ledger_exec env x st))"
  using begin_later complete_later next_fence_later
  by (cases x) (auto simp: split_beta Let_def)

lemma run_later: "ledger_later st (snd (ledger_run env xs st))"
proof (induction xs arbitrary: st)
  case (Cons x xs)
  show ?case using ledger_later_trans [OF exec_later Cons.IH] by (simp add: split_beta Let_def)
qed simp

lemma begin_NEW_iff:
  "fst (begin_request env f rid sha now st) = Inr NEW \<longleftrightarrow>
     \<not> f \<and> map_of (requests st) rid = None \<and> request_record_count st < max_mutation_requests st"
  by (auto simp: begin_request_def split: option.splits sum.splits json.splits)

lemma begin_NEW_row:
  "fst (begin_request env f rid sha now st) = Inr NEW \<Longrightarrow>
   map_of (requests (snd (begin_request env f rid sha now st))) rid \<noteq> None"
  unfolding begin_NEW_iff by (auto simp: begin_request_def dict_simps)

lemma known_never_admitted:
  "map_of (requests st) rid \<noteq> None \<Longrightarrow> admissions env xs st rid = 0"
proof (induction xs arbitrary: st)
  case Nil
  then show ?case by (simp add: admissions_def)
next
  case (Cons x xs)
  have known: "map_of (requests (snd (ledger_exec env x st))) rid \<noteq> None"
    using exec_later [of st env x] Cons.prems unfolding ledger_later_def by fastforce
  have "\<not> admits rid (x, fst (ledger_exec env x st))"
    using Cons.prems begin_NEW_iff
    by (cases x) (auto simp: admits_def split_beta Let_def split: sum.splits begin_disposition.splits)
  then show ?case
    using Cons.IH [OF known] by (simp add: admissions_def split_beta Let_def)
qed

lemma admissions_le_1: "admissions env xs st rid \<le> 1"
proof (induction xs arbitrary: st)
  case Nil
  then show ?case by (simp add: admissions_def)
next
  case (Cons x xs)
  let ?st' = "snd (ledger_exec env x st)"
  have step: "admissions env (x # xs) st rid =
      (if admits rid (x, fst (ledger_exec env x st)) then 1 else 0) + admissions env xs ?st' rid"
    by (simp add: admissions_def split_beta Let_def)
  show ?case
  proof (cases "admits rid (x, fst (ledger_exec env x st))")
    case True
    then have "map_of (requests ?st') rid \<noteq> None"
      using begin_NEW_row
      by (cases x) (auto simp: admits_def split_beta Let_def split: sum.splits begin_disposition.splits)
    then show ?thesis using step known_never_admitted by simp
  next
    case False
    then show ?thesis using step Cons.IH by simp
  qed
qed

section \<open>The invariant\<close>

definition row_ok :: "request_row \<Rightarrow> bool" where
  "row_ok r \<longleftrightarrow> (status r = COMPLETED \<longleftrightarrow> response_json r \<noteq> None)
     \<and> (status r = COMPLETED \<longleftrightarrow> completed_at_ms r \<noteq> None)"

definition store_inv :: "state_store \<Rightarrow> bool" where
  "store_inv st \<longleftrightarrow> distinct (map fst (requests st))
     \<and> request_record_count st \<le> max_mutation_requests st
     \<and> 1 \<le> warn_at_records st \<and> warn_at_records st \<le> max_mutation_requests st
     \<and> (\<forall>rid r. map_of (requests st) rid = Some r \<longrightarrow> row_ok r)"

lemma default_warn_bounds: "1 \<le> n \<Longrightarrow> 1 \<le> default_warn n \<and> default_warn n \<le> n"
  unfolding default_warn_def trunc_def by (simp add: floor_le_iff)

lemma AgentStateStore_inv: "AgentStateStore n w = Inr st \<Longrightarrow> store_inv st"
  by (auto simp: AgentStateStore_def store_inv_def request_record_count_def Let_def
      split: if_splits option.splits)

lemma store_put_inv:
  assumes inv: "store_inv st" and ok: "row_ok row"
    and room: "map_of (requests st) rid \<noteq> None \<or> request_record_count st < max_mutation_requests st"
  shows "store_inv (st\<lparr>requests := AList.update rid row (requests st)\<rparr>)"
proof -
  have "length (AList.update rid row (requests st)) \<le> Suc (length (requests st))"
    by (cases "map_of (requests st) rid") (simp_all add: length_update_new length_update_old)
  then have "int (length (AList.update rid row (requests st))) \<le> max_mutation_requests st"
    using inv room unfolding store_inv_def request_record_count_def
    by (cases "map_of (requests st) rid") (auto simp: length_update_new length_update_old)
  moreover have "\<forall>k r. map_of (AList.update rid row (requests st)) k = Some r \<longrightarrow> row_ok r"
    using inv ok unfolding store_inv_def dict_simps by simp
  ultimately show ?thesis
    using inv by (simp add: store_inv_def request_record_count_def distinct_update del: map_of_eq_Some_iff)
qed

lemma begin_cases:
  "snd (begin_request env f rid sha now st) = st \<or>
   map_of (requests st) rid = None \<and> request_record_count st < max_mutation_requests st \<and>
   snd (begin_request env f rid sha now st) = st\<lparr>requests := AList.update rid
     \<lparr>request_sha256 = sha, status = PENDING, response_json = None, started_at_ms = now,
      completed_at_ms = None\<rparr> (requests st)\<rparr>"
  by (simp add: begin_request_def split: option.split sum.split json.split)

lemma complete_cases:
  "snd (complete_request env f rid sha resp now st) = st \<or>
   (\<exists>row. map_of (requests st) rid = Some row \<and>
     snd (complete_request env f rid sha resp now st) = st\<lparr>requests := AList.update rid
       (row\<lparr>status := COMPLETED, response_json := Some (json_dumps env (JObj resp)),
            completed_at_ms := Some now\<rparr>) (requests st)\<rparr>)"
  by (simp add: complete_request_def Let_def split: option.split)

lemma begin_inv:
  assumes "store_inv st"
  shows "store_inv (snd (begin_request env f rid sha now st))"
  using begin_cases [of env f rid sha now st]
proof
  assume "map_of (requests st) rid = None \<and> request_record_count st < max_mutation_requests st \<and>
   snd (begin_request env f rid sha now st) = st\<lparr>requests := AList.update rid
     \<lparr>request_sha256 = sha, status = PENDING, response_json = None, started_at_ms = now,
      completed_at_ms = None\<rparr> (requests st)\<rparr>"
  then show ?thesis using store_put_inv [OF assms] by (simp add: row_ok_def)
qed (use assms in simp)

lemma complete_inv:
  assumes "store_inv st"
  shows "store_inv (snd (complete_request env f rid sha resp now st))"
  using complete_cases [of env f rid sha resp now st]
proof
  assume "\<exists>row. map_of (requests st) rid = Some row \<and>
     snd (complete_request env f rid sha resp now st) = st\<lparr>requests := AList.update rid
       (row\<lparr>status := COMPLETED, response_json := Some (json_dumps env (JObj resp)),
            completed_at_ms := Some now\<rparr>) (requests st)\<rparr>"
  then show ?thesis using store_put_inv [OF assms] by (auto simp: row_ok_def)
qed (use assms in simp)

lemma fence_inv: "store_inv (st\<lparr>fence_counter := x\<rparr>) = store_inv st"
  by (cases st) (simp add: store_inv_def request_record_count_def)

lemma next_fence_inv: "store_inv st \<Longrightarrow> store_inv (snd (next_fence f st))"
  by (simp add: next_fence_def Let_def fence_inv)

lemma exec_inv: "store_inv st \<Longrightarrow> store_inv (snd (ledger_exec env x st))"
  by (cases x) (simp_all add: split_beta Let_def begin_inv complete_inv next_fence_inv)

lemma run_inv: "store_inv st \<Longrightarrow> store_inv (snd (ledger_run env xs st))"
  by (induction xs arbitrary: st) (auto simp: split_beta Let_def exec_inv)

section \<open>Properties\<close>

definition demo_store :: state_store where
  "demo_store = \<lparr>max_mutation_requests = 2, warn_at_records = 1, fence_counter = None, requests = []\<rparr>"

lemma demo_store_new: "AgentStateStore 2 None = Inr demo_store"
  by (simp add: AgentStateStore_def default_warn_def trunc_def demo_store_def)

text \<open>
  (C4) At most one execution per request id: over any history of ledger operations, with any
  faults of the database, from any state of the store, a request id is admitted as new at most
  once.
\<close>

theorem admitted_at_most_once: "admissions env xs st rid \<le> 1"
  by (rule admissions_le_1)

text \<open>
  (C5) Exact replay. Once a request is completed with a response, then after any further history
  the same id and digest are answered with that response, parsed back from the stored text, and
  the same id with another digest is refused; the ledger does not change. The hypothesis on the
  JSON library is the documented round trip of \<^verbatim>\<open>dumps(sort_keys=True)\<close> and \<^verbatim>\<open>loads\<close>.
\<close>

theorem completed_request_replays:
  assumes roundtrip: "json_loads env (json_dumps env (JObj resp)) = Inr (json_sorted (JObj resp))"
    and finished: "complete_request env False rid sha resp now st = (Inr (), st1)"
    and later: "ledger_run env xs st1 = (outs, st2)"
  shows "begin_request env False rid sha now' st2 =
      (Inr (REPLAY (sort_key fst (map (\<lambda>(k, v). (k, json_sorted v)) resp))), st2)
    \<and> (sha' \<noteq> sha \<longrightarrow>
        begin_request env False rid sha' now' st2 = (Inl (Store IdempotencyConflict), st2))"
proof -
  obtain row where row: "map_of (requests st1) rid = Some row" "request_sha256 row = sha"
    "status row = COMPLETED" "response_json row = Some (json_dumps env (JObj resp))"
    using finished by (auto simp: complete_request_def Let_def dict_simps split: option.splits if_splits)
  have "ledger_later st1 st2" using run_later [of st1 env xs] later by simp
  then have "map_of (requests st2) rid = Some row"
    using row unfolding ledger_later_def row_later_def by metis
  then show ?thesis using row roundtrip by (simp add: begin_request_def)
qed

theorem completed_request_replays_witness:
  "begin_request posix_env False ''r'' ''d'' 9 (snd (complete_request posix_env False ''r'' ''d'' [] 5
     (snd (begin_request posix_env False ''r'' ''d'' 1 demo_store))))
   = (Inr (REPLAY []), snd (complete_request posix_env False ''r'' ''d'' [] 5
       (snd (begin_request posix_env False ''r'' ''d'' 1 demo_store))))"
proof -
  let ?st = "snd (begin_request posix_env False ''r'' ''d'' 1 demo_store)"
  let ?st1 = "snd (complete_request posix_env False ''r'' ''d'' [] 5 ?st)"
  have "json_loads posix_env (json_dumps posix_env (JObj [])) = Inr (json_sorted (JObj []))"
    by (simp add: posix_env_def)
  moreover have "complete_request posix_env False ''r'' ''d'' [] 5 ?st = (Inr (), ?st1)"
    by (simp add: complete_request_def begin_request_def demo_store_def request_record_count_def Let_def)
  moreover have "ledger_run posix_env [] ?st1 = ([], ?st1)" by simp
  ultimately show ?thesis
    using completed_request_replays [of posix_env "[]" "''r''" "''d''" 5 ?st ?st1 "[]" "[]" ?st1 9] by simp
qed



text \<open>
  Fences across restarts. When lanes are opened with the store's counter as allocator, a
  registry that starts empty over the same store hands out only tokens larger than every token any
  earlier registry got from it: two opens separated by any history of the store have increasing
  tokens, and the registry's own monotonicity check never fails.
\<close>

theorem fences_survive_restart:
  assumes "0 \<le> last_fence reg" "last_fence reg \<le> fence_high st"
    and "open_lane env (Some (next_fence False)) lid tid caps cs ttl now reg st = (Inr l, reg1, st1)"
    and "ledger_run env xs st1 = (outs, st2)"
    and "LaneRegistry caps0 n = Inr fresh"
    and "open_lane env (Some (next_fence False)) lid' tid' caps' cs' ttl' now' fresh st2
           = (r, reg3, st3)"
  shows "r \<noteq> Inl (Py RuntimeError) \<and> (\<forall>l'. r = Inr l' \<longrightarrow> fencing_token l < fencing_token l')"
proof -
  note opened = durable_fence.open_lane_high [OF assms(3,2)]
  have tok: "fencing_token l \<le> fence_high st1"
    using opened(2) open_lane_Inr(8) [OF assms(3)] by simp
  have "ledger_later st1 st2" using run_later [of st1 env xs] assms(4) by simp
  then have high: "fencing_token l \<le> fence_high st2"
    using tok unfolding ledger_later_def by linarith
  have "last_fence fresh = 0" using assms(5) by (auto simp: LaneRegistry_def split: if_splits)
  then have "last_fence fresh \<le> fence_high st2"
    using high open_lane_Inr(6) [OF assms(3)] assms(1) by linarith
  note reopened = durable_fence.open_lane_high [OF assms(6) this]
  show ?thesis using reopened(1,4) high by fastforce
qed

theorem fences_survive_restart_witness:
  "\<exists>l l'. fst (open_lane posix_env (Some (next_fence False)) ''s::a'' ''t'' {''fs.write''} [] (Fin 300)
       (Fin 10) demo_registry demo_store) = Inr l \<and>
     fst (open_lane posix_env (Some (next_fence False)) ''s::b'' ''t'' {''fs.write''} [] (Fin 300)
       (Fin 20) demo_registry (demo_store\<lparr>fence_counter := Some 1\<rparr>)) = Inr l' \<and>
     fencing_token l < fencing_token l'"
proof -
  obtain l reg1 where 1: "open_lane posix_env (Some (next_fence False)) ''s::a'' ''t'' {''fs.write''} []
      (Fin 300) (Fin 10) demo_registry demo_store = (Inr l, reg1, demo_store\<lparr>fence_counter := Some 1\<rparr>)"
    by (simp add: open_lane_def demo_registry_def reap_expired_locked_def take_fence_def Let_def
        next_fence_def demo_store_def)
  obtain l' reg3 st3 where 2: "open_lane posix_env (Some (next_fence False)) ''s::b'' ''t''
      {''fs.write''} [] (Fin 300) (Fin 20) demo_registry (demo_store\<lparr>fence_counter := Some 1\<rparr>)
      = (Inr l', reg3, st3)"
    by (simp add: open_lane_def demo_registry_def reap_expired_locked_def take_fence_def Let_def
        next_fence_def demo_store_def)
  have 3: "0 \<le> last_fence demo_registry" "last_fence demo_registry \<le> fence_high demo_store"
    by (simp_all add: demo_registry_def fence_high_def demo_store_def)
  have "fencing_token l < fencing_token l'"
    using fences_survive_restart [OF 3 1 ledger_run.simps(1) demo_start 2] by blast
  then show ?thesis using 1 2 by fastforce
qed

end
