(* ===== verification/File_System.thy ===== *)
theory File_System
  imports VM_Prelude
begin

text \<open>
  The part of the operating system the workstation executor works on: a tree of nodes by resolved
  path, and the calls of \<^verbatim>\<open>os\<close> and \<^verbatim>\<open>pathlib\<close> that the program makes on resolved paths (\<^verbatim>\<open>mkdir\<close>, opening
  a file for reading or appending, \<^verbatim>\<open>os.replace\<close>, \<^verbatim>\<open>os.unlink\<close>, \<^verbatim>\<open>os.scandir\<close>). What the platform alone
  decides (symbolic links, codecs, file name patterns, temporary names, inode numbers and time stamps, I/O faults,
  child processes) is the record \<open>osenv\<close>, an argument.
\<close>

section \<open>Paths and nodes\<close>

datatype rpath = RPath (anchor: string) (parts: "string list")

definition as_posix :: "rpath \<Rightarrow> string" where
  "as_posix p = anchor p @ join ''/'' (parts p)"

definition parent :: "rpath \<Rightarrow> rpath" where
  "parent p = RPath (anchor p) (butlast (parts p))"

definition pname :: "rpath \<Rightarrow> string" where
  "pname p = (if parts p = [] then [] else last (parts p))"

definition child :: "rpath \<Rightarrow> string \<Rightarrow> rpath" where
  "child p nm = RPath (anchor p) (parts p @ [nm])"

definition norm_part :: "pyenv \<Rightarrow> string \<Rightarrow> string" where
  "norm_part env s = (if os_nt env then str_lower env s else s)"

text \<open>\<^verbatim>\<open>path.relative_to(root)\<close> succeeds.\<close>

definition relative_to :: "pyenv \<Rightarrow> rpath \<Rightarrow> rpath \<Rightarrow> bool" where
  "relative_to env p base \<longleftrightarrow> norm_part env (anchor p) = norm_part env (anchor base)
     \<and> prefix (map (norm_part env) (parts base)) (map (norm_part env) (parts p))"

datatype node_kind = KFile | KDir | KLink | KOther

record node =
  nkind :: node_kind
  ndata :: string
  ndev :: int
  nino :: int
  nsize :: int
  nmtime :: int

type_synonym fs = "(rpath \<times> node) list"

record osenv =
  resolve :: "fs \<Rightarrow> string \<Rightarrow> rpath result"
  abspath :: "fs \<Rightarrow> string \<Rightarrow> rpath result"
  raw_is_symlink :: "fs \<Rightarrow> string \<Rightarrow> bool result"
  codec_encode :: "string \<Rightarrow> string \<Rightarrow> string result"
  codec_decode :: "string \<Rightarrow> string \<Rightarrow> string result"
  decode_replace :: "string \<Rightarrow> string"
  tmp_suffix :: "fs \<Rightarrow> rpath \<Rightarrow> string"
  stamp :: "fs \<Rightarrow> rpath \<Rightarrow> int \<times> int \<times> int"
  write_fault :: "rpath \<Rightarrow> (nat \<times> exn) option"
  scan_fault :: "rpath \<Rightarrow> bool"
  fn_match :: "string \<Rightarrow> string \<Rightarrow> bool"
  during_read :: "rpath \<Rightarrow> node \<Rightarrow> node"
  run_child :: "string list \<Rightarrow> rpath \<Rightarrow> pyfloat \<Rightarrow> fs \<Rightarrow> (int \<times> string \<times> string) result \<times> fs"

definition fs_kind :: "fs \<Rightarrow> rpath \<Rightarrow> node_kind option" where
  "fs_kind f p = map_option nkind (map_of f p)"

definition is_dir :: "fs \<Rightarrow> rpath \<Rightarrow> bool" where
  "is_dir f p \<longleftrightarrow> fs_kind f p = Some KDir"

definition new_node :: "osenv \<Rightarrow> fs \<Rightarrow> rpath \<Rightarrow> node_kind \<Rightarrow> string \<Rightarrow> node" where
  "new_node os f p k data =
     (case stamp os f p of (dev, ino, mtime) \<Rightarrow>
        \<lparr>nkind = k, ndata = data, ndev = dev, nino = ino, nsize = int (length data), nmtime = mtime\<rparr>)"

text \<open>The error of a lookup that finds nothing: a file in the middle of a path is not a directory.\<close>

definition missing_error :: "fs \<Rightarrow> rpath \<Rightarrow> exn" where
  "missing_error f p =
     (if \<exists>n \<in> set [0..<length (parts p)].
          fs_kind f (RPath (anchor p) (take n (parts p))) \<notin> {None, Some KDir}
      then Py NotADirectoryError else Py FileNotFoundError)"

section \<open>System calls\<close>

definition os_mkdir :: "osenv \<Rightarrow> fs \<Rightarrow> rpath \<Rightarrow> fs result" where
  "os_mkdir os f p =
     (if map_of f p \<noteq> None then Inl (Py FileExistsError)
      else if parts p \<noteq> [] \<and> is_dir f (parent p) then Inr (AList.update p (new_node os f p KDir []) f)
      else Inl (missing_error f p))"

text \<open>\<^verbatim>\<open>path.mkdir(parents=..., exist_ok=True)\<close>.\<close>

function py_mkdir :: "osenv \<Rightarrow> bool \<Rightarrow> fs \<Rightarrow> rpath \<Rightarrow> unit result \<times> fs" where
  "py_mkdir os pars f p =
     (case os_mkdir os f p of
        Inr f' \<Rightarrow> (Inr (), f')
      | Inl e \<Rightarrow>
          if e = Py FileNotFoundError then
            (if \<not> pars \<or> parts p = [] then (Inl e, f)
             else case py_mkdir os True f (parent p) of
               (Inl e', f1) \<Rightarrow> (Inl e', f1)
             | (Inr _, f1) \<Rightarrow>
                 (case os_mkdir os f1 p of
                    Inr f2 \<Rightarrow> (Inr (), f2)
                  | Inl e' \<Rightarrow>
                      if e' \<noteq> Py FileNotFoundError \<and> is_dir f1 p then (Inr (), f1) else (Inl e', f1)))
          else if is_dir f p then (Inr (), f) else (Inl e, f))"
  by pat_completeness auto
termination
  by (relation "measure (\<lambda>(_, _, _, p). length (parts p))") (auto simp: parent_def)

declare py_mkdir.simps [simp del]

definition open_rb :: "fs \<Rightarrow> rpath \<Rightarrow> node result" where
  "open_rb f p =
     (case map_of f p of
        None \<Rightarrow> Inl (missing_error f p)
      | Some n \<Rightarrow> if nkind n = KDir then Inl (Py IsADirectoryError) else Inr n)"

definition os_unlink :: "fs \<Rightarrow> rpath \<Rightarrow> fs" where
  "os_unlink f p = AList.delete p f"

text \<open>\<^verbatim>\<open>os.replace\<close>: a file over a file, a directory over an empty directory; a directory moves with all
  that is below it.\<close>

definition below :: "rpath \<Rightarrow> rpath \<Rightarrow> bool" where
  "below p q \<longleftrightarrow> anchor p = anchor q \<and> prefix (parts q) (parts p)"

definition relocate :: "rpath \<Rightarrow> rpath \<Rightarrow> rpath \<Rightarrow> rpath" where
  "relocate src dst p = RPath (anchor dst) (parts dst @ drop (length (parts src)) (parts p))"

definition os_replace :: "pyenv \<Rightarrow> fs \<Rightarrow> rpath \<Rightarrow> rpath \<Rightarrow> fs result" where
  "os_replace env f src dst =
     (case map_of f src of
        None \<Rightarrow> Inl (missing_error f src)
      | Some n \<Rightarrow>
          if src = dst then Inr f
          else if below dst src then Inl (Py OSError)
          else if \<not> is_dir f (parent dst) then Inl (missing_error f dst)
          else if nkind n \<noteq> KDir \<and> is_dir f dst then Inl (Py IsADirectoryError)
          else if nkind n = KDir \<and> fs_kind f dst \<notin> {None, Some KDir} then Inl (Py NotADirectoryError)
          else if os_nt env \<and> is_dir f dst then Inl (Py OSError)
          else if is_dir f dst \<and> (\<exists>(p, m) \<in> set f. p \<noteq> dst \<and> below p dst) then Inl (Py OSError)
          else Inr (map (\<lambda>(p, m). (if below p src then relocate src dst p else p, m))
                      (filter (\<lambda>(p, m). p \<noteq> dst) f)))"

definition scandir :: "fs \<Rightarrow> rpath \<Rightarrow> (string \<times> node) list" where
  "scandir f d = [(last (parts p), n). (p, n) \<leftarrow> f, anchor p = anchor d \<and> parts p \<noteq> [] \<and> butlast (parts p) = parts d]"

section \<open>Well-formed trees\<close>

text \<open>Every path occurs once, and below every node but the anchors lies a directory.\<close>

definition fs_wf :: "fs \<Rightarrow> bool" where
  "fs_wf f \<longleftrightarrow> distinct (map fst f) \<and> (\<forall>p. map_of f p \<noteq> None \<and> parts p \<noteq> [] \<longrightarrow> is_dir f (parent p))"

lemma fs_wfD: "fs_wf f \<Longrightarrow> map_of f p \<noteq> None \<Longrightarrow> parts p \<noteq> [] \<Longrightarrow> is_dir f (parent p)"
  unfolding fs_wf_def by blast

lemma new_node_kind [simp]: "nkind (new_node os f p k d) = k" "ndata (new_node os f p k d) = d"
  "nsize (new_node os f p k d) = int (length d)"
  by (simp_all add: new_node_def split: prod.splits)

lemma is_dir_update [simp]:
  "is_dir (AList.update p n f) q \<longleftrightarrow> (if p = q then nkind n = KDir else is_dir f q)"
  by (simp add: is_dir_def fs_kind_def map_of_update)

lemma os_mkdirD:
  "os_mkdir os f p = Inr f' \<Longrightarrow> map_of f p = None \<and> parts p \<noteq> [] \<and> is_dir f (parent p)
     \<and> f' = AList.update p (new_node os f p KDir []) f"
  by (auto simp: os_mkdir_def split: if_splits)

lemma parent_neq: "parts q \<noteq> [] \<Longrightarrow> parent q \<noteq> q"
proof
  assume "parts q \<noteq> []" "parent q = q"
  then have "length (butlast (parts q)) = length (parts q)" by (metis parent_def rpath.sel(2))
  then show False using \<open>parts q \<noteq> []\<close> by (cases "length (parts q)") auto
qed

lemma fs_wf_put:
  assumes "fs_wf f" "parts p \<noteq> [] \<longrightarrow> is_dir f (parent p)" "is_dir f p \<longrightarrow> nkind n = KDir"
  shows "fs_wf (AList.update p n f)"
proof -
  have "is_dir (AList.update p n f) (parent q)"
    if "map_of (AList.update p n f) q \<noteq> None" "parts q \<noteq> []" for q
  proof (cases "parent q = p")
    case True
    then show ?thesis
    proof (cases "p = q")
      case True
      with \<open>parent q = p\<close> that(2) show ?thesis using parent_neq by blast
    next
      case False
      then have "is_dir f p" using that fs_wfD [OF assms(1), of q] True by (simp add: map_of_update)
      then show ?thesis using assms(3) True by simp
    qed
  next
    case False
    then show ?thesis
      using that fs_wfD [OF assms(1), of q] assms(2) by (cases "q = p") (auto simp: map_of_update)
  qed
  moreover have "distinct (map fst (AList.update p n f))"
    using assms(1) by (intro distinct_update) (simp add: fs_wf_def)
  ultimately show ?thesis by (simp only: fs_wf_def) blast
qed

lemma os_mkdir_wf: "fs_wf f \<Longrightarrow> os_mkdir os f p = Inr f' \<Longrightarrow> fs_wf f'"
  by (auto dest!: os_mkdirD intro!: fs_wf_put)

text \<open>
  \<open>dirs_added f f' p\<close>: the only difference between the trees is that some directories on the way to
  \<open>p\<close>, absent before, were created.
\<close>

definition dirs_added :: "fs \<Rightarrow> fs \<Rightarrow> rpath \<Rightarrow> bool" where
  "dirs_added f f' p \<longleftrightarrow> (\<forall>q. map_of f' q = map_of f q
     \<or> (map_of f q = None \<and> fs_kind f' q = Some KDir \<and> below p q))"

lemma dirs_added_refl [simp]: "dirs_added f f p"
  by (simp add: dirs_added_def)

lemma dirs_added_trans: "dirs_added f g p \<Longrightarrow> dirs_added g h p \<Longrightarrow> dirs_added f h p"
  unfolding dirs_added_def fs_kind_def by (metis option.map_disc_iff)

lemma below_trans: "below p q \<Longrightarrow> below q r \<Longrightarrow> below p r"
  unfolding below_def using prefix_order.trans by auto

lemma dirs_added_weaken: "dirs_added f g q \<Longrightarrow> below p q \<Longrightarrow> dirs_added f g p"
  unfolding dirs_added_def by (blast intro: below_trans)

lemma dirs_added_old: "dirs_added f f' p \<Longrightarrow> map_of f q = Some n \<Longrightarrow> map_of f' q = Some n"
  unfolding dirs_added_def by (metis option.distinct(1))

lemma below_parent: "below p (parent p)"
  by (simp add: below_def parent_def prefixeq_butlast)

lemma os_mkdir_added: "os_mkdir os f p = Inr f' \<Longrightarrow> dirs_added f f' p"
  by (auto dest!: os_mkdirD simp: dirs_added_def map_of_update fs_kind_def below_def split: if_splits)

lemma py_mkdir_spec:
  "fs_wf f \<Longrightarrow> py_mkdir os pars f p = (r, f') \<Longrightarrow>
     fs_wf f' \<and> dirs_added f f' p \<and> (r = Inr () \<longrightarrow> is_dir f' p)"
proof (induction os pars f p arbitrary: r f' rule: py_mkdir.induct)
  case (1 os pars f p)
  note wf = \<open>fs_wf f\<close>
  show ?case
  proof (cases "os_mkdir os f p")
    case (Inr g)
    then have "r = Inr ()" "f' = g" using "1.prems"(2) by (auto simp: py_mkdir.simps [of os pars f p])
    then show ?thesis using os_mkdir_wf [OF wf Inr] os_mkdir_added [OF Inr] os_mkdirD [OF Inr] by simp
  next
    case (Inl e)
    show ?thesis
    proof (cases "e = Py FileNotFoundError \<and> pars \<and> parts p \<noteq> []")
      case False
      then show ?thesis
        using "1.prems" Inl by (auto simp: py_mkdir.simps [of os pars f p] split: if_splits)
    next
      case True
      obtain r1 f1 where m: "py_mkdir os True f (parent p) = (r1, f1)" by fastforce
      have IH: "fs_wf f1 \<and> dirs_added f f1 (parent p)"
        using "1.IH" [OF Inl _ _ wf m] True by auto
      then have added: "dirs_added f f1 p" using dirs_added_weaken below_parent by blast
      consider (fail) e' where "r1 = Inl e'" "r = r1" "f' = f1"
        | (made) f2 where "r1 = Inr ()" "os_mkdir os f1 p = Inr f2" "r = Inr ()" "f' = f2"
        | (there) e' where "r1 = Inr ()" "os_mkdir os f1 p = Inl e'" "f' = f1" "r = Inr () \<longrightarrow> is_dir f1 p"
        using "1.prems"(2) [unfolded py_mkdir.simps [of os pars f p] Inl sum.case m] True
        by (auto split: sum.splits if_splits)
      then show ?thesis
      proof cases
        case made
        then show ?thesis
          using IH added os_mkdir_wf os_mkdir_added [OF made(2)] dirs_added_trans os_mkdirD [OF made(2)]
          by fastforce
      qed (use IH added in auto)
    qed
  qed
qed

section \<open>Moving a tree\<close>

lemma below_refl [simp]: "below p p"
  by (simp add: below_def)

lemma below_antisym: "below p q \<Longrightarrow> below q p \<Longrightarrow> p = q"
  by (cases p; cases q) (auto simp: below_def intro: prefix_order.antisym)

lemma below_relocate [simp]: "below (relocate src dst p) dst"
  by (simp add: below_def relocate_def)

lemma relocate_self [simp]: "relocate src dst src = dst"
  by (cases dst) (simp add: relocate_def)

lemma relocate_back [simp]: "below p src \<Longrightarrow> relocate dst src (relocate src dst p) = p"
  by (cases p) (auto simp: relocate_def below_def prefix_def)

lemma relocate_eq_iff: "below q dst \<Longrightarrow> relocate dst src q = src \<longleftrightarrow> q = dst"
  by (metis relocate_back relocate_self)

lemma below_parts: "below q p \<Longrightarrow> q \<noteq> p \<Longrightarrow> parts q \<noteq> [] \<and> below (parent q) p"
proof -
  assume "below q p" "q \<noteq> p"
  then obtain zs where z: "parts q = parts p @ zs" "anchor q = anchor p" "zs \<noteq> []"
    by (cases p; cases q) (auto simp: below_def prefix_def)
  then show ?thesis by (auto simp: below_def parent_def butlast_append)
qed

lemma relocate_parent:
  assumes "below q dst" "q \<noteq> dst"
  shows "relocate dst src (parent q) = parent (relocate dst src q)"
proof -
  obtain zs where z: "parts q = parts dst @ zs" "zs \<noteq> []"
    using assms by (cases q; cases dst) (auto simp: below_def prefix_def)
  then show ?thesis by (simp add: relocate_def parent_def butlast_append)
qed

definition relocated :: "rpath \<Rightarrow> rpath \<Rightarrow> fs \<Rightarrow> fs" where
  "relocated src dst f = map (\<lambda>(p, m). (if below p src then relocate src dst p else p, m))
     (filter (\<lambda>(p, m). p \<noteq> dst) f)"

lemma map_of_relocated:
  assumes "\<not> below dst src" "\<forall>(p, m) \<in> set f. below p dst \<longrightarrow> p = dst"
  shows "map_of (relocated src dst f) q =
    (if below q dst then map_of f (relocate dst src q) else if below q src then None else map_of f q)"
  using assms(2)
proof (induction f)
  case Nil
  then show ?case by (simp add: relocated_def)
next
  case (Cons x f)
  obtain p m where x: "x = (p, m)" by fastforce
  have IH: "map_of (relocated src dst f) q =
    (if below q dst then map_of f (relocate dst src q) else if below q src then None else map_of f q)"
    using Cons by simp
  have nd: "below p dst \<longrightarrow> p = dst" using Cons.prems x by simp
  consider (target) "p = dst" | (moved) "p \<noteq> dst" "below p src" | (other) "p \<noteq> dst" "\<not> below p src" by blast
  then show ?case
  proof cases
    case target
    then have "relocate dst src q \<noteq> p" using assms(1) below_relocate [of dst src q] by metis
    then show ?thesis using IH target x by (auto simp: relocated_def)
  next
    case moved
    then have "q = relocate src dst p \<longleftrightarrow> below q dst \<and> relocate dst src q = p"
      using relocate_back [of q dst src] relocate_back [of p src dst] below_relocate [of src dst p] by metis
    moreover have "q \<noteq> p \<or> below q src" using moved by blast
    ultimately show ?thesis using IH moved x nd by (auto simp: relocated_def)
  next
    case other
    then have "relocate dst src q \<noteq> p" using below_relocate [of dst src q] by metis
    then show ?thesis using IH other x nd by (auto simp: relocated_def)
  qed
qed

lemma os_replaceD:
  assumes "os_replace env f src dst = Inr f'" "src \<noteq> dst" "fs_wf f"
  shows "\<exists>n. map_of f src = Some n \<and> (nkind n \<noteq> KDir \<longrightarrow> \<not> is_dir f dst)"
    and "\<not> below dst src" "is_dir f (parent dst)" "f' = relocated src dst f"
    and "\<forall>(p, m) \<in> set f. below p dst \<longrightarrow> p = dst"
proof -
  show n: "\<exists>n. map_of f src = Some n \<and> (nkind n \<noteq> KDir \<longrightarrow> \<not> is_dir f dst)"
    and "\<not> below dst src" "is_dir f (parent dst)" "f' = relocated src dst f"
    using assms(1,2) by (auto simp: os_replace_def relocated_def split: option.splits if_splits)
  have empty: "is_dir f dst \<Longrightarrow> \<not> (\<exists>(p, m) \<in> set f. p \<noteq> dst \<and> below p dst)"
    using assms(1,2) by (auto simp: os_replace_def split: option.splits if_splits)
  have "is_dir f dst" if "map_of f p \<noteq> None" "below p dst" "p \<noteq> dst" for p
    using that
  proof (induction "length (parts p)" arbitrary: p rule: less_induct)
    case less
    then have ne: "parts p \<noteq> []" "below (parent p) dst" using below_parts by auto
    then have dir: "is_dir f (parent p)" using fs_wfD [OF assms(3)] less.prems by blast
    show ?case
    proof (cases "parent p = dst")
      case False
      moreover have "length (parts (parent p)) < length (parts p)" using ne by (simp add: parent_def)
      moreover have "map_of f (parent p) \<noteq> None" using dir by (auto simp: is_dir_def fs_kind_def)
      ultimately show ?thesis using less.hyps ne by blast
    qed (use dir in simp)
  qed
  then show "\<forall>(p, m) \<in> set f. below p dst \<longrightarrow> p = dst"
    using empty by (fastforce simp: map_of_eq_None_iff image_iff)
qed

lemma map_of_os_replace:
  assumes "os_replace env f src dst = Inr f'" "src \<noteq> dst" "fs_wf f"
  shows "map_of f' q =
    (if below q dst then map_of f (relocate dst src q) else if below q src then None else map_of f q)"
  using map_of_relocated [OF os_replaceD(2,5) [OF assms]] os_replaceD(4) [OF assms] by simp

lemma relocated_distinct:
  assumes "distinct (map fst f)" "\<not> below dst src" "\<forall>(p, m) \<in> set f. below p dst \<longrightarrow> p = dst"
  shows "distinct (map fst (relocated src dst f))"
proof -
  let ?g = "\<lambda>p. if below p src then relocate src dst p else p"
  have eq: "map fst (relocated src dst f) = map ?g (map fst (filter (\<lambda>(p, m). p \<noteq> dst) f))"
    by (auto simp: relocated_def split_def)
  have "distinct (map fst (filter (\<lambda>(p, m). p \<noteq> dst) f))"
    using assms(1) by (rule distinct_map_filter)
  moreover have "inj_on ?g (set (map fst (filter (\<lambda>(p, m). p \<noteq> dst) f)))"
  proof (rule inj_onI)
    fix p q
    assume pq: "p \<in> set (map fst (filter (\<lambda>(p, m). p \<noteq> dst) f))"
      "q \<in> set (map fst (filter (\<lambda>(p, m). p \<noteq> dst) f))" "?g p = ?g q"
    then have nb: "\<not> below p dst" "\<not> below q dst" using assms(3) by auto
    show "p = q"
    proof (cases "below p src"; cases "below q src")
      assume "below p src" "below q src"
      then show ?thesis using pq(3) relocate_back by metis
    next
      assume "below p src" "\<not> below q src"
      then show ?thesis using pq(3) nb below_relocate [of src dst p] by simp
    next
      assume "\<not> below p src" "below q src"
      then show ?thesis using pq(3) nb below_relocate [of src dst q] by simp
    qed (use pq in simp)
  qed
  ultimately show ?thesis unfolding eq using distinct_map by blast
qed

lemma os_replace_wf:
  assumes "os_replace env f src dst = Inr f'" "fs_wf f"
  shows "fs_wf f'"
proof (cases "src = dst")
  case True
  then show ?thesis using assms by (auto simp: os_replace_def split: option.splits)
next
  case ne: False
  note m = map_of_os_replace [OF assms(1) ne assms(2)]
  note d = os_replaceD [OF assms(1) ne assms(2)]
  have dir: "is_dir f' q \<longleftrightarrow> (if below q dst then is_dir f (relocate dst src q)
      else \<not> below q src \<and> is_dir f q)" for q
    by (simp add: is_dir_def fs_kind_def m)
  have "is_dir f' (parent q)" if q: "map_of f' q \<noteq> None" "parts q \<noteq> []" for q
  proof (cases "below q dst")
    case True
    show ?thesis
    proof (cases "q = dst")
      case True
      have "\<not> below (parent dst) dst"
        using below_antisym [of "parent dst" dst] below_parent parent_neq q(2) True by blast
      moreover have "\<not> below (parent dst) src" using d(2) below_parent below_trans by blast
      ultimately show ?thesis using d(3) True by (simp add: dir)
    next
      case False
      let ?q = "relocate dst src q"
      have "map_of f ?q \<noteq> None" using q(1) True by (simp add: m)
      moreover have "?q \<noteq> src" using False relocate_eq_iff [OF True] by simp
      ultimately have "is_dir f (parent ?q)"
        using fs_wfD [OF assms(2)] below_parts [of ?q src] by simp
      then show ?thesis using below_parts [OF True False] relocate_parent [OF True False, of src]
        by (simp add: dir)
    qed
  next
    case False
    then have "\<not> below q src" "map_of f q \<noteq> None" using q(1) by (auto simp: m split: if_splits)
    moreover have "\<not> below (parent q) dst" "\<not> below (parent q) src"
      using False calculation below_parent below_trans by blast+
    ultimately show ?thesis using fs_wfD [OF assms(2)] q(2) by (simp add: dir)
  qed
  moreover have "distinct (map fst f')"
    using relocated_distinct [OF _ d(2,5)] d(4) assms(2) by (simp add: fs_wf_def)
  ultimately show ?thesis by (simp only: fs_wf_def) blast
qed

text \<open>Replacing by a plain file touches two paths only.\<close>

lemma os_replace_file:
  assumes "os_replace env f src dst = Inr f'" "src \<noteq> dst" "fs_wf f"
    and "map_of f src = Some n" "nkind n \<noteq> KDir"
  shows "map_of f' = (map_of f)(dst \<mapsto> n, src := None)"
proof
  fix q
  note d = os_replaceD [OF assms(1-3)]
  have leaf: "map_of f p = None" if "below p src" "p \<noteq> src" for p
    using that
  proof (induction "length (parts p)" arbitrary: p rule: less_induct)
    case less
    then have ne: "parts p \<noteq> []" "below (parent p) src" using below_parts by auto
    have "\<not> is_dir f (parent p)"
    proof (cases "parent p = src")
      case True
      then show ?thesis using assms(4,5) by (simp add: is_dir_def fs_kind_def)
    next
      case False
      moreover have "length (parts (parent p)) < length (parts p)" using ne by (simp add: parent_def)
      ultimately have "map_of f (parent p) = None" using less.hyps ne by blast
      then show ?thesis by (simp add: is_dir_def fs_kind_def)
    qed
    then show ?case using fs_wfD [OF assms(3), of p] ne by blast
  qed
  have "map_of f (relocate dst src q) = None" "map_of f q = None" if "below q dst" "q \<noteq> dst"
  proof -
    show "map_of f (relocate dst src q) = None"
      using leaf [of "relocate dst src q"] that relocate_eq_iff [of q dst src] by simp
    show "map_of f q = None"
      using d(5) that by (auto simp: map_of_eq_None_iff)
  qed
  moreover have "src \<noteq> dst" "\<not> below src dst"
    using assms(2,4) d(5) by (auto dest: map_of_SomeD)
  ultimately show "map_of f' q = ((map_of f)(dst \<mapsto> n, src := None)) q"
    using map_of_os_replace [OF assms(1-3), of q] leaf [of q] assms(4) by (auto split: if_splits)
qed

end
