(* ===== verification/Local_Executor.thy ===== *)
theory Local_Executor
  imports Lane_Registry File_System
begin

text \<open>
  \<^verbatim>\<open>executor.py\<close>: the file and process operations of the workstation. Every operation resolves its
  path, checks that it lies under an allowed root, asks the lane registry for authority over the
  resolved path, and only then touches the file system. Operations take the registry and the
  files and return them with the result; \<open>now\<close> is the time the registry reads.
\<close>

section \<open>Configuration and results\<close>

record executor =
  allowed_roots :: "rpath list"
  max_output_bytes :: int
  max_read_bytes :: int
  max_read_chunk_bytes :: int
  allow_process_exec :: bool

record file_byte_range =
  br_content :: string
  br_offset :: int
  br_bytes_read :: int
  br_next_offset :: int
  br_eof :: bool
  br_size_bytes :: int
  br_file_version :: string

record process_result =
  returncode :: int
  pr_stdout :: string
  pr_stderr :: string
  stdout_truncated :: bool
  stderr_truncated :: bool

fun resolve_roots :: "osenv \<Rightarrow> fs \<Rightarrow> string list \<Rightarrow> rpath list result" where
  "resolve_roots os f [] = Inr []"
| "resolve_roots os f (r # rs) =
     (case resolve os f r of Inl e \<Rightarrow> Inl e
      | Inr p \<Rightarrow> (case resolve_roots os f rs of Inl e \<Rightarrow> Inl e | Inr ps \<Rightarrow> Inr (p # ps)))"

definition LocalExecutor ::
  "osenv \<Rightarrow> fs \<Rightarrow> string list \<Rightarrow> int \<Rightarrow> int \<Rightarrow> int option \<Rightarrow> bool \<Rightarrow> executor result" where
  "LocalExecutor os f roots max_output max_read max_chunk allow =
     (if roots = [] then Inl (Py ValueError)
      else if max_output < 1 then Inl (Py ValueError)
      else if max_read < 1 then Inl (Py ValueError)
      else let chunk = (case max_chunk of None \<Rightarrow> min 262144 max_read | Some c \<Rightarrow> c) in
        if chunk < 1 \<or> chunk > max_read then Inl (Py ValueError)
        else case resolve_roots os f roots of Inl e \<Rightarrow> Inl e
          | Inr ps \<Rightarrow> Inr \<lparr>allowed_roots = ps, max_output_bytes = max_output, max_read_bytes = max_read,
                          max_read_chunk_bytes = chunk, allow_process_exec = allow\<rparr>)"

definition resolve_allowed :: "pyenv \<Rightarrow> osenv \<Rightarrow> executor \<Rightarrow> fs \<Rightarrow> string \<Rightarrow> rpath result" where
  "resolve_allowed env os ex f value =
     (case resolve os f value of
        Inl e \<Rightarrow> Inl e
      | Inr p \<Rightarrow> if list_ex (relative_to env p) (allowed_roots ex) then Inr p
                 else Inl (Exec PathOutsideRoots))"

definition fs_resource :: "rpath \<Rightarrow> string" where
  "fs_resource p = ''fs:'' @ as_posix p"

definition cwd_resource :: "rpath \<Rightarrow> string" where
  "cwd_resource p = ''cwd:'' @ as_posix p"

text \<open>A guarded operation: resolve, authorize, act on the files.\<close>

definition guarded ::
  "pyenv \<Rightarrow> string \<Rightarrow> int \<Rightarrow> string \<Rightarrow> string \<Rightarrow> claim_mode \<Rightarrow> pyfloat
   \<Rightarrow> (registry \<Rightarrow> 'a result \<times> registry \<times> fs) \<Rightarrow> registry \<Rightarrow> fs \<Rightarrow> 'a result \<times> registry \<times> fs" where
  "guarded env lid tok cap key mode now act reg f =
     (case authorize env lid tok cap (Some key) (Some mode) now reg of
        (Inl e, reg1) \<Rightarrow> (Inl e, reg1, f)
      | (Inr _, reg1) \<Rightarrow> act reg1)"

section \<open>Reading\<close>

definition read_text_bounded :: "osenv \<Rightarrow> executor \<Rightarrow> fs \<Rightarrow> rpath \<Rightarrow> string \<Rightarrow> string result" where
  "read_text_bounded os ex f p encoding =
     (case open_rb f p of
        Inl e \<Rightarrow> Inl e
      | Inr n \<Rightarrow>
          let payload = take (nat (max_read_bytes ex + 1)) (ndata n) in
          if int (length payload) > max_read_bytes ex then Inl (Exec FileReadLimitExceeded)
          else codec_decode os encoding payload)"

definition read_text ::
  "pyenv \<Rightarrow> osenv \<Rightarrow> executor \<Rightarrow> string \<Rightarrow> int \<Rightarrow> string \<Rightarrow> string \<Rightarrow> pyfloat \<Rightarrow> registry \<Rightarrow> fs
   \<Rightarrow> string result \<times> registry \<times> fs" where
  "read_text env os ex lid tok path encoding now reg f =
     (case resolve_allowed env os ex f path of
        Inl e \<Rightarrow> (Inl e, reg, f)
      | Inr p \<Rightarrow>
          guarded env lid tok ''fs.read'' (fs_resource p) READ now
            (\<lambda>reg1. (read_text_bounded os ex f p encoding, reg1, f)) reg f)"

text \<open>\<^verbatim>\<open>type(x) is int\<close> on a JSON value: booleans are not integers here.\<close>

fun exact_int :: "json \<Rightarrow> int option" where
  "exact_int (JInt i) = Some i"
| "exact_int v = None"

definition file_version :: "pyenv \<Rightarrow> node \<Rightarrow> string" where
  "file_version env n = sha256_hex env
     (str_int (ndev n) @ '':'' @ str_int (nino n) @ '':'' @ str_int (nsize n) @ '':'' @ str_int (nmtime n))"

definition read_bytes_range_sync ::
  "pyenv \<Rightarrow> osenv \<Rightarrow> fs \<Rightarrow> rpath \<Rightarrow> int \<Rightarrow> int \<Rightarrow> string option \<Rightarrow> file_byte_range result" where
  "read_bytes_range_sync env os f p offset max_bytes expected =
     (case open_rb f p of
        Inl e \<Rightarrow> Inl e
      | Inr before \<Rightarrow>
          if expected \<noteq> None \<and> expected \<noteq> Some (file_version env before)
          then Inl (Exec FileVersionChanged)
          else if offset > nsize before then Inl (Py ValueError)
          else
            let after = during_read os p before;
                payload = take (nat max_bytes) (drop (nat offset) (ndata after)) in
            if file_version env after \<noteq> file_version env before then Inl (Exec FileVersionChanged)
            else let next = offset + int (length payload) in
              Inr \<lparr>br_content = payload, br_offset = offset, br_bytes_read = int (length payload),
                   br_next_offset = next, br_eof = (next \<ge> nsize before), br_size_bytes = nsize before,
                   br_file_version = file_version env before\<rparr>)"

definition read_bytes_range ::
  "pyenv \<Rightarrow> osenv \<Rightarrow> executor \<Rightarrow> string \<Rightarrow> int \<Rightarrow> string \<Rightarrow> json \<Rightarrow> json \<Rightarrow> json \<Rightarrow> pyfloat \<Rightarrow> registry
   \<Rightarrow> fs \<Rightarrow> file_byte_range result \<times> registry \<times> fs" where
  "read_bytes_range env os ex lid tok path offset max_bytes expected now reg f =
     (case exact_int offset of
        None \<Rightarrow> (Inl (Py ValueError), reg, f)
      | Some off \<Rightarrow>
        if off < 0 then (Inl (Py ValueError), reg, f)
        else case (if max_bytes = JNull then Some (max_read_chunk_bytes ex) else exact_int max_bytes) of
          None \<Rightarrow> (Inl (Py ValueError), reg, f)
        | Some limit \<Rightarrow>
          if limit < 1 \<or> limit > max_read_chunk_bytes ex then (Inl (Py ValueError), reg, f)
          else if expected \<noteq> JNull \<and> \<not> is_nonempty_str (Some expected) then (Inl (Py ValueError), reg, f)
          else case resolve_allowed env os ex f path of
            Inl e \<Rightarrow> (Inl e, reg, f)
          | Inr p \<Rightarrow>
              guarded env lid tok ''fs.read'' (fs_resource p) READ now
                (\<lambda>reg1. (read_bytes_range_sync env os f p off limit
                           (case expected of JStr s \<Rightarrow> Some s | _ \<Rightarrow> None), reg1, f)) reg f)"

section \<open>Writing\<close>

text \<open>
  \<^verbatim>\<open>_atomic_write\<close>: the content goes to a temporary file in the same directory, which then replaces
  the target; when anything fails the temporary file is removed.
\<close>

definition tmp_path :: "osenv \<Rightarrow> fs \<Rightarrow> rpath \<Rightarrow> rpath" where
  "tmp_path os f p = child (parent p) (pname p @ ''.'' @ tmp_suffix os f p @ ''.tmp'')"

definition atomic_write ::
  "pyenv \<Rightarrow> osenv \<Rightarrow> fs \<Rightarrow> rpath \<Rightarrow> string \<Rightarrow> string \<Rightarrow> unit result \<times> fs" where
  "atomic_write env os f p content encoding =
     (case py_mkdir os True f (parent p) of
        (Inl e, f1) \<Rightarrow> (Inl e, f1)
      | (Inr _, f1) \<Rightarrow>
          let tmp = tmp_path os f1 p; f2 = AList.update tmp (new_node os f1 tmp KFile []) f1 in
          (case codec_encode os encoding content of
             Inl e \<Rightarrow> (Inl e, os_unlink f2 tmp)
           | Inr payload \<Rightarrow>
               (case write_fault os tmp of
                  Some (k, e) \<Rightarrow>
                    let f3 = AList.update tmp (new_node os f2 tmp KFile (take k payload)) f2
                    in (Inl e, os_unlink f3 tmp)
                | None \<Rightarrow>
                    let f3 = AList.update tmp (new_node os f2 tmp KFile payload) f2 in
                    (case os_replace env f3 tmp p of
                       Inl e \<Rightarrow> (Inl e, os_unlink f3 tmp)
                     | Inr f4 \<Rightarrow> (Inr (), f4)))))"

definition write_text ::
  "pyenv \<Rightarrow> osenv \<Rightarrow> executor \<Rightarrow> string \<Rightarrow> int \<Rightarrow> string \<Rightarrow> string \<Rightarrow> string \<Rightarrow> pyfloat \<Rightarrow> registry \<Rightarrow> fs
   \<Rightarrow> unit result \<times> registry \<times> fs" where
  "write_text env os ex lid tok path content encoding now reg f =
     (case resolve_allowed env os ex f path of
        Inl e \<Rightarrow> (Inl e, reg, f)
      | Inr p \<Rightarrow>
          guarded env lid tok ''fs.write'' (fs_resource p) WRITE now
            (\<lambda>reg1. let (r, f') = atomic_write env os f p content encoding in (r, reg1, f')) reg f)"

text \<open>Opening for appending creates the file; the text is encoded when it is written.\<close>

definition append_text_sync ::
  "osenv \<Rightarrow> fs \<Rightarrow> rpath \<Rightarrow> string \<Rightarrow> string \<Rightarrow> unit result \<times> fs" where
  "append_text_sync os f p content encoding =
     (case py_mkdir os True f (parent p) of
        (Inl e, f1) \<Rightarrow> (Inl e, f1)
      | (Inr _, f1) \<Rightarrow>
          if is_dir f1 p then (Inl (Py IsADirectoryError), f1)
          else
            let old = (case map_of f1 p of None \<Rightarrow> [] | Some n \<Rightarrow> ndata n);
                f2 = (if map_of f1 p = None then AList.update p (new_node os f1 p KFile []) f1 else f1) in
            (case codec_encode os encoding content of
               Inl e \<Rightarrow> (Inl e, f2)
             | Inr payload \<Rightarrow>
                 (case write_fault os p of
                    Some (k, e) \<Rightarrow> (Inl e, AList.update p (new_node os f2 p KFile (old @ take k payload)) f2)
                  | None \<Rightarrow> (Inr (), AList.update p (new_node os f2 p KFile (old @ payload)) f2))))"

definition append_text ::
  "pyenv \<Rightarrow> osenv \<Rightarrow> executor \<Rightarrow> string \<Rightarrow> int \<Rightarrow> string \<Rightarrow> string \<Rightarrow> string \<Rightarrow> pyfloat \<Rightarrow> registry \<Rightarrow> fs
   \<Rightarrow> unit result \<times> registry \<times> fs" where
  "append_text env os ex lid tok path content encoding now reg f =
     (case resolve_allowed env os ex f path of
        Inl e \<Rightarrow> (Inl e, reg, f)
      | Inr p \<Rightarrow>
          guarded env lid tok ''fs.write'' (fs_resource p) WRITE now
            (\<lambda>reg1. let (r, f') = append_text_sync os f p content encoding in (r, reg1, f')) reg f)"

definition make_directory ::
  "pyenv \<Rightarrow> osenv \<Rightarrow> executor \<Rightarrow> string \<Rightarrow> int \<Rightarrow> string \<Rightarrow> json \<Rightarrow> pyfloat \<Rightarrow> registry \<Rightarrow> fs
   \<Rightarrow> unit result \<times> registry \<times> fs" where
  "make_directory env os ex lid tok path pars now reg f =
     (case pars of
        JBool b \<Rightarrow>
          (case resolve_allowed env os ex f path of
             Inl e \<Rightarrow> (Inl e, reg, f)
           | Inr p \<Rightarrow>
               guarded env lid tok ''fs.write'' (fs_resource p) WRITE now
                 (\<lambda>reg1. let (r, f') = py_mkdir os b f p in (r, reg1, f')) reg f)
      | _ \<Rightarrow> (Inl (Py ValueError), reg, f))"

definition move_path ::
  "pyenv \<Rightarrow> osenv \<Rightarrow> executor \<Rightarrow> string \<Rightarrow> int \<Rightarrow> string \<Rightarrow> string \<Rightarrow> pyfloat \<Rightarrow> registry \<Rightarrow> fs
   \<Rightarrow> unit result \<times> registry \<times> fs" where
  "move_path env os ex lid tok source destination now reg f =
     (case raw_is_symlink os f source of
        Inl e \<Rightarrow> (Inl e, reg, f)
      | Inr True \<Rightarrow> (Inl (Py ValueError), reg, f)
      | Inr False \<Rightarrow>
        (case resolve_allowed env os ex f source of
           Inl e \<Rightarrow> (Inl e, reg, f)
         | Inr src \<Rightarrow>
           (case resolve_allowed env os ex f destination of
              Inl e \<Rightarrow> (Inl e, reg, f)
            | Inr dst \<Rightarrow>
                guarded env lid tok ''fs.write'' (fs_resource src) WRITE now
                  (\<lambda>reg1. guarded env lid tok ''fs.write'' (fs_resource dst) WRITE now
                     (\<lambda>reg2. if \<not> is_dir f (parent dst) then (Inl (Py FileNotFoundError), reg2, f)
                             else case os_replace env f src dst of
                               Inl e \<Rightarrow> (Inl e, reg2, f)
                             | Inr f' \<Rightarrow> (Inr (), reg2, f')) reg1 f) reg f)))"

text \<open>\<^verbatim>\<open>str.count\<close> and \<^verbatim>\<open>str.replace\<close>: occurrences from the left that do not overlap.\<close>

function str_count :: "string \<Rightarrow> string \<Rightarrow> nat" where
  "str_count old s =
     (if old = [] \<or> s = [] then 0
      else if prefix old s then Suc (str_count old (drop (length old) s))
      else str_count old (tl s))"
  by pat_completeness auto
termination
  by (relation "measure (\<lambda>(old, s). length s)") auto

function str_replace :: "string \<Rightarrow> string \<Rightarrow> string \<Rightarrow> string" where
  "str_replace old new s =
     (if old = [] \<or> s = [] then s
      else if prefix old s then new @ str_replace old new (drop (length old) s)
      else hd s # str_replace old new (tl s))"
  by pat_completeness auto
termination
  by (relation "measure (\<lambda>(old, new, s). length s)") auto

declare str_count.simps [simp del] str_replace.simps [simp del]

definition replace_text_sync ::
  "pyenv \<Rightarrow> osenv \<Rightarrow> executor \<Rightarrow> fs \<Rightarrow> rpath \<Rightarrow> string \<Rightarrow> string \<Rightarrow> int \<Rightarrow> string \<Rightarrow> int result \<times> fs" where
  "replace_text_sync env os ex f p old new expected_count encoding =
     (case read_text_bounded os ex f p encoding of
        Inl e \<Rightarrow> (Inl e, f)
      | Inr content \<Rightarrow>
          let count = int (str_count old content) in
          if count \<noteq> expected_count then (Inl (Exec ReplaceCountMismatch), f)
          else case atomic_write env os f p (str_replace old new content) encoding of
              (Inl e, f') \<Rightarrow> (Inl e, f')
            | (Inr _, f') \<Rightarrow> (Inr count, f'))"

definition replace_text ::
  "pyenv \<Rightarrow> osenv \<Rightarrow> executor \<Rightarrow> string \<Rightarrow> int \<Rightarrow> string \<Rightarrow> string \<Rightarrow> string \<Rightarrow> json \<Rightarrow> string \<Rightarrow> pyfloat
   \<Rightarrow> registry \<Rightarrow> fs \<Rightarrow> int result \<times> registry \<times> fs" where
  "replace_text env os ex lid tok path old new expected encoding now reg f =
     (if old = [] then (Inl (Py ValueError), reg, f)
      else case exact_int expected of
        None \<Rightarrow> (Inl (Py ValueError), reg, f)
      | Some n \<Rightarrow>
        if \<not> (1 \<le> n \<and> n \<le> 1000) then (Inl (Py ValueError), reg, f)
        else case resolve_allowed env os ex f path of
          Inl e \<Rightarrow> (Inl e, reg, f)
        | Inr p \<Rightarrow>
            guarded env lid tok ''fs.read'' (fs_resource p) READ now
              (\<lambda>reg1. guarded env lid tok ''fs.write'' (fs_resource p) WRITE now
                 (\<lambda>reg2. let (r, f') = replace_text_sync env os ex f p old new n encoding in (r, reg2, f'))
                 reg1 f) reg f)"

section \<open>Running a process\<close>

definition decode_limited :: "osenv \<Rightarrow> executor \<Rightarrow> string \<Rightarrow> string \<times> bool" where
  "decode_limited os ex value =
     (decode_replace os (take (nat (max_output_bytes ex)) value),
      int (length value) > max_output_bytes ex)"

definition mk_process_result :: "osenv \<Rightarrow> executor \<Rightarrow> int \<Rightarrow> string \<Rightarrow> string \<Rightarrow> process_result" where
  "mk_process_result os ex code out err =
     (let (o1, t1) = decode_limited os ex out; (o2, t2) = decode_limited os ex err in
      \<lparr>returncode = code, pr_stdout = o1, pr_stderr = o2, stdout_truncated = t1, stderr_truncated = t2\<rparr>)"

definition run_process ::
  "pyenv \<Rightarrow> osenv \<Rightarrow> executor \<Rightarrow> string \<Rightarrow> int \<Rightarrow> string list \<Rightarrow> string \<Rightarrow> pyfloat \<Rightarrow> pyfloat \<Rightarrow> registry
   \<Rightarrow> fs \<Rightarrow> process_result result \<times> registry \<times> fs" where
  "run_process env os ex lid tok argv cwd timeout now reg f =
     (if \<not> allow_process_exec ex then (Inl (Exec ProcessExecutionDisabled), reg, f)
      else if argv = [] \<or> [] \<in> set argv then (Inl (Py ValueError), reg, f)
      else if fle timeout (Fin 0) then (Inl (Py ValueError), reg, f)
      else case resolve_allowed env os ex f cwd of
        Inl e \<Rightarrow> (Inl e, reg, f)
      | Inr p \<Rightarrow>
          guarded env lid tok ''process.exec'' (cwd_resource p) WRITE now
            (\<lambda>reg1. case run_child os argv p timeout f of
               (Inl e, f') \<Rightarrow> (Inl e, reg1, f')
             | (Inr (code, out, err), f') \<Rightarrow> (Inr (mk_process_result os ex code out err), reg1, f')) reg f)"

section \<open>Authority\<close>

lemma resolve_allowedD:
  "resolve_allowed env os ex f path = Inr p \<Longrightarrow>
     resolve os f path = Inr p \<and> (\<exists>r \<in> set (allowed_roots ex). relative_to env p r)"
  by (auto simp: resolve_allowed_def list_ex_iff split: sum.splits if_splits)

lemma guarded_cases:
  assumes "guarded env lid tok cap key mode now act reg f = (r, reg', f')"
  obtains (denied) e where "r = Inl e" "f' = f" "authorize env lid tok cap (Some key) (Some mode) now reg = (Inl e, reg')"
  | (allowed) l where "authorize env lid tok cap (Some key) (Some mode) now reg = (Inr l, reg)"
      "act reg = (r, reg', f')"
proof (cases "authorize env lid tok cap (Some key) (Some mode) now reg")
  case (Pair a reg1)
  show ?thesis
  proof (cases a)
    case (Inl e)
    then show ?thesis using assms Pair denied by (auto simp: guarded_def)
  next
    case (Inr l)
    then have "reg1 = reg" using Pair authorize_snd_of_Inr [of env lid tok cap "Some key" "Some mode" now reg l]
      by simp
    then show ?thesis using assms Pair Inr allowed by (simp add: guarded_def)
  qed
qed

text \<open>The lane holds write authority over a resolved path under an allowed root.\<close>

definition may_write :: "pyenv \<Rightarrow> executor \<Rightarrow> string \<Rightarrow> int \<Rightarrow> pyfloat \<Rightarrow> registry \<Rightarrow> rpath \<Rightarrow> bool" where
  "may_write env ex lid tok now reg p \<longleftrightarrow>
     (\<exists>r \<in> set (allowed_roots ex). relative_to env p r)
     \<and> (\<exists>l. authorize env lid tok ''fs.write'' (Some (fs_resource p)) (Some WRITE) now reg = (Inr l, reg))"

text \<open>A change of the tree within a path: at or below it, or a new directory on the way to it.\<close>

definition changes_within :: "fs \<Rightarrow> fs \<Rightarrow> rpath set \<Rightarrow> bool" where
  "changes_within f f' P \<longleftrightarrow> (\<forall>q. map_of f' q \<noteq> map_of f q \<longrightarrow>
     (\<exists>p \<in> P. below q p \<or> (map_of f q = None \<and> fs_kind f' q = Some KDir \<and> below p q)))"

lemma changes_within_refl [simp]: "changes_within f f P"
  by (simp add: changes_within_def)

lemma changes_within_mono: "changes_within f f' P \<Longrightarrow> P \<subseteq> Q \<Longrightarrow> changes_within f f' Q"
  unfolding changes_within_def by blast

lemma dirs_added_within: "dirs_added f f' p \<Longrightarrow> changes_within f f' {p}"
  unfolding changes_within_def dirs_added_def by blast

section \<open>The atomic write\<close>

definition tmp_fresh :: "osenv \<Rightarrow> bool" where
  "tmp_fresh os \<longleftrightarrow> (\<forall>g q. map_of g (tmp_path os g q) = None)"

lemma parent_tmp [simp]: "parent (tmp_path os f p) = parent p"
  by (simp add: tmp_path_def child_def parent_def)

lemma tmp_neq: "tmp_path os f p \<noteq> p" "parts (tmp_path os f p) \<noteq> []"
proof -
  have "length (last (parts (tmp_path os f p))) > length (pname p)" "parts (tmp_path os f p) \<noteq> []"
    by (simp_all add: tmp_path_def child_def)
  then show "tmp_path os f p \<noteq> p" "parts (tmp_path os f p) \<noteq> []" by (auto simp: pname_def)
qed

lemma fs_wf_cong: "distinct (map fst g) \<Longrightarrow> map_of g = map_of f \<Longrightarrow> fs_wf f \<Longrightarrow> fs_wf g"
  unfolding fs_wf_def is_dir_def fs_kind_def by metis

lemma tmp_discarded:
  assumes "fs_wf f" "map_of f t = None"
  shows "map_of (os_unlink (AList.update t n (AList.update t m f)) t) = map_of f"
    and "fs_wf (os_unlink (AList.update t n (AList.update t m f)) t)"
    and "map_of (os_unlink (AList.update t n f) t) = map_of f"
    and "fs_wf (os_unlink (AList.update t n f) t)"
proof -
  have d: "distinct (map fst (AList.delete t g))" if "distinct (map fst g)" for g :: fs
    using that by (rule distinct_delete)
  have u: "distinct (map fst (AList.update t k g))" if "distinct (map fst g)" for k and g :: fs
    using that by (rule distinct_update)
  have f: "distinct (map fst f)" using assms(1) by (simp add: fs_wf_def)
  show 1: "map_of (os_unlink (AList.update t n (AList.update t m f)) t) = map_of f"
    and 2: "map_of (os_unlink (AList.update t n f) t) = map_of f"
    using assms(2) by (auto simp: os_unlink_def map_of_delete map_of_update)
  show "fs_wf (os_unlink (AList.update t n (AList.update t m f)) t)"
    using d [OF u [OF u [OF f]]] 1 assms(1) by (intro fs_wf_cong [OF _ 1]) (simp_all add: os_unlink_def)
  show "fs_wf (os_unlink (AList.update t n f) t)"
    using d [OF u [OF f]] assms(1) by (intro fs_wf_cong [OF _ 2]) (simp_all add: os_unlink_def)
qed

lemma dirs_added_cong: "map_of g = map_of f' \<Longrightarrow> dirs_added f f' p \<Longrightarrow> dirs_added f g p"
  by (simp add: dirs_added_def fs_kind_def)

definition file_holds :: "fs \<Rightarrow> rpath \<Rightarrow> string \<Rightarrow> bool" where
  "file_holds f p data \<longleftrightarrow> (\<exists>n. map_of f p = Some n \<and> nkind n = KFile \<and> ndata n = data
     \<and> nsize n = int (length data))"

lemma atomic_write_spec:
  assumes wf: "fs_wf f" and fresh: "tmp_fresh os"
    and run: "atomic_write env os f p content encoding = (r, f')"
  shows "fs_wf f' \<and> (case r of
      Inl _ \<Rightarrow> dirs_added f f' (parent p)
    | Inr _ \<Rightarrow> \<exists>payload g. codec_encode os encoding content = Inr payload \<and> dirs_added f g (parent p)
        \<and> file_holds f' p payload \<and> (\<forall>q. q \<noteq> p \<longrightarrow> map_of f' q = map_of g q))"
proof -
  obtain r1 f1 where m: "py_mkdir os True f (parent p) = (r1, f1)" by fastforce
  note mk = py_mkdir_spec [OF wf m]
  show ?thesis
  proof (cases r1)
    case (Inl e)
    then show ?thesis using run m mk by (auto simp: atomic_write_def)
  next
    case (Inr u)
    let ?t = "tmp_path os f1 p"
    let ?f2 = "AList.update ?t (new_node os f1 ?t KFile []) f1"
    let ?f3 = "\<lambda>d. AList.update ?t (new_node os ?f2 ?t KFile d) ?f2"
    have tn: "map_of f1 ?t = None" using fresh by (simp add: tmp_fresh_def)
    note gone = tmp_discarded [OF conjunct1 [OF mk] tn]
    have wf2: "fs_wf ?f2" using mk Inr tn by (intro fs_wf_put) (auto simp: is_dir_def fs_kind_def)
    have wf3: "fs_wf (?f3 d)" for d
    proof (rule fs_wf_put [OF wf2])
      have "?t \<noteq> parent p" using parent_neq [OF tmp_neq(2), of os f1 p] by simp
      then show "parts ?t \<noteq> [] \<longrightarrow> is_dir ?f2 (parent ?t)" using mk Inr by simp
    qed simp
    consider (enc) e where "codec_encode os encoding content = Inl e" "r = Inl e" "f' = os_unlink ?f2 ?t"
      | (fault) d e where "r = Inl e" "f' = os_unlink (?f3 d) ?t"
      | (repl) d e where "r = Inl e" "f' = os_unlink (?f3 d) ?t" "os_replace env (?f3 d) ?t p = Inl e"
      | (ok) d where "codec_encode os encoding content = Inr d" "r = Inr ()"
          "os_replace env (?f3 d) ?t p = Inr f'"
      using run m Inr by (auto simp: atomic_write_def Let_def split: sum.splits option.splits prod.splits)
    then show ?thesis
    proof cases
      case enc
      then show ?thesis using gone(3,4) mk dirs_added_cong by auto
    next
      case fault
      then show ?thesis using gone(1,2) mk dirs_added_cong by auto
    next
      case repl
      then show ?thesis using gone(1,2) mk dirs_added_cong by auto
    next
      case ok
      have "map_of f' = (map_of (?f3 d))(p \<mapsto> new_node os ?f2 ?t KFile d, ?t := None)"
        using tmp_neq(1) by (intro os_replace_file [OF ok(3) _ wf3]) (simp_all add: map_of_update)
      then have "map_of f' = (map_of f1)(p \<mapsto> new_node os ?f2 ?t KFile d)"
        using tn tmp_neq(1) [of os f1 p] by (auto simp: map_of_update)
      then have "file_holds f' p d" "\<forall>q. q \<noteq> p \<longrightarrow> map_of f' q = map_of f1 q"
        by (auto simp: file_holds_def)
      then show ?thesis using ok os_replace_wf [OF ok(3) wf3] mk by auto
    qed
  qed
qed

lemma atomic_write_within:
  assumes "fs_wf f" "tmp_fresh os" "atomic_write env os f p content encoding = (r, f')"
  shows "changes_within f f' {p}"
proof -
  have one: "changes_within f f' {p}" if "dirs_added f g (parent p)" "\<forall>q. q \<noteq> p \<longrightarrow> map_of f' q = map_of g q"
    for g
  proof -
    have "below q p \<or> map_of f q = None \<and> fs_kind f' q = Some KDir \<and> below p q"
      if "map_of f' q \<noteq> map_of f q" for q
    proof (cases "q = p")
      case False
      then show ?thesis
        using \<open>dirs_added f g (parent p)\<close> \<open>\<forall>q. q \<noteq> p \<longrightarrow> map_of f' q = map_of g q\<close> that
          below_trans [OF below_parent [of p]]
        unfolding dirs_added_def fs_kind_def by metis
    qed simp
    then show ?thesis by (simp add: changes_within_def)
  qed
  from atomic_write_spec [OF assms] show ?thesis
    using one by (cases r) auto
qed

section \<open>The other changes\<close>

lemma append_spec:
  assumes wf: "fs_wf f" and run: "append_text_sync os f p content encoding = (r, f')"
  shows "fs_wf f' \<and> changes_within f f' {p} \<and> (r = Inr () \<longrightarrow> (\<exists>payload.
     codec_encode os encoding content = Inr payload
     \<and> file_holds f' p ((case map_of f p of None \<Rightarrow> [] | Some n \<Rightarrow> ndata n) @ payload)))"
proof -
  obtain r1 f1 where m: "py_mkdir os True f (parent p) = (r1, f1)" by fastforce
  note mk = py_mkdir_spec [OF wf m]
  have added: "dirs_added f f1 p" using mk dirs_added_weaken below_parent by blast
  show ?thesis
  proof (cases "r1 = Inr () \<and> \<not> is_dir f1 p")
    case False
    then show ?thesis
      using run m mk dirs_added_within [OF added]
      by (cases r1) (auto simp: append_text_sync_def split: if_splits)
  next
    case True
    let ?f2 = "if map_of f1 p = None then AList.update p (new_node os f1 p KFile []) f1 else f1"
    have put: "fs_wf (AList.update p (new_node os g p KFile d) h)"
      if "fs_wf h" "is_dir h (parent p)" "\<not> is_dir h p" for g d h
      using that by (intro fs_wf_put) auto
    have wf2: "fs_wf ?f2" using put [of f1] mk True by simp
    have d2: "parts p \<noteq> [] \<longrightarrow> is_dir ?f2 (parent p)" "\<not> is_dir ?f2 p"
      using mk True parent_neq [of p] by auto
    have wf3: "fs_wf (AList.update p (new_node os ?f2 p KFile d) ?f2)" for d
      using d2 by (intro fs_wf_put [OF wf2]) auto
    have out: "changes_within f g {p}" if "\<forall>q. q \<noteq> p \<longrightarrow> map_of g q = map_of f1 q" for g
      using that added unfolding changes_within_def dirs_added_def fs_kind_def
      by (metis below_refl singletonI)
    have old: "ndata n = ndata n'" if "map_of f1 p = Some n" "map_of f p = Some n'" for n n'
      using that dirs_added_old [OF added that(2)] by simp
    have fresh: "map_of f p = None \<Longrightarrow> map_of f1 p = None"
      using added True unfolding dirs_added_def is_dir_def by metis
    have eq: "(case map_of f1 p of None \<Rightarrow> [] | Some n \<Rightarrow> ndata n)
        = (case map_of f p of None \<Rightarrow> [] | Some n \<Rightarrow> ndata n)"
      using old fresh dirs_added_old [OF added] by (auto split: option.splits)
    consider (enc) e where "r = Inl e" "f' = ?f2"
      | (wr) d payload where "f' = AList.update p (new_node os ?f2 p KFile d) ?f2"
          "r = Inr () \<longrightarrow> codec_encode os encoding content = Inr payload
             \<and> d = (case map_of f p of None \<Rightarrow> [] | Some n \<Rightarrow> ndata n) @ payload"
      using run m True unfolding append_text_sync_def eq [symmetric]
      by (auto simp: Let_def split: sum.splits option.splits)
    then show ?thesis
    proof cases
      case enc
      have "changes_within f ?f2 {p}" by (rule out) (simp add: map_of_update)
      then show ?thesis using wf2 enc by auto
    next
      case wr
      have "changes_within f f' {p}" unfolding wr(1) by (rule out) (simp add: map_of_update)
      moreover have "file_holds f' p d" unfolding wr(1) by (simp add: file_holds_def map_of_update)
      ultimately show ?thesis using wf3 wr by auto
    qed
  qed
qed

lemma replace_within:
  assumes "os_replace env f src dst = Inr f'" "fs_wf f"
  shows "changes_within f f' {src, dst}"
proof (cases "src = dst")
  case True
  then show ?thesis using assms by (auto simp: os_replace_def split: option.splits)
next
  case False
  show ?thesis
    unfolding changes_within_def map_of_os_replace [OF assms(1) False assms(2)] by auto
qed

text \<open>The requests that change files, and what they may touch.\<close>

datatype fs_request =
    WriteText string string string
  | AppendText string string string
  | MakeDirectory string json
  | MovePath string string
  | ReplaceText string string string json string

fun fs_request_paths :: "fs_request \<Rightarrow> string list" where
  "fs_request_paths (WriteText path _ _) = [path]"
| "fs_request_paths (AppendText path _ _) = [path]"
| "fs_request_paths (MakeDirectory path _) = [path]"
| "fs_request_paths (MovePath src dst) = [src, dst]"
| "fs_request_paths (ReplaceText path _ _ _ _) = [path]"

fun fs_change ::
  "pyenv \<Rightarrow> osenv \<Rightarrow> executor \<Rightarrow> string \<Rightarrow> int \<Rightarrow> fs_request \<Rightarrow> pyfloat \<Rightarrow> registry \<Rightarrow> fs
   \<Rightarrow> unit result \<times> registry \<times> fs" where
  "fs_change env os ex lid tok (WriteText path c enc) now reg f = write_text env os ex lid tok path c enc now reg f"
| "fs_change env os ex lid tok (AppendText path c enc) now reg f = append_text env os ex lid tok path c enc now reg f"
| "fs_change env os ex lid tok (MakeDirectory path b) now reg f = make_directory env os ex lid tok path b now reg f"
| "fs_change env os ex lid tok (MovePath src dst) now reg f = move_path env os ex lid tok src dst now reg f"
| "fs_change env os ex lid tok (ReplaceText path old new n enc) now reg f =
     (case replace_text env os ex lid tok path old new n enc now reg f of
        (r, reg', f') \<Rightarrow> (map_sum id (\<lambda>_. ()) r, reg', f'))"

definition authorized_change ::
  "pyenv \<Rightarrow> osenv \<Rightarrow> executor \<Rightarrow> string \<Rightarrow> int \<Rightarrow> fs_request \<Rightarrow> pyfloat \<Rightarrow> registry \<Rightarrow> fs \<Rightarrow> fs \<Rightarrow> bool" where
  "authorized_change env os ex lid tok req now reg f f' \<longleftrightarrow> fs_wf f' \<and> (f' = f \<or>
     (\<exists>P. changes_within f f' P \<and> (\<forall>p \<in> P. may_write env ex lid tok now reg p
        \<and> (\<exists>path \<in> set (fs_request_paths req). resolve os f path = Inr p))))"

lemma authorized_one:
  assumes "resolve_allowed env os ex f path = Inr p" "path \<in> set (fs_request_paths req)"
    and "authorize env lid tok ''fs.write'' (Some (fs_resource p)) (Some WRITE) now reg = (Inr l, reg)"
    and "fs_wf f'" "changes_within f f' {p}"
  shows "authorized_change env os ex lid tok req now reg f f'"
proof -
  have "may_write env ex lid tok now reg p"
    using resolve_allowedD [OF assms(1)] assms(3) unfolding may_write_def by blast
  then show ?thesis
    using assms(2,4,5) resolve_allowedD [OF assms(1)] unfolding authorized_change_def by blast
qed

lemma authorized_none: "fs_wf f \<Longrightarrow> authorized_change env os ex lid tok req now reg f f"
  by (simp add: authorized_change_def)

lemma guarded_authorized:
  assumes "resolve_allowed env os ex f path = Inr p" "path \<in> set (fs_request_paths req)" "fs_wf f"
    and run: "guarded env lid tok ''fs.write'' (fs_resource p) WRITE now
      (\<lambda>reg1. let (r, f') = act in (r, reg1, f')) reg f = (r, reg', f')"
    and act: "\<And>r f'. act = (r, f') \<Longrightarrow> fs_wf f' \<and> changes_within f f' {p}"
  shows "authorized_change env os ex lid tok req now reg f f'"
  using run
proof (cases rule: guarded_cases)
  case (allowed l)
  then have "act = (r, f')" by (auto split: prod.splits)
  then have "fs_wf f'" "changes_within f f' {p}" using act by blast+
  then show ?thesis by (rule authorized_one [OF assms(1,2) allowed(1)])
qed (use assms(3) authorized_none in simp)

lemma write_authorized:
  assumes "fs_wf f" "tmp_fresh os" "write_text env os ex lid tok path c enc now reg f = (r, reg', f')"
  shows "authorized_change env os ex lid tok (WriteText path c enc) now reg f f'"
proof (cases "resolve_allowed env os ex f path")
  case (Inl e)
  then show ?thesis using assms by (simp add: write_text_def authorized_none)
next
  case (Inr p)
  then have "guarded env lid tok ''fs.write'' (fs_resource p) WRITE now
      (\<lambda>reg1. let (r, f') = atomic_write env os f p c enc in (r, reg1, f')) reg f = (r, reg', f')"
    using assms(3) by (simp add: write_text_def)
  then show ?thesis
    using atomic_write_within [OF assms(1,2)] atomic_write_spec [OF assms(1,2)]
    by (intro guarded_authorized [OF Inr _ assms(1)]) (simp, assumption, blast)
qed

lemma append_authorized:
  assumes "fs_wf f" "append_text env os ex lid tok path c enc now reg f = (r, reg', f')"
  shows "authorized_change env os ex lid tok (AppendText path c enc) now reg f f'"
proof (cases "resolve_allowed env os ex f path")
  case (Inl e)
  then show ?thesis using assms by (simp add: append_text_def authorized_none)
next
  case (Inr p)
  then have "guarded env lid tok ''fs.write'' (fs_resource p) WRITE now
      (\<lambda>reg1. let (r, f') = append_text_sync os f p c enc in (r, reg1, f')) reg f = (r, reg', f')"
    using assms(2) by (simp add: append_text_def)
  then show ?thesis
    using append_spec [OF assms(1)]
    by (intro guarded_authorized [OF Inr _ assms(1)]) (simp, assumption, blast)
qed

lemma mkdir_authorized:
  assumes "fs_wf f" "make_directory env os ex lid tok path pars now reg f = (r, reg', f')"
  shows "authorized_change env os ex lid tok (MakeDirectory path pars) now reg f f'"
proof (cases "\<exists>b p. pars = JBool b \<and> resolve_allowed env os ex f path = Inr p")
  case False
  then have "f' = f" using assms(2) by (auto simp: make_directory_def split: json.splits sum.splits)
  then show ?thesis using assms(1) authorized_none by simp
next
  case True
  then obtain b p where b: "pars = JBool b" and p: "resolve_allowed env os ex f path = Inr p" by blast
  then have "guarded env lid tok ''fs.write'' (fs_resource p) WRITE now
      (\<lambda>reg1. let (r, f') = py_mkdir os b f p in (r, reg1, f')) reg f = (r, reg', f')"
    using assms(2) by (simp add: make_directory_def)
  then show ?thesis
    using py_mkdir_spec [OF assms(1)] dirs_added_within
    by (intro guarded_authorized [OF p _ assms(1)]) (simp, assumption, blast)
qed

lemma move_authorized:
  assumes "fs_wf f" "move_path env os ex lid tok source destination now reg f = (r, reg', f')"
  shows "authorized_change env os ex lid tok (MovePath source destination) now reg f f'"
proof (cases "\<exists>src dst. resolve_allowed env os ex f source = Inr src
    \<and> resolve_allowed env os ex f destination = Inr dst \<and> raw_is_symlink os f source = Inr False")
  case False
  then have "f' = f" using assms(2) by (auto simp: move_path_def split: sum.splits bool.splits)
  then show ?thesis using assms(1) authorized_none by simp
next
  case True
  then obtain src dst where s: "resolve_allowed env os ex f source = Inr src"
    and d: "resolve_allowed env os ex f destination = Inr dst" and l: "raw_is_symlink os f source = Inr False"
    by blast
  let ?in = "\<lambda>reg2. if \<not> is_dir f (parent dst) then (Inl (Py FileNotFoundError), reg2, f)
        else case os_replace env f src dst of Inl e \<Rightarrow> (Inl e, reg2, f) | Inr f' \<Rightarrow> (Inr (), reg2, f')"
  let ?act = "\<lambda>reg1. guarded env lid tok ''fs.write'' (fs_resource dst) WRITE now ?in reg1 f"
  have "guarded env lid tok ''fs.write'' (fs_resource src) WRITE now ?act reg f = (r, reg', f')"
    using assms(2) s d l by (simp add: move_path_def)
  then show ?thesis
  proof (cases rule: guarded_cases)
    case (allowed l1)
    from allowed(2) show ?thesis
    proof (cases rule: guarded_cases)
      case (allowed l2)
      show ?thesis
      proof (cases "f' = f")
        case False
        then have "os_replace env f src dst = Inr f'"
          using allowed(2) by (auto split: if_splits sum.splits)
        then have "changes_within f f' {src, dst}" "fs_wf f'"
          using replace_within os_replace_wf assms(1) by blast+
        moreover have "may_write env ex lid tok now reg src" "may_write env ex lid tok now reg dst"
          using resolve_allowedD [OF s] resolve_allowedD [OF d] allowed(1)
            \<open>authorize env lid tok ''fs.write'' (Some (fs_resource src)) (Some WRITE) now reg = (Inr l1, reg)\<close>
          unfolding may_write_def by blast+
        ultimately show ?thesis
          using resolve_allowedD [OF s] resolve_allowedD [OF d] unfolding authorized_change_def by fastforce
      qed (use assms(1) authorized_none in simp)
    qed (use assms(1) authorized_none in simp)
  qed (use assms(1) authorized_none in simp)
qed

lemma replace_text_syncD:
  assumes "replace_text_sync env os ex f p old new n enc = (r, f')" "fs_wf f" "tmp_fresh os"
  shows "fs_wf f' \<and> changes_within f f' {p}"
proof (cases "f' = f")
  case False
  then obtain s r' where "atomic_write env os f p s enc = (r', f')"
    using assms(1) by (auto simp: replace_text_sync_def Let_def split: sum.splits if_splits prod.splits)
  then show ?thesis
    using atomic_write_within [OF assms(2,3)] atomic_write_spec [OF assms(2,3)] by blast
qed (use assms in simp)

lemma replace_authorized:
  assumes "fs_wf f" "tmp_fresh os" "replace_text env os ex lid tok path old new n enc now reg f = (r, reg', f')"
  shows "authorized_change env os ex lid tok (ReplaceText path old new n enc) now reg f f'"
proof (cases "f' = f")
  case False
  obtain p k where p: "resolve_allowed env os ex f path = Inr p"
    and g: "guarded env lid tok ''fs.read'' (fs_resource p) READ now
        (\<lambda>reg1. guarded env lid tok ''fs.write'' (fs_resource p) WRITE now
           (\<lambda>reg2. let (r, f') = replace_text_sync env os ex f p old new k enc in (r, reg2, f')) reg1 f) reg f
        = (r, reg', f')"
    using assms(3) False by (auto simp: replace_text_def split: if_splits option.splits sum.splits)
  from g show ?thesis
  proof (cases rule: guarded_cases)
    case (allowed l1)
    then show ?thesis
      using replace_text_syncD [OF _ assms(1,2)]
      by (intro guarded_authorized [OF p _ assms(1) allowed(2)]) (simp, blast)
  qed (use False in simp)
qed (use assms(1) authorized_none in simp)

section \<open>Counting and replacing\<close>

lemma join_Cons: "ps \<noteq> [] \<Longrightarrow> join sep (x # ps) = x @ sep @ join sep ps"
  by (cases ps) auto

lemma join_hd: "ps \<noteq> [] \<Longrightarrow> join sep ((c # hd ps) # tl ps) = c # join sep ps"
  by (cases ps rule: remdups_adj.cases) auto

text \<open>A text is its pieces between the occurrences counted; replacing joins the same pieces anew.\<close>

lemma replace_pieces:
  "old \<noteq> [] \<Longrightarrow> \<exists>ps. s = join old ps \<and> str_replace old new s = join new ps \<and> length ps = Suc (str_count old s)"
proof (induction old s rule: str_count.induct)
  case (1 old s)
  consider "s = []" | "s \<noteq> []" "prefix old s" | "s \<noteq> []" "\<not> prefix old s" by blast
  then show ?case
  proof cases
    case 1
    then show ?thesis
      by (intro exI [of _ "[[]]"]) (simp add: str_count.simps [of old "[]"] str_replace.simps [of old new "[]"])
  next
    case 2
    then obtain ps where ps: "drop (length old) s = join old ps"
        "str_replace old new (drop (length old) s) = join new ps"
        "length ps = Suc (str_count old (drop (length old) s))"
      using "1.IH"(1) "1.prems" by blast
    moreover have "s = old @ drop (length old) s" using 2 by (auto simp: prefix_def)
    ultimately show ?thesis using 2 "1.prems"
      by (intro exI [of _ "[] # ps"], subst (1) str_replace.simps, subst (1) str_count.simps)
        (cases ps; auto simp: join_Cons)
  next
    case 3
    then obtain ps where ps: "tl s = join old ps" "str_replace old new (tl s) = join new ps"
        "length ps = Suc (str_count old (tl s))"
      using "1.IH"(2) "1.prems" by blast
    then show ?thesis using 3 "1.prems"
      by (intro exI [of _ "(hd s # hd ps) # tl ps"], subst (1) str_replace.simps, subst (1) str_count.simps)
        (cases ps; cases s; auto simp: join_hd [where ps = "_ # _", simplified])
  qed
qed

section \<open>Chunked reads\<close>

text \<open>A client reading a file chunk by chunk; the file system may change between the chunks.\<close>

fun read_chunks ::
  "pyenv \<Rightarrow> osenv \<Rightarrow> rpath \<Rightarrow> (fs \<times> int) list \<Rightarrow> int \<Rightarrow> string option \<Rightarrow> file_byte_range list result" where
  "read_chunks env os p [] offset version = Inr []"
| "read_chunks env os p ((f, limit) # rest) offset version =
     (case read_bytes_range_sync env os f p offset limit version of
        Inl e \<Rightarrow> Inl e
      | Inr c \<Rightarrow> map_sum id (Cons c) (read_chunks env os p rest (br_next_offset c) (Some (br_file_version c))))"

definition honest_versions :: "pyenv \<Rightarrow> osenv \<Rightarrow> rpath \<Rightarrow> fs list \<Rightarrow> node set \<Rightarrow> bool" where
  "honest_versions env os p fss V \<longleftrightarrow>
     (\<forall>f \<in> set fss. \<forall>n. map_of f p = Some n \<longrightarrow> n \<in> V)
     \<and> (\<forall>n \<in> V. during_read os p n \<in> V \<and> nsize n = int (length (ndata n)))
     \<and> (\<forall>n \<in> V. \<forall>m \<in> V. file_version env n = file_version env m \<longrightarrow> ndata n = ndata m)"

lemma chunkD:
  assumes "read_bytes_range_sync env os f p offset limit version = Inr c" "0 \<le> offset"
    and "honest_versions env os p fss V" "f \<in> set fss"
  shows "\<exists>n \<in> V. open_rb f p = Inr n \<and> br_file_version c = file_version env n
    \<and> br_content c = take (nat limit) (drop (nat offset) (ndata n))
    \<and> br_next_offset c = offset + int (length (br_content c))
    \<and> offset \<le> int (length (ndata n))
    \<and> br_eof c = (br_next_offset c \<ge> int (length (ndata n)))
    \<and> (version \<noteq> None \<longrightarrow> version = Some (br_file_version c))"
proof -
  obtain n where n: "open_rb f p = Inr n"
    using assms(1) by (auto simp: read_bytes_range_sync_def split: sum.splits)
  then have "map_of f p = Some n" by (auto simp: open_rb_def split: option.splits if_splits)
  then have V: "n \<in> V" "during_read os p n \<in> V" "nsize n = int (length (ndata n))"
    using assms(3,4) unfolding honest_versions_def by blast+
  have "file_version env (during_read os p n) = file_version env n"
    using assms(1) n by (auto simp: read_bytes_range_sync_def Let_def split: if_splits)
  then have "ndata (during_read os p n) = ndata n" using V assms(3) unfolding honest_versions_def by blast
  then show ?thesis
    using assms(1) n V by (intro bexI [of _ n]) (auto simp: read_bytes_range_sync_def Let_def split: if_splits)
qed

lemma read_chunks_rest:
  assumes "honest_versions env os p fss V" "n \<in> V"
  shows "read_chunks env os p xs offset (Some (file_version env n)) = Inr cs \<Longrightarrow> 0 \<le> offset \<Longrightarrow>
     fst ` set xs \<subseteq> set fss \<Longrightarrow> cs \<noteq> [] \<Longrightarrow> br_eof (last cs) \<Longrightarrow>
     concat (map br_content cs) = drop (nat offset) (ndata n)"
proof (induction xs arbitrary: offset cs)
  case (Cons x xs)
  obtain f limit where x: "x = (f, limit)" by fastforce
  obtain c cs' where c: "read_bytes_range_sync env os f p offset limit (Some (file_version env n)) = Inr c"
      and cs': "read_chunks env os p xs (br_next_offset c) (Some (br_file_version c)) = Inr cs'" "cs = c # cs'"
    using Cons.prems(1) x by (auto split: sum.splits simp: map_sum_def)
  obtain m where m: "m \<in> V" "br_file_version c = file_version env m"
      "br_content c = take (nat limit) (drop (nat offset) (ndata m))"
      "br_next_offset c = offset + int (length (br_content c))" "offset \<le> int (length (ndata m))"
      "br_eof c = (br_next_offset c \<ge> int (length (ndata m)))" "br_file_version c = file_version env n"
    using chunkD [OF c Cons.prems(2) assms(1), of] Cons.prems(3) x by auto
  then have same: "ndata m = ndata n" using assms unfolding honest_versions_def by metis
  have step: "drop (nat offset) (ndata n) = br_content c @ drop (nat (br_next_offset c)) (ndata n)"
    using m(3,4) Cons.prems(2) same
    by (metis append_take_drop_id drop_drop add.commute append_eq_conv_conj nat_int nat_add_distrib of_nat_0_le_iff)
  show ?case
  proof (cases "cs' = []")
    case True
    then have "int (length (ndata n)) \<le> br_next_offset c" using Cons.prems(5) cs' m(6) same by simp
    then show ?thesis using True cs' step by simp
  next
    case False
    then show ?thesis
      using Cons.IH [of "br_next_offset c" cs'] Cons.prems cs' m(4,7) step by simp
  qed
qed simp

section \<open>A concrete workstation\<close>

definition demo_os :: osenv where
  "demo_os = \<lparr>resolve = (\<lambda>_ s. Inr (RPath ''/'' [''w'', s])),
     abspath = (\<lambda>_ s. Inr (RPath ''/'' [''w'', s])), raw_is_symlink = (\<lambda>_ _. Inr False),
     codec_encode = (\<lambda>_ s. Inr s), codec_decode = (\<lambda>_ s. Inr s), decode_replace = (\<lambda>s. s),
     tmp_suffix = (\<lambda>f p. replicate (Suc (sum_list (map (length \<circ> pname \<circ> fst) f))) (CHR ''z'')),
     stamp = (\<lambda>_ _. (1, 1, 1)), write_fault = (\<lambda>_. None), scan_fault = (\<lambda>_. False),
     fn_match = (\<lambda>_ _. True), during_read = (\<lambda>_ n. n),
     run_child = (\<lambda>_ _ _ f. (Inr (0, [], []), f))\<rparr>"

definition demo_executor :: executor where
  "demo_executor = \<lparr>allowed_roots = [RPath ''/'' [''w'']], max_output_bytes = 10, max_read_bytes = 10,
     max_read_chunk_bytes = 2, allow_process_exec = False\<rparr>"

definition demo_file :: "string \<Rightarrow> node" where
  "demo_file s = \<lparr>nkind = KFile, ndata = s, ndev = 1, nino = 1, nsize = int (length s), nmtime = 1\<rparr>"

definition demo_dir :: node where
  "demo_dir = \<lparr>nkind = KDir, ndata = [], ndev = 1, nino = 1, nsize = 0, nmtime = 1\<rparr>"

definition demo_fs :: fs where
  "demo_fs = [(RPath ''/'' [], demo_dir), (RPath ''/'' [''w''], demo_dir),
     (RPath ''/'' [''w'', ''x''], demo_file ''hello'')]"

lemma demo_tmp_fresh: "tmp_fresh demo_os"
proof -
  have "map_of g (tmp_path demo_os g q) = None" for g q
  proof (rule ccontr)
    assume "map_of g (tmp_path demo_os g q) \<noteq> None"
    then obtain n where "(tmp_path demo_os g q, n) \<in> set g" by (auto dest: map_of_SomeD)
    then have "length (pname (tmp_path demo_os g q)) \<in> set (map (length \<circ> pname \<circ> fst) g)" by force
    then have "length (pname (tmp_path demo_os g q)) \<le> sum_list (map (length \<circ> pname \<circ> fst) g)"
      by (intro member_le_sum_list) auto
    then show False by (simp add: tmp_path_def child_def pname_def demo_os_def)
  qed
  then show ?thesis by (simp add: tmp_fresh_def)
qed

lemma demo_fs_wf: "fs_wf demo_fs"
  by (auto simp: fs_wf_def demo_fs_def is_dir_def fs_kind_def parent_def demo_dir_def split: if_splits)

lemma demo_resolve:
  "resolve_allowed posix_env demo_os demo_executor f s = Inr (RPath ''/'' [''w'', s])"
  by (simp add: resolve_allowed_def demo_os_def demo_executor_def relative_to_def norm_part_def posix_env_def)

section \<open>Properties\<close>

text \<open>
  Files change only under authority. Whatever a request to write, append, create a directory,
  move or replace does, and whether it succeeds or fails, the tree stays well formed, and every
  path whose node changed lies at or below a path named by the request, resolved, under an allowed
  root and within a write claim of the requesting lane with the capability \<^verbatim>\<open>fs.write\<close>; the only
  other effect is the creation of missing directories on the way to such a path.
\<close>

theorem file_changes_are_authorized:
  assumes "fs_wf f" "tmp_fresh os" "fs_change env os ex lid tok req now reg f = (r, reg', f')"
  shows "fs_wf f' \<and> (\<forall>q. map_of f' q \<noteq> map_of f q \<longrightarrow>
    (\<exists>p path. path \<in> set (fs_request_paths req) \<and> resolve os f path = Inr p
       \<and> (\<exists>root \<in> set (allowed_roots ex). relative_to env p root)
       \<and> (\<exists>l. authorize env lid tok ''fs.write'' (Some (fs_resource p)) (Some WRITE) now reg = (Inr l, reg))
       \<and> (below q p \<or> (map_of f q = None \<and> fs_kind f' q = Some KDir \<and> below p q))))"
proof -
  have "authorized_change env os ex lid tok req now reg f f'"
  proof (cases req)
    case (ReplaceText path old new n enc)
    then obtain k where "replace_text env os ex lid tok path old new n enc now reg f = (k, reg', f')"
      using assms(3) by (auto split: prod.splits)
    then show ?thesis using replace_authorized [OF assms(1,2)] ReplaceText by simp
  qed (use assms write_authorized append_authorized mkdir_authorized move_authorized in auto)
  then show ?thesis
    unfolding authorized_change_def changes_within_def may_write_def by metis
qed

lemma demo_write_authorized:
  "authorize posix_env ''s::a'' 1 ''fs.write'' (Some (fs_resource (RPath ''/'' [''w'', ''x'']))) (Some WRITE)
     (Fin 20) demo_open_registry = (Inr demo_lane, demo_open_registry)"
  using demo_authorize [of "''fs:/w/x''"] by (simp add: fs_resource_def as_posix_def)

lemma demo_mkdir: "py_mkdir demo_os True demo_fs (RPath ''/'' [''w'']) = (Inr (), demo_fs)"
  by (subst py_mkdir.simps) (simp add: os_mkdir_def demo_fs_def is_dir_def fs_kind_def demo_dir_def)

lemma demo_atomic:
  "\<exists>f'. atomic_write posix_env demo_os demo_fs (RPath ''/'' [''w'', ''x'']) c enc = (Inr (), f')"
  by (simp add: atomic_write_def parent_def demo_mkdir)
    (simp add: demo_os_def tmp_path_def child_def pname_def parent_def new_node_def demo_fs_def
      os_replace_def below_def demo_dir_def demo_file_def is_dir_def fs_kind_def posix_env_def Let_def)

lemma demo_write:
  "\<exists>f'. write_text posix_env demo_os demo_executor ''s::a'' 1 ''x'' ''bye'' ''utf-8'' (Fin 20)
     demo_open_registry demo_fs = (Inr (), demo_open_registry, f')"
  using demo_atomic [of "''bye''" "''utf-8''"]
  by (auto simp: write_text_def demo_resolve guarded_def demo_write_authorized)

lemma file_changes_are_authorized_witness:
  "\<exists>f'. fs_wf f' \<and> (\<forall>q. map_of f' q \<noteq> map_of demo_fs q \<longrightarrow>
    (\<exists>p path. path \<in> set (fs_request_paths (WriteText ''x'' ''bye'' ''utf-8'')) \<and> resolve demo_os demo_fs path = Inr p
       \<and> (\<exists>root \<in> set (allowed_roots demo_executor). relative_to posix_env p root)
       \<and> (\<exists>l. authorize posix_env ''s::a'' 1 ''fs.write'' (Some (fs_resource p)) (Some WRITE) (Fin 20)
                demo_open_registry = (Inr l, demo_open_registry))
       \<and> (below q p \<or> (map_of demo_fs q = None \<and> fs_kind f' q = Some KDir \<and> below p q))))"
proof -
  obtain f' where "fs_change posix_env demo_os demo_executor ''s::a'' 1 (WriteText ''x'' ''bye'' ''utf-8'')
      (Fin 20) demo_open_registry demo_fs = (Inr (), demo_open_registry, f')"
    using demo_write by auto
  from file_changes_are_authorized [OF demo_fs_wf demo_tmp_fresh this] show ?thesis by blast
qed



text \<open>
  What was written is read back. After a successful write, a lane with read authority over
  the same resolved path reads exactly the content written, when the codec round-trips it and the
  file fits the read limit.
\<close>

theorem written_text_is_read_back:
  assumes "fs_wf f" "tmp_fresh os"
    and "write_text env os ex lid tok path content encoding now reg f = (Inr (), reg', f')"
    and "resolve_allowed env os ex f path = Inr p" "resolve_allowed env os ex f' path = Inr p"
    and "authorize env lid' tok' ''fs.read'' (Some (fs_resource p)) (Some READ) now' reg2 = (Inr l, reg2)"
    and "codec_encode os encoding content = Inr payload" "codec_decode os encoding payload = Inr content"
    and "int (length payload) \<le> max_read_bytes ex"
  shows "read_text env os ex lid' tok' path encoding now' reg2 f' = (Inr content, reg2, f')"
proof -
  have "guarded env lid tok ''fs.write'' (fs_resource p) WRITE now
      (\<lambda>reg1. let (r, f') = atomic_write env os f p content encoding in (r, reg1, f')) reg f = (Inr (), reg', f')"
    using assms(3,4) by (simp add: write_text_def)
  then have "atomic_write env os f p content encoding = (Inr (), f')"
    by (cases rule: guarded_cases) (auto split: prod.splits)
  then have "file_holds f' p payload" using atomic_write_spec [OF assms(1,2)] assms(7) by fastforce
  then have "read_text_bounded os ex f' p encoding = Inr content"
    using assms(8,9) by (auto simp: file_holds_def read_text_bounded_def open_rb_def Let_def)
  then show ?thesis using assms(5,6) by (simp add: read_text_def guarded_def)
qed

definition demo_reader :: registry where
  "demo_reader = demo_registry\<lparr>lanes := [(''r'', \<lparr>lane_id = ''r'', task_id = ''t'', capabilities = {''fs.read''},
     claims = [ResourceClaim ''fs:/w'' READ], fencing_token = 2, expires_at = Fin 310\<rparr>)], last_fence := 2\<rparr>"

lemma demo_read_authorized:
  "\<exists>l. authorize posix_env ''r'' 2 ''fs.read'' (Some (fs_resource (RPath ''/'' [''w'', ''x'']))) (Some READ)
     (Fin 20) demo_reader = (Inr l, demo_reader)"
proof -
  have "claim_covers posix_env (ResourceClaim ''fs:/w'' READ) ''fs:/w/x'' READ = Inr True" by code_simp
  then show ?thesis
    by (simp add: fs_resource_def as_posix_def authorize_def require_lane_locked_def demo_reader_def expired_def)
qed

lemma written_text_is_read_back_witness:
  "\<exists>f'. read_text posix_env demo_os demo_executor ''r'' 2 ''x'' ''utf-8'' (Fin 20) demo_reader f'
     = (Inr ''bye'', demo_reader, f')"
proof -
  obtain f' where w: "write_text posix_env demo_os demo_executor ''s::a'' 1 ''x'' ''bye'' ''utf-8'' (Fin 20)
      demo_open_registry demo_fs = (Inr (), demo_open_registry, f')"
    using demo_write by blast
  obtain l where l: "authorize posix_env ''r'' 2 ''fs.read'' (Some (fs_resource (RPath ''/'' [''w'', ''x''])))
      (Some READ) (Fin 20) demo_reader = (Inr l, demo_reader)"
    using demo_read_authorized by blast
  show ?thesis
    using written_text_is_read_back [OF demo_fs_wf demo_tmp_fresh w demo_resolve demo_resolve l]
    by (auto simp: demo_os_def demo_executor_def)
qed

text \<open>
  Chunked reads are consistent. A client that reads a file in chunks, each from the offset and
  with the version the last one returned, until the end is reported, holds exactly the content the file
  had at the first chunk, although the file may change at any time in between: a read that meets
  another version fails instead. The version is assumed to identify the content among the versions
  of the file that exist (size, inode and time stamp change when the content does).
\<close>

theorem chunked_read_consistent:
  assumes "honest_versions env os p (map fst xs) V"
    and "read_chunks env os p xs 0 None = Inr cs" "xs \<noteq> []" "br_eof (last cs)"
  shows "\<exists>n \<in> V. open_rb (fst (hd xs)) p = Inr n \<and> concat (map br_content cs) = ndata n"
proof -
  obtain f limit xs' where xs: "xs = (f, limit) # xs'" using assms(3) by (metis list.exhaust surj_pair)
  obtain c cs' where c: "read_bytes_range_sync env os f p 0 limit None = Inr c"
      and cs': "read_chunks env os p xs' (br_next_offset c) (Some (br_file_version c)) = Inr cs'" "cs = c # cs'"
    using assms(2) xs by (auto split: sum.splits simp: map_sum_def)
  obtain n where n: "n \<in> V" "open_rb f p = Inr n" "br_file_version c = file_version env n"
      "br_content c = take (nat limit) (ndata n)" "br_next_offset c = int (length (br_content c))"
      "br_eof c = (br_next_offset c \<ge> int (length (ndata n)))"
    using chunkD [OF c _ assms(1)] xs by auto
  have "concat (map br_content cs') = drop (length (br_content c)) (ndata n)"
  proof (cases "cs' = []")
    case True
    then show ?thesis using assms(4) cs'(2) n(5,6) by simp
  next
    case False
    then show ?thesis
      using read_chunks_rest [OF assms(1) n(1) cs'(1) [unfolded n(3)]] assms(4) cs'(2) n(5) xs by auto
  qed
  moreover have "ndata n = br_content c @ drop (length (br_content c)) (ndata n)"
    using n(4) by (metis append_take_drop_id append_eq_conv_conj)
  ultimately show ?thesis using n(1,2) xs cs'(2) by (intro bexI [of _ n]) auto
qed

lemma chunked_read_consistent_witness:
  "\<exists>cs. read_chunks posix_env demo_os (RPath ''/'' [''w'', ''x'']) [(demo_fs, 3), (demo_fs, 3)] 0 None = Inr cs
     \<and> concat (map br_content cs) = ''hello''"
proof -
  have "read_chunks posix_env demo_os (RPath ''/'' [''w'', ''x'']) [(demo_fs, 3), (demo_fs, 3)] 0 None
      = Inr [\<lparr>br_content = ''hel'', br_offset = 0, br_bytes_read = 3, br_next_offset = 3, br_eof = False,
               br_size_bytes = 5, br_file_version = file_version posix_env (demo_file ''hello'')\<rparr>,
             \<lparr>br_content = ''lo'', br_offset = 3, br_bytes_read = 2, br_next_offset = 5, br_eof = True,
               br_size_bytes = 5, br_file_version = file_version posix_env (demo_file ''hello'')\<rparr>]"
    by (simp add: read_bytes_range_sync_def open_rb_def demo_fs_def demo_os_def demo_file_def Let_def
        numeral_3_eq_3)
  moreover have "honest_versions posix_env demo_os (RPath ''/'' [''w'', ''x'']) (map fst [(demo_fs, 3::int), (demo_fs, 3)])
      {demo_file ''hello''}"
    by (simp add: honest_versions_def demo_fs_def demo_os_def demo_file_def)
  ultimately show ?thesis
    using chunked_read_consistent [of posix_env demo_os "RPath ''/'' [''w'', ''x'']" "[(demo_fs, 3), (demo_fs, 3)]"]
    by (fastforce simp: open_rb_def demo_fs_def demo_file_def)
qed

lemma replace_text_sync_ok:
  assumes "replace_text_sync env os ex f p old new n encoding = (Inr k, f')"
  obtains s u where "read_text_bounded os ex f p encoding = Inr s" "k = int (str_count old s)" "n = k"
    "atomic_write env os f p (str_replace old new s) encoding = (Inr u, f')"
proof (cases "read_text_bounded os ex f p encoding")
  case (Inl e)
  then show ?thesis using assms by (simp add: replace_text_sync_def)
next
  case (Inr s)
  obtain r f1 where a: "atomic_write env os f p (str_replace old new s) encoding = (r, f1)" by fastforce
  show ?thesis
  proof (cases "int (str_count old s) = n")
    case True
    then show ?thesis using assms Inr a that [of s] by (cases r) (auto simp: replace_text_sync_def)
  qed (use assms Inr in \<open>simp add: replace_text_sync_def\<close>)
qed

text \<open>
  Replacement is exact. A successful replacement returned the expected count of occurrences; the
  old text was some pieces joined by the old string, one more than the count, and the file now
  holds the encoding of the same pieces joined by the new string.
\<close>

theorem replace_text_exact:
  assumes "fs_wf f" "tmp_fresh os"
    and "replace_text env os ex lid tok path old new expected encoding now reg f = (Inr k, reg', f')"
  shows "expected = JInt k \<and> (\<exists>p before after pieces. resolve_allowed env os ex f path = Inr p
    \<and> read_text_bounded os ex f p encoding = Inr before \<and> before = join old pieces
    \<and> int (length pieces) = k + 1 \<and> codec_encode os encoding (join new pieces) = Inr after
    \<and> file_holds f' p after)"
proof -
  obtain p n where p: "resolve_allowed env os ex f path = Inr p" "old \<noteq> []" "exact_int expected = Some n"
    and g: "guarded env lid tok ''fs.read'' (fs_resource p) READ now
        (\<lambda>reg1. guarded env lid tok ''fs.write'' (fs_resource p) WRITE now
           (\<lambda>reg2. let (r, f') = replace_text_sync env os ex f p old new n encoding in (r, reg2, f')) reg1 f) reg f
        = (Inr k, reg', f')"
    using assms(3) by (auto simp: replace_text_def split: if_splits option.splits sum.splits)
  have "replace_text_sync env os ex f p old new n encoding = (Inr k, f')"
    using g
  proof (cases rule: guarded_cases)
    case (allowed l)
    from allowed(2) show ?thesis by (cases rule: guarded_cases) (auto split: prod.splits)
  qed simp
  then obtain s u where s: "read_text_bounded os ex f p encoding = Inr s" "k = int (str_count old s)" "n = k"
      "atomic_write env os f p (str_replace old new s) encoding = (Inr u, f')"
    by (rule replace_text_sync_ok)
  obtain ps where ps: "s = join old ps" "str_replace old new s = join new ps" "length ps = Suc (str_count old s)"
    using replace_pieces [OF p(2)] by blast
  obtain payload where "codec_encode os encoding (join new ps) = Inr payload" "file_holds f' p payload"
    using atomic_write_spec [OF assms(1,2) s(4)] ps(2) by auto
  moreover have "expected = JInt k" using p(3) s(3) by (cases expected) auto
  moreover have "int (length ps) = k + 1" using ps(3) s(2) by simp
  ultimately show ?thesis using p(1) s(1) ps(1) by blast
qed

definition demo_rw :: registry where
  "demo_rw = demo_registry\<lparr>lanes := [(''r'', \<lparr>lane_id = ''r'', task_id = ''t'', capabilities = {''fs.read'', ''fs.write''},
     claims = [ResourceClaim ''fs:/w'' WRITE], fencing_token = 2, expires_at = Fin 310\<rparr>)], last_fence := 2\<rparr>"

lemma demo_rw_authorized:
  "\<exists>l. authorize posix_env ''r'' 2 ''fs.read'' (Some (fs_resource (RPath ''/'' [''w'', ''x'']))) (Some READ)
     (Fin 20) demo_rw = (Inr l, demo_rw)"
  "\<exists>l. authorize posix_env ''r'' 2 ''fs.write'' (Some (fs_resource (RPath ''/'' [''w'', ''x'']))) (Some WRITE)
     (Fin 20) demo_rw = (Inr l, demo_rw)"
proof -
  have "claim_covers posix_env (ResourceClaim ''fs:/w'' WRITE) ''fs:/w/x'' READ = Inr True"
    "claim_covers posix_env (ResourceClaim ''fs:/w'' WRITE) ''fs:/w/x'' WRITE = Inr True" by code_simp+
  then show "\<exists>l. authorize posix_env ''r'' 2 ''fs.read'' (Some (fs_resource (RPath ''/'' [''w'', ''x'']))) (Some READ)
     (Fin 20) demo_rw = (Inr l, demo_rw)"
  "\<exists>l. authorize posix_env ''r'' 2 ''fs.write'' (Some (fs_resource (RPath ''/'' [''w'', ''x'']))) (Some WRITE)
     (Fin 20) demo_rw = (Inr l, demo_rw)"
    by (simp_all add: fs_resource_def as_posix_def authorize_def require_lane_locked_def demo_rw_def expired_def)
qed

lemma replace_text_exact_witness:
  "\<exists>f' after pieces. replace_text posix_env demo_os demo_executor ''r'' 2 ''x'' ''l'' ''LL'' (JInt 2) ''utf-8'' (Fin 20)
       demo_rw demo_fs = (Inr 2, demo_rw, f')
     \<and> ''hello'' = join ''l'' pieces \<and> length pieces = 3
     \<and> codec_encode demo_os ''utf-8'' (join ''LL'' pieces) = Inr after
     \<and> file_holds f' (RPath ''/'' [''w'', ''x'']) after"
proof -
  have rd: "read_text_bounded demo_os demo_executor demo_fs (RPath ''/'' [''w'', ''x'']) ''utf-8'' = Inr ''hello''"
    by (simp add: read_text_bounded_def open_rb_def demo_fs_def demo_file_def demo_executor_def demo_os_def Let_def)
  have "str_count ''l'' ''hello'' = 2" by (simp add: str_count.simps)
  then obtain f' where "replace_text posix_env demo_os demo_executor ''r'' 2 ''x'' ''l'' ''LL'' (JInt 2) ''utf-8'' (Fin 20)
       demo_rw demo_fs = (Inr 2, demo_rw, f')"
    using demo_rw_authorized demo_atomic [of "str_replace ''l'' ''LL'' ''hello''" "''utf-8''"] rd
    by (auto simp: replace_text_def demo_resolve guarded_def replace_text_sync_def)
  with replace_text_exact [OF demo_fs_wf demo_tmp_fresh this] rd show ?thesis
    unfolding demo_resolve by auto
qed

end
