(* ===== verification/Fs_Search.thy ===== *)
theory Fs_Search
  imports Local_Executor "HOL-Library.Product_Lexorder"
begin

text \<open>
  \<^verbatim>\<open>rdc_surface.py\<close>, first half: reading the tree. \<^verbatim>\<open>stat\<close> and \<^verbatim>\<open>list_dir\<close> describe entries; \<^verbatim>\<open>search\<close> and
  \<^verbatim>\<open>search_content\<close> walk the tree below a root with an explicit stack, bounded in entries, depth,
  results and bytes. A search reads one state of the file system. The stack is a list whose head
  is the top. The walk of both searches is \<open>walk_loop\<close>, with the body of the respective loop over the
  entries of a directory as its argument \<open>visit\<close>.
\<close>

section \<open>Entries\<close>

definition MAX_LIST_ENTRIES :: int where "MAX_LIST_ENTRIES = 1000"
definition MAX_SEARCH_RESULTS :: int where "MAX_SEARCH_RESULTS = 500"
definition MAX_SEARCH_ENTRIES :: int where "MAX_SEARCH_ENTRIES = 50000"
definition MAX_SEARCH_DEPTH :: int where "MAX_SEARCH_DEPTH = 32"
definition MAX_CONTENT_SEARCH_BYTES :: int where "MAX_CONTENT_SEARCH_BYTES = 16 * 1024 * 1024"
definition MAX_CONTENT_LINE_CHARS :: nat where "MAX_CONTENT_LINE_CHARS = 2000"

fun kind_text :: "node_kind \<Rightarrow> string" where
  "kind_text KLink = ''symlink''"
| "kind_text KDir = ''directory''"
| "kind_text KFile = ''file''"
| "kind_text KOther = ''other''"

definition entry_json :: "rpath \<Rightarrow> node \<Rightarrow> dict" where
  "entry_json p n =
     [(''name'', JStr (pname p)), (''path'', JStr (as_posix p)), (''type'', JStr (kind_text (nkind n))),
      (''is_symlink'', JBool (nkind n = KLink)), (''size_bytes'', JInt (nsize n)),
      (''mtime_ns'', JInt (nmtime n))]"

definition authorize_fs ::
  "pyenv \<Rightarrow> string \<Rightarrow> int \<Rightarrow> rpath \<Rightarrow> pyfloat \<Rightarrow> (registry \<Rightarrow> 'a result \<times> registry) \<Rightarrow> registry \<Rightarrow> 'a result \<times> registry"
  where
  "authorize_fs env lid tok p now act reg =
     (case authorize env lid tok ''fs.read'' (Some (fs_resource p)) (Some READ) now reg of
        (Inl e, reg1) \<Rightarrow> (Inl e, reg1)
      | (Inr _, reg1) \<Rightarrow> act reg1)"

definition os_lstat :: "fs \<Rightarrow> rpath \<Rightarrow> node result" where
  "os_lstat f p = (case map_of f p of None \<Rightarrow> Inl (missing_error f p) | Some n \<Rightarrow> Inr n)"

definition stat_sync ::
  "pyenv \<Rightarrow> osenv \<Rightarrow> executor \<Rightarrow> string \<Rightarrow> int \<Rightarrow> string \<Rightarrow> pyfloat \<Rightarrow> registry \<Rightarrow> fs \<Rightarrow> dict result \<times> registry" where
  "stat_sync env os ex lid tok value now reg f =
     (case abspath os f value of
        Inl e \<Rightarrow> (Inl e, reg)
      | Inr raw \<Rightarrow>
        (case raw_is_symlink os f (as_posix raw) of
           Inl e \<Rightarrow> (Inl e, reg)
         | Inr True \<Rightarrow>
             (case resolve_allowed env os ex f (as_posix (parent raw)) of
                Inl e \<Rightarrow> (Inl e, reg)
              | Inr par \<Rightarrow>
                  let candidate = child par (pname raw) in
                  authorize_fs env lid tok par now
                    (\<lambda>reg1. (map_sum id (entry_json candidate) (os_lstat f candidate), reg1)) reg)
         | Inr False \<Rightarrow>
             (case resolve_allowed env os ex f (as_posix raw) of
                Inl e \<Rightarrow> (Inl e, reg)
              | Inr p \<Rightarrow>
                  authorize_fs env lid tok p now
                    (\<lambda>reg1. (map_sum id (entry_json p) (os_lstat f p), reg1)) reg)))"

definition sorted_entries :: "pyenv \<Rightarrow> fs \<Rightarrow> rpath \<Rightarrow> (string \<times> node) list" where
  "sorted_entries env f d = sort_key (\<lambda>e. (str_casefold env (fst e), fst e)) (scandir f d)"

definition int_in :: "json \<Rightarrow> int \<Rightarrow> int \<Rightarrow> int option" where
  "int_in v lo hi = (case exact_int v of Some i \<Rightarrow> if lo \<le> i \<and> i \<le> hi then Some i else None | None \<Rightarrow> None)"

definition natural_in :: "json \<Rightarrow> int option" where
  "natural_in v = (case exact_int v of Some i \<Rightarrow> if i < 0 then None else Some i | None \<Rightarrow> None)"

definition list_dir_sync ::
  "pyenv \<Rightarrow> osenv \<Rightarrow> fs \<Rightarrow> rpath \<Rightarrow> int \<Rightarrow> int \<Rightarrow> dict result" where
  "list_dir_sync env os f d offset max_entries =
     (if \<not> is_dir f d then Inl (Py NotADirectoryError)
      else if scan_fault os d then Inl (Py OSError)
      else
        let entries = sorted_entries env f d;
            total = int (length entries);
            page = take (nat max_entries) (drop (nat offset) entries);
            result = map (\<lambda>(nm, n). JObj (entry_json (child d nm) n)) page;
            next = offset + int (length page)
        in Inr [(''path'', JStr (as_posix d)), (''entries'', JList result), (''offset'', JInt offset),
                (''next_offset'', if next < total then JInt next else JNull),
                (''total_entries'', JInt total), (''truncated'', JBool (next < total))])"

definition list_dir ::
  "pyenv \<Rightarrow> osenv \<Rightarrow> executor \<Rightarrow> string \<Rightarrow> int \<Rightarrow> string \<Rightarrow> json \<Rightarrow> json \<Rightarrow> pyfloat \<Rightarrow> registry \<Rightarrow> fs
   \<Rightarrow> dict result \<times> registry" where
  "list_dir env os ex lid tok path offset max_entries now reg f =
     (case (natural_in offset, int_in max_entries 1 MAX_LIST_ENTRIES) of
        (Some off, Some n) \<Rightarrow>
          (case resolve_allowed env os ex f path of
             Inl e \<Rightarrow> (Inl e, reg)
           | Inr d \<Rightarrow> authorize_fs env lid tok d now (\<lambda>reg1. (list_dir_sync env os f d off n, reg1)) reg)
      | _ \<Rightarrow> (Inl (Py ValueError), reg))"

section \<open>The walk\<close>

definition entries_of :: "pyenv \<Rightarrow> osenv \<Rightarrow> fs \<Rightarrow> rpath \<Rightarrow> (rpath \<times> node) list" where
  "entries_of env os f d =
     (if scan_fault os d then [] else map (\<lambda>(nm, n). (child d nm, n)) (sorted_entries env f d))"

definition subdirs :: "(rpath \<times> node) list \<Rightarrow> rpath list" where
  "subdirs es = map fst (filter (\<lambda>(p, n). nkind n = KDir) es)"

fun visit_all :: "('e \<Rightarrow> 's \<Rightarrow> 's \<times> bool) \<Rightarrow> 'e list \<Rightarrow> 's \<Rightarrow> 's \<times> bool" where
  "visit_all visit [] s = (s, False)"
| "visit_all visit (e # es) s =
     (case visit e s of (s', stop) \<Rightarrow> if stop then (s', True) else visit_all visit es s')"

text \<open>All entries below a directory in the order in which the stack visits them.\<close>

function walk :: "pyenv \<Rightarrow> osenv \<Rightarrow> fs \<Rightarrow> int \<Rightarrow> rpath \<Rightarrow> nat \<Rightarrow> (rpath \<times> node) list" where
  "walk env os f max_depth d depth =
     entries_of env os f d
     @ (if int depth < max_depth
        then concat (map (\<lambda>p. walk env os f max_depth p (Suc depth)) (rev (subdirs (entries_of env os f d))))
        else [])"
  by pat_completeness auto
termination
  by (relation "measure (\<lambda>(_, _, _, max_depth, _, depth). nat (max_depth - int depth))") auto

declare walk.simps [simp del]

definition pushed :: "pyenv \<Rightarrow> osenv \<Rightarrow> fs \<Rightarrow> int \<Rightarrow> rpath \<Rightarrow> nat \<Rightarrow> (rpath \<times> nat) list" where
  "pushed env os f max_depth d depth =
     (if int depth < max_depth
      then map (\<lambda>p. (p, Suc depth)) (rev (subdirs (entries_of env os f d))) else [])"

definition walk_size :: "pyenv \<Rightarrow> osenv \<Rightarrow> fs \<Rightarrow> int \<Rightarrow> (rpath \<times> nat) list \<Rightarrow> nat" where
  "walk_size env os f max_depth stack =
     sum_list (map (\<lambda>(d, depth). Suc (length (walk env os f max_depth d depth))) stack)"

lemma walk_pushed:
  "walk env os f max_depth d depth = entries_of env os f d
     @ concat (map (\<lambda>(p, k). walk env os f max_depth p k) (pushed env os f max_depth d depth))"
  by (subst walk.simps) (simp add: pushed_def comp_def)

lemma length_subdirs: "length (subdirs es) \<le> length es"
  by (simp add: subdirs_def)

lemma walk_size_pushed:
  "walk_size env os f max_depth (pushed env os f max_depth d depth) \<le> length (walk env os f max_depth d depth)"
proof -
  have "walk_size env os f m st = length st + length (concat (map (\<lambda>(p, k). walk env os f m p k) st))" for m st
    by (induction st) (auto simp: walk_size_def)
  then show ?thesis
    using length_subdirs [of "entries_of env os f d"] unfolding walk_pushed [of env os f max_depth d depth]
    by (simp add: pushed_def)
qed

function walk_loop ::
  "pyenv \<Rightarrow> osenv \<Rightarrow> fs \<Rightarrow> int \<Rightarrow> (rpath \<times> node \<Rightarrow> 's \<Rightarrow> 's \<times> bool) \<Rightarrow> (rpath \<times> nat) list \<Rightarrow> 's \<Rightarrow> 's" where
  "walk_loop env os f max_depth visit [] s = s"
| "walk_loop env os f max_depth visit ((d, depth) # stack) s =
     (case visit_all visit (entries_of env os f d) s of
        (s', stop) \<Rightarrow>
          if stop then s'
          else walk_loop env os f max_depth visit (pushed env os f max_depth d depth @ stack) s')"
  by pat_completeness auto
termination
proof (relation "measure (\<lambda>(env, os, f, max_depth, _, stack, _). walk_size env os f max_depth stack)", goal_cases)
  case (2 env os f max_depth visit d depth stack s x y)
  then show ?case using walk_size_pushed [of env os f max_depth d depth] by (simp add: walk_size_def)
qed simp

declare walk_loop.simps [simp del]

lemma visit_all_append:
  "visit_all visit (xs @ ys) s =
     (case visit_all visit xs s of (s', stop) \<Rightarrow> if stop then (s', True) else visit_all visit ys s')"
  by (induction xs arbitrary: s) (auto split: prod.splits)

text \<open>The loop with the stack visits the entries of the walk one after the other until told to stop.\<close>

lemma walk_loop_flat:
  "walk_loop env os f max_depth visit stack s =
     fst (visit_all visit (concat (map (\<lambda>(d, k). walk env os f max_depth d k) stack)) s)"
proof (induction env os f max_depth visit stack s rule: walk_loop.induct)
  case (2 env os f max_depth visit d depth stack s)
  note walk_loop.simps [simp]
  obtain s' stop where v: "visit_all visit (entries_of env os f d) s = (s', stop)" by fastforce
  show ?case
  proof (cases stop)
    case True
    then show ?thesis using v by (simp add: walk_pushed [of env os f max_depth d] visit_all_append)
  next
    case False
    then show ?thesis using v "2.IH" by (simp add: walk_pushed [of env os f max_depth d] visit_all_append)
  qed
qed (simp add: walk_loop.simps)

section \<open>Searching names\<close>

record search_state =
  scanned :: int
  matched :: int
  results :: "json list"
  more_matches :: bool
  scan_limit_hit :: bool

definition search_start :: search_state where
  "search_start = \<lparr>scanned = 0, matched = 0, results = [], more_matches = False, scan_limit_hit = False\<rparr>"

definition relative_text :: "rpath \<Rightarrow> rpath \<Rightarrow> string" where
  "relative_text base p = join ''/'' (drop (length (parts base)) (parts p))"

definition name_matches :: "pyenv \<Rightarrow> rpath \<Rightarrow> string \<Rightarrow> bool \<Rightarrow> rpath \<Rightarrow> bool" where
  "name_matches env base needle case_sensitive p =
     (let relative = relative_text base p in
      sublist needle (if case_sensitive then relative else str_casefold env relative))"

definition match_json :: "rpath \<Rightarrow> rpath \<times> node \<Rightarrow> json" where
  "match_json base = (\<lambda>(p, n). JObj (entry_json p n @ [(''relative_path'', JStr (relative_text base p))]))"

definition search_visit ::
  "pyenv \<Rightarrow> rpath \<Rightarrow> string \<Rightarrow> bool \<Rightarrow> int \<Rightarrow> int \<Rightarrow> int \<Rightarrow> rpath \<times> node \<Rightarrow> search_state \<Rightarrow> search_state \<times> bool"
  where
  "search_visit env base needle case_sensitive offset max_results max_entries e s =
     (if scanned s \<ge> max_entries then (s\<lparr>scan_limit_hit := True\<rparr>, True)
      else
        let s1 = s\<lparr>scanned := scanned s + 1\<rparr> in
        if name_matches env base needle case_sensitive (fst e) then
          (if matched s1 \<ge> offset then
             (if int (length (results s1)) < max_results
              then (s1\<lparr>results := results s1 @ [match_json base e], matched := matched s1 + 1\<rparr>, False)
              else (s1\<lparr>more_matches := True\<rparr>, True))
           else (s1\<lparr>matched := matched s1 + 1\<rparr>, False))
        else (s1, False))"

definition search_sync ::
  "pyenv \<Rightarrow> osenv \<Rightarrow> fs \<Rightarrow> rpath \<Rightarrow> string \<Rightarrow> int \<Rightarrow> int \<Rightarrow> int \<Rightarrow> int \<Rightarrow> bool \<Rightarrow> dict result" where
  "search_sync env os f base query offset max_results max_entries max_depth case_sensitive =
     (if \<not> is_dir f base then Inl (Py NotADirectoryError)
      else
        let needle = (if case_sensitive then query else str_casefold env query);
            s = walk_loop env os f max_depth
                  (search_visit env base needle case_sensitive offset max_results max_entries)
                  [(base, 0)] search_start;
            truncated = (more_matches s \<or> scan_limit_hit s)
        in Inr [(''root'', JStr (as_posix base)), (''query'', JStr query), (''matches'', JList (results s)),
                (''offset'', JInt offset),
                (''next_offset'', if truncated \<and> results s \<noteq> [] then JInt (offset + int (length (results s)))
                                  else JNull),
                (''scanned_entries'', JInt (scanned s)), (''max_entries'', JInt max_entries),
                (''max_depth'', JInt max_depth), (''scan_limit_hit'', JBool (scan_limit_hit s)),
                (''truncated'', JBool truncated)])"

fun exact_bool :: "json \<Rightarrow> bool option" where
  "exact_bool (JBool b) = Some b"
| "exact_bool v = None"

definition search ::
  "pyenv \<Rightarrow> osenv \<Rightarrow> executor \<Rightarrow> string \<Rightarrow> int \<Rightarrow> string \<Rightarrow> string \<Rightarrow> json \<Rightarrow> json \<Rightarrow> json \<Rightarrow> json \<Rightarrow> json
   \<Rightarrow> pyfloat \<Rightarrow> registry \<Rightarrow> fs \<Rightarrow> dict result \<times> registry" where
  "search env os ex lid tok base query offset max_results max_entries max_depth case_sensitive now reg f =
     (if query = [] then (Inl (Py ValueError), reg)
      else case (natural_in offset, int_in max_results 1 MAX_SEARCH_RESULTS,
                 int_in max_entries 1 MAX_SEARCH_ENTRIES, int_in max_depth 0 MAX_SEARCH_DEPTH,
                 exact_bool case_sensitive) of
        (Some off, Some mr, Some me, Some md, Some cs) \<Rightarrow>
          (case resolve_allowed env os ex f base of
             Inl e \<Rightarrow> (Inl e, reg)
           | Inr d \<Rightarrow> authorize_fs env lid tok d now
               (\<lambda>reg1. (search_sync env os f d query off mr me md cs, reg1)) reg)
      | _ \<Rightarrow> (Inl (Py ValueError), reg))"

section \<open>What the walk visits\<close>

lemma fs_wf_ancestor:
  assumes "fs_wf f"
  shows "map_of f p \<noteq> None \<Longrightarrow> below p q \<Longrightarrow> p \<noteq> q \<Longrightarrow> is_dir f q"
proof (induction "length (parts p)" arbitrary: p rule: less_induct)
  case less
  have ne: "parts p \<noteq> []" "below (parent p) q" using below_parts less.prems by blast+
  then have dir: "is_dir f (parent p)" using fs_wfD [OF assms] less.prems by blast
  show ?case
  proof (cases "parent p = q")
    case False
    have "length (parts (parent p)) < length (parts p)" using ne by (simp add: parent_def)
    moreover have "map_of f (parent p) \<noteq> None" using dir by (auto simp: is_dir_def fs_kind_def)
    ultimately show ?thesis using less.hyps ne False by blast
  qed (use dir in simp)
qed

lemma set_entries_of:
  assumes "\<not> scan_fault os d"
  shows "set (entries_of env os f d) = {(p, n) \<in> set f. parts p \<noteq> [] \<and> parent p = d}"
proof -
  have "set (entries_of env os f d) = (\<lambda>(nm, n). (child d nm, n)) ` set (scandir f d)"
    using assms by (simp add: entries_of_def sorted_entries_def)
  also have "\<dots> = {(p, n) \<in> set f. parts p \<noteq> [] \<and> parent p = d}"
  proof (intro set_eqI iffI; clarify)
    fix p n nm
    assume "(nm, n) \<in> set (scandir f d)"
    then obtain q where "(q, n) \<in> set f" "anchor q = anchor d" "parts q \<noteq> []" "butlast (parts q) = parts d"
        "nm = last (parts q)"
      by (auto simp: scandir_def)
    moreover then have "child d nm = q" by (cases q) (simp add: child_def, metis append_butlast_last_id)
    ultimately show "(child d nm, n) \<in> set f \<and> parts (child d nm) \<noteq> [] \<and> parent (child d nm) = d"
      by (cases d) (auto simp: parent_def)
  next
    fix p n
    assume a: "(p, n) \<in> set f" "parts p \<noteq> []" "d = parent p"
    then have "(last (parts p), n) \<in> set (scandir f (parent p))"
      by (force simp: scandir_def parent_def)
    moreover have "child (parent p) (last (parts p)) = p"
      using a by (cases p) (simp add: child_def parent_def)
    ultimately show "(p, n) \<in> (\<lambda>(nm, n). (child (parent p) nm, n)) ` set (scandir f (parent p))"
      by (force simp: image_iff)
  qed
  finally show ?thesis .
qed

lemma below_step:
  assumes "below p d" "p \<noteq> d"
  shows "\<exists>c. parts c \<noteq> [] \<and> parent c = d \<and> below p c"
proof -
  obtain z zs where z: "parts p = parts d @ z # zs" "anchor p = anchor d"
    using assms by (cases p; cases d) (auto simp: below_def prefix_def intro: list.exhaust)
  then show ?thesis
    by (intro exI [of _ "RPath (anchor d) (parts d @ [z])"]) (cases d, auto simp: parent_def below_def prefix_def)
qed

lemma below_length: "below p q \<Longrightarrow> length (parts q) \<le> length (parts p)"
  by (auto simp: below_def dest: prefix_length_le)

definition walk_reach :: "fs \<Rightarrow> int \<Rightarrow> rpath \<Rightarrow> nat \<Rightarrow> (rpath \<times> node) set" where
  "walk_reach f max_depth d depth = {(p, n). (p, n) \<in> set f \<and> below p d \<and> p \<noteq> d
     \<and> int (length (parts p)) \<le> int (length (parts d)) + 1 + max 0 (max_depth - int depth)}"

lemma walk_set:
  assumes "fs_wf f" "\<forall>d. \<not> scan_fault os d"
  shows "set (walk env os f max_depth d depth) = walk_reach f max_depth d depth"
proof (induction "nat (max_depth - int depth)" arbitrary: d depth rule: less_induct)
  case less
  have ent: "set (entries_of env os f d) = {(p, n) \<in> set f. parts p \<noteq> [] \<and> parent p = d}" for d
    using set_entries_of assms(2) by blast
  have par: "below p (parent p)" "p \<noteq> parent p" "length (parts p) = Suc (length (parts (parent p)))"
    if "parts p \<noteq> []" for p
    using that below_parent parent_neq [of p] by (auto simp: parent_def)
  have here: "set (entries_of env os f d) = {(p, n) \<in> walk_reach f max_depth d depth. parent p = d}"
  proof -
    have ne: "below p d \<Longrightarrow> p \<noteq> d \<Longrightarrow> parts p \<noteq> []" for p using below_parts by blast
    have "(p, n) \<in> set f \<and> parts p \<noteq> [] \<and> parent p = d
        \<longleftrightarrow> (p, n) \<in> walk_reach f max_depth d depth \<and> parent p = d" for p n
      using par [of p] ne [of p] by (cases "parent p = d") (auto simp: walk_reach_def)
    then show ?thesis unfolding ent by blast
  qed
  show ?case
  proof (cases "int depth < max_depth")
    case False
    have "parent p = d" if "(p, n) \<in> walk_reach f max_depth d depth" for p n
    proof -
      have b: "below p d" "p \<noteq> d" "length (parts p) \<le> Suc (length (parts d))"
        using that False by (auto simp: walk_reach_def)
      obtain c where c: "parts c \<noteq> []" "parent c = d" "below p c" using below_step b by blast
      have "p = c"
        using c(3) b(3) par(3) [OF c(1)] c(2) by (cases p; cases c) (auto simp: below_def prefix_def)
      then show ?thesis using c by simp
    qed
    then show ?thesis using here False by (subst walk.simps) auto
  next
    case True
    have IH: "set (walk env os f max_depth c (Suc depth)) = walk_reach f max_depth c (Suc depth)" for c
      using less.hyps [of "Suc depth" c] True by simp
    have deep: "(p, n) \<in> walk_reach f max_depth d depth \<and> parent p \<noteq> d \<longleftrightarrow>
        (\<exists>c \<in> set (subdirs (entries_of env os f d)). (p, n) \<in> walk_reach f max_depth c (Suc depth))" for p n
    proof
      assume h: "(p, n) \<in> walk_reach f max_depth d depth \<and> parent p \<noteq> d"
      then have b: "below p d" "p \<noteq> d" "(p, n) \<in> set f" by (auto simp: walk_reach_def)
      then obtain c where c: "parts c \<noteq> []" "parent c = d" "below p c" using below_step by blast
      then have "p \<noteq> c" using h by auto
      moreover have "map_of f p \<noteq> None" using b(3) by (auto simp: map_of_eq_None_iff intro: rev_image_eqI)
      ultimately have "is_dir f c" using fs_wf_ancestor [OF assms(1)] c(3) by blast
      then obtain m where "(c, m) \<in> set f" "nkind m = KDir"
        by (auto simp: is_dir_def fs_kind_def dest: map_of_SomeD)
      then have "c \<in> set (subdirs (entries_of env os f d))"
        using c(1,2) by (force simp: subdirs_def ent)
      moreover have "(p, n) \<in> walk_reach f max_depth c (Suc depth)"
        using h c \<open>p \<noteq> c\<close> par(3) [OF c(1)] True by (auto simp: walk_reach_def)
      ultimately show "\<exists>c \<in> set (subdirs (entries_of env os f d)). (p, n) \<in> walk_reach f max_depth c (Suc depth)"
        by blast
    next
      assume "\<exists>c \<in> set (subdirs (entries_of env os f d)). (p, n) \<in> walk_reach f max_depth c (Suc depth)"
      then obtain c where c: "parts c \<noteq> []" "parent c = d" "(p, n) \<in> walk_reach f max_depth c (Suc depth)"
        by (auto simp: subdirs_def ent)
      then have b: "below p c" "p \<noteq> c" "below p d" by (auto simp: walk_reach_def intro: below_trans below_parent)
      have "below (parent p) c" using below_parts b by blast
      then have "parent p \<noteq> d" using below_length [of "parent p" c] par(3) [OF c(1)] c(2) by auto
      moreover have "p \<noteq> d" using below_length [OF b(1)] par(3) [OF c(1)] c(2) by auto
      ultimately show "(p, n) \<in> walk_reach f max_depth d depth \<and> parent p \<noteq> d"
        using c b par(3) [OF c(1)] True by (auto simp: walk_reach_def)
    qed
    have w: "set (walk env os f max_depth d depth) = set (entries_of env os f d)
        \<union> (\<Union>c \<in> set (subdirs (entries_of env os f d)). walk_reach f max_depth c (Suc depth))"
      using True by (subst walk.simps) (simp add: IH)
    have "(p, n) \<in> set (walk env os f max_depth d depth) \<longleftrightarrow> (p, n) \<in> walk_reach f max_depth d depth" for p n
    proof -
      have h: "(p, n) \<in> set (entries_of env os f d) \<longleftrightarrow> (p, n) \<in> walk_reach f max_depth d depth \<and> parent p = d"
        by (simp add: here)
      have u: "(p, n) \<in> (\<Union>c \<in> set (subdirs (entries_of env os f d)). walk_reach f max_depth c (Suc depth))
          \<longleftrightarrow> (p, n) \<in> walk_reach f max_depth d depth \<and> parent p \<noteq> d"
        unfolding deep by simp
      show ?thesis unfolding w Un_iff h u by blast
    qed
    then show ?thesis by auto
  qed
qed

section \<open>What a name search returns\<close>

lemma search_run:
  assumes "0 \<le> off" "1 \<le> mr"
  shows "\<lbrakk>scanned s \<le> me; 0 \<le> matched s; int (length (results s)) = max 0 (matched s - off);
      int (length (results s)) \<le> mr; \<not> more_matches s; \<not> scan_limit_hit s\<rbrakk> \<Longrightarrow>
    (let F = filter (\<lambda>e. name_matches env base needle cs (fst e)) (take (nat (me - scanned s)) W);
         s' = fst (visit_all (search_visit env base needle cs off mr me) W s) in
     results s' = results s @ map (match_json base) (take (nat mr - length (results s)) (drop (nat (off - matched s)) F))
     \<and> (more_matches s' \<longleftrightarrow> matched s + int (length F) > off + mr)
     \<and> (scan_limit_hit s' \<longleftrightarrow> \<not> more_matches s' \<and> int (length W) > me - scanned s)
     \<and> scanned s' \<le> me)"
proof (induction W arbitrary: s)
  case Nil
  then show ?case using assms by (simp add: Let_def)
next
  case (Cons e W)
  let ?v = "search_visit env base needle cs off mr me"
  let ?m = "name_matches env base needle cs (fst e)"
  consider (limit) "scanned s = me" | (skip) "scanned s < me" "\<not> ?m"
    | (early) "scanned s < me" ?m "matched s < off"
    | (take) "scanned s < me" ?m "off \<le> matched s" "int (length (results s)) < mr"
    | (full) "scanned s < me" ?m "off \<le> matched s" "int (length (results s)) = mr"
    using Cons.prems(1,4) by force
  then show ?case
  proof cases
    case limit
    then show ?thesis using Cons.prems assms by (simp add: search_visit_def Let_def)
  next
    case skip
    let ?s = "s\<lparr>scanned := scanned s + 1\<rparr>"
    have v: "?v e s = (?s, False)" using skip by (simp add: search_visit_def)
    have n: "nat (me - scanned s) = Suc (nat (me - (scanned s + 1)))" using skip by simp
    show ?thesis using Cons.IH [of ?s] Cons.prems skip by (simp add: v n Let_def) linarith
  next
    case early
    let ?s = "s\<lparr>scanned := scanned s + 1, matched := matched s + 1\<rparr>"
    have v: "?v e s = (?s, False)" using early by (simp add: search_visit_def)
    have n: "nat (me - scanned s) = Suc (nat (me - (scanned s + 1)))" using early by simp
    have o: "nat (off - matched s) = Suc (nat (off - (matched s + 1)))" using early by simp
    show ?thesis using Cons.IH [of ?s] Cons.prems early by (simp add: v n o Let_def) linarith
  next
    case take
    let ?s = "s\<lparr>scanned := scanned s + 1, results := results s @ [match_json base e], matched := matched s + 1\<rparr>"
    have v: "?v e s = (?s, False)" using take by (simp add: search_visit_def)
    have n: "nat (me - scanned s) = Suc (nat (me - (scanned s + 1)))" using take by simp
    have o: "nat (off - matched s) = 0" "nat (off - (matched s + 1)) = 0" using take by simp_all
    have k: "nat mr - length (results s) = Suc (nat mr - Suc (length (results s)))" using take by simp
    show ?thesis using Cons.IH [of ?s] Cons.prems take by (simp add: v n o k Let_def) linarith
  next
    case full
    have v: "?v e s = (s\<lparr>scanned := scanned s + 1, more_matches := True\<rparr>, True)"
      using full by (simp add: search_visit_def)
    have n: "nat (me - scanned s) = Suc (nat (me - (scanned s + 1)))" using full by simp
    show ?thesis using full Cons.prems by (simp add: v n Let_def)
  qed
qed

section \<open>Searching content\<close>

text \<open>Lines as \<^verbatim>\<open>str.splitlines\<close> cuts them, and lengths and slices in code points of UTF-8 text.\<close>

definition line_breaks :: "string list" where
  "line_breaks = [[CHR 0x0D, CHR 0x0A], [CHR 0x0A], [CHR 0x0D], [CHR 0x0B], [CHR 0x0C], [CHR 0x1C],
     [CHR 0x1D], [CHR 0x1E], [CHR 0xC2, CHR 0x85], [CHR 0xE2, CHR 0x80, CHR 0xA8],
     [CHR 0xE2, CHR 0x80, CHR 0xA9]]"

lemma line_break_nonempty: "find P line_breaks = Some b \<Longrightarrow> b \<noteq> []"
  by (auto simp: line_breaks_def split: if_splits)

function splitlines_from :: "string \<Rightarrow> string \<Rightarrow> string list" where
  "splitlines_from cur [] = (if cur = [] then [] else [cur])"
| "splitlines_from cur (c # cs) =
     (case find (\<lambda>b. prefix b (c # cs)) line_breaks of
        Some b \<Rightarrow> cur # splitlines_from [] (drop (length b) (c # cs))
      | None \<Rightarrow> splitlines_from (cur @ [c]) cs)"
  by pat_completeness auto
termination
  by (relation "measure (\<lambda>(_, s). length s)") (auto dest: line_break_nonempty)

definition is_continuation :: "char \<Rightarrow> bool" where
  "is_continuation c \<longleftrightarrow> 128 \<le> byte_val c \<and> byte_val c < 192"

definition cp_length :: "string \<Rightarrow> nat" where
  "cp_length s = length (filter (\<lambda>c. \<not> is_continuation c) s)"

fun cp_take :: "nat \<Rightarrow> string \<Rightarrow> string" where
  "cp_take n [] = []"
| "cp_take n (c # cs) =
     (if is_continuation c then c # cp_take n cs
      else case n of 0 \<Rightarrow> [] | Suc k \<Rightarrow> c # cp_take k cs)"

text \<open>The text before the first occurrence: \<^verbatim>\<open>haystack.find(needle)\<close> is its length.\<close>

fun before_match :: "string \<Rightarrow> string \<Rightarrow> string option" where
  "before_match needle [] = (if needle = [] then Some [] else None)"
| "before_match needle (c # cs) =
     (if prefix needle (c # cs) then Some [] else map_option (Cons c) (before_match needle cs))"

record content_state =
  c_scanned :: int
  c_files :: int
  c_bytes :: int
  c_matched :: int
  c_results :: "json list"
  c_scan_limit :: bool
  c_byte_limit :: bool
  c_more :: bool

definition content_start :: content_state where
  "content_start = \<lparr>c_scanned = 0, c_files = 0, c_bytes = 0, c_matched = 0, c_results = [],
     c_scan_limit = False, c_byte_limit = False, c_more = False\<rparr>"

definition content_json :: "rpath \<Rightarrow> rpath \<Rightarrow> int \<Rightarrow> nat \<Rightarrow> string \<Rightarrow> json" where
  "content_json base p line_number column line =
     JObj [(''path'', JStr (as_posix p)), (''relative_path'', JStr (relative_text base p)),
           (''line'', JInt line_number), (''column'', JInt (int column + 1)),
           (''snippet'', JStr (cp_take MAX_CONTENT_LINE_CHARS line)),
           (''snippet_truncated'', JBool (cp_length line > MAX_CONTENT_LINE_CHARS))]"

fun scan_lines ::
  "pyenv \<Rightarrow> rpath \<Rightarrow> string \<Rightarrow> bool \<Rightarrow> int \<Rightarrow> int \<Rightarrow> rpath \<Rightarrow> string list \<Rightarrow> int \<Rightarrow> content_state \<Rightarrow> content_state" where
  "scan_lines env base needle cs offset max_results p [] k s = s"
| "scan_lines env base needle cs offset max_results p (line # rest) k s =
     (case before_match needle (if cs then line else str_casefold env line) of
        None \<Rightarrow> scan_lines env base needle cs offset max_results p rest (k + 1) s
      | Some pre \<Rightarrow>
          if c_matched s \<ge> offset then
            (if int (length (c_results s)) \<ge> max_results then s\<lparr>c_more := True\<rparr>
             else scan_lines env base needle cs offset max_results p rest (k + 1)
                    (s\<lparr>c_results := c_results s @ [content_json base p k (cp_length pre) line],
                       c_matched := c_matched s + 1\<rparr>))
          else scan_lines env base needle cs offset max_results p rest (k + 1)
                 (s\<lparr>c_matched := c_matched s + 1\<rparr>))"

definition content_visit ::
  "pyenv \<Rightarrow> osenv \<Rightarrow> executor \<Rightarrow> rpath \<Rightarrow> string \<Rightarrow> string \<Rightarrow> bool \<Rightarrow> int \<Rightarrow> int \<Rightarrow> int \<Rightarrow> int
   \<Rightarrow> rpath \<times> node \<Rightarrow> content_state \<Rightarrow> content_state \<times> bool" where
  "content_visit env os ex base needle pattern cs offset max_results max_entries max_total e s =
     (if c_scanned s \<ge> max_entries then (s\<lparr>c_scan_limit := True\<rparr>, True)
      else
        let s1 = s\<lparr>c_scanned := c_scanned s + 1\<rparr>; (p, n) = e in
        if nkind n \<noteq> KFile \<or> \<not> fn_match os (pname p) pattern then (s1, False)
        else
          let remaining = max_total - c_bytes s1 in
          if remaining \<le> 0 then (s1\<lparr>c_byte_limit := True\<rparr>, True)
          else if scan_fault os p then (s1, False)
          else
            let limit = min (max_read_bytes ex) remaining;
                payload = take (nat limit) (take (nat (limit + 1)) (ndata n));
                s2 = s1\<lparr>c_bytes := c_bytes s1 + int (length payload), c_files := c_files s1 + 1\<rparr>;
                s3 = scan_lines env base needle cs offset max_results p
                       (splitlines_from [] (decode_replace os payload)) 1 s2
            in if c_more s3 then (s3, True)
               else if c_bytes s3 \<ge> max_total then (s3\<lparr>c_byte_limit := True\<rparr>, True)
               else (s3, False))"

definition search_content_run ::
  "pyenv \<Rightarrow> osenv \<Rightarrow> executor \<Rightarrow> fs \<Rightarrow> rpath \<Rightarrow> string \<Rightarrow> string \<Rightarrow> int \<Rightarrow> int \<Rightarrow> int \<Rightarrow> int \<Rightarrow> int \<Rightarrow> bool
   \<Rightarrow> content_state" where
  "search_content_run env os ex f base query pattern offset max_results max_entries max_depth max_total cs =
     walk_loop env os f max_depth
       (content_visit env os ex base (if cs then query else str_casefold env query) pattern cs offset
          max_results max_entries max_total)
       [(base, 0)] content_start"

definition search_content_sync ::
  "pyenv \<Rightarrow> osenv \<Rightarrow> executor \<Rightarrow> fs \<Rightarrow> rpath \<Rightarrow> string \<Rightarrow> string \<Rightarrow> int \<Rightarrow> int \<Rightarrow> int \<Rightarrow> int \<Rightarrow> int \<Rightarrow> bool
   \<Rightarrow> dict result" where
  "search_content_sync env os ex f base query pattern offset max_results max_entries max_depth max_total cs =
     (if \<not> is_dir f base then Inl (Py NotADirectoryError)
      else
        let s = search_content_run env os ex f base query pattern offset max_results max_entries max_depth
                  max_total cs;
            truncated = (c_more s \<or> c_scan_limit s \<or> c_byte_limit s)
        in Inr [(''root'', JStr (as_posix base)), (''query'', JStr query), (''file_pattern'', JStr pattern),
                (''matches'', JList (c_results s)), (''offset'', JInt offset),
                (''next_offset'', if truncated \<and> c_results s \<noteq> []
                                  then JInt (offset + int (length (c_results s))) else JNull),
                (''scanned_entries'', JInt (c_scanned s)), (''scanned_files'', JInt (c_files s)),
                (''bytes_scanned'', JInt (c_bytes s)), (''max_total_bytes'', JInt max_total),
                (''scan_limit_hit'', JBool (c_scan_limit s)), (''byte_limit_hit'', JBool (c_byte_limit s)),
                (''truncated'', JBool truncated), (''literal_search'', JBool True)])"

definition search_content ::
  "pyenv \<Rightarrow> osenv \<Rightarrow> executor \<Rightarrow> string \<Rightarrow> int \<Rightarrow> string \<Rightarrow> string \<Rightarrow> string \<Rightarrow> json \<Rightarrow> json \<Rightarrow> json \<Rightarrow> json
   \<Rightarrow> json \<Rightarrow> json \<Rightarrow> pyfloat \<Rightarrow> registry \<Rightarrow> fs \<Rightarrow> dict result \<times> registry" where
  "search_content env os ex lid tok base query pattern offset max_results max_entries max_depth max_total
     case_sensitive now reg f =
     (if query = [] \<or> pattern = [] then (Inl (Py ValueError), reg)
      else case (natural_in offset, int_in max_results 1 MAX_SEARCH_RESULTS,
                 int_in max_entries 1 MAX_SEARCH_ENTRIES, int_in max_depth 0 MAX_SEARCH_DEPTH,
                 int_in max_total 1 MAX_CONTENT_SEARCH_BYTES, exact_bool case_sensitive) of
        (Some off, Some mr, Some me, Some md, Some mb, Some cs) \<Rightarrow>
          (case resolve_allowed env os ex f base of
             Inl e \<Rightarrow> (Inl e, reg)
           | Inr d \<Rightarrow> authorize_fs env lid tok d now
               (\<lambda>reg1. (search_content_sync env os ex f d query pattern off mr me md mb cs, reg1)) reg)
      | _ \<Rightarrow> (Inl (Py ValueError), reg))"

text \<open>The bounds of a content search, kept by every step.\<close>

definition content_ok ::
  "rpath \<Rightarrow> (rpath \<times> node) set \<Rightarrow> int \<Rightarrow> int \<Rightarrow> int \<Rightarrow> content_state \<Rightarrow> bool" where
  "content_ok base E max_results max_entries max_total s \<longleftrightarrow>
     0 \<le> c_scanned s \<and> c_scanned s \<le> max_entries \<and> 0 \<le> c_files s \<and> c_files s \<le> c_scanned s
     \<and> 0 \<le> c_bytes s \<and> c_bytes s \<le> max_total \<and> int (length (c_results s)) \<le> max_results
     \<and> (\<forall>j \<in> set (c_results s). \<exists>p n k col line. (p, n) \<in> E \<and> nkind n = KFile \<and> j = content_json base p k col line)"

lemma scan_lines_frame:
  "c_scanned (scan_lines env base needle cs off mr p ls k s) = c_scanned s
   \<and> c_files (scan_lines env base needle cs off mr p ls k s) = c_files s
   \<and> c_bytes (scan_lines env base needle cs off mr p ls k s) = c_bytes s"
  by (induction ls arbitrary: k s) (auto split: option.splits)

lemma scan_lines_results:
  "int (length (c_results s)) \<le> mr \<Longrightarrow>
   int (length (c_results (scan_lines env base needle cs off mr p ls k s))) \<le> mr
   \<and> (\<forall>j \<in> set (c_results (scan_lines env base needle cs off mr p ls k s)).
        j \<in> set (c_results s) \<or> (\<exists>k col line. j = content_json base p k col line))"
proof (induction ls arbitrary: k s)
  case (Cons line ls)
  show ?case
  proof (cases "before_match needle (if cs then line else str_casefold env line)")
    case None
    then show ?thesis using Cons by simp
  next
    case (Some pre)
    let ?s1 = "s\<lparr>c_results := c_results s @ [content_json base p k (cp_length pre) line], c_matched := c_matched s + 1\<rparr>"
    let ?s2 = "s\<lparr>c_matched := c_matched s + 1\<rparr>"
    consider "c_matched s < off" | "c_matched s \<ge> off" "int (length (c_results s)) \<ge> mr"
      | "c_matched s \<ge> off" "int (length (c_results s)) < mr" by linarith
    then show ?thesis
    proof cases
      case 3
      have "int (length (c_results ?s1)) \<le> mr" using 3 by simp
      from Cons.IH [OF this, of "k + 1"] 3 Some show ?thesis by simp blast
    qed (use Cons.IH [of ?s2 "k + 1"] Cons.prems Some in simp_all)
  qed
qed simp

lemma content_visit_skips:
  assumes "me \<le> c_scanned s \<or> nkind n \<noteq> KFile \<or> \<not> fn_match os (pname p) pattern
    \<or> mb - c_bytes s \<le> 0 \<or> scan_fault os p"
  shows "me \<le> c_scanned s
    \<or> fst (content_visit env os ex base needle pattern cs off mr me mb (p, n) s) = s\<lparr>c_scanned := c_scanned s + 1\<rparr>
    \<or> fst (content_visit env os ex base needle pattern cs off mr me mb (p, n) s)
        = s\<lparr>c_scanned := c_scanned s + 1\<rparr>\<lparr>c_byte_limit := True\<rparr>"
proof (cases "c_scanned s < me \<and> nkind n = KFile \<and> fn_match os (pname p) pattern")
  case True
  then show ?thesis
    using assms by (cases "mb - c_bytes s \<le> 0") (simp_all add: content_visit_def Let_def)
next
  case False
  then show ?thesis by (cases "me \<le> c_scanned s") (simp_all add: content_visit_def)
qed

lemma content_visit_ok:
  assumes "content_ok base E mr me mb s" "e \<in> E" "1 \<le> max_read_bytes ex"
  shows "content_ok base E mr me mb (fst (content_visit env os ex base needle pattern cs off mr me mb e s))"
proof -
  obtain p n where e: "e = (p, n)" by fastforce
  let ?s1 = "s\<lparr>c_scanned := c_scanned s + 1\<rparr>"
  consider (limit) "c_scanned s \<ge> me"
    | (skip) "c_scanned s < me" "fst (content_visit env os ex base needle pattern cs off mr me mb e s) = ?s1"
    | (bytes) "c_scanned s < me"
        "fst (content_visit env os ex base needle pattern cs off mr me mb e s) = ?s1\<lparr>c_byte_limit := True\<rparr>"
    | (read) b d ls where "c_scanned s < me" "nkind n = KFile" "0 \<le> d" "d \<le> mb - c_bytes s"
        "fst (content_visit env os ex base needle pattern cs off mr me mb e s)
         = (scan_lines env base needle cs off mr p ls 1 (?s1\<lparr>c_bytes := c_bytes s + d, c_files := c_files s + 1\<rparr>))
             \<lparr>c_byte_limit := b\<rparr>"
  proof (cases "c_scanned s \<ge> me \<or> nkind n \<noteq> KFile \<or> \<not> fn_match os (pname p) pattern \<or> mb - c_bytes s \<le> 0 \<or> scan_fault os p")
    case True
    then have "me \<le> c_scanned s \<or> fst (content_visit env os ex base needle pattern cs off mr me mb e s) = ?s1
        \<or> fst (content_visit env os ex base needle pattern cs off mr me mb e s) = ?s1\<lparr>c_byte_limit := True\<rparr>"
      using content_visit_skips [of me s n os p pattern mb] unfolding e by blast
    then show ?thesis using that(1-3) by linarith
  next
    case False
    let ?l = "min (max_read_bytes ex) (mb - c_bytes s)"
    let ?pl = "take (nat ?l) (take (nat (?l + 1)) (ndata n))"
    let ?s3 = "scan_lines env base needle cs off mr p (splitlines_from [] (decode_replace os ?pl)) 1
      (?s1\<lparr>c_bytes := c_bytes s + int (length ?pl), c_files := c_files s + 1\<rparr>)"
    have d: "int (length ?pl) \<le> mb - c_bytes s" using False assms(3) by auto
    have stop: "\<exists>b. fst (if c_more x then (x, True) else if mb \<le> c_bytes x then (x\<lparr>c_byte_limit := True\<rparr>, True)
        else (x, False)) = x\<lparr>c_byte_limit := b\<rparr>" for x
      by (cases x) auto
    have "content_visit env os ex base needle pattern cs off mr me mb e s
        = (if c_more ?s3 then (?s3, True) else if mb \<le> c_bytes ?s3 then (?s3\<lparr>c_byte_limit := True\<rparr>, True)
           else (?s3, False))"
      using False unfolding content_visit_def Let_def e by (simp only: if_False de_Morgan_disj not_not prod.case simp_thms) simp
    then obtain b where "fst (content_visit env os ex base needle pattern cs off mr me mb e s) = ?s3\<lparr>c_byte_limit := b\<rparr>"
      using stop [of ?s3] by (simp only:) blast
    then show ?thesis using that(4) [OF _ _ _ d] False by (simp add: not_le)
  qed
  then show ?thesis
  proof cases
    case limit
    then show ?thesis using assms(1) e by (simp add: content_visit_def content_ok_def)
  next
    case skip
    then show ?thesis using assms(1) by (simp add: content_ok_def)
  next
    case bytes
    then show ?thesis using assms(1) by (simp add: content_ok_def)
  next
    case read
    let ?s2 = "?s1\<lparr>c_bytes := c_bytes s + d, c_files := c_files s + 1\<rparr>"
    have r: "int (length (c_results ?s2)) \<le> mr" using assms(1) by (simp add: content_ok_def)
    have "\<exists>p n k col line. (p, n) \<in> E \<and> nkind n = KFile \<and> j = content_json base p k col line"
      if "j \<in> set (c_results (scan_lines env base needle cs off mr p ls 1 ?s2))" for j
      using scan_lines_results [OF r, of env base needle cs off p ls 1] that assms(1,2) e read(2)
      unfolding content_ok_def by fastforce
    then show ?thesis
      using scan_lines_results [OF r, of env base needle cs off p ls 1] assms(1) read(1,3,4)
        scan_lines_frame [of env base needle cs off mr p ls 1 ?s2]
      unfolding content_ok_def read(5) by simp
  qed
qed

lemma content_all_ok:
  assumes "1 \<le> max_read_bytes ex"
  shows "content_ok base E mr me mb s \<Longrightarrow> set W \<subseteq> E \<Longrightarrow>
    content_ok base E mr me mb (fst (visit_all (content_visit env os ex base needle pattern cs off mr me mb) W s))"
proof (induction W arbitrary: s)
  case (Cons e W)
  obtain s' b where v: "content_visit env os ex base needle pattern cs off mr me mb e s = (s', b)" by fastforce
  have "content_ok base E mr me mb s'" using content_visit_ok [OF Cons.prems(1) _ assms, of e] v Cons.prems(2)
    by (metis fst_conv list.set_intros(1) subsetD)
  then show ?case using Cons v by simp
qed simp

section \<open>Properties\<close>


lemma demo_no_fault: "\<forall>d. \<not> scan_fault demo_os d"
  by (simp add: demo_os_def)


text \<open>
  A content search stays within its limits: it never visits more entries, reads more bytes or
  returns more matches than allowed, and every match is a line of a regular file below the root
  that the lane was authorized to read. A symbolic link is never followed.
\<close>

theorem content_search_bounded:
  assumes "fs_wf f" "\<forall>d. \<not> scan_fault os d" "1 \<le> max_read_bytes ex"
    and "1 \<le> mr" "1 \<le> me" "0 \<le> md" "1 \<le> mb"
    and "s = search_content_run env os ex f base query pattern off mr me md mb cs"
  shows "c_scanned s \<le> me \<and> c_bytes s \<le> mb \<and> c_files s \<le> c_scanned s \<and> int (length (c_results s)) \<le> mr
    \<and> (\<forall>j \<in> set (c_results s). \<exists>p n k col line. j = content_json base p k col line
         \<and> map_of f p = Some n \<and> nkind n = KFile \<and> below p base
         \<and> int (length (parts p)) \<le> int (length (parts base)) + 1 + md)"
proof -
  let ?needle = "if cs then query else str_casefold env query"
  let ?E = "set (walk env os f md base 0)"
  have "content_ok base ?E mr me mb content_start"
    using assms(4-7) by (simp add: content_ok_def content_start_def)
  then have ok: "content_ok base ?E mr me mb s"
    unfolding assms(8) search_content_run_def walk_loop_flat
    using content_all_ok [OF assms(3), of base ?E mr me mb content_start "walk env os f md base 0" env os ?needle]
    by simp
  have mem: "map_of f p = Some n \<and> below p base \<and> int (length (parts p)) \<le> int (length (parts base)) + 1 + md"
    if "(p, n) \<in> ?E" for p n
    using that assms(1,6) unfolding walk_set [OF assms(1,2)]
    by (auto simp: walk_reach_def fs_wf_def)
  show ?thesis
    using ok mem unfolding content_ok_def by blast
qed

lemma content_search_bounded_witness:
  "let s = search_content_run posix_env demo_os demo_executor demo_fs (RPath ''/'' [''w'']) ''ell'' ''*'' 0 1 5 2 3 True in
   c_scanned s \<le> 5 \<and> c_bytes s \<le> 3 \<and> c_files s \<le> c_scanned s \<and> int (length (c_results s)) \<le> 1
    \<and> (\<forall>j \<in> set (c_results s). \<exists>p n k col line. j = content_json (RPath ''/'' [''w'']) p k col line
         \<and> map_of demo_fs p = Some n \<and> nkind n = KFile \<and> below p (RPath ''/'' [''w''])
         \<and> int (length (parts p)) \<le> int (length (parts (RPath ''/'' [''w'']))) + 1 + 2)"
  unfolding Let_def
  by (rule content_search_bounded [OF demo_fs_wf demo_no_fault _ _ _ _ _ refl]) (simp_all add: demo_executor_def)

end
