(* ===== verification/Process_Table.thy ===== *)
theory Process_Table
  imports Fs_Search
begin

text \<open>
  \<^verbatim>\<open>rdc_surface.py\<close>, second half: the processes that lanes start and own. A managed process holds its
  owner, its deadline, the child's exit code once there is one, and the output that two threads
  drain from its pipes. The operating system is a parameter: what \<^verbatim>\<open>Popen\<close> gives, how a child reacts
  to signals and which writes to its input fail. Output chunks, exits and watchdog ticks are steps
  of their own, which interleave with the operations.
\<close>

section \<open>Managed processes\<close>

record managed_process =
  handle :: string
  owner_lane_id :: string
  owner_fencing_token :: int
  child_pid :: int
  child_code :: "int option"
  child_input :: string
  mp_cwd :: rpath
  mp_argv :: "string list"
  started_at_ns :: int
  deadline_ns :: int
  out_buf :: string
  err_buf :: string
  out_total :: int
  err_total :: int
  out_truncated :: bool
  err_truncated :: bool
  watchdog_terminated :: bool

type_synonym ptable = "(string \<times> managed_process) list"

record procenv =
  spawn :: "string list \<Rightarrow> rpath \<Rightarrow> fs \<Rightarrow> int result"
  uuid_hex :: "ptable \<Rightarrow> string"
  after_term :: "managed_process \<Rightarrow> pyfloat \<Rightarrow> int option"
  after_kill :: "managed_process \<Rightarrow> int option"
  stdin_fault :: "managed_process \<Rightarrow> string \<Rightarrow> nat option"

definition MAX_PROCESS_OUTPUT_READ_BYTES :: int where "MAX_PROCESS_OUTPUT_READ_BYTES = 65536"
definition MAX_PROCESS_RUNTIME_S :: rat where "MAX_PROCESS_RUNTIME_S = 3600"
definition MAX_PROCESS_INPUT_BYTES :: int where "MAX_PROCESS_INPUT_BYTES = 65536"

definition running :: "managed_process \<Rightarrow> bool" where
  "running m \<longleftrightarrow> child_code m = None"

definition owned_by :: "managed_process \<Rightarrow> string \<Rightarrow> int \<Rightarrow> bool" where
  "owned_by m lid tok \<longleftrightarrow> owner_lane_id m = lid \<and> owner_fencing_token m = tok"

definition authorize_cwd ::
  "pyenv \<Rightarrow> string \<Rightarrow> int \<Rightarrow> string \<Rightarrow> rpath \<Rightarrow> claim_mode \<Rightarrow> pyfloat \<Rightarrow> registry \<Rightarrow> lane result \<times> registry" where
  "authorize_cwd env lid tok capability cwd mode now reg =
     authorize env lid tok capability (Some (cwd_resource cwd)) (Some mode) now reg"

definition owned_process :: "string \<Rightarrow> int \<Rightarrow> string \<Rightarrow> ptable \<Rightarrow> managed_process result" where
  "owned_process lid tok h pt =
     (case map_of pt h of
        None \<Rightarrow> Inl (Process ProcessHandleNotFound)
      | Some m \<Rightarrow> if \<not> owned_by m lid tok then Inl (Process ProcessHandleOwnerMismatch) else Inr m)"

definition status_json :: "managed_process \<Rightarrow> dict" where
  "status_json m =
     [(''process_handle'', JStr (handle m)), (''pid'', JInt (child_pid m)), (''running'', JBool (running m)),
      (''returncode'', case child_code m of None \<Rightarrow> JNull | Some c \<Rightarrow> JInt c),
      (''cwd'', JStr (as_posix (mp_cwd m))), (''started_at_ns'', JInt (started_at_ns m)),
      (''deadline_ns'', JInt (deadline_ns m)), (''watchdog_terminated'', JBool (watchdog_terminated m))]"

section \<open>Starting\<close>

definition start_process_sync ::
  "procenv \<Rightarrow> string \<Rightarrow> int \<Rightarrow> string list \<Rightarrow> rpath \<Rightarrow> rat \<Rightarrow> int \<Rightarrow> fs \<Rightarrow> ptable \<Rightarrow> dict result \<times> ptable" where
  "start_process_sync pe lid tok argv cwd max_runtime now_ns f pt =
     (case spawn pe argv cwd f of
        Inl e \<Rightarrow> (Inl e, pt)
      | Inr pid \<Rightarrow>
          let item = \<lparr>handle = ''proc:'' @ uuid_hex pe pt, owner_lane_id = lid, owner_fencing_token = tok,
                      child_pid = pid, child_code = None, child_input = [], mp_cwd = cwd, mp_argv = argv,
                      started_at_ns = now_ns, deadline_ns = now_ns + trunc (max_runtime * 1000000000),
                      out_buf = [], err_buf = [], out_total = 0, err_total = 0, out_truncated = False,
                      err_truncated = False, watchdog_terminated = False\<rparr>
          in (Inr (status_json item), AList.update (handle item) item pt))"

definition process_start ::
  "pyenv \<Rightarrow> osenv \<Rightarrow> procenv \<Rightarrow> executor \<Rightarrow> string \<Rightarrow> int \<Rightarrow> string list \<Rightarrow> string \<Rightarrow> json \<Rightarrow> pyfloat \<Rightarrow> int
   \<Rightarrow> registry \<Rightarrow> fs \<Rightarrow> ptable \<Rightarrow> dict result \<times> registry \<times> ptable" where
  "process_start env os pe ex lid tok argv cwd max_runtime now now_ns reg f pt =
     (if \<not> allow_process_exec ex then (Inl (Exec ProcessExecutionDisabled), reg, pt)
      else if argv = [] \<or> [] \<in> set argv then (Inl (Py ValueError), reg, pt)
      else case py_float env max_runtime of
        Inl e \<Rightarrow> (Inl e, reg, pt)
      | Inr (Fin r) \<Rightarrow>
          if \<not> (1 / 10 \<le> r \<and> r \<le> MAX_PROCESS_RUNTIME_S) then (Inl (Py ValueError), reg, pt)
          else (case resolve_allowed env os ex f cwd of
             Inl e \<Rightarrow> (Inl e, reg, pt)
           | Inr p \<Rightarrow>
               (case authorize_cwd env lid tok ''process.exec'' p WRITE now reg of
                  (Inl e, reg1) \<Rightarrow> (Inl e, reg1, pt)
                | (Inr _, reg1) \<Rightarrow>
                    (case start_process_sync pe lid tok argv p r now_ns f pt of (res, pt1) \<Rightarrow> (res, reg1, pt1))))
      | Inr _ \<Rightarrow> (Inl (Py ValueError), reg, pt))"

section \<open>Pipes\<close>

text \<open>One turn of the draining thread: a non-empty chunk arrived on standard output or error.\<close>

definition drain_chunk :: "executor \<Rightarrow> bool \<Rightarrow> string \<Rightarrow> managed_process \<Rightarrow> managed_process" where
  "drain_chunk ex is_stdout chunk m =
     (let m1 = (if is_stdout then m\<lparr>out_total := out_total m + int (length chunk)\<rparr>
                else m\<lparr>err_total := err_total m + int (length chunk)\<rparr>);
          target = (if is_stdout then out_buf m1 else err_buf m1);
          remaining = max_output_bytes ex - int (length target);
          target1 = (if remaining > 0 then target @ take (nat remaining) chunk else target);
          m2 = (if is_stdout then m1\<lparr>out_buf := target1\<rparr> else m1\<lparr>err_buf := target1\<rparr>)
      in if int (length chunk) > max 0 remaining
         then (if is_stdout then m2\<lparr>out_truncated := True\<rparr> else m2\<lparr>err_truncated := True\<rparr>)
         else m2)"

section \<open>Ending\<close>

definition terminate_sync :: "procenv \<Rightarrow> pyfloat \<Rightarrow> managed_process \<Rightarrow> unit result \<times> managed_process" where
  "terminate_sync pe grace m =
     (if \<not> running m then (Inr (), m)
      else case after_term pe m grace of
        Some c \<Rightarrow> (Inr (), m\<lparr>child_code := Some c\<rparr>)
      | None \<Rightarrow>
          (case after_kill pe m of
             Some c \<Rightarrow> (Inr (), m\<lparr>child_code := Some c\<rparr>)
           | None \<Rightarrow> (Inl (Py TimeoutExpired), m)))"

text \<open>
  One turn of the watchdog on a running process: it ends a process whose owner lost its authority or
  whose deadline passed, and otherwise sleeps, here in nanoseconds.
\<close>

datatype watch_outcome = ChildGone | Ended | Sleeping int

definition watchdog_turn ::
  "pyenv \<Rightarrow> procenv \<Rightarrow> pyfloat \<Rightarrow> int \<Rightarrow> registry \<Rightarrow> managed_process \<Rightarrow> watch_outcome \<times> registry \<times> managed_process" where
  "watchdog_turn env pe now now_ns reg m =
     (if \<not> running m then (ChildGone, reg, m)
      else case authorize_cwd env (owner_lane_id m) (owner_fencing_token m) ''process.exec'' (mp_cwd m) WRITE now reg of
        (Inl e, reg1) \<Rightarrow>
          (Ended, reg1, snd (terminate_sync pe (Fin (1 / 2)) (m\<lparr>watchdog_terminated := True\<rparr>)))
      | (Inr _, reg1) \<Rightarrow>
          let remaining = deadline_ns m - now_ns in
          if remaining \<le> 0
          then (Ended, reg1, snd (terminate_sync pe (Fin (1 / 2)) (m\<lparr>watchdog_terminated := True\<rparr>)))
          else (Sleeping (min 250000000 remaining), reg1, m))"

section \<open>Inspecting\<close>

fun visible_processes ::
  "pyenv \<Rightarrow> string \<Rightarrow> int \<Rightarrow> pyfloat \<Rightarrow> managed_process list \<Rightarrow> registry \<Rightarrow> json list result \<times> registry" where
  "visible_processes env lid tok now [] reg = (Inr [], reg)"
| "visible_processes env lid tok now (m # ms) reg =
     (if \<not> owned_by m lid tok then visible_processes env lid tok now ms reg
      else case authorize_cwd env lid tok ''process.inspect'' (mp_cwd m) READ now reg of
        (Inl e, reg1) \<Rightarrow> (Inl e, reg1)
      | (Inr _, reg1) \<Rightarrow>
          (case visible_processes env lid tok now ms reg1 of
             (Inl e, reg2) \<Rightarrow> (Inl e, reg2)
           | (Inr js, reg2) \<Rightarrow> (Inr (JObj (status_json m) # js), reg2)))"

definition process_list ::
  "pyenv \<Rightarrow> executor \<Rightarrow> string \<Rightarrow> int \<Rightarrow> pyfloat \<Rightarrow> registry \<Rightarrow> ptable \<Rightarrow> dict result \<times> registry" where
  "process_list env ex lid tok now reg pt =
     (if \<not> allow_process_exec ex then (Inl (Exec ProcessExecutionDisabled), reg)
      else case visible_processes env lid tok now (map snd pt) reg of
        (Inl e, reg1) \<Rightarrow> (Inl e, reg1)
      | (Inr js, reg1) \<Rightarrow> (Inr [(''processes'', JList js)], reg1))"

text \<open>A process operation: find the process, check the owner, ask for authority over its directory.\<close>

definition on_process ::
  "pyenv \<Rightarrow> string \<Rightarrow> int \<Rightarrow> string \<Rightarrow> string \<Rightarrow> claim_mode \<Rightarrow> pyfloat \<Rightarrow> registry \<Rightarrow> ptable
   \<Rightarrow> (managed_process \<Rightarrow> dict result \<times> ptable) \<Rightarrow> dict result \<times> registry \<times> ptable" where
  "on_process env lid tok h capability mode now reg pt act =
     (case owned_process lid tok h pt of
        Inl e \<Rightarrow> (Inl e, reg, pt)
      | Inr m \<Rightarrow>
          (case authorize_cwd env lid tok capability (mp_cwd m) mode now reg of
             (Inl e, reg1) \<Rightarrow> (Inl e, reg1, pt)
           | (Inr _, reg1) \<Rightarrow> (case act m of (res, pt1) \<Rightarrow> (res, reg1, pt1))))"

definition process_status ::
  "pyenv \<Rightarrow> executor \<Rightarrow> string \<Rightarrow> int \<Rightarrow> string \<Rightarrow> pyfloat \<Rightarrow> registry \<Rightarrow> ptable \<Rightarrow> dict result \<times> registry \<times> ptable" where
  "process_status env ex lid tok h now reg pt =
     (if \<not> allow_process_exec ex then (Inl (Exec ProcessExecutionDisabled), reg, pt)
      else on_process env lid tok h ''process.inspect'' READ now reg pt (\<lambda>m. (Inr (status_json m), pt)))"

definition byte_slice :: "string \<Rightarrow> int \<Rightarrow> int \<Rightarrow> string" where
  "byte_slice s off n = take (nat n) (drop (nat off) s)"

definition output_json :: "osenv \<Rightarrow> managed_process \<Rightarrow> int \<Rightarrow> int \<Rightarrow> int \<Rightarrow> dict result" where
  "output_json os m out_off err_off max_bytes =
     (if out_off > int (length (out_buf m)) \<and> out_truncated m
      then Inl (Process ProcessOutputOffsetUnavailable)
      else if err_off > int (length (err_buf m)) \<and> err_truncated m
      then Inl (Process ProcessOutputOffsetUnavailable)
      else
        let out_chunk = byte_slice (out_buf m) out_off max_bytes;
            err_chunk = byte_slice (err_buf m) err_off max_bytes
        in Inr (status_json m @
             [(''stdout'', JStr (decode_replace os out_chunk)), (''stderr'', JStr (decode_replace os err_chunk)),
              (''stdout_offset'', JInt out_off), (''stderr_offset'', JInt err_off),
              (''stdout_next_offset'', JInt (out_off + int (length out_chunk))),
              (''stderr_next_offset'', JInt (err_off + int (length err_chunk))),
              (''stdout_retained_bytes'', JInt (int (length (out_buf m)))),
              (''stderr_retained_bytes'', JInt (int (length (err_buf m)))),
              (''stdout_total_bytes'', JInt (out_total m)), (''stderr_total_bytes'', JInt (err_total m)),
              (''stdout_truncated'', JBool (out_truncated m)),
              (''stderr_truncated'', JBool (err_truncated m))]))"

definition process_output ::
  "pyenv \<Rightarrow> osenv \<Rightarrow> executor \<Rightarrow> string \<Rightarrow> int \<Rightarrow> string \<Rightarrow> json \<Rightarrow> json \<Rightarrow> json \<Rightarrow> pyfloat \<Rightarrow> registry \<Rightarrow> ptable
   \<Rightarrow> dict result \<times> registry \<times> ptable" where
  "process_output env os ex lid tok h out_off err_off max_bytes now reg pt =
     (if \<not> allow_process_exec ex then (Inl (Exec ProcessExecutionDisabled), reg, pt)
      else case (natural_in out_off, natural_in err_off, int_in max_bytes 1 MAX_PROCESS_OUTPUT_READ_BYTES) of
        (Some oo, Some eo, Some mb) \<Rightarrow>
          on_process env lid tok h ''process.inspect'' READ now reg pt (\<lambda>m. (output_json os m oo eo mb, pt))
      | _ \<Rightarrow> (Inl (Py ValueError), reg, pt))"

section \<open>Input and termination\<close>

definition write_process_input :: "procenv \<Rightarrow> string \<Rightarrow> managed_process \<Rightarrow> unit result \<times> managed_process" where
  "write_process_input pe payload m =
     (if \<not> running m then (Inl (Process ProcessInputUnavailable), m)
      else case stdin_fault pe m payload of
        Some n \<Rightarrow> (Inl (Process ProcessInputUnavailable), m\<lparr>child_input := child_input m @ take n payload\<rparr>)
      | None \<Rightarrow> (Inr (), m\<lparr>child_input := child_input m @ payload\<rparr>))"

definition process_input ::
  "pyenv \<Rightarrow> osenv \<Rightarrow> procenv \<Rightarrow> executor \<Rightarrow> string \<Rightarrow> int \<Rightarrow> string \<Rightarrow> string \<Rightarrow> json \<Rightarrow> pyfloat \<Rightarrow> registry \<Rightarrow> ptable
   \<Rightarrow> dict result \<times> registry \<times> ptable" where
  "process_input env os pe ex lid tok h input_text append_newline now reg pt =
     (if \<not> allow_process_exec ex then (Inl (Exec ProcessExecutionDisabled), reg, pt)
      else case exact_bool append_newline of
        None \<Rightarrow> (Inl (Py ValueError), reg, pt)
      | Some nl \<Rightarrow>
          (case codec_encode os ''utf-8'' input_text of
             Inl e \<Rightarrow> (Inl e, reg, pt)
           | Inr text \<Rightarrow>
               let payload = (if nl then text @ [CHR 0x0A] else text) in
               if int (length payload) > MAX_PROCESS_INPUT_BYTES then (Inl (Py ValueError), reg, pt)
               else on_process env lid tok h ''process.interact'' WRITE now reg pt
                 (\<lambda>m. case write_process_input pe payload m of
                    (Inl e, m1) \<Rightarrow> (Inl e, AList.update h m1 pt)
                  | (Inr _, m1) \<Rightarrow>
                      (Inr (status_json m1 @ [(''bytes_written'', JInt (int (length payload)))]),
                       AList.update h m1 pt))))"

definition process_terminate ::
  "pyenv \<Rightarrow> procenv \<Rightarrow> executor \<Rightarrow> string \<Rightarrow> int \<Rightarrow> string \<Rightarrow> json \<Rightarrow> pyfloat \<Rightarrow> registry \<Rightarrow> ptable
   \<Rightarrow> dict result \<times> registry \<times> ptable" where
  "process_terminate env pe ex lid tok h grace now reg pt =
     (if \<not> allow_process_exec ex then (Inl (Exec ProcessExecutionDisabled), reg, pt)
      else case py_float env grace of
        Inl e \<Rightarrow> (Inl e, reg, pt)
      | Inr g \<Rightarrow>
          if \<not> (fle (Fin 0) g \<and> fle g (Fin 30)) then (Inl (Py ValueError), reg, pt)
          else on_process env lid tok h ''process.control'' WRITE now reg pt
            (\<lambda>m. case terminate_sync pe g m of
               (Inl e, m1) \<Rightarrow> (Inl e, AList.update h m1 pt)
             | (Inr _, m1) \<Rightarrow> (Inr (status_json m1), AList.update h m1 pt)))"

text \<open>Ending the processes of a snapshot one after the other; the first failure ends the loop.\<close>

fun terminate_each :: "procenv \<Rightarrow> managed_process list \<Rightarrow> ptable \<Rightarrow> string list result \<times> ptable" where
  "terminate_each pe [] pt = (Inr [], pt)"
| "terminate_each pe (m # ms) pt =
     (case terminate_sync pe (Fin (1 / 2)) m of
        (Inl e, m1) \<Rightarrow> (Inl e, AList.update (handle m) m1 pt)
      | (Inr _, m1) \<Rightarrow>
          (case terminate_each pe ms (AList.update (handle m) m1 pt) of
             (Inl e, pt1) \<Rightarrow> (Inl e, pt1)
           | (Inr hs, pt1) \<Rightarrow> (Inr (handle m # hs), pt1)))"

definition close_all_processes :: "procenv \<Rightarrow> ptable \<Rightarrow> string list result \<times> ptable" where
  "close_all_processes pe pt = terminate_each pe (map snd pt) pt"

definition close_lane_processes :: "procenv \<Rightarrow> string \<Rightarrow> int \<Rightarrow> ptable \<Rightarrow> string list result \<times> ptable" where
  "close_lane_processes pe lid tok pt = terminate_each pe (filter (\<lambda>m. owned_by m lid tok) (map snd pt)) pt"

section \<open>Interleaved runs\<close>

text \<open>
  The steps of the table, each with the output chunks it drained: operations of lanes, output,
  exits and watchdog turns in any order, while the registry and the files change in any way.
\<close>

type_synonym output_event = "string \<times> bool \<times> string"

inductive proc_run ::
  "pyenv \<Rightarrow> osenv \<Rightarrow> procenv \<Rightarrow> executor \<Rightarrow> output_event list \<Rightarrow> registry \<times> ptable \<Rightarrow> bool"
  for env os pe ex where
  run_init: "proc_run env os pe ex [] (reg, [])"
| run_registry: "proc_run env os pe ex L (reg, pt) \<Longrightarrow> proc_run env os pe ex L (reg', pt)"
| run_start: "proc_run env os pe ex L (reg, pt) \<Longrightarrow>
    process_start env os pe ex lid tok argv cwd rt now now_ns reg f pt = (res, reg', pt') \<Longrightarrow>
    proc_run env os pe ex L (reg', pt')"
| run_drain: "proc_run env os pe ex L (reg, pt) \<Longrightarrow> map_of pt h = Some m \<Longrightarrow> chunk \<noteq> [] \<Longrightarrow>
    proc_run env os pe ex (L @ [(h, b, chunk)]) (reg, AList.update h (drain_chunk ex b chunk m) pt)"
| run_exit: "proc_run env os pe ex L (reg, pt) \<Longrightarrow> map_of pt h = Some m \<Longrightarrow> running m \<Longrightarrow>
    proc_run env os pe ex L (reg, AList.update h (m\<lparr>child_code := Some c\<rparr>) pt)"
| run_watchdog: "proc_run env os pe ex L (reg, pt) \<Longrightarrow> map_of pt h = Some m \<Longrightarrow>
    watchdog_turn env pe now now_ns reg m = (out, reg', m') \<Longrightarrow>
    proc_run env os pe ex L (reg', AList.update h m' pt)"
| run_input: "proc_run env os pe ex L (reg, pt) \<Longrightarrow>
    process_input env os pe ex lid tok h text nl now reg pt = (res, reg', pt') \<Longrightarrow>
    proc_run env os pe ex L (reg', pt')"
| run_terminate: "proc_run env os pe ex L (reg, pt) \<Longrightarrow>
    process_terminate env pe ex lid tok h g now reg pt = (res, reg', pt') \<Longrightarrow>
    proc_run env os pe ex L (reg', pt')"
| run_close_lane: "proc_run env os pe ex L (reg, pt) \<Longrightarrow>
    close_lane_processes pe lid tok pt = (hs, pt') \<Longrightarrow> proc_run env os pe ex L (reg, pt')"
| run_close_all: "proc_run env os pe ex L (reg, pt) \<Longrightarrow>
    close_all_processes pe pt = (hs, pt') \<Longrightarrow> proc_run env os pe ex L (reg, pt')"

definition drained :: "string \<Rightarrow> bool \<Rightarrow> output_event list \<Rightarrow> string" where
  "drained h b L = concat (map (\<lambda>e. snd (snd e)) (filter (\<lambda>e. fst e = h \<and> fst (snd e) = b) L))"

lemma drained_simps [simp]:
  "drained h b [] = []"
  "drained h b (L @ L') = drained h b L @ drained h b L'"
  "drained h b [(h', b', c)] = (if h' = h \<and> b' = b then c else [])"
  by (auto simp: drained_def)

text \<open>Every step but draining keeps the identity and the output of each process.\<close>

definition same_output :: "managed_process \<Rightarrow> managed_process \<Rightarrow> bool" where
  "same_output m m' \<longleftrightarrow> handle m' = handle m \<and> owner_lane_id m' = owner_lane_id m
     \<and> owner_fencing_token m' = owner_fencing_token m \<and> mp_cwd m' = mp_cwd m \<and> deadline_ns m' = deadline_ns m
     \<and> out_buf m' = out_buf m \<and> err_buf m' = err_buf m \<and> out_total m' = out_total m \<and> err_total m' = err_total m
     \<and> out_truncated m' = out_truncated m \<and> err_truncated m' = err_truncated m"

definition table_ok :: "ptable \<Rightarrow> bool" where
  "table_ok pt \<longleftrightarrow> distinct (map fst pt) \<and> (\<forall>(h, m) \<in> set pt. handle m = h)"

definition kept :: "ptable \<Rightarrow> ptable \<Rightarrow> bool" where
  "kept pt pt' \<longleftrightarrow> table_ok pt' \<and> dom (map_of pt') = dom (map_of pt)
     \<and> (\<forall>h m m'. map_of pt h = Some m \<longrightarrow> map_of pt' h = Some m' \<longrightarrow> same_output m m')"

lemma same_output_refl [simp]: "same_output m m"
  by (simp add: same_output_def)

lemma same_output_trans: "same_output a b \<Longrightarrow> same_output b c \<Longrightarrow> same_output a c"
  by (simp add: same_output_def)

lemma kept_refl: "table_ok pt \<Longrightarrow> kept pt pt"
  by (simp add: kept_def)

lemma kept_trans: "kept a b \<Longrightarrow> kept b c \<Longrightarrow> kept a c"
  unfolding kept_def using same_output_trans by (smt (verit, best) domD domI)

lemma table_okD: "table_ok pt \<Longrightarrow> map_of pt h = Some m \<Longrightarrow> handle m = h"
  by (auto simp: table_ok_def dest: map_of_SomeD)

lemma table_ok_update: "table_ok pt \<Longrightarrow> handle m = h \<Longrightarrow> table_ok (AList.update h m pt)"
  using set_update_subset [of h m pt] by (fastforce simp: table_ok_def distinct_update)

lemma kept_update:
  assumes "table_ok pt" "map_of pt h = Some m" "same_output m m'"
  shows "kept pt (AList.update h m' pt)"
  using assms table_okD [OF assms(1,2)]
  by (auto simp: kept_def dict_simps same_output_def intro!: table_ok_update)

lemma terminate_same [simp]: "same_output m (snd (terminate_sync pe g m))"
  by (simp add: terminate_sync_def same_output_def split: option.splits)

lemma terminate_sync_same: "terminate_sync pe g m = (r, m') \<Longrightarrow> same_output m m'"
  using terminate_same [of m pe g] by simp

lemma write_input_same: "write_process_input pe p m = (r, m') \<Longrightarrow> same_output m m'"
  by (auto simp: write_process_input_def same_output_def split: if_splits option.splits)

lemma watchdog_same: "watchdog_turn env pe now now_ns reg m = (out, reg', m') \<Longrightarrow> same_output m m'"
  using terminate_same [of "m\<lparr>watchdog_terminated := True\<rparr>" pe "Fin (1 / 2)"]
  by (auto simp: watchdog_turn_def Let_def same_output_def split: if_splits prod.splits sum.splits)

lemma owned_processD:
  "owned_process lid tok h pt = Inr m \<Longrightarrow> map_of pt h = Some m \<and> owned_by m lid tok"
  by (auto simp: owned_process_def split: option.splits if_splits)

lemma on_process_cases:
  assumes "on_process env lid tok h cap mode now reg pt act = (res, reg', pt')"
  obtains (refused) e where "res = Inl e" "pt' = pt"
  | (allowed) m l where "map_of pt h = Some m" "owned_by m lid tok"
      "authorize env lid tok cap (Some (cwd_resource (mp_cwd m))) (Some mode) now reg = (Inr l, reg)"
      "reg' = reg" "act m = (res, pt')"
proof (cases "owned_process lid tok h pt")
  case (Inl e)
  then show ?thesis using assms refused [of e] by (auto simp: on_process_def)
next
  case (Inr m)
  obtain a reg1 where au: "authorize env lid tok cap (Some (cwd_resource (mp_cwd m))) (Some mode) now reg = (a, reg1)"
    by fastforce
  show ?thesis
  proof (cases a)
    case (Inl e)
    then show ?thesis using assms Inr au refused by (auto simp: on_process_def authorize_cwd_def)
  next
    case ok: (Inr l)
    then have "reg1 = reg" using au authorize_snd_of_Inr [of env lid tok cap "Some (cwd_resource (mp_cwd m))" "Some mode" now reg l] by simp
    then show ?thesis using assms Inr au ok owned_processD [OF Inr] allowed [of m l]
      by (auto simp: on_process_def authorize_cwd_def split: prod.splits)
  qed
qed

lemma input_kept:
  assumes ok: "table_ok pt"
    and run: "process_input env os pe ex lid tok h text nl now reg pt = (res, reg', pt')"
  shows "kept pt pt'"
proof -
  define act where "act payload m = (case write_process_input pe payload m of
      (Inl e, m1) \<Rightarrow> (Inl e :: dict result, AList.update h m1 pt)
    | (Inr _, m1) \<Rightarrow> (Inr (status_json m1 @ [(''bytes_written'', JInt (int (length payload)))]), AList.update h m1 pt))"
    for payload m
  have "pt' = pt \<or> (\<exists>payload. on_process env lid tok h ''process.interact'' WRITE now reg pt (act payload) = (res, reg', pt'))"
    using run by (auto simp: process_input_def act_def [abs_def] Let_def split: if_splits option.splits sum.splits)
  then show ?thesis
  proof (elim disjE exE)
    fix payload
    assume "on_process env lid tok h ''process.interact'' WRITE now reg pt (act payload) = (res, reg', pt')"
    then show ?thesis
    proof (cases rule: on_process_cases)
      case refused
      then show ?thesis using ok kept_refl by simp
    next
      case (allowed m l)
      then obtain m1 where "same_output m m1" "pt' = AList.update h m1 pt"
        by (auto simp: act_def split: prod.splits sum.splits dest: write_input_same)
      then show ?thesis using kept_update [OF ok allowed(1)] by simp
    qed
  qed (use ok kept_refl in simp)
qed

lemma terminate_kept:
  assumes ok: "table_ok pt"
    and run: "process_terminate env pe ex lid tok h g now reg pt = (res, reg', pt')"
  shows "kept pt pt'"
proof -
  define act where "act g m = (case terminate_sync pe g m of
      (Inl e, m1) \<Rightarrow> (Inl e :: dict result, AList.update h m1 pt)
    | (Inr _, m1) \<Rightarrow> (Inr (status_json m1), AList.update h m1 pt))" for g m
  have "pt' = pt \<or> (\<exists>g. on_process env lid tok h ''process.control'' WRITE now reg pt (act g) = (res, reg', pt'))"
    using run by (auto simp: process_terminate_def act_def [abs_def] split: if_splits sum.splits)
  then show ?thesis
  proof (elim disjE exE)
    fix g
    assume "on_process env lid tok h ''process.control'' WRITE now reg pt (act g) = (res, reg', pt')"
    then show ?thesis
    proof (cases rule: on_process_cases)
      case refused
      then show ?thesis using ok kept_refl by simp
    next
      case (allowed m l)
      then obtain m1 where "same_output m m1" "pt' = AList.update h m1 pt"
        by (auto simp: act_def split: prod.splits sum.splits dest: terminate_sync_same)
      then show ?thesis using kept_update [OF ok allowed(1)] by simp
    qed
  qed (use ok kept_refl in simp)
qed

text \<open>Ending the processes of a snapshot: what it leaves, and what it ends.\<close>

lemma terminate_step:
  assumes ok: "table_ok pt" and d: "distinct (map handle (m # ms))"
    and cur: "\<And>x. x \<in> set (m # ms) \<Longrightarrow> map_of pt (handle x) = Some x"
    and t: "same_output m m1"
  shows "kept pt (AList.update (handle m) m1 pt)" "distinct (map handle ms)"
    "\<And>x. x \<in> set ms \<Longrightarrow> map_of (AList.update (handle m) m1 pt) (handle x) = Some x"
proof -
  show "kept pt (AList.update (handle m) m1 pt)"
    using kept_update [OF ok cur [of m] t] by simp
  show "distinct (map handle ms)" using d by simp
  show "map_of (AList.update (handle m) m1 pt) (handle x) = Some x" if "x \<in> set ms" for x
  proof -
    have "handle x \<noteq> handle m" using that d by (auto simp: image_iff)
    then show ?thesis using cur [of x] that by (simp add: dict_simps)
  qed
qed

lemma terminate_each_spec:
  assumes "table_ok pt" "distinct (map handle ms)"
    and "\<And>x. x \<in> set ms \<Longrightarrow> map_of pt (handle x) = Some x"
    and "terminate_each pe ms pt = (r, pt')"
  shows "kept pt pt' \<and> (\<forall>h. h \<notin> handle ` set ms \<longrightarrow> map_of pt' h = map_of pt h)
    \<and> (\<forall>hs. r = Inr hs \<longrightarrow> hs = map handle ms \<and>
         (\<forall>x \<in> set ms. \<exists>m'. map_of pt' (handle x) = Some m' \<and> \<not> running m'))"
  using assms
proof (induction pe ms pt arbitrary: r rule: terminate_each.induct)
  case (1 pe pt)
  then show ?case by (auto simp: kept_refl)
next
  case (2 pe m ms pt)
  obtain q m1 where t: "terminate_sync pe (Fin (1 / 2)) m = (q, m1)" by fastforce
  define pt1 where "pt1 = AList.update (handle m) m1 pt"
  note st = terminate_step [OF 2(2,3,4) terminate_sync_same [OF t], folded pt1_def]
  have other: "map_of pt1 h = map_of pt h" if "h \<noteq> handle m" for h
    using that by (simp add: pt1_def dict_simps)
  show ?case
  proof (cases q)
    case (Inl e)
    then have "r = Inl e" "pt' = pt1" using 2(5) t by (auto simp: pt1_def)
    then show ?thesis using st other by auto
  next
    case (Inr u)
    have ok1: "table_ok pt1" using st(1) by (simp add: kept_def)
    obtain r2 where r2: "terminate_each pe ms pt1 = (r2, pt')"
      and r: "r = (case r2 of Inl e \<Rightarrow> Inl e | Inr hs \<Rightarrow> Inr (handle m # hs))"
      using 2(5) t Inr by (auto simp: pt1_def split: prod.splits sum.splits)
    have ih: "kept pt1 pt' \<and> (\<forall>h. h \<notin> handle ` set ms \<longrightarrow> map_of pt' h = map_of pt1 h)
      \<and> (\<forall>hs. r2 = Inr hs \<longrightarrow> hs = map handle ms \<and>
           (\<forall>x \<in> set ms. \<exists>m'. map_of pt' (handle x) = Some m' \<and> \<not> running m'))"
      using 2(1) [OF t [symmetric] Inr, folded pt1_def, OF ok1 st(2) st(3) r2] by blast
    have "\<not> running m1" using t Inr by (auto simp: terminate_sync_def running_def split: if_splits option.splits)
    moreover have "handle m \<notin> handle ` set ms" using 2(3) by auto
    then have "map_of pt' (handle m) = Some m1" using ih by (simp add: pt1_def dict_simps)
    ultimately show ?thesis using ih r other kept_trans [OF st(1)] by (auto split: sum.splits)
  qed
qed

lemma table_items:
  assumes "table_ok pt"
  shows "distinct (map handle (map snd pt))" "m \<in> snd ` set pt \<Longrightarrow> map_of pt (handle m) = Some m"
proof -
  have "map handle (map snd pt) = map fst pt" using assms by (auto simp: table_ok_def)
  then show "distinct (map handle (map snd pt))" using assms by (simp only: table_ok_def)
  show "m \<in> snd ` set pt \<Longrightarrow> map_of pt (handle m) = Some m"
    using assms by (auto simp: table_ok_def intro!: map_of_is_SomeI)
qed

lemma close_all_spec:
  assumes "table_ok pt" "close_all_processes pe pt = (r, pt')"
  shows "kept pt pt' \<and> (\<forall>hs. r = Inr hs \<longrightarrow> hs = map fst pt \<and>
    (\<forall>h m. map_of pt' h = Some m \<longrightarrow> \<not> running m))"
proof -
  have "kept pt pt' \<and> (\<forall>hs. r = Inr hs \<longrightarrow> hs = map handle (map snd pt) \<and>
         (\<forall>x \<in> set (map snd pt). \<exists>m'. map_of pt' (handle x) = Some m' \<and> \<not> running m'))"
    using terminate_each_spec [OF assms(1) table_items(1) [OF assms(1)] table_items(2) [OF assms(1)]]
      assms(2) by (auto simp: close_all_processes_def)
  moreover have "map handle (map snd pt) = map fst pt" using assms by (auto simp: table_ok_def)
  moreover have "\<exists>x \<in> set (map snd pt). handle x = h" if "map_of pt' h = Some m" "kept pt pt'" for h m
  proof -
    have "h \<in> dom (map_of pt)" using that by (auto simp: kept_def)
    then obtain x where x: "map_of pt h = Some x" by blast
    then have "x \<in> set (map snd pt)" using map_of_SomeD [of pt h x] by force
    then show ?thesis using table_okD [OF assms(1) x] by blast
  qed
  ultimately show ?thesis by (metis option.inject)
qed

lemma close_lane_spec:
  assumes "table_ok pt" "close_lane_processes pe lid tok pt = (r, pt')"
  shows "kept pt pt' \<and> (\<forall>h m. map_of pt h = Some m \<longrightarrow> \<not> owned_by m lid tok \<longrightarrow> map_of pt' h = Some m)
    \<and> (\<forall>hs. r = Inr hs \<longrightarrow> hs = map fst (filter (\<lambda>(h, m). owned_by m lid tok) pt) \<and>
        (\<forall>h m. map_of pt h = Some m \<longrightarrow> owned_by m lid tok \<longrightarrow>
           (\<exists>m'. map_of pt' h = Some m' \<and> \<not> running m')))"
proof -
  define ms where "ms = filter (\<lambda>m. owned_by m lid tok) (map snd pt)"
  have "distinct (map handle ms)"
    using table_items(1) [OF assms(1)] unfolding ms_def by (simp add: distinct_map_filter)
  moreover have "map_of pt (handle x) = Some x" if "x \<in> set ms" for x
    using that table_items(2) [OF assms(1), of x] by (auto simp: ms_def)
  ultimately have sp: "kept pt pt' \<and> (\<forall>h. h \<notin> handle ` set ms \<longrightarrow> map_of pt' h = map_of pt h)
    \<and> (\<forall>hs. r = Inr hs \<longrightarrow> hs = map handle ms \<and>
         (\<forall>x \<in> set ms. \<exists>m'. map_of pt' (handle x) = Some m' \<and> \<not> running m'))"
    using terminate_each_spec [OF assms(1), of ms pe r pt'] assms(2)
    unfolding close_lane_processes_def ms_def [symmetric] by blast
  have hs: "map handle ms = map fst (filter (\<lambda>(h, m). owned_by m lid tok) pt)"
    using assms(1) by (auto simp: ms_def table_ok_def filter_map comp_def case_prod_unfold)
  have item: "m \<in> set ms \<longleftrightarrow> owned_by m lid tok" "handle m = h" if "map_of pt h = Some m" for h m
    using that table_okD [OF assms(1) that] by (auto simp: ms_def dest!: map_of_SomeD)
      (metis image_eqI snd_conv)
  have "map_of pt' h = Some m" if "map_of pt h = Some m" "\<not> owned_by m lid tok" for h m
  proof -
    have "h \<notin> handle ` set ms"
    proof
      assume "h \<in> handle ` set ms"
      then obtain x where "x \<in> set ms" "handle x = h" by blast
      then have "x = m" using that(1) table_items(2) [OF assms(1), of x] by (auto simp: ms_def)
      then show False using \<open>x \<in> set ms\<close> that item(1) by blast
    qed
    then show ?thesis using sp that by simp
  qed
  moreover have "\<exists>m'. map_of pt' h = Some m' \<and> \<not> running m'"
    if "r = Inr hs" "map_of pt h = Some m" "owned_by m lid tok" for hs h m
    using sp that item [OF that(2)] by blast
  ultimately show ?thesis using sp hs by auto
qed


section \<open>Retained output\<close>

definition fresh_handles :: "procenv \<Rightarrow> bool" where
  "fresh_handles pe \<longleftrightarrow> (\<forall>pt. ''proc:'' @ uuid_hex pe pt \<notin> fst ` set pt)"

definition retained_ok :: "executor \<Rightarrow> string \<Rightarrow> string \<Rightarrow> int \<Rightarrow> bool \<Rightarrow> bool" where
  "retained_ok ex output buf tot tr \<longleftrightarrow> buf = take (nat (max_output_bytes ex)) output
     \<and> tot = int (length output) \<and> (tr \<longleftrightarrow> tot > max_output_bytes ex)"

definition buffers_ok :: "executor \<Rightarrow> output_event list \<Rightarrow> string \<Rightarrow> managed_process \<Rightarrow> bool" where
  "buffers_ok ex L h m \<longleftrightarrow>
     retained_ok ex (drained h True L) (out_buf m) (out_total m) (out_truncated m)
     \<and> retained_ok ex (drained h False L) (err_buf m) (err_total m) (err_truncated m)"

lemma retained_ok_append:
  assumes "0 \<le> max_output_bytes ex" "retained_ok ex s buf tot tr"
  defines "remaining \<equiv> max_output_bytes ex - int (length buf)"
  shows "retained_ok ex (s @ c) (if remaining > 0 then buf @ take (nat remaining) c else buf)
    (tot + int (length c)) (tr \<or> int (length c) > max 0 remaining)"
  using assms by (auto simp: retained_ok_def min_def nat_diff_distrib split: if_splits)

lemma drain_retained:
  assumes "0 \<le> max_output_bytes ex" "buffers_ok ex L h m"
  shows "buffers_ok ex (L @ [(h, b, c)]) h (drain_chunk ex b c m)" "handle (drain_chunk ex b c m) = handle m"
  using assms(2) retained_ok_append [OF assms(1), of _ "out_buf m" "out_total m" "out_truncated m" c]
    retained_ok_append [OF assms(1), of _ "err_buf m" "err_total m" "err_truncated m" c]
  by (auto simp: buffers_ok_def drain_chunk_def Let_def)

definition ptable_inv :: "executor \<Rightarrow> output_event list \<Rightarrow> ptable \<Rightarrow> bool" where
  "ptable_inv ex L pt \<longleftrightarrow> table_ok pt \<and> fst ` set L \<subseteq> dom (map_of pt)
     \<and> (\<forall>h m. map_of pt h = Some m \<longrightarrow> buffers_ok ex L h m)"

lemma ptable_inv_kept: "ptable_inv ex L pt \<Longrightarrow> kept pt pt' \<Longrightarrow> ptable_inv ex L pt'"
proof -
  assume i: "ptable_inv ex L pt" and k: "kept pt pt'"
  have "buffers_ok ex L h m'" if "map_of pt' h = Some m'" for h m'
  proof -
    have "h \<in> dom (map_of pt)" using k that by (auto simp: kept_def)
    then obtain m where m: "map_of pt h = Some m" by blast
    then have "same_output m m'" using k that by (auto simp: kept_def)
    then show ?thesis using i m by (simp add: ptable_inv_def buffers_ok_def same_output_def)
  qed
  then show ?thesis using i k by (auto simp: ptable_inv_def kept_def)
qed

lemma ptable_inv_update:
  "ptable_inv ex L pt \<Longrightarrow> map_of pt h = Some m \<Longrightarrow> same_output m m' \<Longrightarrow> ptable_inv ex L (AList.update h m' pt)"
  by (rule ptable_inv_kept) (auto simp: ptable_inv_def intro: kept_update)

lemma undrained: "h \<notin> fst ` set L \<Longrightarrow> drained h b L = []"
  by (induction L) (auto simp: drained_def)

lemma ptable_inv_start:
  assumes "0 \<le> max_output_bytes ex" "fresh_handles pe" "ptable_inv ex L pt"
    and "start_process_sync pe lid tok argv cwd rt now_ns f pt = (res, pt')"
  shows "ptable_inv ex L pt'"
proof (cases "spawn pe argv cwd f")
  case (Inl e)
  then show ?thesis using assms by (simp add: start_process_sync_def)
next
  case (Inr pid)
  then obtain m where pt': "pt' = AList.update (handle m) m pt" and h: "handle m = ''proc:'' @ uuid_hex pe pt"
    and m: "out_buf m = []" "err_buf m = []" "out_total m = 0" "err_total m = 0" "\<not> out_truncated m"
      "\<not> err_truncated m"
    using assms(4) by (auto simp: start_process_sync_def Let_def)
  have "handle m \<notin> fst ` set pt" using assms(2) h by (simp add: fresh_handles_def)
  then have "handle m \<notin> fst ` set L"
    using assms(3) by (auto simp: ptable_inv_def dom_map_of_conv_image_fst)
  then have "buffers_ok ex L (handle m) m"
    using m assms(1) undrained by (simp add: buffers_ok_def retained_ok_def)
  then show ?thesis using assms(3) table_ok_update [of pt m "handle m"] unfolding pt'
    by (auto simp: ptable_inv_def dict_simps)
qed

lemma process_start_cases:
  assumes "process_start env os pe ex lid tok argv cwd rt now now_ns reg f pt = (res, reg', pt')"
  obtains (refused) e where "res = Inl e" "pt' = pt"
  | (started) p r l where "allow_process_exec ex" "resolve_allowed env os ex f cwd = Inr p"
      "1 / 10 \<le> r" "r \<le> MAX_PROCESS_RUNTIME_S"
      "authorize env lid tok ''process.exec'' (Some (cwd_resource p)) (Some WRITE) now reg = (Inr l, reg)"
      "start_process_sync pe lid tok argv p r now_ns f pt = (res, pt')"
proof -
  consider "\<exists>e. res = Inl e \<and> pt' = pt" | r p where "allow_process_exec ex"
      "1 / 10 \<le> r" "r \<le> MAX_PROCESS_RUNTIME_S" "resolve_allowed env os ex f cwd = Inr p"
      "(case authorize_cwd env lid tok ''process.exec'' p WRITE now reg of
          (Inl e, reg1) \<Rightarrow> (Inl e, reg1, pt)
        | (Inr _, reg1) \<Rightarrow>
            (case start_process_sync pe lid tok argv p r now_ns f pt of (res, pt1) \<Rightarrow> (res, reg1, pt1)))
         = (res, reg', pt')"
    using assms by (auto simp: process_start_def split: if_splits sum.splits pyfloat.splits)
  then show ?thesis
  proof cases
    case (2 r p)
    obtain a reg1 where au: "authorize env lid tok ''process.exec'' (Some (cwd_resource p)) (Some WRITE) now reg = (a, reg1)"
      by fastforce
    show ?thesis
    proof (cases a)
      case (Inl e)
      then show ?thesis using 2 au refused [of e] by (simp add: authorize_cwd_def)
    next
      case (Inr l)
      then have "reg1 = reg"
        using au authorize_snd_of_Inr [of env lid tok "''process.exec''" "Some (cwd_resource p)" "Some WRITE" now reg l]
        by simp
      then show ?thesis using 2 au Inr started [of p r l] by (auto simp: authorize_cwd_def split: prod.splits)
    qed
  qed (use refused in blast)
qed

lemma proc_run_inv:
  assumes "proc_run env os pe ex L c" "0 \<le> max_output_bytes ex" "fresh_handles pe"
  shows "ptable_inv ex L (snd c)"
  using assms
proof (induction rule: proc_run.induct)
  case (run_init reg)
  then show ?case by (simp add: ptable_inv_def table_ok_def)
next
  case (run_start L reg pt lid tok argv cwd rt now now_ns f res reg' pt')
  have i: "ptable_inv ex L pt" using run_start(3) [OF run_start(4,5)] by simp
  from run_start(2) show ?case
  proof (cases rule: process_start_cases)
    case refused
    then show ?thesis using i by simp
  next
    case (started p r l)
    then show ?thesis using ptable_inv_start [OF run_start(4,5) i started(6)] by simp
  qed
next
  case (run_drain L reg pt h m chunk b)
  note inv = run_drain(4) [OF run_drain(5,6), simplified]
  have d: "buffers_ok ex (L @ [(h, b, chunk)]) h (drain_chunk ex b chunk m)"
    "handle (drain_chunk ex b chunk m) = h"
    using drain_retained [of ex L h m b chunk] run_drain inv table_okD [of pt h m]
    by (auto simp: ptable_inv_def)
  have "buffers_ok ex (L @ [(h, b, chunk)]) k x" if "map_of pt k = Some x" "k \<noteq> h" for k x
    using inv that by (simp add: ptable_inv_def buffers_ok_def)
  then show ?case using inv d run_drain(2) by (auto simp: ptable_inv_def dict_simps table_ok_update)
next
  case (run_exit L reg pt h m c)
  then show ?case by (simp add: ptable_inv_update same_output_def)
next
  case (run_watchdog L reg pt h m now now_ns out reg' m')
  then show ?case using ptable_inv_update watchdog_same [OF run_watchdog(3)] by simp
next
  case (run_input L reg pt lid tok h txt1 nl now res reg' pt')
  then show ?case using input_kept [OF _ run_input(2)] ptable_inv_kept [of ex L pt pt'] by (simp add: ptable_inv_def)
next
  case (run_terminate L reg pt lid tok h g now res reg' pt')
  then show ?case using terminate_kept [OF _ run_terminate(2)] ptable_inv_kept [of ex L pt pt'] by (simp add: ptable_inv_def)
next
  case (run_close_lane L reg pt lid tok hs pt')
  then show ?case using close_lane_spec [OF _ run_close_lane(2)] ptable_inv_kept [of ex L pt pt'] by (simp add: ptable_inv_def)
next
  case (run_close_all L reg pt hs pt')
  then show ?case using close_all_spec [OF _ run_close_all(2)] ptable_inv_kept [of ex L pt pt'] by (simp add: ptable_inv_def)
qed simp

lemma LocalExecutor_bound: "LocalExecutor os f roots mo mr mc allow = Inr ex \<Longrightarrow> 1 \<le> max_output_bytes ex"
  by (auto simp: LocalExecutor_def Let_def split: if_splits sum.splits)

section \<open>The watchdog\<close>

text \<open>
  The loop of \<^verbatim>\<open>_watchdog\<close>: turn \<open>i\<close> sees the registry's time, the clock, the registry and a possible
  exit of the child at that moment. \<open>None\<close> is a loop that has not ended within the given turns.
\<close>

type_synonym watch_world = "nat \<Rightarrow> pyfloat \<times> int \<times> registry \<times> int option"

definition clock_at :: "watch_world \<Rightarrow> nat \<Rightarrow> int" where
  "clock_at w i = fst (snd (w i))"

definition exited :: "int option \<Rightarrow> managed_process \<Rightarrow> managed_process" where
  "exited c m = (if running m then m\<lparr>child_code := c\<rparr> else m)"

fun watchdog_loop ::
  "pyenv \<Rightarrow> procenv \<Rightarrow> watch_world \<Rightarrow> nat \<Rightarrow> nat \<Rightarrow> managed_process \<Rightarrow> (nat \<times> managed_process) option" where
  "watchdog_loop env pe w 0 i m = None"
| "watchdog_loop env pe w (Suc k) i m =
     (case w i of (now, now_ns, reg, c) \<Rightarrow>
        case watchdog_turn env pe now now_ns reg (exited c m) of
          (Sleeping d, _, m1) \<Rightarrow> watchdog_loop env pe w k (Suc i) m1
        | (_, _, m1) \<Rightarrow> Some (i, m1))"

text \<open>\<^verbatim>\<open>time.sleep\<close> does not return early.\<close>

definition sleeps :: "watch_world \<Rightarrow> int \<Rightarrow> bool" where
  "sleeps w deadline \<longleftrightarrow>
     (\<forall>i. clock_at w i < deadline \<longrightarrow> clock_at w i + min 250000000 (deadline - clock_at w i) \<le> clock_at w (Suc i))"

definition has_authority :: "pyenv \<Rightarrow> watch_world \<Rightarrow> managed_process \<Rightarrow> nat \<Rightarrow> bool" where
  "has_authority env w m i \<longleftrightarrow> (case w i of (now, _, reg, _) \<Rightarrow>
     \<not> isl (fst (authorize_cwd env (owner_lane_id m) (owner_fencing_token m) ''process.exec'' (mp_cwd m) WRITE now reg)))"

lemma terminate_ends:
  "after_kill pe (m\<lparr>watchdog_terminated := b\<rparr>) \<noteq> None \<Longrightarrow>
     \<not> running (snd (terminate_sync pe g (m\<lparr>watchdog_terminated := b\<rparr>)))"
  by (auto simp: terminate_sync_def running_def split: option.splits)

lemma watchdog_turn_cases:
  assumes turn: "watchdog_turn env pe now now_ns reg m = (out, reg', m')" and kill: "\<And>m. after_kill pe m \<noteq> None"
  defines "lost \<equiv> isl (fst (authorize_cwd env (owner_lane_id m) (owner_fencing_token m) ''process.exec'' (mp_cwd m) WRITE now reg))"
  obtains (finished) "out = ChildGone" "\<not> running m" "m' = m"
  | (ended) "out = Ended" "running m" "\<not> running m'" "lost \<or> deadline_ns m \<le> now_ns"
  | (sleeping) "out = Sleeping (min 250000000 (deadline_ns m - now_ns))" "m' = m" "\<not> lost" "now_ns < deadline_ns m" "running m"
proof -
  note k = terminate_ends [where m = m and b = True and g = "Fin (1 / 2)", OF kill]
  obtain a reg1 where au: "authorize_cwd env (owner_lane_id m) (owner_fencing_token m) ''process.exec'' (mp_cwd m) WRITE now reg = (a, reg1)"
    by fastforce
  show ?thesis
  proof (cases "running m")
    case False
    have "out = ChildGone" "m' = m" using turn False by (simp_all add: watchdog_turn_def)
    with False show ?thesis using finished by blast
  next
    case True
    show ?thesis
    proof (cases a)
      case (Inl e)
      have "out = Ended" "\<not> running m'" lost using turn True au k Inl
        by (auto simp: watchdog_turn_def lost_def)
      with True show ?thesis using ended by blast
    next
      case (Inr l)
      show ?thesis
      proof (cases "deadline_ns m \<le> now_ns")
        case late: True
        have "out = Ended" "\<not> running m'" using turn True au k Inr late
          by (auto simp: watchdog_turn_def Let_def)
        with True late show ?thesis using ended by blast
      next
        case False
        have "out = Sleeping (min 250000000 (deadline_ns m - now_ns))" "m' = m" "\<not> lost"
          using turn True au Inr False by (auto simp: watchdog_turn_def lost_def Let_def)
        with True False show ?thesis using sleeping by linarith
      qed
    qed
  qed
qed

lemma exited_simps [simp]:
  "deadline_ns (exited c m) = deadline_ns m" "owner_lane_id (exited c m) = owner_lane_id m"
  "owner_fencing_token (exited c m) = owner_fencing_token m" "mp_cwd (exited c m) = mp_cwd m"
  "watchdog_terminated (exited c m) = watchdog_terminated m"
  by (simp_all add: exited_def)

lemma has_authority_cong:
  "owner_lane_id m' = owner_lane_id m \<Longrightarrow> owner_fencing_token m' = owner_fencing_token m \<Longrightarrow> mp_cwd m' = mp_cwd m
   \<Longrightarrow> has_authority env w m' i = has_authority env w m i"
  by (simp add: has_authority_def)

lemma watchdog_loop_ends:
  assumes kill: "\<And>m. after_kill pe m \<noteq> None" and sl: "sleeps w (deadline_ns m)"
    and "deadline_ns m - clock_at w i \<le> int k * 250000000" "\<not> watchdog_terminated m"
  shows "\<exists>j m'. watchdog_loop env pe w (Suc k) i m = Some (j, m') \<and> \<not> running m' \<and> i \<le> j
    \<and> (\<forall>n \<in> {i..<j}. clock_at w n < deadline_ns m \<and> has_authority env w m n)
    \<and> (watchdog_terminated m' \<longrightarrow> deadline_ns m \<le> clock_at w j \<or> \<not> has_authority env w m j)"
  using assms(2-4)
proof (induction k arbitrary: i m)
  case (0 i m)
  obtain now ns reg c where wi: "w i = (now, ns, reg, c)" by (cases "w i")
  obtain out reg1 m1 where t: "watchdog_turn env pe now ns reg (exited c m) = (out, reg1, m1)"
    by (cases "watchdog_turn env pe now ns reg (exited c m)")
  from t kill show ?case
    by (cases rule: watchdog_turn_cases)
      (use 0 wi t in \<open>auto simp: clock_at_def intro!: exI [of _ i]\<close>)
next
  case (Suc k i m)
  obtain now ns reg c where wi: "w i = (now, ns, reg, c)" by (cases "w i")
  obtain out reg1 m1 where t: "watchdog_turn env pe now ns reg (exited c m) = (out, reg1, m1)"
    by (cases "watchdog_turn env pe now ns reg (exited c m)")
  from t kill show ?case
  proof (cases rule: watchdog_turn_cases)
    case finished
    then show ?thesis using Suc.prems wi t by (auto intro!: exI [of _ i])
  next
    case ended
    then show ?thesis using wi t
      by (auto simp: clock_at_def has_authority_def intro!: exI [of _ i])
  next
    case sleeping
    have ci: "clock_at w i = ns" using wi by (simp add: clock_at_def)
    have m1: "deadline_ns m1 = deadline_ns m" "has_authority env w m1 n = has_authority env w m n"
      "\<not> watchdog_terminated m1" for n
      using sleeping(2) Suc.prems has_authority_cong [of m1 m env w n] by auto
    have "ns + min 250000000 (deadline_ns m - ns) \<le> clock_at w (Suc i)"
      using Suc.prems(1) sleeping(4) ci by (auto simp: sleeps_def)
    then have "deadline_ns m1 - clock_at w (Suc i) \<le> int k * 250000000"
      using Suc.prems(2) ci m1(1) by (auto simp: min_def split: if_splits)
    then obtain j m' where ih: "watchdog_loop env pe w (Suc k) (Suc i) m1 = Some (j, m')" "\<not> running m'" "Suc i \<le> j"
      "\<And>n. Suc i \<le> n \<Longrightarrow> n < j \<Longrightarrow> clock_at w n < deadline_ns m \<and> has_authority env w m n"
      "watchdog_terminated m' \<longrightarrow> deadline_ns m \<le> clock_at w j \<or> \<not> has_authority env w m j"
      using Suc.IH [of m1 "Suc i"] Suc.prems(1) m1 by fastforce
    have "has_authority env w m i" "clock_at w i < deadline_ns m"
      using sleeping wi ci by (auto simp: has_authority_def)
    then have "clock_at w n < deadline_ns m \<and> has_authority env w m n" if "i \<le> n" "n < j" for n
      using that ih(4) [of n] by (cases "n = i") auto
    moreover have "watchdog_loop env pe w (Suc (Suc k)) i m = Some (j, m')"
      using wi t sleeping(1) ih(1) by simp
    ultimately show ?thesis using ih by (intro exI [of _ j] exI [of _ m']) auto
  qed
qed

section \<open>Requests that change the table\<close>

datatype proc_request =
    StartProcess "string list" string json
  | SendInput string string json
  | TerminateProcess string json

fun proc_capability :: "proc_request \<Rightarrow> string" where
  "proc_capability (StartProcess _ _ _) = ''process.exec''"
| "proc_capability (SendInput _ _ _) = ''process.interact''"
| "proc_capability (TerminateProcess _ _) = ''process.control''"

fun proc_change ::
  "pyenv \<Rightarrow> osenv \<Rightarrow> procenv \<Rightarrow> executor \<Rightarrow> string \<Rightarrow> int \<Rightarrow> proc_request \<Rightarrow> pyfloat \<Rightarrow> int \<Rightarrow> registry \<Rightarrow> fs
   \<Rightarrow> ptable \<Rightarrow> dict result \<times> registry \<times> ptable" where
  "proc_change env os pe ex lid tok (StartProcess argv cwd rt) now now_ns reg f pt =
     process_start env os pe ex lid tok argv cwd rt now now_ns reg f pt"
| "proc_change env os pe ex lid tok (SendInput h s nl) now now_ns reg f pt =
     process_input env os pe ex lid tok h s nl now reg pt"
| "proc_change env os pe ex lid tok (TerminateProcess h g) now now_ns reg f pt =
     process_terminate env pe ex lid tok h g now reg pt"

text \<open>The lane owns the process and holds the capability with a write claim on its directory.\<close>

definition may_control :: "pyenv \<Rightarrow> executor \<Rightarrow> string \<Rightarrow> int \<Rightarrow> string \<Rightarrow> pyfloat \<Rightarrow> registry \<Rightarrow> managed_process \<Rightarrow> bool" where
  "may_control env ex lid tok cap now reg m \<longleftrightarrow> allow_process_exec ex \<and> owned_by m lid tok
     \<and> (\<exists>l. authorize env lid tok cap (Some (cwd_resource (mp_cwd m))) (Some WRITE) now reg = (Inr l, reg))"

lemma on_process_control:
  assumes run: "on_process env lid tok h cap WRITE now reg pt act = (res, reg', pt')"
    and act: "\<And>m r t. act m = (r, t) \<Longrightarrow> \<exists>m'. same_output m m' \<and> t = AList.update h m' pt"
    and pol: "allow_process_exec ex" and ch: "map_of pt' k \<noteq> map_of pt k"
  shows "\<exists>m m'. map_of pt k = Some m \<and> map_of pt' k = Some m' \<and> same_output m m' \<and> may_control env ex lid tok cap now reg m'"
  using run
proof (cases rule: on_process_cases)
  case refused
  then show ?thesis using ch by simp
next
  case (allowed m l)
  obtain m' where m': "same_output m m'" "pt' = AList.update h m' pt" using act [OF allowed(5)] by blast
  have "k = h" using ch m' by (auto simp: dict_simps split: if_splits)
  moreover have "owned_by m' lid tok" "mp_cwd m' = mp_cwd m"
    using m'(1) allowed(2) by (simp_all add: same_output_def owned_by_def)
  ultimately show ?thesis using allowed m' pol by (auto simp: may_control_def dict_simps)
qed

lemma input_control:
  assumes run: "process_input env os pe ex lid tok h s nl now reg pt = (res, reg', pt')"
    and ch: "map_of pt' k \<noteq> map_of pt k"
  shows "\<exists>m m'. map_of pt k = Some m \<and> map_of pt' k = Some m' \<and> same_output m m'
    \<and> may_control env ex lid tok ''process.interact'' now reg m'"
proof -
  define act where "act payload m = (case write_process_input pe payload m of
      (Inl e, m1) \<Rightarrow> (Inl e :: dict result, AList.update h m1 pt)
    | (Inr _, m1) \<Rightarrow> (Inr (status_json m1 @ [(''bytes_written'', JInt (int (length payload)))]), AList.update h m1 pt))"
    for payload m
  have "pt' = pt \<or> (allow_process_exec ex \<and>
      (\<exists>payload. on_process env lid tok h ''process.interact'' WRITE now reg pt (act payload) = (res, reg', pt')))"
    using run by (auto simp: process_input_def act_def [abs_def] Let_def split: if_splits option.splits sum.splits)
  then obtain payload where "allow_process_exec ex"
    "on_process env lid tok h ''process.interact'' WRITE now reg pt (act payload) = (res, reg', pt')"
    using ch by blast
  moreover have "\<exists>m'. same_output m m' \<and> t = AList.update h m' pt" if "act payload m = (r, t)" for m r t
    using that by (auto simp: act_def split: prod.splits sum.splits dest: write_input_same)
  ultimately show ?thesis using on_process_control [where act = "act payload"] ch by blast
qed

lemma terminate_control:
  assumes run: "process_terminate env pe ex lid tok h g now reg pt = (res, reg', pt')"
    and ch: "map_of pt' k \<noteq> map_of pt k"
  shows "\<exists>m m'. map_of pt k = Some m \<and> map_of pt' k = Some m' \<and> same_output m m'
    \<and> may_control env ex lid tok ''process.control'' now reg m'"
proof -
  define act where "act g m = (case terminate_sync pe g m of
      (Inl e, m1) \<Rightarrow> (Inl e :: dict result, AList.update h m1 pt)
    | (Inr _, m1) \<Rightarrow> (Inr (status_json m1), AList.update h m1 pt))" for g m
  have "pt' = pt \<or> (allow_process_exec ex \<and>
      (\<exists>g. on_process env lid tok h ''process.control'' WRITE now reg pt (act g) = (res, reg', pt')))"
    using run by (auto simp: process_terminate_def act_def [abs_def] split: if_splits sum.splits)
  then obtain g where "allow_process_exec ex"
    "on_process env lid tok h ''process.control'' WRITE now reg pt (act g) = (res, reg', pt')"
    using ch by blast
  moreover have "\<exists>m'. same_output m m' \<and> t = AList.update h m' pt" if "act g m = (r, t)" for m r t
    using that by (auto simp: act_def split: prod.splits sum.splits dest: terminate_sync_same)
  ultimately show ?thesis using on_process_control [where act = "act g"] ch by blast
qed

lemma start_syncD:
  assumes "start_process_sync pe lid tok argv p r now_ns f pt = (res, pt')"
  shows "(pt' = pt \<and> isl res) \<or> (\<exists>m. pt' = AList.update (handle m) m pt \<and> handle m = ''proc:'' @ uuid_hex pe pt
    \<and> owned_by m lid tok \<and> mp_cwd m = p \<and> running m \<and> started_at_ns m = now_ns
    \<and> deadline_ns m = now_ns + trunc (r * 1000000000) \<and> \<not> watchdog_terminated m \<and> res = Inr (status_json m))"
proof (cases "spawn pe argv p f")
  case (Inl e)
  then show ?thesis using assms by (auto simp: start_process_sync_def)
next
  case (Inr pid)
  define m where "m = \<lparr>handle = ''proc:'' @ uuid_hex pe pt, owner_lane_id = lid, owner_fencing_token = tok,
    child_pid = pid, child_code = None, child_input = [], mp_cwd = p, mp_argv = argv,
    started_at_ns = now_ns, deadline_ns = now_ns + trunc (r * 1000000000),
    out_buf = [], err_buf = [], out_total = 0, err_total = 0, out_truncated = False,
    err_truncated = False, watchdog_terminated = False\<rparr>"
  have "pt' = AList.update (handle m) m pt" "res = Inr (status_json m)"
    using assms Inr by (auto simp: start_process_sync_def Let_def m_def)
  moreover have "handle m = ''proc:'' @ uuid_hex pe pt" "owned_by m lid tok" "mp_cwd m = p" "running m"
    "started_at_ns m = now_ns" "deadline_ns m = now_ns + trunc (r * 1000000000)" "\<not> watchdog_terminated m"
    by (simp_all add: m_def owned_by_def running_def)
  ultimately show ?thesis by blast
qed

lemma start_control:
  assumes run: "process_start env os pe ex lid tok argv cwd rt now now_ns reg f pt = (res, reg', pt')"
    and fresh: "fresh_handles pe" and ch: "map_of pt' k \<noteq> map_of pt k"
  obtains m p r where "map_of pt k = None" "map_of pt' k = Some m"
    "may_control env ex lid tok ''process.exec'' now reg m" "resolve_allowed env os ex f cwd = Inr p" "mp_cwd m = p"
    "deadline_ns m = started_at_ns m + trunc (r * 1000000000)" "r \<le> MAX_PROCESS_RUNTIME_S"
    "started_at_ns m = now_ns" "\<not> watchdog_terminated m" "running m"
  using run
proof (cases rule: process_start_cases)
  case refused
  then show ?thesis using ch by simp
next
  case (started p r l)
  obtain m where m: "pt' = AList.update (handle m) m pt" "handle m = ''proc:'' @ uuid_hex pe pt"
    "owned_by m lid tok" "mp_cwd m = p" "running m" "started_at_ns m = now_ns"
    "deadline_ns m = now_ns + trunc (r * 1000000000)" "\<not> watchdog_terminated m"
    using start_syncD [OF started(6)] ch by auto
  have k: "k = handle m" using ch m(1) by (auto simp: dict_simps split: if_splits)
  have "map_of pt k = None" using fresh m(2) k by (simp add: fresh_handles_def map_of_eq_None_iff)
  moreover have "map_of pt' k = Some m" using m(1) k by (simp add: dict_simps)
  moreover have "may_control env ex lid tok ''process.exec'' now reg m"
    using started m by (auto simp: may_control_def)
  ultimately show ?thesis using that started m by simp
qed

lemma terminate_each_total:
  assumes "\<And>m. after_kill pe m \<noteq> None"
  shows "\<exists>hs pt'. terminate_each pe ms pt = (Inr hs, pt')"
proof (induction ms arbitrary: pt)
  case (Cons m ms)
  have "\<exists>m1. terminate_sync pe (Fin (1 / 2)) m = (Inr (), m1)"
    using assms [of m] by (auto simp: terminate_sync_def split: option.split)
  then obtain m1 where "terminate_sync pe (Fin (1 / 2)) m = (Inr (), m1)" ..
  then show ?case using Cons [of "AList.update (handle m) m1 pt"] by auto
qed simp

lemma runtime_turns: "r \<le> MAX_PROCESS_RUNTIME_S \<Longrightarrow> trunc (r * 1000000000) \<le> int 14400 * 250000000"
proof -
  assume "r \<le> MAX_PROCESS_RUNTIME_S"
  then have "r * 1000000000 \<le> of_int (3600 * 1000000000)" by (simp add: MAX_PROCESS_RUNTIME_S_def)
  then have "trunc (r * 1000000000) \<le> 3600 * 1000000000"
    unfolding trunc_def using floor_mono [of "r * 1000000000" "of_int (3600 * 1000000000)"]
      ceiling_mono [of "r * 1000000000" "of_int (3600 * 1000000000)"] by (simp only: floor_of_int ceiling_of_int split: if_split) simp
  then show ?thesis by simp
qed


section \<open>A concrete table\<close>

definition demo_pe :: procenv where
  "demo_pe = \<lparr>spawn = (\<lambda>_ _ _. Inr 7),
     uuid_hex = (\<lambda>pt. replicate (Suc (sum_list (map (length \<circ> fst) pt))) (CHR ''a'')),
     after_term = (\<lambda>_ _. None), after_kill = (\<lambda>_. Some (-9)), stdin_fault = (\<lambda>_ _. None)\<rparr>"

definition demo_pex :: executor where
  "demo_pex = \<lparr>allowed_roots = [RPath ''/'' [''w'', ''r'']], max_output_bytes = 4, max_read_bytes = 10,
     max_read_chunk_bytes = 2, allow_process_exec = True\<rparr>"

definition demo_preg :: registry where
  "demo_preg = demo_registry\<lparr>lanes := [(''r'', \<lparr>lane_id = ''r'', task_id = ''t'',
     capabilities = {''process.exec'', ''process.inspect'', ''process.control''},
     claims = [ResourceClaim ''cwd:/w/r'' WRITE], fencing_token = 2, expires_at = Fin 310\<rparr>)], last_fence := 2\<rparr>"

definition demo_proc :: managed_process where
  "demo_proc = \<lparr>handle = ''proc:a'', owner_lane_id = ''r'', owner_fencing_token = 2, child_pid = 7,
     child_code = None, child_input = [], mp_cwd = RPath ''/'' [''w'', ''r''], mp_argv = [''sh''],
     started_at_ns = 0, deadline_ns = 1000000000, out_buf = [], err_buf = [], out_total = 0, err_total = 0,
     out_truncated = False, err_truncated = False, watchdog_terminated = False\<rparr>"

lemma demo_pex: "LocalExecutor demo_os [] [''r''] 4 10 (Some 2) True = Inr demo_pex"
  by (simp add: LocalExecutor_def Let_def demo_os_def demo_pex_def)

lemma demo_fresh: "fresh_handles demo_pe"
proof -
  have "''proc:'' @ uuid_hex demo_pe pt \<notin> fst ` set pt" for pt
  proof
    assume "''proc:'' @ uuid_hex demo_pe pt \<in> fst ` set pt"
    then have "length (''proc:'' @ uuid_hex demo_pe pt) \<in> set (map (length \<circ> fst) pt)" by force
    then have "length (''proc:'' @ uuid_hex demo_pe pt) \<le> sum_list (map (length \<circ> fst) pt)"
      by (intro member_le_sum_list) auto
    then show False by (simp add: demo_pe_def)
  qed
  then show ?thesis by (simp add: fresh_handles_def)
qed

lemma demo_cwd_authorized:
  assumes "cap \<in> {''process.exec'', ''process.inspect'', ''process.control''}"
  shows "\<exists>l. authorize posix_env ''r'' 2 cap (Some (cwd_resource (RPath ''/'' [''w'', ''r'']))) (Some mode) (Fin 20) demo_preg
    = (Inr l, demo_preg)"
proof -
  have "claim_covers posix_env (ResourceClaim ''cwd:/w/r'' WRITE) ''cwd:/w/r'' READ = Inr True"
    "claim_covers posix_env (ResourceClaim ''cwd:/w/r'' WRITE) ''cwd:/w/r'' WRITE = Inr True" by code_simp+
  then show ?thesis using assms
    by (cases mode) (auto simp: cwd_resource_def as_posix_def authorize_def require_lane_locked_def demo_preg_def expired_def)
qed

lemma demo_process_start:
  "process_start posix_env demo_os demo_pe demo_pex ''r'' 2 [''sh''] ''r'' (JInt 1) (Fin 20) 0 demo_preg [] []
     = (Inr (status_json demo_proc), demo_preg, [(''proc:a'', demo_proc)])"
proof -
  have res: "resolve_allowed posix_env demo_os demo_pex [] ''r'' = Inr (RPath ''/'' [''w'', ''r''])"
    by (simp add: resolve_allowed_def demo_os_def demo_pex_def relative_to_def)
  have sync: "start_process_sync demo_pe ''r'' 2 [''sh''] (RPath ''/'' [''w'', ''r'']) 1 0 [] []
      = (Inr (status_json demo_proc), [(''proc:a'', demo_proc)])"
    by (simp add: start_process_sync_def demo_pe_def demo_proc_def Let_def trunc_def)
  obtain l where "authorize posix_env ''r'' 2 ''process.exec'' (Some (cwd_resource (RPath ''/'' [''w'', ''r'']))) (Some WRITE)
      (Fin 20) demo_preg = (Inr l, demo_preg)"
    using demo_cwd_authorized [of "''process.exec''" WRITE] by auto
  then show ?thesis using res sync
    by (simp add: process_start_def authorize_cwd_def demo_pex_def MAX_PROCESS_RUNTIME_S_def)
qed

lemma demo_run_start: "proc_run posix_env demo_os demo_pe demo_pex [] (demo_preg, [(''proc:a'', demo_proc)])"
  by (rule run_start [OF run_init demo_process_start])

definition demo_out :: managed_process where
  "demo_out = drain_chunk demo_pex True ''hello'' demo_proc"

lemma demo_run_out:
  "proc_run posix_env demo_os demo_pe demo_pex [(''proc:a'', True, ''hello'')] (demo_preg, [(''proc:a'', demo_out)])"
  using run_drain [OF demo_run_start, of "''proc:a''" demo_proc "''hello''" True] by (simp add: demo_out_def)

section \<open>Properties\<close>

text \<open>
  (C21) The output of a process is retained exactly. Whatever the lanes, the watchdogs and the
  processes do, in any order, the buffer of a stream holds the first \<open>max_output_bytes\<close> bytes of
  all that its pipe delivered, the total is the number of bytes delivered, and the truncation
  mark is set exactly when some were not retained.
\<close>

theorem retained_output_is_exact:
  assumes "LocalExecutor os0 f0 roots mo mr mc allow = Inr ex" "fresh_handles pe"
    and "proc_run env os pe ex L (reg, pt)" "map_of pt h = Some m"
  shows "out_buf m = take (nat (max_output_bytes ex)) (drained h True L)
    \<and> out_total m = int (length (drained h True L))
    \<and> (out_truncated m \<longleftrightarrow> out_buf m \<noteq> drained h True L)
    \<and> err_buf m = take (nat (max_output_bytes ex)) (drained h False L)
    \<and> err_total m = int (length (drained h False L))
    \<and> (err_truncated m \<longleftrightarrow> err_buf m \<noteq> drained h False L)"
proof -
  have "0 \<le> max_output_bytes ex" using LocalExecutor_bound [OF assms(1)] by simp
  then have "buffers_ok ex L h m" using proc_run_inv [OF assms(3) _ assms(2)] assms(4) by (auto simp: ptable_inv_def)
  moreover have "retained_ok ex s b t tr \<Longrightarrow> tr \<longleftrightarrow> b \<noteq> s" for s b t tr
    using \<open>0 \<le> max_output_bytes ex\<close> by (auto simp: retained_ok_def take_all_iff nat_le_iff)
  ultimately show ?thesis by (auto simp: buffers_ok_def retained_ok_def)
qed

lemma retained_output_is_exact_witness:
  "out_buf demo_out = take 4 ''hello'' \<and> out_total demo_out = 5 \<and> out_truncated demo_out"
  using retained_output_is_exact [OF demo_pex demo_fresh demo_run_out, of "''proc:a''" demo_out]
  by (simp add: demo_pex_def)




definition demo_clock :: watch_world where
  "demo_clock i = (Fin 20, int i * 250000000, demo_preg, None)"


text \<open>
  Processes change only under the authority of their owner. A request to start a process, to send
  it input or to end it changes at most processes that the requesting lane and token own, while
  process execution is enabled and the lane holds the capability of the request with a write claim
  on the working directory; a new process runs below an allowed root.
\<close>

theorem process_changes_are_authorized:
  assumes "fresh_handles pe"
    and "proc_change env os pe ex lid tok req now now_ns reg f pt = (res, reg', pt')"
    and "map_of pt' h \<noteq> map_of pt h"
  shows "\<exists>m. map_of pt' h = Some m \<and> may_control env ex lid tok (proc_capability req) now reg m
    \<and> (case map_of pt h of
          None \<Rightarrow> (\<exists>r \<in> set (allowed_roots ex). relative_to env (mp_cwd m) r)
        | Some m0 \<Rightarrow> owned_by m0 lid tok \<and> same_output m0 m)"
proof (cases req)
  case (StartProcess argv cwd rt)
  have "process_start env os pe ex lid tok argv cwd rt now now_ns reg f pt = (res, reg', pt')"
    using assms(2) StartProcess by simp
  from start_control [OF this assms(1,3)] obtain m p where m: "map_of pt h = None" "map_of pt' h = Some m"
    "may_control env ex lid tok ''process.exec'' now reg m" "resolve_allowed env os ex f cwd = Inr p" "mp_cwd m = p"
    by metis
  then show ?thesis using StartProcess resolve_allowedD [OF m(4)] by simp
next
  case (SendInput k s nl)
  then show ?thesis using input_control [of env os pe ex lid tok k s nl now reg pt res reg' pt' h] assms
    by (fastforce simp: same_output_def owned_by_def may_control_def)
next
  case (TerminateProcess k g)
  then show ?thesis using terminate_control [of env pe ex lid tok k g now reg pt res reg' pt' h] assms
    by (fastforce simp: same_output_def owned_by_def may_control_def)
qed

lemma process_changes_are_authorized_witness:
  "may_control posix_env demo_pex ''r'' 2 ''process.exec'' (Fin 20) demo_preg demo_proc
    \<and> (\<exists>r \<in> set (allowed_roots demo_pex). relative_to posix_env (mp_cwd demo_proc) r)"
proof -
  have "proc_change posix_env demo_os demo_pe demo_pex ''r'' 2 (StartProcess [''sh''] ''r'' (JInt 1)) (Fin 20) 0 demo_preg [] []
     = (Inr (status_json demo_proc), demo_preg, [(''proc:a'', demo_proc)])"
    using demo_process_start by simp
  from process_changes_are_authorized [OF demo_fresh this, of "''proc:a''"] show ?thesis by simp
qed

text \<open>
  Closing a lane ends its processes. In every run, closing the processes of a lane and token ends
  all of them and reports their handles in the order they were started, and leaves every other
  process as it was.
\<close>

theorem lane_close_ends_processes:
  assumes "LocalExecutor os0 f0 roots mo mr mc allow = Inr ex" "fresh_handles pe"
    and run: "proc_run env os pe ex L (reg, pt)" and kill: "\<forall>m. after_kill pe m \<noteq> None"
  shows "\<exists>pt'. close_lane_processes pe lid tok pt
      = (Inr (map fst (filter (\<lambda>(h, m). owned_by m lid tok) pt)), pt')
    \<and> (\<forall>h m. map_of pt h = Some m \<longrightarrow> (if owned_by m lid tok
          then \<exists>m'. map_of pt' h = Some m' \<and> \<not> running m' \<and> same_output m m'
          else map_of pt' h = Some m))"
proof -
  have "0 \<le> max_output_bytes ex" using LocalExecutor_bound [OF assms(1)] by simp
  then have ok: "table_ok pt" using proc_run_inv [OF run _ assms(2)] by (simp add: ptable_inv_def)
  obtain hs pt' where c: "close_lane_processes pe lid tok pt = (Inr hs, pt')"
    using terminate_each_total [of pe] kill unfolding close_lane_processes_def by blast
  have "\<exists>m'. map_of pt' h = Some m' \<and> \<not> running m' \<and> same_output m m'"
    if "map_of pt h = Some m" "owned_by m lid tok" for h m
    using close_lane_spec [OF ok c] that unfolding kept_def by blast
  then show ?thesis using close_lane_spec [OF ok c] c by auto
qed

lemma demo_kills: "\<forall>m. after_kill demo_pe m \<noteq> None"
  by (simp add: demo_pe_def)

lemma lane_close_ends_processes_witness:
  "\<exists>pt' m'. close_lane_processes demo_pe ''r'' 2 [(''proc:a'', demo_proc)] = (Inr [''proc:a''], pt')
    \<and> map_of pt' ''proc:a'' = Some m' \<and> \<not> running m'"
proof -
  have "owned_by demo_proc ''r'' 2" by (simp add: owned_by_def demo_proc_def)
  moreover have "\<exists>pt'. close_lane_processes demo_pe ''r'' 2 [(''proc:a'', demo_proc)]
      = (Inr (map fst (filter (\<lambda>(h, m). owned_by m ''r'' 2) [(''proc:a'', demo_proc)])), pt')
    \<and> (\<forall>h m. map_of [(''proc:a'', demo_proc)] h = Some m \<longrightarrow> (if owned_by m ''r'' 2
          then \<exists>m'. map_of pt' h = Some m' \<and> \<not> running m' \<and> same_output m m'
          else map_of pt' h = Some m))"
    by (rule lane_close_ends_processes [OF demo_pex demo_fresh demo_run_start demo_kills])
  ultimately show ?thesis by (auto dest!: spec [of _ "''proc:a''"])
qed

end
