(* ===== verification/Agent.thy ===== *)
theory Agent
  imports Request_Ledger Process_Table Hot_Session
begin

text \<open>
  \<^verbatim>\<open>protocol.py\<close>: the dispatcher of the workstation agent. A request is a dictionary; the agent checks
  it, admits mutations through the durable ledger, dispatches the operation to the registry, the
  executor or the process table, and always answers with a dictionary. One request is one step of
  the state \<open>agent\<close>; the per-lane locks that serialise operations of a lane are the subject of
  \<open>Lane_Locks\<close>. The optional WorkBridge backend is the interface the dispatcher calls.
\<close>

section \<open>Host, moment and state\<close>

record workbridge =
  can_handle :: "string \<Rightarrow> bool result"
  wb_read_text :: "string \<Rightarrow> int \<Rightarrow> string \<Rightarrow> string \<Rightarrow> pyfloat \<Rightarrow> registry \<Rightarrow> string result \<times> registry"
  wb_stat :: "string \<Rightarrow> int \<Rightarrow> string \<Rightarrow> pyfloat \<Rightarrow> registry \<Rightarrow> dict result \<times> registry"
  wb_list_dir :: "string \<Rightarrow> int \<Rightarrow> string \<Rightarrow> json \<Rightarrow> json \<Rightarrow> pyfloat \<Rightarrow> registry \<Rightarrow> dict result \<times> registry"

record host =
  h_env :: pyenv
  h_os :: osenv
  h_pe :: procenv
  h_ex :: executor
  h_wb :: "workbridge option"
  h_class :: "py_error \<Rightarrow> string"
  h_text :: "exn \<Rightarrow> string"

text \<open>What the clocks show and which database transactions fail while one request is handled.\<close>

record moment =
  t_now :: pyfloat
  t_ns :: int
  t_ms :: int
  begin_fault :: bool
  fence_fault :: bool
  complete_fault :: bool

record agent =
  a_registry :: registry
  a_store :: "state_store option"
  a_fs :: fs
  a_procs :: ptable

definition DURABLE_MUTATING_OPERATIONS :: "string list" where
  "DURABLE_MUTATING_OPERATIONS = [''lane.open'', ''lane.renew'', ''lane.close'', ''fs.write_text'',
     ''fs.append_text'', ''fs.mkdir'', ''fs.move'', ''fs.replace_text'', ''process.exec'',
     ''process.start'', ''process.input'', ''process.terminate'']"

section \<open>Error codes\<close>

fun veraport_code :: "veraport_error \<Rightarrow> string" where
  "veraport_code CapabilityDenied = ''CAPABILITY_DENIED''"
| "veraport_code CollisionBlocked = ''COLLISION_BLOCKED''"
| "veraport_code LaneNotFound = ''LANE_NOT_FOUND''"
| "veraport_code StaleFence = ''STALE_FENCE''"
| "veraport_code LaneExpired = ''LANE_EXPIRED''"

fun store_code :: "store_error \<Rightarrow> string" where
  "store_code StateStoreError = ''STATE_STORE_ERROR''"
| "store_code IdempotencyConflict = ''IDEMPOTENCY_CONFLICT''"
| "store_code RequestOutcomeUnknown = ''REQUEST_OUTCOME_UNKNOWN''"
| "store_code RequestLedgerCapacityExceeded = ''REQUEST_LEDGER_CAPACITY_EXCEEDED''"

text \<open>Two classes of the executor have no code of their own and show their name.\<close>

fun exec_code :: "exec_error \<Rightarrow> string" where
  "exec_code PathOutsideRoots = ''PATHOUTSIDEROOTS''"
| "exec_code ProcessExecutionDisabled = ''PROCESSEXECUTIONDISABLED''"
| "exec_code FileReadLimitExceeded = ''FILE_READ_LIMIT_EXCEEDED''"
| "exec_code FileVersionChanged = ''FILE_VERSION_CHANGED''"
| "exec_code ReplaceCountMismatch = ''REPLACE_COUNT_MISMATCH''"

fun process_code :: "process_error \<Rightarrow> string" where
  "process_code ProcessHandleNotFound = ''PROCESS_HANDLE_NOT_FOUND''"
| "process_code ProcessHandleOwnerMismatch = ''PROCESS_HANDLE_OWNER_MISMATCH''"
| "process_code ProcessOutputOffsetUnavailable = ''PROCESS_OUTPUT_OFFSET_UNAVAILABLE''"
| "process_code ProcessInputUnavailable = ''PROCESS_INPUT_UNAVAILABLE''"

text \<open>
  \<^verbatim>\<open>getattr(exc, "code", exc.__class__.__name__.upper())\<close>. The classes of the remaining components are
  not raised below the agent; \<open>h_class\<close> names them together with the classes of the interpreter.
\<close>

fun exn_code :: "host \<Rightarrow> exn \<Rightarrow> string" where
  "exn_code h (VeraPort e) = veraport_code e"
| "exn_code h (Store e) = store_code e"
| "exn_code h (Exec e) = exec_code e"
| "exn_code h (Process e) = process_code e"
| "exn_code h (Bridge WorkBridgeLocalError) = ''WORKBRIDGE_LOCAL_ERROR''"
| "exn_code h (Bridge WorkBridgePathDenied) = ''WORKBRIDGE_PATH_DENIED''"
| "exn_code h (Py e) = h_class h e"
| "exn_code h _ = h_class h RuntimeError"

section \<open>Arguments\<close>

definition rbind :: "'a result \<Rightarrow> ('a \<Rightarrow> 'b result) \<Rightarrow> 'b result" where
  "rbind r k = (case r of Inl e \<Rightarrow> Inl e | Inr x \<Rightarrow> k x)"

definition arg_str :: "host \<Rightarrow> dict \<Rightarrow> string \<Rightarrow> string result" where
  "arg_str h req k = rbind (dict_item req k) (\<lambda>v. Inr (py_str (h_env h) v))"

definition arg_str_default :: "host \<Rightarrow> dict \<Rightarrow> string \<Rightarrow> string \<Rightarrow> string" where
  "arg_str_default h req k d = py_str (h_env h) (dict_get req k (JStr d))"

definition arg_int :: "host \<Rightarrow> dict \<Rightarrow> string \<Rightarrow> int result" where
  "arg_int h req k = rbind (dict_item req k) (py_int (h_env h))"

fun rmap :: "('a \<Rightarrow> 'b result) \<Rightarrow> 'a list \<Rightarrow> 'b list result" where
  "rmap g [] = Inr []"
| "rmap g (x # xs) = rbind (g x) (\<lambda>y. rbind (rmap g xs) (\<lambda>ys. Inr (y # ys)))"

text \<open>Iterating over a JSON value: a string gives its code points, a dictionary its keys.\<close>

fun cp_chars :: "string \<Rightarrow> string list" where
  "cp_chars [] = []"
| "cp_chars (c # cs) =
     (case cp_chars cs of
        [] \<Rightarrow> [[c]]
      | s # ss \<Rightarrow> if is_continuation (hd s) then (c # s) # ss else [c] # s # ss)"

fun py_iter :: "json \<Rightarrow> json list result" where
  "py_iter (JList vs) = Inr vs"
| "py_iter (JObj kvs) = Inr (map (\<lambda>(k, _). JStr k) kvs)"
| "py_iter (JStr s) = Inr (map JStr (cp_chars s))"
| "py_iter _ = Inl (Py TypeError)"

fun claim_of_json :: "host \<Rightarrow> json \<Rightarrow> resource_claim result" where
  "claim_of_json h (JObj kvs) =
     rbind (arg_str h kvs ''key'') (\<lambda>k. rbind (arg_str h kvs ''mode'') (\<lambda>m.
       rbind (claim_mode_of m) (mk_resource_claim k)))"
| "claim_of_json h _ = Inl (Py TypeError)"

definition lane_json :: "lane \<Rightarrow> dict" where
  "lane_json l =
     [(''lane_id'', JStr (lane_id l)), (''task_id'', JStr (task_id l)),
      (''capabilities'', JList (map JStr (sorted_list_of_set (capabilities l)))),
      (''claims'', JList (map (\<lambda>c. JObj [(''key'', JStr (ckey c)), (''mode'', JStr (mode_value (cmode c)))]) (claims l))),
      (''fencing_token'', JInt (fencing_token l)), (''expires_at_monotonic'', JFloat (expires_at l))]"

section \<open>Lane operations\<close>

text \<open>The registry of an agent with a store takes its fences from the store.\<close>

definition agent_open_lane ::
  "host \<Rightarrow> moment \<Rightarrow> string \<Rightarrow> string \<Rightarrow> string set \<Rightarrow> resource_claim list \<Rightarrow> pyfloat \<Rightarrow> agent \<Rightarrow> lane result \<times> agent" where
  "agent_open_lane h t lid tid caps cs ttl ag =
     (case a_store ag of
        None \<Rightarrow>
          (case open_lane (h_env h) None lid tid caps cs ttl (t_now t) (a_registry ag) () of
             (r, reg, _) \<Rightarrow> (r, ag\<lparr>a_registry := reg\<rparr>))
      | Some st \<Rightarrow>
          (case open_lane (h_env h) (Some (next_fence (fence_fault t))) lid tid caps cs ttl (t_now t) (a_registry ag) st of
             (r, reg, st') \<Rightarrow> (r, ag\<lparr>a_registry := reg, a_store := Some st'\<rparr>)))"

definition do_lane_open :: "host \<Rightarrow> moment \<Rightarrow> dict \<Rightarrow> agent \<Rightarrow> dict result \<times> agent" where
  "do_lane_open h t req ag =
     (case rbind (arg_str h req ''lane_id'') (\<lambda>lid.
             rbind (py_iter (dict_get req ''claims'' (JList []))) (\<lambda>items.
             rbind (rmap (claim_of_json h) items) (\<lambda>cs.
             rbind (arg_str h req ''task_id'') (\<lambda>tid.
             rbind (py_iter (dict_get req ''capabilities'' (JList []))) (\<lambda>caps.
             rbind (py_float (h_env h) (dict_get req ''ttl_s'' (JFloat (Fin 300)))) (\<lambda>ttl.
               Inr (lid, cs, tid, set (map (py_str (h_env h)) caps), ttl))))))) of
        Inl e \<Rightarrow> (Inl e, ag)
      | Inr (lid, cs, tid, caps, ttl) \<Rightarrow>
          (case agent_open_lane h t lid tid caps cs ttl ag of
             (Inl e, ag') \<Rightarrow> (Inl e, ag')
           | (Inr l, ag') \<Rightarrow> (Inr (lane_json l), ag')))"

definition do_lane_renew :: "host \<Rightarrow> moment \<Rightarrow> dict \<Rightarrow> agent \<Rightarrow> dict result \<times> agent" where
  "do_lane_renew h t req ag =
     (case rbind (arg_str h req ''lane_id'') (\<lambda>lid. rbind (arg_int h req ''fencing_token'') (\<lambda>tok.
             rbind (py_float (h_env h) (dict_get req ''ttl_s'' (JFloat (Fin 300)))) (\<lambda>ttl. Inr (lid, tok, ttl)))) of
        Inl e \<Rightarrow> (Inl e, ag)
      | Inr (lid, tok, ttl) \<Rightarrow>
          (case renew lid tok ttl (t_now t) (a_registry ag) of
             (Inl e, reg) \<Rightarrow> (Inl e, ag\<lparr>a_registry := reg\<rparr>)
           | (Inr l, reg) \<Rightarrow> (Inr (lane_json l), ag\<lparr>a_registry := reg\<rparr>)))"

definition do_lane_close :: "host \<Rightarrow> moment \<Rightarrow> dict \<Rightarrow> agent \<Rightarrow> dict result \<times> agent" where
  "do_lane_close h t req ag =
     (case rbind (arg_str h req ''lane_id'') (\<lambda>lid. rbind (arg_int h req ''fencing_token'') (\<lambda>tok. Inr (lid, tok))) of
        Inl e \<Rightarrow> (Inl e, ag)
      | Inr (lid, tok) \<Rightarrow>
          (case close_lane_processes (h_pe h) lid tok (a_procs ag) of
             (Inl e, pt) \<Rightarrow> (Inl e, ag\<lparr>a_procs := pt\<rparr>)
           | (Inr terminated, pt) \<Rightarrow>
               (case close lid tok (t_now t) (a_registry ag) of
                  (Inl e, reg) \<Rightarrow> (Inl e, ag\<lparr>a_procs := pt, a_registry := reg\<rparr>)
                | (Inr l, reg) \<Rightarrow>
                    (Inr [(''lane_id'', JStr (lane_id l)), (''closed'', JBool True),
                          (''terminated_process_handles'', JList (map JStr terminated))],
                     ag\<lparr>a_procs := pt, a_registry := reg\<rparr>))))"

definition do_lane_list :: "moment \<Rightarrow> agent \<Rightarrow> dict result \<times> agent" where
  "do_lane_list t ag =
     (case snapshot (t_now t) (a_registry ag) of (ls, reg) \<Rightarrow>
        (Inr ([(''lanes'', JList (map (\<lambda>l. JObj (lane_json l)) ls))]
              @ (case a_store ag of None \<Rightarrow> []
                 | Some st \<Rightarrow> [(''request_ledger'', JObj (request_ledger_health st))])),
         ag\<lparr>a_registry := reg\<rparr>))"

section \<open>File operations\<close>

definition with_reg :: "agent \<Rightarrow> 'a result \<times> registry \<Rightarrow> ('a \<Rightarrow> dict) \<Rightarrow> dict result \<times> agent" where
  "with_reg ag p k = (case p of (r, reg) \<Rightarrow> (map_sum id k r, ag\<lparr>a_registry := reg\<rparr>))"

definition with_fs :: "agent \<Rightarrow> 'a result \<times> registry \<times> fs \<Rightarrow> ('a \<Rightarrow> dict) \<Rightarrow> dict result \<times> agent" where
  "with_fs ag p k = (case p of (r, reg, f) \<Rightarrow> (map_sum id k r, ag\<lparr>a_registry := reg, a_fs := f\<rparr>))"

definition with_procs :: "agent \<Rightarrow> dict result \<times> registry \<times> ptable \<Rightarrow> dict result \<times> agent" where
  "with_procs ag p = (case p of (r, reg, pt) \<Rightarrow> (r, ag\<lparr>a_registry := reg, a_procs := pt\<rparr>))"

definition bridge_for :: "host \<Rightarrow> string \<Rightarrow> workbridge option result" where
  "bridge_for h path =
     (case h_wb h of None \<Rightarrow> Inr None | Some w \<Rightarrow> rbind (can_handle w path) (\<lambda>yes. Inr (if yes then Some w else None)))"

definition do_read_text :: "host \<Rightarrow> moment \<Rightarrow> dict \<Rightarrow> agent \<Rightarrow> dict result \<times> agent" where
  "do_read_text h t req ag =
     (case rbind (arg_str h req ''lane_id'') (\<lambda>lid. rbind (arg_str h req ''path'') (\<lambda>path.
             rbind (bridge_for h path) (\<lambda>bridge. rbind (arg_int h req ''fencing_token'') (\<lambda>tok. Inr (lid, path, bridge, tok))))) of
        Inl e \<Rightarrow> (Inl e, ag)
      | Inr (lid, path, bridge, tok) \<Rightarrow>
          let encoding = arg_str_default h req ''encoding'' ''utf-8'' in
          (case bridge of
             Some w \<Rightarrow> with_reg ag (wb_read_text w lid tok path encoding (t_now t) (a_registry ag))
               (\<lambda>c. [(''content'', JStr c), (''backend'', JStr ''workbridge'')])
           | None \<Rightarrow> with_fs ag (read_text (h_env h) (h_os h) (h_ex h) lid tok path encoding (t_now t) (a_registry ag) (a_fs ag))
               (\<lambda>c. [(''content'', JStr c)])))"

definition b64encode :: "string \<Rightarrow> string" where
  "b64encode bs =
     (let s = map (\<lambda>c. if c = CHR ''-'' then CHR ''+'' else if c = CHR ''_'' then CHR ''/'' else c) (b64u bs)
      in s @ replicate ((4 - length s mod 4) mod 4) (CHR ''=''))"

definition range_json :: "file_byte_range \<Rightarrow> dict" where
  "range_json r =
     [(''content_base64'', JStr (b64encode (br_content r))), (''offset'', JInt (br_offset r)),
      (''bytes_read'', JInt (br_bytes_read r)), (''next_offset'', JInt (br_next_offset r)),
      (''eof'', JBool (br_eof r)), (''size_bytes'', JInt (br_size_bytes r)),
      (''file_version'', JStr (br_file_version r))]"

definition do_read_bytes :: "host \<Rightarrow> moment \<Rightarrow> dict \<Rightarrow> agent \<Rightarrow> dict result \<times> agent" where
  "do_read_bytes h t req ag =
     (case rbind (arg_str h req ''lane_id'') (\<lambda>lid. rbind (arg_int h req ''fencing_token'') (\<lambda>tok.
             rbind (arg_str h req ''path'') (\<lambda>path. Inr (lid, tok, path)))) of
        Inl e \<Rightarrow> (Inl e, ag)
      | Inr (lid, tok, path) \<Rightarrow>
          with_fs ag (read_bytes_range (h_env h) (h_os h) (h_ex h) lid tok path (dict_get req ''offset'' (JInt 0))
              (dict_get req ''max_bytes'' JNull) (dict_get req ''expected_file_version'' JNull) (t_now t)
              (a_registry ag) (a_fs ag)) range_json)"

definition do_discover :: "host \<Rightarrow> moment \<Rightarrow> string \<Rightarrow> dict \<Rightarrow> agent \<Rightarrow> dict result \<times> agent" where
  "do_discover h t operation req ag =
     (case rbind (arg_str h req ''lane_id'') (\<lambda>lid. rbind (arg_int h req ''fencing_token'') (\<lambda>tok. Inr (lid, tok))) of
        Inl e \<Rightarrow> (Inl e, ag)
      | Inr (lid, tok) \<Rightarrow>
          let env = h_env h; os = h_os h; ex = h_ex h; now = t_now t; reg = a_registry ag; f = a_fs ag in
          if operation = ''fs.stat'' then
            (case arg_str h req ''path'' of
               Inl e \<Rightarrow> (Inl e, ag)
             | Inr path \<Rightarrow>
                 (case bridge_for h path of
                    Inl e \<Rightarrow> (Inl e, ag)
                  | Inr (Some w) \<Rightarrow> with_reg ag (wb_stat w lid tok path now reg) id
                  | Inr None \<Rightarrow> with_reg ag (stat_sync env os ex lid tok path now reg f) id))
          else if operation = ''fs.list_dir'' then
            (case arg_str h req ''path'' of
               Inl e \<Rightarrow> (Inl e, ag)
             | Inr path \<Rightarrow>
                 let off = dict_get req ''offset'' (JInt 0); n = dict_get req ''max_entries'' (JInt 200) in
                 (case bridge_for h path of
                    Inl e \<Rightarrow> (Inl e, ag)
                  | Inr (Some w) \<Rightarrow> with_reg ag (wb_list_dir w lid tok path off n now reg) id
                  | Inr None \<Rightarrow> with_reg ag (list_dir env os ex lid tok path off n now reg f) id))
          else
            (case rbind (arg_str h req ''root'') (\<lambda>b. rbind (arg_str h req ''query'') (\<lambda>q. Inr (b, q))) of
               Inl e \<Rightarrow> (Inl e, ag)
             | Inr (b, q) \<Rightarrow>
                 let off = dict_get req ''offset'' (JInt 0); mr = dict_get req ''max_results'' (JInt 100);
                     me = dict_get req ''max_entries'' (JInt 10000); md = dict_get req ''max_depth'' (JInt 12);
                     cs = dict_get req ''case_sensitive'' (JBool False) in
                 if operation = ''fs.search''
                 then with_reg ag (search env os ex lid tok b q off mr me md cs now reg f) id
                 else with_reg ag (search_content env os ex lid tok b q
                        (arg_str_default h req ''file_pattern'' ''*'') off mr me md
                        (dict_get req ''max_total_bytes'' (JInt (8 * 1024 * 1024))) cs now reg f) id))"

definition do_write_text :: "host \<Rightarrow> moment \<Rightarrow> dict \<Rightarrow> agent \<Rightarrow> dict result \<times> agent" where
  "do_write_text h t req ag =
     (case rbind (arg_str h req ''lane_id'') (\<lambda>lid. rbind (arg_int h req ''fencing_token'') (\<lambda>tok.
             rbind (arg_str h req ''path'') (\<lambda>path. rbind (arg_str h req ''content'') (\<lambda>c. Inr (lid, tok, path, c))))) of
        Inl e \<Rightarrow> (Inl e, ag)
      | Inr (lid, tok, path, c) \<Rightarrow>
          with_fs ag (write_text (h_env h) (h_os h) (h_ex h) lid tok path c
              (arg_str_default h req ''encoding'' ''utf-8'') (t_now t) (a_registry ag) (a_fs ag))
            (\<lambda>_. [(''written'', JBool True)]))"

definition do_change :: "host \<Rightarrow> moment \<Rightarrow> string \<Rightarrow> dict \<Rightarrow> agent \<Rightarrow> dict result \<times> agent" where
  "do_change h t operation req ag =
     (case rbind (arg_str h req ''lane_id'') (\<lambda>lid. rbind (arg_int h req ''fencing_token'') (\<lambda>tok. Inr (lid, tok))) of
        Inl e \<Rightarrow> (Inl e, ag)
      | Inr (lid, tok) \<Rightarrow>
          let env = h_env h; os = h_os h; ex = h_ex h; now = t_now t; reg = a_registry ag; f = a_fs ag;
              encoding = arg_str_default h req ''encoding'' ''utf-8'' in
          if operation = ''fs.append_text'' then
            (case rbind (arg_str h req ''path'') (\<lambda>p. rbind (arg_str h req ''content'') (\<lambda>c. Inr (p, c))) of
               Inl e \<Rightarrow> (Inl e, ag)
             | Inr (p, c) \<Rightarrow> with_fs ag (append_text env os ex lid tok p c encoding now reg f) (\<lambda>_. [(''appended'', JBool True)]))
          else if operation = ''fs.mkdir'' then
            (case arg_str h req ''path'' of
               Inl e \<Rightarrow> (Inl e, ag)
             | Inr p \<Rightarrow> with_fs ag (make_directory env os ex lid tok p (dict_get req ''parents'' (JBool True)) now reg f)
                          (\<lambda>_. [(''created'', JBool True)]))
          else if operation = ''fs.move'' then
            (case rbind (arg_str h req ''source'') (\<lambda>a. rbind (arg_str h req ''destination'') (\<lambda>b. Inr (a, b))) of
               Inl e \<Rightarrow> (Inl e, ag)
             | Inr (a, b) \<Rightarrow> with_fs ag (move_path env os ex lid tok a b now reg f) (\<lambda>_. [(''moved'', JBool True)]))
          else
            (case rbind (arg_str h req ''path'') (\<lambda>p. rbind (arg_str h req ''old_string'') (\<lambda>a.
                    rbind (arg_str h req ''new_string'') (\<lambda>b. Inr (p, a, b)))) of
               Inl e \<Rightarrow> (Inl e, ag)
             | Inr (p, a, b) \<Rightarrow>
                 with_fs ag (replace_text env os ex lid tok p a b (dict_get req ''expected_count'' (JInt 1)) encoding now reg f)
                   (\<lambda>n. [(''replacements'', JInt n)])))"

section \<open>Process operations\<close>

definition argv_of :: "host \<Rightarrow> dict \<Rightarrow> string list result" where
  "argv_of h req =
     (case dict_get req ''argv'' JNull of
        JList vs \<Rightarrow> Inr (map (py_str (h_env h)) vs)
      | _ \<Rightarrow> Inl (Py ValueError))"

definition process_result_json :: "process_result \<Rightarrow> dict" where
  "process_result_json r =
     [(''returncode'', JInt (returncode r)), (''stdout'', JStr (pr_stdout r)), (''stderr'', JStr (pr_stderr r)),
      (''stdout_truncated'', JBool (stdout_truncated r)), (''stderr_truncated'', JBool (stderr_truncated r))]"

definition do_process_exec :: "host \<Rightarrow> moment \<Rightarrow> dict \<Rightarrow> agent \<Rightarrow> dict result \<times> agent" where
  "do_process_exec h t req ag =
     (case rbind (argv_of h req) (\<lambda>argv. rbind (arg_str h req ''lane_id'') (\<lambda>lid.
             rbind (arg_int h req ''fencing_token'') (\<lambda>tok. rbind (arg_str h req ''cwd'') (\<lambda>cwd.
             rbind (py_float (h_env h) (dict_get req ''timeout_s'' (JFloat (Fin 60)))) (\<lambda>to.
               Inr (argv, lid, tok, cwd, to)))))) of
        Inl e \<Rightarrow> (Inl e, ag)
      | Inr (argv, lid, tok, cwd, to) \<Rightarrow>
          with_fs ag (run_process (h_env h) (h_os h) (h_ex h) lid tok argv cwd to (t_now t) (a_registry ag) (a_fs ag))
            process_result_json)"

definition do_process :: "host \<Rightarrow> moment \<Rightarrow> string \<Rightarrow> dict \<Rightarrow> agent \<Rightarrow> dict result \<times> agent" where
  "do_process h t operation req ag =
     (case rbind (arg_str h req ''lane_id'') (\<lambda>lid. rbind (arg_int h req ''fencing_token'') (\<lambda>tok. Inr (lid, tok))) of
        Inl e \<Rightarrow> (Inl e, ag)
      | Inr (lid, tok) \<Rightarrow>
          let env = h_env h; os = h_os h; pe = h_pe h; ex = h_ex h; now = t_now t;
              reg = a_registry ag; pt = a_procs ag in
          if operation = ''process.start'' then
            (case rbind (argv_of h req) (\<lambda>argv. rbind (arg_str h req ''cwd'') (\<lambda>cwd. Inr (argv, cwd))) of
               Inl e \<Rightarrow> (Inl e, ag)
             | Inr (argv, cwd) \<Rightarrow>
                 with_procs ag (process_start env os pe ex lid tok argv cwd
                   (dict_get req ''max_runtime_s'' (JFloat (Fin 900))) now (t_ns t) reg (a_fs ag) pt))
          else if operation = ''process.list'' then
            with_reg ag (process_list env ex lid tok now reg pt) id
          else
            (case arg_str h req ''process_handle'' of
               Inl e \<Rightarrow> (Inl e, ag)
             | Inr ph \<Rightarrow>
                 if operation = ''process.status'' then with_procs ag (process_status env ex lid tok ph now reg pt)
                 else if operation = ''process.output'' then
                   with_procs ag (process_output env os ex lid tok ph (dict_get req ''stdout_offset'' (JInt 0))
                     (dict_get req ''stderr_offset'' (JInt 0)) (dict_get req ''max_bytes'' (JInt 16384)) now reg pt)
                 else if operation = ''process.input'' then
                   (case arg_str h req ''input_text'' of
                      Inl e \<Rightarrow> (Inl e, ag)
                    | Inr s \<Rightarrow> with_procs ag (process_input env os pe ex lid tok ph s
                                 (dict_get req ''append_newline'' (JBool True)) now reg pt))
                 else with_procs ag (process_terminate env pe ex lid tok ph (dict_get req ''grace_s'' (JFloat (Fin 2))) now reg pt)))"

section \<open>Dispatch and handling\<close>

definition dispatch :: "host \<Rightarrow> moment \<Rightarrow> string \<Rightarrow> dict \<Rightarrow> agent \<Rightarrow> dict result \<times> agent" where
  "dispatch h t operation req ag =
     (if operation = ''lane.open'' then do_lane_open h t req ag
      else if operation = ''lane.renew'' then do_lane_renew h t req ag
      else if operation = ''lane.close'' then do_lane_close h t req ag
      else if operation = ''lane.list'' then do_lane_list t ag
      else if operation = ''fs.read_text'' then do_read_text h t req ag
      else if operation = ''fs.read_bytes'' then do_read_bytes h t req ag
      else if operation \<in> set [''fs.stat'', ''fs.list_dir'', ''fs.search'', ''fs.search_content'']
        then do_discover h t operation req ag
      else if operation = ''fs.write_text'' then do_write_text h t req ag
      else if operation \<in> set [''fs.append_text'', ''fs.mkdir'', ''fs.move'', ''fs.replace_text'']
        then do_change h t operation req ag
      else if operation = ''process.exec'' then do_process_exec h t req ag
      else if operation \<in> set [''process.start'', ''process.list'', ''process.status'', ''process.output'',
          ''process.input'', ''process.terminate''] then do_process h t operation req ag
      else (Inl (Py ValueError), ag))"

definition request_digest :: "host \<Rightarrow> dict \<Rightarrow> string" where
  "request_digest h req = sha256_hex (h_env h) (json_dumps (h_env h) (JObj req))"

definition ok_response :: "json \<Rightarrow> dict \<Rightarrow> dict" where
  "ok_response rid result =
     [(''protocol_version'', JStr ''veraport-v1''), (''request_id'', rid), (''ok'', JBool True),
      (''result'', JObj result)]"

definition error_response :: "host \<Rightarrow> json \<Rightarrow> exn \<Rightarrow> dict" where
  "error_response h rid e =
     [(''protocol_version'', JStr ''veraport-v1''), (''request_id'', rid), (''ok'', JBool False),
      (''error'', JObj [(''code'', JStr (exn_code h e)), (''message'', JStr (h_text h e))])]"

definition response_of :: "host \<Rightarrow> json \<Rightarrow> dict result \<Rightarrow> dict" where
  "response_of h rid r = (case r of Inl e \<Rightarrow> error_response h rid e | Inr d \<Rightarrow> ok_response rid d)"

definition replayed :: "dict \<Rightarrow> dict" where
  "replayed d = AList.update ''replay''
     (JObj [(''durable_evidence'', JBool True), (''current_state_not_implied'', JBool True)]) d"

definition durable :: "agent \<Rightarrow> string \<Rightarrow> bool" where
  "durable ag operation \<longleftrightarrow> a_store ag \<noteq> None \<and> operation \<in> set DURABLE_MUTATING_OPERATIONS"

text \<open>A request that passed the checks: admitted through the ledger when it is a durable mutation.\<close>

definition handle_checked :: "host \<Rightarrow> moment \<Rightarrow> string \<Rightarrow> string \<Rightarrow> dict \<Rightarrow> agent \<Rightarrow> dict \<times> agent" where
  "handle_checked h t rid operation req ag =
     (case a_store ag of
        Some st \<Rightarrow>
          if operation \<in> set DURABLE_MUTATING_OPERATIONS then
            let sha = request_digest h req in
            (case begin_request (h_env h) (begin_fault t) rid sha (t_ms t) st of
               (Inl e, st1) \<Rightarrow> (error_response h (JStr rid) e, ag\<lparr>a_store := Some st1\<rparr>)
             | (Inr (REPLAY d), st1) \<Rightarrow> (replayed d, ag\<lparr>a_store := Some st1\<rparr>)
             | (Inr NEW, st1) \<Rightarrow>
                 (case dispatch h t operation req (ag\<lparr>a_store := Some st1\<rparr>) of
                    (r, ag2) \<Rightarrow>
                      let resp = response_of h (JStr rid) r in
                      (case a_store ag2 of
                         None \<Rightarrow> (resp, ag2)
                       | Some st2 \<Rightarrow>
                           (case complete_request (h_env h) (complete_fault t) rid sha resp (t_ms t) st2 of
                              (Inl e, st3) \<Rightarrow> (error_response h (JStr rid) e, ag2\<lparr>a_store := Some st3\<rparr>)
                            | (Inr _, st3) \<Rightarrow> (resp, ag2\<lparr>a_store := Some st3\<rparr>)))))
          else (case dispatch h t operation req ag of (r, ag1) \<Rightarrow> (response_of h (JStr rid) r, ag1))
      | None \<Rightarrow> (case dispatch h t operation req ag of (r, ag1) \<Rightarrow> (response_of h (JStr rid) r, ag1)))"

definition handle_request :: "host \<Rightarrow> moment \<Rightarrow> dict \<Rightarrow> agent \<Rightarrow> dict \<times> agent" where
  "handle_request h t req ag =
     (let rid = dict_get req ''request_id'' JNull in
      if dict_get req ''protocol_version'' JNull \<noteq> JStr ''veraport-v1''
      then (error_response h rid (Py ValueError), ag)
      else case rid of
        JStr r \<Rightarrow>
          if r = [] then (error_response h rid (Py ValueError), ag)
          else (case dict_get req ''operation'' JNull of
             JStr operation \<Rightarrow>
               if operation = [] then (error_response h rid (Py ValueError), ag)
               else handle_checked h t r operation req ag
           | _ \<Rightarrow> (error_response h rid (Py ValueError), ag))
      | _ \<Rightarrow> (error_response h rid (Py ValueError), ag))"

section \<open>Closing\<close>

definition agent_close_all :: "host \<Rightarrow> agent \<Rightarrow> dict result \<times> agent" where
  "agent_close_all h ag =
     (case close_all_processes (h_pe h) (a_procs ag) of
        (Inl e, pt) \<Rightarrow> (Inl e, ag\<lparr>a_procs := pt\<rparr>)
      | (Inr hs, pt) \<Rightarrow> (Inr [(''terminated_process_handles'', JList (map JStr (sort hs))), (''drained'', JBool True)],
                         ag\<lparr>a_procs := pt\<rparr>))"

record close_report =
  cr_closed :: "string list"
  cr_terminated :: "string list"
  cr_unresolved :: "string list"

fun close_lanes :: "host \<Rightarrow> pyfloat \<Rightarrow> lane list \<Rightarrow> agent \<Rightarrow> close_report \<Rightarrow> close_report \<times> agent" where
  "close_lanes h now [] ag rep = (rep, ag)"
| "close_lanes h now (l # ls) ag rep =
     (case close_lane_processes (h_pe h) (lane_id l) (fencing_token l) (a_procs ag) of
        (Inl _, pt) \<Rightarrow> close_lanes h now ls (ag\<lparr>a_procs := pt\<rparr>) (rep\<lparr>cr_unresolved := cr_unresolved rep @ [lane_id l]\<rparr>)
      | (Inr hs, pt) \<Rightarrow>
          let rep1 = rep\<lparr>cr_terminated := cr_terminated rep @ hs\<rparr> in
          (case close (lane_id l) (fencing_token l) now (a_registry ag) of
             (Inl _, reg) \<Rightarrow> close_lanes h now ls (ag\<lparr>a_procs := pt, a_registry := reg\<rparr>)
                               (rep1\<lparr>cr_unresolved := cr_unresolved rep1 @ [lane_id l]\<rparr>)
           | (Inr _, reg) \<Rightarrow> close_lanes h now ls (ag\<lparr>a_procs := pt, a_registry := reg\<rparr>)
                               (rep1\<lparr>cr_closed := cr_closed rep1 @ [lane_id l]\<rparr>)))"

definition close_session :: "host \<Rightarrow> pyfloat \<Rightarrow> string \<Rightarrow> agent \<Rightarrow> dict \<times> agent" where
  "close_session h now sid ag =
     (case snapshot now (a_registry ag) of (ls, reg) \<Rightarrow>
        case close_lanes h now (filter (\<lambda>l. prefix (sid @ ''::'') (lane_id l)) ls) (ag\<lparr>a_registry := reg\<rparr>)
               \<lparr>cr_closed = [], cr_terminated = [], cr_unresolved = []\<rparr> of
          (rep, ag') \<Rightarrow>
            ([(''session_id'', JStr sid), (''closed_lanes'', JList (map JStr (sort (cr_closed rep)))),
              (''terminated_process_handles'', JList (map JStr (sort (cr_terminated rep)))),
              (''unresolved_lanes'', JList (map JStr (sort (cr_unresolved rep)))),
              (''drained'', JBool (cr_unresolved rep = []))], ag'))"

end
