(* ===== verification/Agent_Properties.thy ===== *)
theory Agent_Properties
  imports Agent "HOL-Library.Countable"
begin

text \<open>
  What the dispatcher of \<open>Agent\<close> guarantees: the shape of its responses, at-most-once execution of
  durable mutations, exact replay, reads without effects, file changes under authority, and the
  closing of a session.
\<close>

section \<open>Frames\<close>

lemma with_simps [simp]:
  "a_store (snd (with_reg ag p k)) = a_store ag" "a_store (snd (with_fs ag q k')) = a_store ag"
  "a_store (snd (with_procs ag u)) = a_store ag" "a_fs (snd (with_reg ag p k)) = a_fs ag"
  "a_fs (snd (with_procs ag u)) = a_fs ag" "a_procs (snd (with_reg ag p k)) = a_procs ag"
  "a_procs (snd (with_fs ag q k')) = a_procs ag"
  "a_fs (snd (with_fs ag q k')) = snd (snd q)" "a_procs (snd (with_procs ag u)) = snd (snd u)"
  "a_registry (snd (with_reg ag p k)) = snd p" "a_registry (snd (with_fs ag q k')) = fst (snd q)"
  "a_registry (snd (with_procs ag u)) = fst (snd u)"
  by (simp_all add: with_reg_def with_fs_def with_procs_def split: prod.split)

lemma store_frames [simp]:
  "a_store (snd (do_lane_renew h t req ag)) = a_store ag"
  "a_store (snd (do_lane_close h t req ag)) = a_store ag"
  "a_store (snd (do_lane_list t ag)) = a_store ag"
  "a_store (snd (do_read_text h t req ag)) = a_store ag"
  "a_store (snd (do_read_bytes h t req ag)) = a_store ag"
  "a_store (snd (do_write_text h t req ag)) = a_store ag"
  "a_store (snd (do_process_exec h t req ag)) = a_store ag"
  by (simp_all add: do_lane_renew_def do_lane_close_def do_lane_list_def do_read_text_def do_read_bytes_def
      do_write_text_def do_process_exec_def Let_def split: sum.split prod.split option.split)

lemma store_frames_by_name [simp]:
  "a_store (snd (do_discover h t op req ag)) = a_store ag"
  "a_store (snd (do_change h t op req ag)) = a_store ag"
  "a_store (snd (do_process h t op req ag)) = a_store ag"
  by (simp_all add: do_discover_def do_change_def do_process_def Let_def split: sum.split prod.split option.split)

lemma open_lane_store:
  assumes "open_lane env (Some (next_fence ff)) lid tid caps cs ttl now reg st = (r, reg', st')"
  shows "requests st' = requests st \<and> max_mutation_requests st' = max_mutation_requests st"
proof -
  have nf: "requests (snd (next_fence ff st)) = requests st"
    "max_mutation_requests (snd (next_fence ff st)) = max_mutation_requests st"
    by (simp_all add: next_fence_def Let_def)
  have tf: "snd (snd (take_fence (Some (next_fence ff)) g st)) = snd (next_fence ff st)" for g
    by (simp add: take_fence_def split: prod.split sum.split)
  have "st' = st \<or> st' = snd (next_fence ff st)"
    using assms tf by (auto simp: open_lane_def Let_def split: if_splits sum.splits prod.splits) (metis snd_conv)+
  then show ?thesis using nf by auto
qed

definition same_ledger :: "state_store option \<Rightarrow> state_store option \<Rightarrow> bool" where
  "same_ledger s s' \<longleftrightarrow> rel_option (\<lambda>a b. requests b = requests a \<and> max_mutation_requests b = max_mutation_requests a) s s'"

lemma same_ledger_refl [simp]: "same_ledger s s"
  by (cases s) (simp_all add: same_ledger_def)

lemma agent_open_ledger: "same_ledger (a_store ag) (a_store (snd (agent_open_lane h t lid tid caps cs ttl ag)))"
proof (cases "a_store ag")
  case None
  then show ?thesis by (simp add: agent_open_lane_def same_ledger_def split: prod.split)
next
  case (Some st)
  obtain r reg st' where o: "open_lane (h_env h) (Some (next_fence (fence_fault t))) lid tid caps cs ttl (t_now t) (a_registry ag) st
      = (r, reg, st')" by (cases "open_lane (h_env h) (Some (next_fence (fence_fault t))) lid tid caps cs ttl (t_now t) (a_registry ag) st")
  then show ?thesis using open_lane_store [OF o] Some by (simp add: agent_open_lane_def same_ledger_def)
qed

lemma lane_open_ledger: "same_ledger (a_store ag) (a_store (snd (do_lane_open h t req ag)))"
proof -
  have *: "agent_open_lane h t lid tid caps cs ttl ag = (r, ag') \<Longrightarrow> same_ledger (a_store ag) (a_store ag')"
    for lid tid caps cs ttl r ag'
    using agent_open_ledger [of ag h t lid tid caps cs ttl] by simp
  show ?thesis unfolding do_lane_open_def by (auto split: sum.split prod.split dest: *)
qed

lemma dispatch_ledger: "same_ledger (a_store ag) (a_store (snd (dispatch h t op req ag)))"
  using lane_open_ledger [of ag h t req] by (simp add: dispatch_def)

section \<open>Operations that only read\<close>

lemma read_text_fs [simp]: "snd (snd (read_text env os ex lid tok path enc now reg f)) = f"
  by (simp add: read_text_def guarded_def split: sum.split prod.split)

lemma read_bytes_fs [simp]: "snd (snd (read_bytes_range env os ex lid tok path off m e now reg f)) = f"
  by (simp add: read_bytes_range_def guarded_def split: sum.split prod.split option.split)

lemma on_process_reads:
  assumes "\<And>m. snd (act m) = pt"
  shows "snd (snd (on_process env lid tok h cap mode now reg pt act)) = pt"
  using assms by (auto simp: on_process_def split: sum.split prod.split) (metis snd_conv)

lemma process_reads [simp]:
  "snd (snd (process_status env ex lid tok ph now reg pt)) = pt"
  "snd (snd (process_output env os ex lid tok ph o1 o2 mb now reg pt)) = pt"
  by (simp_all add: process_status_def process_output_def on_process_reads split: option.split)

definition same_effects :: "agent \<Rightarrow> agent \<Rightarrow> bool" where
  "same_effects ag ag' \<longleftrightarrow> a_fs ag' = a_fs ag \<and> a_procs ag' = a_procs ag \<and> a_store ag' = a_store ag"

lemma discover_reads: "same_effects ag (snd (do_discover h t op req ag))"
  by (simp add: same_effects_def do_discover_def Let_def split: sum.split prod.split option.split)

lemma read_text_reads: "same_effects ag (snd (do_read_text h t req ag))"
  by (simp add: same_effects_def do_read_text_def Let_def split: sum.split prod.split option.split)

lemma read_bytes_reads: "same_effects ag (snd (do_read_bytes h t req ag))"
  by (simp add: same_effects_def do_read_bytes_def Let_def split: sum.split prod.split option.split)

lemma lane_list_reads: "same_effects ag (snd (do_lane_list t ag))"
  by (simp add: same_effects_def do_lane_list_def split: prod.split)

lemma process_view_reads:
  "op \<in> {''process.list'', ''process.status'', ''process.output''} \<Longrightarrow> same_effects ag (snd (do_process h t op req ag))"
  by (auto simp: same_effects_def do_process_def Let_def split: sum.split prod.split option.split)

lemma dispatch_reads:
  assumes "op \<notin> set DURABLE_MUTATING_OPERATIONS"
  shows "same_effects ag (snd (dispatch h t op req ag))"
proof -
  have "same_effects ag ag" by (simp add: same_effects_def)
  then show ?thesis
    using assms unfolding dispatch_def DURABLE_MUTATING_OPERATIONS_def
    by (simp add: lane_list_reads read_text_reads read_bytes_reads discover_reads process_view_reads)
qed

section \<open>Histories of requests\<close>

definition valid_request :: "dict \<Rightarrow> (string \<times> string) option" where
  "valid_request req =
     (if dict_get req ''protocol_version'' JNull \<noteq> JStr ''veraport-v1'' then None
      else case (dict_get req ''request_id'' JNull, dict_get req ''operation'' JNull) of
        (JStr rid, JStr op) \<Rightarrow> if rid = [] \<or> op = [] then None else Some (rid, op)
      | _ \<Rightarrow> None)"

lemma handle_request_eq:
  "handle_request h t req ag =
     (case valid_request req of
        Some (rid, op) \<Rightarrow> handle_checked h t rid op req ag
      | None \<Rightarrow> (error_response h (dict_get req ''request_id'' JNull) (Py ValueError), ag))"
  by (simp add: handle_request_def valid_request_def Let_def split: json.split)

fun agent_run :: "host \<Rightarrow> (moment \<times> dict) list \<Rightarrow> agent \<Rightarrow> agent" where
  "agent_run h [] ag = ag"
| "agent_run h ((t, req) # xs) ag = agent_run h xs (snd (handle_request h t req ag))"

text \<open>Handling the request dispatches a durable mutation under the request id.\<close>

definition executes :: "host \<Rightarrow> moment \<Rightarrow> dict \<Rightarrow> agent \<Rightarrow> string \<Rightarrow> bool" where
  "executes h t req ag rid =
     (case (valid_request req, a_store ag) of
        (Some (r, op), Some st) \<Rightarrow> r = rid \<and> op \<in> set DURABLE_MUTATING_OPERATIONS \<and>
           fst (begin_request (h_env h) (begin_fault t) r (request_digest h req) (t_ms t) st) = Inr NEW
      | _ \<Rightarrow> False)"

fun executions :: "host \<Rightarrow> (moment \<times> dict) list \<Rightarrow> agent \<Rightarrow> string \<Rightarrow> nat" where
  "executions h [] ag rid = 0"
| "executions h ((t, req) # xs) ag rid =
     (if executes h t req ag rid then 1 else 0) + executions h xs (snd (handle_request h t req ag)) rid"

text \<open>Once recorded, the row of a request id never changes again.\<close>

definition rows_kept :: "state_store \<Rightarrow> state_store \<Rightarrow> bool" where
  "rows_kept st st' \<longleftrightarrow> map_of (requests st) \<subseteq>\<^sub>m map_of (requests st')"

lemma rows_kept_refl [simp]: "rows_kept st st"
  by (simp add: rows_kept_def)

lemma rows_kept_trans: "rows_kept a b \<Longrightarrow> rows_kept b c \<Longrightarrow> rows_kept a c"
  unfolding rows_kept_def by (rule map_le_trans)

lemma rows_keptD: "rows_kept st st' \<Longrightarrow> map_of (requests st) rid = Some row \<Longrightarrow> map_of (requests st') rid = Some row"
  unfolding rows_kept_def map_le_def by (metis domI)

lemma begin_not_new: "begin_request env f rid sha now st = (r, st') \<Longrightarrow> r \<noteq> Inr NEW \<Longrightarrow> st' = st"
  by (auto simp: begin_request_def split: if_splits option.splits sum.splits json.splits)

lemma begin_new:
  assumes "begin_request env f rid sha now st = (Inr NEW, st')"
  shows "map_of (requests st) rid = None"
    "\<exists>row. map_of (requests st') = (map_of (requests st))(rid \<mapsto> row) \<and> request_sha256 row = sha \<and> status row = PENDING"
  using assms by (auto simp: begin_request_def dict_simps split: if_splits option.splits sum.splits json.splits)

lemma complete_other:
  "complete_request env f rid sha resp now st = (r, st') \<Longrightarrow> k \<noteq> rid \<Longrightarrow> map_of (requests st') k = map_of (requests st) k"
  by (auto simp: complete_request_def dict_simps Let_def split: if_splits option.splits)

lemma execution_keeps_rows:
  assumes "begin_request env f rid sha now st = (Inr NEW, st1)" "requests st2 = requests st1"
    and "complete_request env f' rid sha resp now' st2 = (c, st3)"
  shows "rows_kept st st3"
proof -
  note n = begin_new [OF assms(1)]
  have "map_of (requests st3) k = map_of (requests st) k" if "k \<noteq> rid" for k
    using complete_other [OF assms(3) that] n(2) assms(2) that by auto
  then show ?thesis using n(1) unfolding rows_kept_def map_le_def by (metis domIff)
qed

lemma same_ledger_rows:
  assumes "same_ledger (Some st) s'"
  obtains st' where "s' = Some st'" "rows_kept st st'" "requests st' = requests st"
  using assms by (cases s') (auto simp: same_ledger_def rows_kept_def)

text \<open>The ways a checked request can go on an agent with a store.\<close>

lemma handle_checked_cases:
  assumes st: "a_store ag = Some st"
  obtains (reading) "op \<notin> set DURABLE_MUTATING_OPERATIONS"
      "handle_checked h t rid op req ag
        = (response_of h (JStr rid) (fst (dispatch h t op req ag)), snd (dispatch h t op req ag))"
  | (refused) e st1 where "op \<in> set DURABLE_MUTATING_OPERATIONS"
      "begin_request (h_env h) (begin_fault t) rid (request_digest h req) (t_ms t) st = (Inl e, st1)"
      "handle_checked h t rid op req ag = (error_response h (JStr rid) e, ag\<lparr>a_store := Some st1\<rparr>)"
  | (replaying) d st1 where "op \<in> set DURABLE_MUTATING_OPERATIONS"
      "begin_request (h_env h) (begin_fault t) rid (request_digest h req) (t_ms t) st = (Inr (REPLAY d), st1)"
      "handle_checked h t rid op req ag = (replayed d, ag\<lparr>a_store := Some st1\<rparr>)"
  | (executing) st1 r ag2 st2 c st3 where "op \<in> set DURABLE_MUTATING_OPERATIONS"
      "begin_request (h_env h) (begin_fault t) rid (request_digest h req) (t_ms t) st = (Inr NEW, st1)"
      "dispatch h t op req (ag\<lparr>a_store := Some st1\<rparr>) = (r, ag2)" "a_store ag2 = Some st2"
      "requests st2 = requests st1"
      "complete_request (h_env h) (complete_fault t) rid (request_digest h req) (response_of h (JStr rid) r) (t_ms t) st2 = (c, st3)"
      "handle_checked h t rid op req ag =
         (case c of Inl e \<Rightarrow> error_response h (JStr rid) e | Inr _ \<Rightarrow> response_of h (JStr rid) r, ag2\<lparr>a_store := Some st3\<rparr>)"
proof (cases "op \<in> set DURABLE_MUTATING_OPERATIONS")
  case False
  then show ?thesis using reading st by (simp add: handle_checked_def split: prod.split)
next
  case dur: True
  obtain b st1 where b: "begin_request (h_env h) (begin_fault t) rid (request_digest h req) (t_ms t) st = (b, st1)" by fastforce
  show ?thesis
  proof (cases b)
    case (Inl e)
    then show ?thesis using refused [of e st1] dur st b by (simp add: handle_checked_def Let_def)
  next
    case (Inr q)
    show ?thesis
    proof (cases q)
      case (REPLAY d)
      then show ?thesis using replaying [of d st1] dur st b Inr by (simp add: handle_checked_def Let_def)
    next
      case NEW
      obtain r ag2 where d: "dispatch h t op req (ag\<lparr>a_store := Some st1\<rparr>) = (r, ag2)" by fastforce
      have "same_ledger (Some st1) (a_store ag2)"
        using dispatch_ledger [of "ag\<lparr>a_store := Some st1\<rparr>" h t op req] d by simp
      then obtain st2 where s2: "a_store ag2 = Some st2" "requests st2 = requests st1" by (rule same_ledger_rows)
      obtain c st3 where c: "complete_request (h_env h) (complete_fault t) rid (request_digest h req) (response_of h (JStr rid) r) (t_ms t) st2 = (c, st3)"
        by fastforce
      have "handle_checked h t rid op req ag =
         (case c of Inl e \<Rightarrow> error_response h (JStr rid) e | Inr _ \<Rightarrow> response_of h (JStr rid) r, ag2\<lparr>a_store := Some st3\<rparr>)"
        using dur st b Inr NEW d s2 c by (simp add: handle_checked_def Let_def split: sum.split)
      then show ?thesis using executing [OF dur _ d s2 c] b Inr NEW by simp
    qed
  qed
qed

lemma handle_rows_kept:
  assumes st: "a_store ag = Some st"
  obtains st' where "a_store (snd (handle_request h t req ag)) = Some st'" "rows_kept st st'"
proof (cases "valid_request req")
  case None
  then show ?thesis using that st by (simp add: handle_request_eq)
next
  case (Some q)
  obtain rid op where q: "q = (rid, op)" by fastforce
  have eq: "handle_request h t req ag = handle_checked h t rid op req ag"
    using Some q by (simp add: handle_request_eq)
  from st show ?thesis
  proof (cases rule: handle_checked_cases [where h = h and t = t and rid = rid and op = op and req = req])
    case reading
    then show ?thesis using that st same_ledger_rows dispatch_ledger [of ag h t op req] eq by (metis snd_conv)
  next
    case (refused e st1)
    then show ?thesis using that eq begin_not_new by fastforce
  next
    case (replaying d st1)
    then show ?thesis using that eq begin_not_new by fastforce
  next
    case (executing st1 r ag2 st2 c st3)
    have "rows_kept st st3" by (rule execution_keeps_rows [OF executing(2,5,6)])
    then show ?thesis using that eq executing(7) by simp
  qed
qed

lemma agent_run_rows_kept:
  assumes "a_store ag = Some st"
  obtains st' where "a_store (agent_run h xs ag) = Some st'" "rows_kept st st'"
  using assms
proof (induction xs arbitrary: ag st thesis)
  case Nil
  then show ?case by simp
next
  case (Cons x xs)
  obtain t req where x: "x = (t, req)" by fastforce
  obtain st1 where "a_store (snd (handle_request h t req ag)) = Some st1" "rows_kept st st1"
    using handle_rows_kept [OF Cons.prems(2)] .
  then show ?case using Cons.IH [of "snd (handle_request h t req ag)" st1] Cons.prems(1) rows_kept_trans x
    by (metis agent_run.simps(2))
qed

text \<open>Executing leaves a row with the request's digest, complete unless the database failed.\<close>

lemma executes_row:
  assumes ex: "executes h t req ag rid"
  obtains st' row where "a_store (snd (handle_request h t req ag)) = Some st'"
    "map_of (requests st') rid = Some row" "request_sha256 row = request_digest h req"
    "status row = (if complete_fault t then PENDING else COMPLETED)"
    "\<not> complete_fault t \<Longrightarrow> response_json row = Some (json_dumps (h_env h) (JObj (fst (handle_request h t req ag))))"
proof -
  obtain op st where v: "valid_request req = Some (rid, op)" and st: "a_store ag = Some st"
    and dur: "op \<in> set DURABLE_MUTATING_OPERATIONS"
    and new: "fst (begin_request (h_env h) (begin_fault t) rid (request_digest h req) (t_ms t) st) = Inr NEW"
    using ex by (auto simp: executes_def split: option.splits)
  have eq: "handle_request h t req ag = handle_checked h t rid op req ag"
    using v by (simp add: handle_request_eq)
  from st show ?thesis
  proof (cases rule: handle_checked_cases [where h = h and t = t and rid = rid and op = op and req = req])
    case (executing st1 r ag2 st2 c st3)
    obtain row where row: "map_of (requests st2) rid = Some row" "request_sha256 row = request_digest h req" "status row = PENDING"
      using executing(2,5) new by (auto simp: begin_request_def dict_simps split: if_splits option.splits sum.splits json.splits)
    show ?thesis
    proof (cases "complete_fault t")
      case True
      then show ?thesis using executing(6) row that [of st3 row] eq executing(7)
        by (auto simp: complete_request_def Let_def)
    next
      case False
      then show ?thesis using executing(6) row that eq executing(7)
        by (auto simp: complete_request_def Let_def dict_simps)
    qed
  qed (use dur new in auto)
qed

lemma known_not_executed:
  assumes "a_store ag = Some st" "map_of (requests st) rid \<noteq> None"
  shows "\<not> executes h t req ag rid"
  using assms by (auto simp: executes_def begin_NEW_iff split: option.splits)

lemma known_no_executions:
  assumes "a_store ag = Some st" "map_of (requests st) rid \<noteq> None"
  shows "executions h xs ag rid = 0"
  using assms
proof (induction xs arbitrary: ag st)
  case (Cons x xs)
  obtain t req where x: "x = (t, req)" by fastforce
  obtain st1 where "a_store (snd (handle_request h t req ag)) = Some st1" "rows_kept st st1"
    using handle_rows_kept [OF Cons.prems(1)] .
  then show ?case using Cons.IH [of "snd (handle_request h t req ag)" st1] known_not_executed [OF Cons.prems] Cons.prems(2) x
    by (auto dest: rows_keptD)
qed simp

lemma executions_le_1:
  assumes "a_store ag = Some st"
  shows "executions h xs ag rid \<le> 1"
  using assms
proof (induction xs arbitrary: ag st)
  case (Cons x xs)
  obtain t req where x: "x = (t, req)" by fastforce
  show ?case
  proof (cases "executes h t req ag rid")
    case True
    then obtain st' row where "a_store (snd (handle_request h t req ag)) = Some st'"
      "map_of (requests st') rid = Some row" by (rule executes_row)
    then show ?thesis using known_no_executions x True by simp
  next
    case False
    obtain st1 where "a_store (snd (handle_request h t req ag)) = Some st1"
      using handle_rows_kept [OF Cons.prems] .
    then show ?thesis using Cons.IH x False by simp
  qed
qed simp

section \<open>Responses\<close>

definition wf_response :: "json \<Rightarrow> dict \<Rightarrow> bool" where
  "wf_response rid d \<longleftrightarrow> map_of d ''protocol_version'' = Some (JStr ''veraport-v1'') \<and> map_of d ''request_id'' = Some rid
     \<and> ((map_of d ''ok'' = Some (JBool True) \<and> map_of d ''error'' = None \<and> (\<exists>r. map_of d ''result'' = Some (JObj r)))
        \<or> (map_of d ''ok'' = Some (JBool False) \<and> map_of d ''result'' = None
           \<and> (\<exists>e c. map_of d ''error'' = Some (JObj e) \<and> map_of e ''code'' = Some (JStr c))))"

lemma wf_error_response: "wf_response rid (error_response h rid e)"
  by (simp add: wf_response_def error_response_def)

lemma wf_response_of: "wf_response rid (response_of h rid r)"
  by (cases r) (simp_all add: response_of_def wf_error_response, simp add: wf_response_def ok_response_def)

lemma map_of_sorted:
  assumes "distinct (map fst d)"
  shows "map_of (sort_key fst (map (\<lambda>(k, v). (k, g v)) d)) = map_option g \<circ> map_of d"
proof -
  have "distinct (map fst (sort_key fst (map (\<lambda>(k, v). (k, g v)) d)))" "distinct (map fst (map (\<lambda>(k, v). (k, g v)) d))"
    using assms by (auto simp: distinct_map case_prod_unfold comp_def inj_on_def)
  then have "map_of (sort_key fst (map (\<lambda>(k, v). (k, g v)) d)) = map_of (map (\<lambda>(k, v). (k, g v)) d)"
    by (subst map_of_inject_set) auto
  also have "\<dots> = map_option g \<circ> map_of d" by (simp add: map_of_map)
  finally show ?thesis .
qed

lemma wf_sorted_response:
  assumes "d = sort_key fst (map (\<lambda>(k, v). (k, json_sorted v)) (response_of h (JStr rid) r))"
  shows "wf_response (JStr rid) (replayed d)"
proof -
  have "distinct (map fst (response_of h (JStr rid) r))"
    by (cases r) (simp_all add: response_of_def error_response_def ok_response_def)
  then have m: "map_of d = map_option json_sorted \<circ> map_of (response_of h (JStr rid) r)"
    using map_of_sorted assms by blast
  have "map_of (sort_key fst (map (\<lambda>(k, v). (k, json_sorted v)) [(''code'', a), (''message'', b)])) ''code'' = Some (json_sorted a)"
    for a b by (subst map_of_sorted) simp_all
  then show ?thesis using m
    by (cases r) (simp_all add: wf_response_def replayed_def dict_simps response_of_def error_response_def ok_response_def)
qed

text \<open>Every completed row holds the text of a response to its own request id.\<close>

definition ledger_responses :: "host \<Rightarrow> state_store \<Rightarrow> bool" where
  "ledger_responses h st \<longleftrightarrow> (\<forall>rid row. map_of (requests st) rid = Some row \<longrightarrow> status row = COMPLETED \<longrightarrow>
     (\<exists>r. response_json row = Some (json_dumps (h_env h) (JObj (response_of h (JStr rid) r)))))"

definition agent_inv :: "host \<Rightarrow> agent \<Rightarrow> bool" where
  "agent_inv h ag \<longleftrightarrow> (case a_store ag of None \<Rightarrow> True | Some st \<Rightarrow> ledger_responses h st)"

lemma ledger_responses_cong: "requests st' = requests st \<Longrightarrow> ledger_responses h st' = ledger_responses h st"
  by (simp add: ledger_responses_def)

lemma ledger_responses_begin:
  assumes "ledger_responses h st" "begin_request env f rid sha now st = (Inr NEW, st')"
  shows "ledger_responses h st'"
proof -
  obtain row where "map_of (requests st') = (map_of (requests st))(rid \<mapsto> row)" "status row = PENDING"
    using begin_new(2) [OF assms(2)] by blast
  then show ?thesis using assms(1) by (auto simp: ledger_responses_def split: if_splits)
qed

lemma ledger_responses_complete:
  assumes "ledger_responses h st"
    and "complete_request (h_env h) f rid sha (response_of h (JStr rid) r) now st = (c, st')"
  shows "ledger_responses h st'"
proof -
  have "st' = st \<or> (\<exists>row. map_of (requests st') = (map_of (requests st))(rid \<mapsto> row)
      \<and> response_json row = Some (json_dumps (h_env h) (JObj (response_of h (JStr rid) r))))"
    using assms(2) by (auto simp: complete_request_def dict_simps Let_def split: if_splits option.splits)
  then show ?thesis using assms(1) by (auto simp: ledger_responses_def split: if_splits)
qed

lemma handle_inv:
  assumes inv: "agent_inv h ag"
  shows "agent_inv h (snd (handle_request h t req ag))"
proof (cases "valid_request req")
  case None
  then show ?thesis using inv by (simp add: handle_request_eq)
next
  case (Some q)
  obtain rid op where q: "q = (rid, op)" by fastforce
  have eq: "handle_request h t req ag = handle_checked h t rid op req ag"
    using Some q by (simp add: handle_request_eq)
  show ?thesis
  proof (cases "a_store ag")
    case None
    then show ?thesis using dispatch_ledger [of ag h t op req] eq
      by (auto simp: handle_checked_def agent_inv_def same_ledger_def split: prod.split)
  next
    case (Some st)
    then have lr: "ledger_responses h st" using inv by (simp add: agent_inv_def)
    from Some show ?thesis
    proof (cases rule: handle_checked_cases [where h = h and t = t and rid = rid and op = op and req = req])
      case reading
      obtain st' where "a_store (snd (dispatch h t op req ag)) = Some st'" "requests st' = requests st"
        using dispatch_ledger [of ag h t op req] Some same_ledger_rows by metis
      then show ?thesis using lr reading(2) eq ledger_responses_cong [of st' st] by (simp add: agent_inv_def)
    next
      case (refused e st1)
      then show ?thesis using lr eq begin_not_new [OF refused(2)] by (simp add: agent_inv_def)
    next
      case (replaying d st1)
      then show ?thesis using lr eq begin_not_new [OF replaying(2)] by (simp add: agent_inv_def)
    next
      case (executing st1 r ag2 st2 c st3)
      have "ledger_responses h st2"
        using ledger_responses_begin [OF lr executing(2)] ledger_responses_cong [OF executing(5)] by simp
      then show ?thesis using ledger_responses_complete executing(6,7) eq by (simp add: agent_inv_def)
    qed
  qed
qed

lemma agent_run_inv: "agent_inv h ag \<Longrightarrow> agent_inv h (agent_run h xs ag)"
  by (induction h xs ag rule: agent_run.induct) (simp_all add: handle_inv)

lemma handle_wf:
  assumes inv: "agent_inv h ag" and json: "\<And>v. json_loads (h_env h) (json_dumps (h_env h) v) = Inr (json_sorted v)"
  shows "wf_response (dict_get req ''request_id'' JNull) (fst (handle_request h t req ag))"
proof (cases "valid_request req")
  case None
  then show ?thesis using wf_error_response by (simp add: handle_request_eq)
next
  case (Some q)
  obtain rid op where q: "q = (rid, op)" by fastforce
  have eq: "handle_request h t req ag = handle_checked h t rid op req ag"
    and rid: "dict_get req ''request_id'' JNull = JStr rid"
    using Some q by (auto simp: handle_request_eq valid_request_def split: if_splits json.splits)
  show ?thesis
  proof (cases "a_store ag")
    case None
    then show ?thesis using eq rid wf_response_of by (simp add: handle_checked_def split: prod.split)
  next
    case (Some st)
    from Some show ?thesis
    proof (cases rule: handle_checked_cases [where h = h and t = t and rid = rid and op = op and req = req])
      case (replaying d st1)
      obtain row s where row: "map_of (requests st) rid = Some row" "status row = COMPLETED" "response_json row = Some s"
        "json_loads (h_env h) s = Inr (JObj d)"
        using replaying(2) by (auto simp: begin_request_def split: if_splits option.splits sum.splits json.splits)
      have "ledger_responses h st" using inv Some by (simp add: agent_inv_def)
      then obtain r where "s = json_dumps (h_env h) (JObj (response_of h (JStr rid) r))"
        using row(1-3) unfolding ledger_responses_def by (metis option.inject)
      then have "d = sort_key fst (map (\<lambda>(k, v). (k, json_sorted v)) (response_of h (JStr rid) r))"
        using row(4) json by simp
      then show ?thesis using wf_sorted_response replaying(3) eq rid by simp
    next
      case (executing st1 r ag2 st2 c st3)
      then show ?thesis using eq rid wf_response_of wf_error_response by (simp split: sum.split)
    qed (use eq rid wf_response_of wf_error_response in simp_all)
  qed
qed

section \<open>Files and processes behind the dispatcher\<close>

definition dispatch_authorized :: "host \<Rightarrow> moment \<Rightarrow> dict \<Rightarrow> agent \<Rightarrow> agent \<Rightarrow> bool" where
  "dispatch_authorized h t req ag ag' \<longleftrightarrow> (\<exists>lid tok fr. arg_str h req ''lane_id'' = Inr lid
     \<and> arg_int h req ''fencing_token'' = Inr tok
     \<and> authorized_change (h_env h) (h_os h) (h_ex h) lid tok fr (t_now t) (a_registry ag) (a_fs ag) (a_fs ag'))"

lemma rbind_simps [simp]: "rbind (Inr x) k = k x" "rbind (Inl e) k = Inl e"
  by (simp_all add: rbind_def)

lemma rbind_Inr: "rbind r k = Inr y \<longleftrightarrow> (\<exists>x. r = Inr x \<and> k x = Inr y)"
  by (cases r) auto

lemma dispatch_authorizedI:
  assumes "arg_str h req ''lane_id'' = Inr lid" "arg_int h req ''fencing_token'' = Inr tok"
    and "authorized_change (h_env h) (h_os h) (h_ex h) lid tok fr (t_now t) (a_registry ag) (a_fs ag) (snd (snd p))"
  shows "dispatch_authorized h t req ag (snd (with_fs ag p k))"
  using assms unfolding dispatch_authorized_def by auto

lemma write_text_dispatch:
  assumes "fs_wf (a_fs ag)" "tmp_fresh (h_os h)" "a_fs (snd (do_write_text h t req ag)) \<noteq> a_fs ag"
  shows "dispatch_authorized h t req ag (snd (do_write_text h t req ag))"
proof -
  have W: "authorized_change (h_env h) (h_os h) (h_ex h) lid tok (WriteText p c enc) (t_now t) (a_registry ag) (a_fs ag)
      (snd (snd (write_text (h_env h) (h_os h) (h_ex h) lid tok p c enc (t_now t) (a_registry ag) (a_fs ag))))" for lid tok p c enc
    using write_authorized [OF assms(1,2)] by (metis prod.collapse)
  obtain x where "rbind (arg_str h req ''lane_id'') (\<lambda>lid. rbind (arg_int h req ''fencing_token'') (\<lambda>tok.
      rbind (arg_str h req ''path'') (\<lambda>path. rbind (arg_str h req ''content'') (\<lambda>c. Inr (lid, tok, path, c))))) = Inr x"
    using assms(3) by (auto simp: do_write_text_def split: sum.splits)
  then show ?thesis unfolding do_write_text_def by (auto simp: rbind_Inr intro!: dispatch_authorizedI W)
qed

lemma change_dispatch:
  assumes "fs_wf (a_fs ag)" "tmp_fresh (h_os h)" "a_fs (snd (do_change h t op req ag)) \<noteq> a_fs ag"
  shows "dispatch_authorized h t req ag (snd (do_change h t op req ag))"
proof -
  let ?e = "h_env h" and ?o = "h_os h" and ?x = "h_ex h" and ?n = "t_now t" and ?r = "a_registry ag" and ?f = "a_fs ag"
  have A: "authorized_change ?e ?o ?x lid tok (AppendText p c enc) ?n ?r ?f (snd (snd (append_text ?e ?o ?x lid tok p c enc ?n ?r ?f)))"
    and B: "authorized_change ?e ?o ?x lid tok (MakeDirectory p b) ?n ?r ?f (snd (snd (make_directory ?e ?o ?x lid tok p b ?n ?r ?f)))"
    and C: "authorized_change ?e ?o ?x lid tok (MovePath p q) ?n ?r ?f (snd (snd (move_path ?e ?o ?x lid tok p q ?n ?r ?f)))"
    and D: "authorized_change ?e ?o ?x lid tok (ReplaceText p y z n enc) ?n ?r ?f
      (snd (snd (replace_text ?e ?o ?x lid tok p y z n enc ?n ?r ?f)))" for lid tok p c enc b q y z n
    using append_authorized [OF assms(1)] mkdir_authorized [OF assms(1)] move_authorized [OF assms(1)]
      replace_authorized [OF assms(1,2)] by (metis prod.collapse)+
  obtain lid tok where a: "arg_str h req ''lane_id'' = Inr lid" "arg_int h req ''fencing_token'' = Inr tok"
    using assms(3) by (auto simp: do_change_def rbind_Inr split: sum.splits prod.splits)
  show ?thesis using assms(3) a unfolding do_change_def Let_def
    by (auto simp: rbind_Inr split: sum.splits if_splits intro!: dispatch_authorizedI [OF a] A B C D)
qed

section \<open>Closing a session\<close>

text \<open>A table after some processes were ended.\<close>

definition only_ended :: "ptable \<Rightarrow> ptable \<Rightarrow> bool" where
  "only_ended pt pt' \<longleftrightarrow> kept pt pt' \<and>
     (\<forall>h m m'. map_of pt h = Some m \<longrightarrow> map_of pt' h = Some m' \<longrightarrow> \<not> running m \<longrightarrow> \<not> running m')"

lemma only_endedD:
  "only_ended pt pt' \<Longrightarrow> kept pt pt'"
  "only_ended pt pt' \<Longrightarrow> map_of pt h = Some m \<Longrightarrow> map_of pt' h = Some m' \<Longrightarrow> \<not> running m \<Longrightarrow> \<not> running m'"
  by (simp_all add: only_ended_def)

lemma close_lane_Inr:
  assumes "table_ok pt" "close_lane_processes pe lid tok pt = (Inr hs, pt')"
  shows "kept pt pt'" "map_of pt h = Some m \<Longrightarrow> \<not> owned_by m lid tok \<Longrightarrow> map_of pt' h = Some m"
    "map_of pt h = Some m \<Longrightarrow> owned_by m lid tok \<Longrightarrow> \<exists>m'. map_of pt' h = Some m' \<and> \<not> running m'"
  using close_lane_spec [OF assms] by simp_all

lemma only_ended_refl: "table_ok pt \<Longrightarrow> only_ended pt pt"
  by (simp add: only_ended_def kept_refl)

lemma keptE:
  assumes "kept pt pt'" "map_of pt h = Some m"
  obtains m' where "map_of pt' h = Some m'" "same_output m m'"
proof -
  have "h \<in> dom (map_of pt')" using assms by (auto simp: kept_def)
  then obtain m' where m': "map_of pt' h = Some m'" by blast
  have "\<forall>m m'. map_of pt h = Some m \<longrightarrow> map_of pt' h = Some m' \<longrightarrow> same_output m m'"
    using assms(1) unfolding kept_def by simp
  then show ?thesis using that m' assms(2) by simp
qed

lemma only_ended_trans:
  assumes "only_ended a b" "only_ended b c"
  shows "only_ended a c"
  unfolding only_ended_def
proof (intro conjI allI impI)
  show "kept a c" using kept_trans [OF only_endedD(1) only_endedD(1)] assms by blast
  fix h m m'
  assume m: "map_of a h = Some m" "map_of c h = Some m'" "\<not> running m"
  obtain n where n: "map_of b h = Some n" using keptE [OF only_endedD(1) [OF assms(1)] m(1)] .
  have "\<not> running n" by (rule only_endedD(2) [OF assms(1) m(1) n m(3)])
  then show "\<not> running m'" by (rule only_endedD(2) [OF assms(2) n m(2)])
qed

lemma close_lane_only_ended:
  assumes "table_ok pt" "close_lane_processes pe lid tok pt = (Inr hs, pt')"
  shows "only_ended pt pt'"
proof -
  note sp = close_lane_Inr [OF assms]
  have "\<not> running m'" if "map_of pt h = Some m" "map_of pt' h = Some m'" "\<not> running m" for h m m'
  proof (cases "owned_by m lid tok")
    case True
    then show ?thesis using sp(3) [OF that(1)] that(2) by auto
  next
    case False
    then have "map_of pt' h = Some m" using sp(2) [OF that(1)] by simp
    then show ?thesis using that by simp
  qed
  then show ?thesis using sp(1) unfolding only_ended_def by simp
qed

definition lane_procs_ended :: "lane \<Rightarrow> ptable \<Rightarrow> bool" where
  "lane_procs_ended l pt \<longleftrightarrow> (\<forall>h m. map_of pt h = Some m \<longrightarrow> owned_by m (lane_id l) (fencing_token l) \<longrightarrow> \<not> running m)"

lemma lane_procs_ended_later:
  assumes "lane_procs_ended l pt" "only_ended pt pt'"
  shows "lane_procs_ended l pt'"
  unfolding lane_procs_ended_def
proof (intro allI impI)
  fix h m'
  assume m': "map_of pt' h = Some m'" "owned_by m' (lane_id l) (fencing_token l)"
  have "h \<in> dom (map_of pt)" using m' assms(2) by (auto simp: only_ended_def kept_def)
  then obtain m where m: "map_of pt h = Some m" by blast
  then have "same_output m m'" using keptE [OF only_endedD(1) [OF assms(2)] m] m'(1) by (metis option.inject)
  then have "owned_by m (lane_id l) (fencing_token l)" using m'(2) by (simp add: same_output_def owned_by_def)
  then have "\<not> running m" using assms(1) m unfolding lane_procs_ended_def by simp
  then show "\<not> running m'" by (rule only_endedD(2) [OF assms(2) m m'(1)])
qed

lemma close_lane_ends:
  assumes "table_ok pt" "close_lane_processes pe (lane_id l) (fencing_token l) pt = (Inr hs, pt')"
  shows "lane_procs_ended l pt'"
  unfolding lane_procs_ended_def
proof (intro allI impI)
  fix h m'
  assume m': "map_of pt' h = Some m'" "owned_by m' (lane_id l) (fencing_token l)"
  note sp = close_lane_Inr [OF assms]
  have "h \<in> dom (map_of pt)" using m' sp(1) by (auto simp: kept_def)
  then obtain m where m: "map_of pt h = Some m" by blast
  have "same_output m m'" using keptE [OF sp(1) m] m'(1) by (metis option.inject)
  then have "owned_by m (lane_id l) (fencing_token l)" using m'(2) by (simp add: same_output_def owned_by_def)
  then show "\<not> running m'" using sp(3) [OF m] m'(1) by auto
qed

lemma close_live_lane:
  "map_of (lanes reg) (lane_id l) = Some l \<Longrightarrow> \<not> expired now l \<Longrightarrow>
   close (lane_id l) (fencing_token l) now reg = (Inr l, reg\<lparr>lanes := AList.delete (lane_id l) (lanes reg)\<rparr>)"
  by (simp add: close_def require_lane_locked_def)

lemma close_lanes_spec:
  assumes kill: "\<And>m. after_kill (h_pe h) m \<noteq> None" and "table_ok (a_procs ag)" "distinct (map lane_id ls)"
    and "\<And>l. l \<in> set ls \<Longrightarrow> map_of (lanes (a_registry ag)) (lane_id l) = Some l \<and> \<not> expired now l"
    and "close_lanes h now ls ag rep = (rep', ag')"
  shows "cr_closed rep' = cr_closed rep @ map lane_id ls \<and> cr_unresolved rep' = cr_unresolved rep
    \<and> (\<forall>k. map_of (lanes (a_registry ag')) k = (if k \<in> lane_id ` set ls then None else map_of (lanes (a_registry ag)) k))
    \<and> only_ended (a_procs ag) (a_procs ag') \<and> (\<forall>l \<in> set ls. lane_procs_ended l (a_procs ag'))
    \<and> a_fs ag' = a_fs ag \<and> a_store ag' = a_store ag"
  using assms(2-)
proof (induction ls arbitrary: ag rep)
  case Nil
  then show ?case by (simp add: only_ended_refl)
next
  case (Cons l ls)
  obtain hs pt where c: "close_lane_processes (h_pe h) (lane_id l) (fencing_token l) (a_procs ag) = (Inr hs, pt)"
    using terminate_each_total [OF kill] unfolding close_lane_processes_def by blast
  define ag1 where "ag1 = ag\<lparr>a_procs := pt, a_registry := (a_registry ag)\<lparr>lanes := AList.delete (lane_id l) (lanes (a_registry ag))\<rparr>\<rparr>"
  define rep1 where "rep1 = rep\<lparr>cr_terminated := cr_terminated rep @ hs, cr_closed := cr_closed rep @ [lane_id l]\<rparr>"
  have cl: "close (lane_id l) (fencing_token l) now (a_registry ag)
      = (Inr l, (a_registry ag)\<lparr>lanes := AList.delete (lane_id l) (lanes (a_registry ag))\<rparr>)"
    using Cons.prems(3) [of l] close_live_lane by simp
  have rest: "close_lanes h now ls ag1 rep1 = (rep', ag')"
    using Cons.prems(4) c cl by (simp add: ag1_def rep1_def Let_def)
  have ended: "only_ended (a_procs ag) pt" "lane_procs_ended l pt"
    using close_lane_only_ended [OF Cons.prems(1) c] close_lane_ends [OF Cons.prems(1) c] by simp_all
  then have ok: "table_ok (a_procs ag1)" by (simp add: ag1_def only_ended_def kept_def)
  have live: "map_of (lanes (a_registry ag1)) (lane_id x) = Some x \<and> \<not> expired now x" if "x \<in> set ls" for x
  proof -
    have "lane_id x \<noteq> lane_id l" using that Cons.prems(2) by (auto simp: image_iff)
    then show ?thesis using Cons.prems(3) [of x] that by (simp add: ag1_def dict_simps)
  qed
  have "distinct (map lane_id ls)" using Cons.prems(2) by simp
  note ih = Cons.IH [OF ok this live rest]
  have fr: "a_procs ag1 = pt" "a_fs ag1 = a_fs ag" "a_store ag1 = a_store ag" by (simp_all add: ag1_def)
  have lm: "map_of (lanes (a_registry ag1)) k = (if k = lane_id l then None else map_of (lanes (a_registry ag)) k)" for k
    by (simp add: ag1_def dict_simps)
  have e2: "only_ended pt (a_procs ag')" using ih fr(1) by simp
  have "only_ended (a_procs ag) (a_procs ag')" using only_ended_trans [OF ended(1) e2] .
  moreover have "lane_procs_ended l (a_procs ag')" using lane_procs_ended_later [OF ended(2) e2] .
  ultimately show ?case using ih fr lm by (auto simp: rep1_def)
qed

section \<open>Changes through the dispatcher\<close>

lemma lane_ops_fs [simp]:
  "a_fs (snd (do_lane_renew h t req ag)) = a_fs ag" "a_fs (snd (do_lane_close h t req ag)) = a_fs ag"
  by (simp_all add: do_lane_renew_def do_lane_close_def split: sum.split prod.split)

lemma lane_open_fs [simp]: "a_fs (snd (do_lane_open h t req ag)) = a_fs ag"
proof -
  have "a_fs (snd (agent_open_lane h t lid tid caps cs ttl ag)) = a_fs ag" for lid tid caps cs ttl
    by (simp add: agent_open_lane_def split: option.split prod.split)
  then show ?thesis by (simp add: do_lane_open_def split: sum.split prod.split) (metis snd_conv)
qed

lemma process_ops_fs [simp]: "a_fs (snd (do_process h t op req ag)) = a_fs ag"
  by (simp add: do_process_def Let_def split: sum.split prod.split)

lemma reads_fs:
  "a_fs (snd (do_lane_list t ag)) = a_fs ag" "a_fs (snd (do_read_text h t req ag)) = a_fs ag"
  "a_fs (snd (do_read_bytes h t req ag)) = a_fs ag" "a_fs (snd (do_discover h t op req ag)) = a_fs ag"
  using lane_list_reads [of ag t] read_text_reads [of ag h t req] read_bytes_reads [of ag h t req]
    discover_reads [of ag h t op req] by (simp_all add: same_effects_def)

lemma dispatch_other_fs:
  assumes "\<not> (op = ''fs.write_text'' \<or> op \<in> set [''fs.append_text'', ''fs.mkdir'', ''fs.move'', ''fs.replace_text''])"
    "op \<noteq> ''process.exec''"
  shows "a_fs (snd (dispatch h t op req ag)) = a_fs ag"
  unfolding dispatch_def by (simp only: assms if_False de_Morgan_disj) (use assms in \<open>simp add: reads_fs\<close>)

lemma dispatch_changes_authorized:
  assumes "fs_wf (a_fs ag)" "tmp_fresh (h_os h)" "op \<noteq> ''process.exec''" "a_fs (snd (dispatch h t op req ag)) \<noteq> a_fs ag"
  shows "dispatch_authorized h t req ag (snd (dispatch h t op req ag))"
proof -
  have "op = ''fs.write_text'' \<or> op \<in> set [''fs.append_text'', ''fs.mkdir'', ''fs.move'', ''fs.replace_text'']"
    using dispatch_other_fs [OF _ assms(3)] assms(4) by blast
  then show ?thesis
  proof
    assume op: "op = ''fs.write_text''"
    then have "dispatch h t op req ag = do_write_text h t req ag" by (simp add: dispatch_def)
    then show ?thesis using assms write_text_dispatch [of ag h t req] by simp
  next
    assume op: "op \<in> set [''fs.append_text'', ''fs.mkdir'', ''fs.move'', ''fs.replace_text'']"
    then have "dispatch h t op req ag = do_change h t op req ag" by (auto simp: dispatch_def)
    then show ?thesis using assms change_dispatch [of ag h t op req] by simp
  qed
qed

lemma handled_by_dispatch:
  assumes "valid_request req = Some (rid, op)" "handle_request h t req ag = (resp, ag')" "a_fs ag' \<noteq> a_fs ag"
  obtains ag0 where "a_fs ag0 = a_fs ag" "a_registry ag0 = a_registry ag" "a_fs (snd (dispatch h t op req ag0)) = a_fs ag'"
proof -
  have eq: "handle_checked h t rid op req ag = (resp, ag')" using assms(1,2) by (simp add: handle_request_eq)
  show ?thesis
  proof (cases "a_store ag")
    case None
    then show ?thesis using that [of ag] eq by (simp add: handle_checked_def split: prod.splits)
  next
    case (Some st)
    from Some show ?thesis
    proof (cases rule: handle_checked_cases [where h = h and t = t and rid = rid and op = op and req = req])
      case (executing st1 r ag2 st2 c st3)
      then show ?thesis using that [of "ag\<lparr>a_store := Some st1\<rparr>"] eq by simp
    qed (use eq assms(3) that [of ag] in auto)
  qed
qed

section \<open>A concrete agent\<close>

instance pyfloat :: countable
  by countable_datatype

instance json :: countable
  by countable_datatype

text \<open>A JSON library with the documented round trip: the text is the number of the sorted value.\<close>

definition json_env :: pyenv where
  "json_env = posix_env\<lparr>json_dumps := (\<lambda>v. digits (to_nat (json_sorted v))),
     json_loads := (\<lambda>s. Inr (from_nat (foldl (\<lambda>acc c. acc * 10 + digit_val c) 0 s)))\<rparr>"

lemma json_env_roundtrip: "json_loads json_env (json_dumps json_env v) = Inr (json_sorted v)"
  by (simp add: json_env_def digits_value)

definition demo_host :: host where
  "demo_host = \<lparr>h_env = json_env, h_os = demo_os, h_pe = demo_pe, h_ex = demo_executor, h_wb = None,
     h_class = (\<lambda>_. ''ERROR''), h_text = (\<lambda>_. [])\<rparr>"

definition demo_moment :: moment where
  "demo_moment = \<lparr>t_now = Fin 20, t_ns = 0, t_ms = 0, begin_fault = False, fence_fault = False, complete_fault = False\<rparr>"

definition demo_agent :: agent where
  "demo_agent = \<lparr>a_registry = demo_open_registry, a_store = Some demo_store, a_fs = demo_fs, a_procs = []\<rparr>"

definition demo_request :: "string \<Rightarrow> dict" where
  "demo_request operation = [(''protocol_version'', JStr ''veraport-v1''), (''request_id'', JStr ''r1''),
     (''operation'', JStr operation), (''lane_id'', JStr ''s::a''), (''fencing_token'', JInt 1),
     (''path'', JStr ''x''), (''content'', JStr ''bye'')]"

lemma demo_valid: "operation \<noteq> [] \<Longrightarrow> valid_request (demo_request operation) = Some (''r1'', operation)"
  by (simp add: valid_request_def demo_request_def dict_get_def)

lemma demo_executes: "executes demo_host demo_moment (demo_request ''lane.renew'') demo_agent ''r1''"
  by (simp add: executes_def demo_valid demo_agent_def demo_store_def DURABLE_MUTATING_OPERATIONS_def begin_NEW_iff
      demo_moment_def request_record_count_def)

section \<open>Properties\<close>

text \<open>
  (C24) Every request gets a well-formed response. After any history from a fresh store, or without
  one, whatever dictionary arrives, the response carries the protocol version and the request's own
  id, and is either a success with a result and no error or a failure with an error code and no
  result; this holds for replays, whose text went through the JSON library, too.
\<close>

theorem responses_are_well_formed:
  assumes "\<forall>v. json_loads (h_env h) (json_dumps (h_env h) v) = Inr (json_sorted v)"
    and "a_store ag = None \<or> (\<exists>n w st. AgentStateStore n w = Inr st \<and> a_store ag = Some st)"
  shows "wf_response (dict_get req ''request_id'' JNull) (fst (handle_request h t req (agent_run h xs ag)))"
proof -
  have "agent_inv h ag"
    using assms(2) by (auto simp: agent_inv_def ledger_responses_def AgentStateStore_def Let_def split: if_splits)
  then show ?thesis using handle_wf [OF agent_run_inv] assms(1) by blast
qed

lemma responses_are_well_formed_witness:
  "wf_response (JStr ''r1'') (fst (handle_request demo_host demo_moment (demo_request ''lane.list'') demo_agent))"
proof -
  have "a_store demo_agent = Some demo_store" by (simp add: demo_agent_def)
  then have "wf_response (dict_get (demo_request ''lane.list'') ''request_id'' JNull)
      (fst (handle_request demo_host demo_moment (demo_request ''lane.list'') (agent_run demo_host [] demo_agent)))"
    by (intro responses_are_well_formed) (auto simp: demo_host_def json_env_roundtrip intro!: exI demo_store_new)
  then show ?thesis by (simp add: demo_request_def dict_get_def)
qed



text \<open>
  Repeating a mutation is safe. After a request was executed, and after any further requests, the
  same request changes nothing at all: it is answered with the recorded response, marked as a replay,
  or, when recording the response had failed, with \<^verbatim>\<open>REQUEST_OUTCOME_UNKNOWN\<close>.
\<close>

theorem repeated_mutation_is_replayed:
  assumes json: "\<forall>v. json_loads (h_env h) (json_dumps (h_env h) v) = Inr (json_sorted v)"
    and ex: "executes h t req ag rid" and run: "handle_request h t req ag = (resp, ag1)"
    and later: "ag2 = agent_run h xs ag1" and nf: "\<not> begin_fault t'"
  shows "handle_request h t' req ag2 =
    (if complete_fault t then error_response h (JStr rid) (Store RequestOutcomeUnknown)
     else replayed (sort_key fst (map (\<lambda>(k, v). (k, json_sorted v)) resp)), ag2)"
proof -
  obtain st1 row where row: "a_store ag1 = Some st1" "map_of (requests st1) rid = Some row"
    "request_sha256 row = request_digest h req" "status row = (if complete_fault t then PENDING else COMPLETED)"
    "\<not> complete_fault t \<Longrightarrow> response_json row = Some (json_dumps (h_env h) (JObj resp))"
    using executes_row [OF ex] run by (metis fst_conv snd_conv)
  obtain st2 where st2: "a_store ag2 = Some st2" "rows_kept st1 st2"
    using agent_run_rows_kept [OF row(1)] later by blast
  note row2 = rows_keptD [OF st2(2) row(2)]
  obtain op where v: "valid_request req = Some (rid, op)" "op \<in> set DURABLE_MUTATING_OPERATIONS"
    using ex by (auto simp: executes_def split: option.splits)
  have "begin_request (h_env h) (begin_fault t') rid (request_digest h req) (t_ms t') st2 =
      (if complete_fault t then Inl (Store RequestOutcomeUnknown)
       else Inr (REPLAY (sort_key fst (map (\<lambda>(k, v). (k, json_sorted v)) resp))), st2)"
    using row2 row(3-5) nf json by (simp add: begin_request_def)
  moreover have "ag2\<lparr>a_store := Some st2\<rparr> = ag2" using st2(1) by simp
  ultimately show ?thesis using v st2(1) by (simp add: handle_request_eq handle_checked_def Let_def)
qed

lemma repeated_mutation_is_replayed_witness:
  "\<exists>resp ag1 d. handle_request demo_host demo_moment (demo_request ''lane.renew'') demo_agent = (resp, ag1)
     \<and> handle_request demo_host demo_moment (demo_request ''lane.renew'') ag1 = (replayed d, ag1)"
proof -
  have "\<forall>v. json_loads (h_env demo_host) (json_dumps (h_env demo_host) v) = Inr (json_sorted v)"
    by (simp add: demo_host_def json_env_roundtrip)
  moreover obtain resp ag1 where h: "handle_request demo_host demo_moment (demo_request ''lane.renew'') demo_agent = (resp, ag1)"
    by fastforce
  moreover have "ag1 = agent_run demo_host [] ag1" by simp
  ultimately show ?thesis
    using repeated_mutation_is_replayed [of demo_host demo_moment "demo_request ''lane.renew''" demo_agent "''r1''" resp ag1 ag1 "[]" demo_moment]
      demo_executes by (auto simp: demo_moment_def)
qed

text \<open>
  (C26) Only the listed operations have effects. A request that is not one of the twelve mutating
  operations, well formed or not, leaves the files, the processes and the durable store as they are.
\<close>

theorem other_requests_have_no_effect:
  assumes "\<And>rid op. valid_request req = Some (rid, op) \<Longrightarrow> op \<notin> set DURABLE_MUTATING_OPERATIONS"
  shows "same_effects ag (snd (handle_request h t req ag))"
proof (cases "valid_request req")
  case None
  then show ?thesis by (simp add: handle_request_eq same_effects_def)
next
  case (Some q)
  obtain rid op where q: "q = (rid, op)" by fastforce
  have "op \<notin> set DURABLE_MUTATING_OPERATIONS" using assms Some q by simp
  then show ?thesis using dispatch_reads [of op ag h t req] Some q
    by (simp add: handle_request_eq handle_checked_def case_prod_unfold split: option.split)
qed

lemma other_requests_have_no_effect_witness:
  "same_effects demo_agent (snd (handle_request demo_host demo_moment (demo_request ''fs.read_text'') demo_agent))"
  by (rule other_requests_have_no_effect) (simp add: demo_valid DURABLE_MUTATING_OPERATIONS_def)


text \<open>The lanes of a session, as the registry lists them.\<close>

lemma session_lanes_distinct:
  assumes "registry_inv env reg"
  shows "distinct (map lane_id (filter P (sort_key lane_id (map snd (lanes reg)))))"
proof -
  have "map lane_id (map snd (lanes reg)) = map fst (lanes reg)"
    using registry_inv_id [OF assms] by (auto intro!: map_cong)
  then have "distinct (map lane_id (map snd (lanes reg)))" using registry_invD(1) [OF assms] by (simp only:)
  then have "distinct (map lane_id (sort_key lane_id (map snd (lanes reg))))"
    by (metis distinct_map distinct_sort set_sort)
  then show ?thesis by (rule distinct_map_filter)
qed

lemma session_lane_member:
  assumes "registry_inv env reg"
  shows "l \<in> snd ` set (lanes reg) \<longleftrightarrow> map_of (lanes reg) (lane_id l) = Some l"
proof
  assume "l \<in> snd ` set (lanes reg)"
  then obtain k where k: "(k, l) \<in> set (lanes reg)" by auto
  then have "map_of (lanes reg) k = Some l" using registry_invD(1) [OF assms] by simp
  then show "map_of (lanes reg) (lane_id l) = Some l" using registry_inv_id [OF assms k] by simp
qed (force dest: map_of_SomeD)

definition demo_posix_host :: host where
  "demo_posix_host = demo_host\<lparr>h_env := posix_env\<rparr>"

lemma demo_write_changes:
  "\<exists>f'. write_text posix_env demo_os demo_executor ''s::a'' 1 ''x'' ''bye'' ''utf-8'' (Fin 20)
     demo_open_registry demo_fs = (Inr (), demo_open_registry, f') \<and> f' \<noteq> demo_fs"
proof -
  obtain f' where f': "atomic_write posix_env demo_os demo_fs (RPath ''/'' [''w'', ''x'']) ''bye'' ''utf-8'' = (Inr (), f')"
    using demo_atomic by blast
  have "file_holds f' (RPath ''/'' [''w'', ''x'']) ''bye''"
    using atomic_write_spec [OF demo_fs_wf demo_tmp_fresh f'] by (auto simp: demo_os_def)
  moreover have "\<not> file_holds demo_fs (RPath ''/'' [''w'', ''x'']) ''bye''"
    by (simp add: file_holds_def demo_fs_def demo_file_def)
  ultimately have "f' \<noteq> demo_fs" by blast
  then show ?thesis using f' by (auto simp: write_text_def demo_resolve guarded_def demo_write_authorized)
qed

lemma demo_write_dispatch:
  "a_fs (snd (handle_request demo_posix_host demo_moment (demo_request ''fs.write_text'') (demo_agent\<lparr>a_store := None\<rparr>))) \<noteq> demo_fs"
proof -
  obtain f' where f': "write_text posix_env demo_os demo_executor ''s::a'' 1 ''x'' ''bye'' ''utf-8'' (Fin 20)
     demo_open_registry demo_fs = (Inr (), demo_open_registry, f')" "f' \<noteq> demo_fs"
    using demo_write_changes by blast
  have a: "arg_str demo_posix_host (demo_request ''fs.write_text'') ''lane_id'' = Inr ''s::a''"
    "arg_int demo_posix_host (demo_request ''fs.write_text'') ''fencing_token'' = Inr 1"
    "arg_str demo_posix_host (demo_request ''fs.write_text'') ''path'' = Inr ''x''"
    "arg_str demo_posix_host (demo_request ''fs.write_text'') ''content'' = Inr ''bye''"
    "arg_str_default demo_posix_host (demo_request ''fs.write_text'') ''encoding'' ''utf-8'' = ''utf-8''"
    by (simp_all add: arg_str_def arg_int_def arg_str_default_def dict_item_def dict_get_def demo_request_def)
  have h: "h_env demo_posix_host = posix_env" "h_os demo_posix_host = demo_os" "h_ex demo_posix_host = demo_executor"
    by (simp_all add: demo_posix_host_def demo_host_def)
  show ?thesis using f' a
    by (simp add: handle_request_eq demo_valid handle_checked_def demo_agent_def dispatch_def do_write_text_def h
        demo_moment_def with_fs_def)
qed


text \<open>
  Closing a session drains it. If killed processes end, \<^verbatim>\<open>close_session\<close> closes exactly the
  unexpired lanes of the session, reports them all as closed and none as unresolved, leaves no
  running process of theirs, and keeps every other unexpired lane, the files and the store.
\<close>

theorem close_session_drains:
  assumes inv: "registry_inv (h_env h) (a_registry ag)" and ok: "table_ok (a_procs ag)"
    and kill: "\<forall>m. after_kill (h_pe h) m \<noteq> None"
    and run: "close_session h now sid ag = (report, ag')"
  shows "map_of report ''drained'' = Some (JBool True)
    \<and> (\<forall>k. map_of (lanes (a_registry ag')) k =
          (if prefix (sid @ ''::'') k then None else live now (a_registry ag) k))
    \<and> (\<forall>k l. live now (a_registry ag) k = Some l \<longrightarrow> prefix (sid @ ''::'') k \<longrightarrow> lane_procs_ended l (a_procs ag'))
    \<and> only_ended (a_procs ag) (a_procs ag') \<and> a_fs ag' = a_fs ag \<and> a_store ag' = a_store ag"
proof -
  define reg where "reg = snd (reap_expired_locked now (a_registry ag))"
  define ls where "ls = filter (\<lambda>l. prefix (sid @ ''::'') (lane_id l)) (sort_key lane_id (map snd (lanes reg)))"
  have rinv: "registry_inv (h_env h) reg" unfolding reg_def by (rule reap_inv [OF inv])
  have reaped: "map_of (lanes reg) k = live now (a_registry ag) k" for k
    unfolding reg_def map_of_reap [OF inv] live_def by (simp split: option.split)
  obtain rep where c: "close_lanes h now ls (ag\<lparr>a_registry := reg\<rparr>) \<lparr>cr_closed = [], cr_terminated = [], cr_unresolved = []\<rparr> = (rep, ag')"
    and dr: "map_of report ''drained'' = Some (JBool (cr_unresolved rep = []))"
    using run by (auto simp: close_session_def snapshot_def Let_def reg_def ls_def split: prod.splits)
  have mem: "l \<in> set ls \<longleftrightarrow> prefix (sid @ ''::'') (lane_id l) \<and> map_of (lanes reg) (lane_id l) = Some l" for l
    using session_lane_member [OF rinv] by (auto simp: ls_def)
  have "\<not> expired now l" if "l \<in> set ls" for l
    using that mem reaped by (auto simp: live_def split: option.splits if_splits)
  moreover have "distinct (map lane_id ls)" unfolding ls_def by (rule session_lanes_distinct [OF rinv])
  ultimately have sp: "cr_unresolved rep = []
    \<and> (\<forall>k. map_of (lanes (a_registry ag')) k = (if k \<in> lane_id ` set ls then None else map_of (lanes reg) k))
    \<and> only_ended (a_procs ag) (a_procs ag') \<and> (\<forall>l \<in> set ls. lane_procs_ended l (a_procs ag'))
    \<and> a_fs ag' = a_fs ag \<and> a_store ag' = a_store ag"
    using close_lanes_spec [of h "ag\<lparr>a_registry := reg\<rparr>" ls now, OF _ _ _ _ c] kill ok mem by simp
  have key: "k \<in> lane_id ` set ls \<longleftrightarrow> prefix (sid @ ''::'') k \<and> map_of (lanes reg) k \<noteq> None" for k
    using mem registry_invD(2) [OF rinv, of k] by (auto simp: image_iff lane_ok_def)
  have "lane_procs_ended l (a_procs ag')" if "live now (a_registry ag) k = Some l" "prefix (sid @ ''::'') k" for k l
  proof -
    have "map_of (lanes reg) k = Some l" using that reaped by simp
    then have "l \<in> set ls" using mem that(2) registry_invD(2) [OF rinv] by (simp add: lane_ok_def)
    then show ?thesis using sp by blast
  qed
  then show ?thesis using sp dr key reaped by auto
qed

lemma close_session_drains_witness:
  "map_of (fst (close_session demo_posix_host (Fin 20) ''s'' demo_agent)) ''drained'' = Some (JBool True)
   \<and> map_of (lanes (a_registry (snd (close_session demo_posix_host (Fin 20) ''s'' demo_agent)))) ''s::a'' = None"
proof -
  have inv: "registry_inv (h_env demo_posix_host) (a_registry demo_agent)"
    using reg_reach_inv [OF demo_reach] by (simp add: demo_posix_host_def demo_host_def demo_agent_def)
  have ok: "table_ok (a_procs demo_agent)" by (simp add: demo_agent_def table_ok_def)
  have kill: "\<forall>m. after_kill (h_pe demo_posix_host) m \<noteq> None"
    using demo_kills by (simp add: demo_posix_host_def demo_host_def)
  obtain report ag' where run: "close_session demo_posix_host (Fin 20) ''s'' demo_agent = (report, ag')" by fastforce
  show ?thesis using close_session_drains [OF inv ok kill run] run by simp
qed

end
