(* ===== verification/Lane_Isolation.thy ===== *)
theory Lane_Isolation
  imports Agent_Properties
begin

text \<open>
  What a dispatched operation does to the lanes and processes of other lanes: nothing. Every
  operation but opening, renewing and closing touches the registry only by dropping an expired lane;
  those three change the lane they name; process operations change processes of the lane they name.
\<close>

section \<open>Quiet registry steps\<close>

definition quiet :: "pyfloat \<Rightarrow> registry \<Rightarrow> registry \<Rightarrow> bool" where
  "quiet now reg reg' \<longleftrightarrow> live now reg' = live now reg \<and> map_of (lanes reg') \<subseteq>\<^sub>m map_of (lanes reg)
     \<and> session_capabilities reg' = session_capabilities reg
     \<and> (\<forall>env. registry_inv env reg \<longrightarrow> registry_inv env reg')"

lemma quiet_refl [simp]: "quiet now reg reg"
  by (simp add: quiet_def)

lemma quiet_trans: "quiet now a b \<Longrightarrow> quiet now b c \<Longrightarrow> quiet now a c"
  unfolding quiet_def using map_le_trans by metis

lemma require_quiet: "quiet now reg (snd (require_lane_locked lid tok now reg))"
  unfolding quiet_def using require_live [of now lid tok reg] require_inv [of _ reg lid tok now]
  by (auto simp: require_lane_locked_def dict_simps map_le_def split: option.split)

lemma authorize_quiet: "authorize env lid tok cap rk rm now reg = (r, reg') \<Longrightarrow> quiet now reg reg'"
  using require_quiet [of now reg lid tok] authorize_snd [of env lid tok cap rk rm now reg] by simp

lemma reap_quiet: "registry_inv env reg \<Longrightarrow> quiet now reg (snd (reap_expired_locked now reg))"
  unfolding quiet_def using reap_inv [of _ reg now]
  by (auto simp: live_reap map_of_reap map_le_def split: option.splits if_splits)

lemma guarded_quiet:
  assumes "\<And>reg1. quiet now reg1 (fst (snd (act reg1)))"
  shows "quiet now reg (fst (snd (guarded env lid tok cap key mode now act reg f)))"
proof -
  obtain a reg1 where au: "authorize env lid tok cap (Some key) (Some mode) now reg = (a, reg1)" by fastforce
  show ?thesis
    using authorize_quiet [OF au] assms [of reg1] quiet_trans [of now reg reg1] au
    by (cases a) (auto simp: guarded_def)
qed

lemma authorize_fs_quiet:
  assumes "\<And>reg1. quiet now reg1 (snd (act reg1))"
  shows "quiet now reg (snd (authorize_fs env lid tok p now act reg))"
proof -
  obtain a reg1 where au: "authorize env lid tok ''fs.read'' (Some (fs_resource p)) (Some READ) now reg = (a, reg1)"
    by fastforce
  show ?thesis
    using authorize_quiet [OF au] assms [of reg1] quiet_trans [of now reg reg1] au
    by (cases a) (auto simp: authorize_fs_def)
qed

named_theorems quiet_ops \<open>operations that touch the registry only by dropping an expired lane\<close>

lemma file_ops_quiet [quiet_ops]:
  "quiet now reg (fst (snd (read_text env os ex lid tok path enc now reg f)))"
  "quiet now reg (fst (snd (read_bytes_range env os ex lid tok path off mb ev now reg f)))"
  "quiet now reg (fst (snd (write_text env os ex lid tok path c enc now reg f)))"
  "quiet now reg (fst (snd (append_text env os ex lid tok path c enc now reg f)))"
  "quiet now reg (fst (snd (run_process env os ex lid tok argv path to now reg f)))"
  unfolding read_text_def read_bytes_range_def write_text_def append_text_def run_process_def
  by (auto split: sum.split option.split prod.split intro!: guarded_quiet)

lemma change_ops_quiet [quiet_ops]:
  "quiet now reg (fst (snd (make_directory env os ex lid tok path pars now reg f)))"
  "quiet now reg (fst (snd (move_path env os ex lid tok path dst now reg f)))"
  "quiet now reg (fst (snd (replace_text env os ex lid tok path a b n enc now reg f)))"
  unfolding make_directory_def move_path_def replace_text_def
  by (auto split: sum.split option.split prod.split json.split bool.split intro!: guarded_quiet)

lemma discover_ops_quiet [quiet_ops]:
  "quiet now reg (snd (stat_sync env os ex lid tok path now reg f))"
  "quiet now reg (snd (list_dir env os ex lid tok path off n now reg f))"
  "quiet now reg (snd (search env os ex lid tok path q off mr me md cs now reg f))"
  "quiet now reg (snd (search_content env os ex lid tok path q pat off mr me md mt cs now reg f))"
  unfolding stat_sync_def list_dir_def search_def search_content_def Let_def
  by (auto split: sum.split option.split bool.split intro!: authorize_fs_quiet)

lemma visible_quiet: "quiet now reg (snd (visible_processes env lid tok now ms reg))"
proof (induction ms arbitrary: reg)
  case (Cons m ms)
  obtain a reg1 where au: "authorize_cwd env lid tok ''process.inspect'' (mp_cwd m) READ now reg = (a, reg1)" by fastforce
  then have q: "quiet now reg reg1" using authorize_quiet by (simp add: authorize_cwd_def)
  show ?case
  proof (cases "owned_by m lid tok")
    case False
    then show ?thesis using Cons by simp
  next
    case True
    then show ?thesis using au q quiet_trans [OF q Cons [of reg1]]
      by (cases a) (auto split: prod.split sum.split)
  qed
qed simp

lemma on_process_quiet: "quiet now reg (fst (snd (on_process env lid tok h cap mode now reg pt act)))"
proof (cases "owned_process lid tok h pt")
  case (Inl e)
  then show ?thesis by (simp add: on_process_def)
next
  case (Inr m)
  obtain a reg1 where au: "authorize env lid tok cap (Some (cwd_resource (mp_cwd m))) (Some mode) now reg = (a, reg1)" by fastforce
  show ?thesis using authorize_quiet [OF au] au Inr
    by (cases a) (auto simp: on_process_def authorize_cwd_def split: prod.split)
qed

lemma process_ops_quiet [quiet_ops]:
  "quiet now reg (snd (process_list env ex lid tok now reg pt))"
  "quiet now reg (fst (snd (process_status env ex lid tok h now reg pt)))"
  "quiet now reg (fst (snd (process_output env os ex lid tok h o1 o2 mb now reg pt)))"
  "quiet now reg (fst (snd (process_input env os pe ex lid tok h s nl now reg pt)))"
  "quiet now reg (fst (snd (process_terminate env pe ex lid tok h g now reg pt)))"
  using visible_quiet [of now reg env lid tok "map snd pt"]
  unfolding process_list_def process_status_def process_output_def process_input_def process_terminate_def Let_def
  by (auto split: sum.split option.split prod.split intro: on_process_quiet)

lemma process_start_quiet [quiet_ops]:
  "quiet now reg (fst (snd (process_start env os pe ex lid tok argv cwd rt now now_ns reg f pt)))"
  unfolding process_start_def
  by (auto simp: authorize_cwd_def split: sum.split pyfloat.split prod.split dest: authorize_quiet)

section \<open>Effects of a dispatched operation on lanes\<close>

text \<open>The backend behind \<^verbatim>\<open>workbridge\<close> reaches the registry only through \<^verbatim>\<open>authorize\<close>.\<close>

definition bridge_authorizes :: "host \<Rightarrow> bool" where
  "bridge_authorizes h \<longleftrightarrow> (\<forall>w. h_wb h = Some w \<longrightarrow>
     (\<forall>lid tok p enc now reg. quiet now reg (snd (wb_read_text w lid tok p enc now reg)))
     \<and> (\<forall>lid tok p now reg. quiet now reg (snd (wb_stat w lid tok p now reg)))
     \<and> (\<forall>lid tok p off n now reg. quiet now reg (snd (wb_list_dir w lid tok p off n now reg))))"

definition lane_effect :: "pyfloat \<Rightarrow> string option \<Rightarrow> string set \<Rightarrow> registry \<Rightarrow> registry \<Rightarrow> bool" where
  "lane_effect now lid caps reg reg' \<longleftrightarrow>
     (\<forall>k. Some k \<noteq> lid \<longrightarrow> live now reg' k = live now reg k)
     \<and> (\<forall>k l'. map_of (lanes reg') k = Some l' \<longrightarrow>
          (\<exists>l. map_of (lanes reg) k = Some l \<and> capabilities l' = capabilities l)
          \<or> (Some k = lid \<and> capabilities l' \<subseteq> caps))
     \<and> session_capabilities reg' = session_capabilities reg"

lemma quiet_effect: "quiet now reg reg' \<Longrightarrow> lane_effect now lid caps reg reg'"
  unfolding lane_effect_def quiet_def map_le_def by (metis domI)

lemma renew_effect: "lane_effect now (Some lid) caps reg (snd (renew lid tok ttl now reg))"
proof (cases "renew lid tok ttl now reg")
  case (Pair r reg')
  show ?thesis
  proof (cases r)
    case (Inl e)
    then show ?thesis using Pair renew_Inl require_quiet quiet_effect quiet_refl by (metis snd_conv)
  next
    case (Inr l)
    then obtain l0 where l0: "map_of (lanes reg) lid = Some l0" "l = l0\<lparr>expires_at := fadd now ttl\<rparr>"
      and r: "reg' = reg\<lparr>lanes := AList.update lid l (lanes reg)\<rparr>" using Pair by (auto simp: renew_ok)
    then show ?thesis using Pair by (auto simp: lane_effect_def live_def dict_simps)
  qed
qed

lemma close_effect: "lane_effect now (Some lid) caps reg (snd (close lid tok now reg))"
  unfolding lane_effect_def
  by (auto simp: close_def require_lane_locked_def live_def dict_simps split: option.split if_splits)

lemma open_effect:
  assumes "registry_inv env reg" "open_lane env alloc lid tid caps cs ttl now reg s = (r, reg', s')"
  shows "lane_effect now (Some lid) caps reg reg'"
proof (cases r)
  case (Inl e)
  then show ?thesis using open_lane_Inl assms reap_quiet quiet_effect quiet_refl by metis
next
  case (Inr l)
  then have o: "open_lane env alloc lid tid caps cs ttl now reg s = (Inr l, reg', s')" using assms(2) by simp
  have reg': "map_of (lanes reg') = (map_of (lanes (snd (reap_expired_locked now reg))))(lid \<mapsto> l)"
    using open_lane_Inr(8) [OF o] by (simp add: dict_simps)
  have caps: "capabilities l = caps" using open_lane_Inr(7) [OF o] by (metis lane.select_convs(3))
  have q: "quiet now reg (snd (reap_expired_locked now reg))" by (rule reap_quiet [OF assms(1)])
  have "live now reg' k = live now reg k" if "k \<noteq> lid" for k
  proof -
    have "live now reg' k = live now (snd (reap_expired_locked now reg)) k" using that by (simp add: live_def reg')
    then show ?thesis using q by (simp add: quiet_def)
  qed
  moreover have "\<exists>l0. map_of (lanes reg) k = Some l0 \<and> capabilities l' = capabilities l0"
    if "map_of (lanes reg') k = Some l'" "k \<noteq> lid" for k l'
    using that q unfolding reg' quiet_def map_le_def by (metis domI fun_upd_other)
  then have "(\<exists>l0. map_of (lanes reg) k = Some l0 \<and> capabilities l' = capabilities l0)
      \<or> (Some k = Some lid \<and> capabilities l' \<subseteq> caps)" if "map_of (lanes reg') k = Some l'" for k l'
    using that caps reg' by (cases "k = lid") auto
  moreover have "session_capabilities reg' = session_capabilities reg" using open_lane_Inr(8) [OF o] by simp
  ultimately show ?thesis unfolding lane_effect_def by simp
qed


definition named_lane :: "host \<Rightarrow> dict \<Rightarrow> string option" where
  "named_lane h req = (case arg_str h req ''lane_id'' of Inl _ \<Rightarrow> None | Inr l \<Rightarrow> Some l)"

definition requested_caps :: "host \<Rightarrow> dict \<Rightarrow> string set" where
  "requested_caps h req = (case py_iter (dict_get req ''capabilities'' (JList [])) of
     Inl _ \<Rightarrow> {} | Inr vs \<Rightarrow> set (map (py_str (h_env h)) vs))"

lemma quiet_with [quiet_ops]:
  "quiet now (a_registry ag) (snd p) \<Longrightarrow> quiet now (a_registry ag) (a_registry (snd (with_reg ag p k)))"
  "quiet now (a_registry ag) (fst (snd q)) \<Longrightarrow> quiet now (a_registry ag) (a_registry (snd (with_fs ag q k')))"
  "quiet now (a_registry ag) (fst (snd u)) \<Longrightarrow> quiet now (a_registry ag) (a_registry (snd (with_procs ag u)))"
  by simp_all

lemma bridge_quiet:
  assumes "bridge_authorizes h" "bridge_for h path = Inr (Some w)"
  shows "quiet now reg (snd (wb_read_text w lid tok p enc now reg))" "quiet now reg (snd (wb_stat w lid tok p now reg))"
    "quiet now reg (snd (wb_list_dir w lid tok p off n now reg))"
  using assms unfolding bridge_authorizes_def bridge_for_def rbind_def by (auto split: option.splits if_splits sum.splits)

lemma quiet_dispatches:
  assumes "bridge_authorizes h"
  shows "quiet (t_now t) (a_registry ag) (a_registry (snd (do_read_text h t req ag)))"
    "quiet (t_now t) (a_registry ag) (a_registry (snd (do_read_bytes h t req ag)))"
    "quiet (t_now t) (a_registry ag) (a_registry (snd (do_write_text h t req ag)))"
    "quiet (t_now t) (a_registry ag) (a_registry (snd (do_process_exec h t req ag)))"
  unfolding do_read_text_def do_read_bytes_def do_write_text_def do_process_exec_def Let_def
  using bridge_quiet(1) [OF assms]
  by (auto split: sum.split option.split prod.split intro!: quiet_ops simp: rbind_Inr)

lemma quiet_discover:
  assumes "bridge_authorizes h"
  shows "quiet (t_now t) (a_registry ag) (a_registry (snd (do_discover h t op req ag)))"
  unfolding do_discover_def Let_def using bridge_quiet(2,3) [OF assms]
  by (auto split: sum.split option.split prod.split intro!: quiet_ops)

lemma quiet_change: "quiet (t_now t) (a_registry ag) (a_registry (snd (do_change h t op req ag)))"
  unfolding do_change_def Let_def by (auto split: sum.split option.split prod.split intro!: quiet_ops)

lemma quiet_process: "quiet (t_now t) (a_registry ag) (a_registry (snd (do_process h t op req ag)))"
  unfolding do_process_def Let_def by (auto split: sum.split option.split prod.split intro!: quiet_ops)

lemma quiet_list: "registry_inv env (a_registry ag) \<Longrightarrow> quiet (t_now t) (a_registry ag) (a_registry (snd (do_lane_list t ag)))"
  using reap_quiet by (simp add: do_lane_list_def snapshot_def Let_def)

lemma lane_open_effect:
  assumes "registry_inv (h_env h) (a_registry ag)"
  shows "lane_effect (t_now t) (named_lane h req) (requested_caps h req) (a_registry ag) (a_registry (snd (do_lane_open h t req ag)))"
proof -
  have e: "lane_effect (t_now t) (Some lid) caps (a_registry ag) (a_registry (snd (agent_open_lane h t lid tid caps cs ttl ag)))"
    for lid tid caps cs ttl
    by (auto simp: agent_open_lane_def split: option.split prod.split dest: open_effect [OF assms])
  show ?thesis
  proof (cases "rbind (arg_str h req ''lane_id'') (\<lambda>lid.
             rbind (py_iter (dict_get req ''claims'' (JList []))) (\<lambda>items.
             rbind (rmap (claim_of_json h) items) (\<lambda>cs.
             rbind (arg_str h req ''task_id'') (\<lambda>tid.
             rbind (py_iter (dict_get req ''capabilities'' (JList []))) (\<lambda>caps.
             rbind (py_float (h_env h) (dict_get req ''ttl_s'' (JFloat (Fin 300)))) (\<lambda>ttl.
               Inr (lid, cs, tid, set (map (py_str (h_env h)) caps), ttl)))))))")
    case (Inl e)
    then show ?thesis by (simp add: do_lane_open_def quiet_effect)
  next
    case (Inr x)
    then obtain lid cs tid caps ttl where x: "x = (lid, cs, tid, caps, ttl)" by (cases x) auto
    then have "named_lane h req = Some lid" "requested_caps h req = caps"
      using Inr by (auto simp: rbind_Inr named_lane_def requested_caps_def)
    moreover have "a_registry (snd (do_lane_open h t req ag)) = a_registry (snd (agent_open_lane h t lid tid caps cs ttl ag))"
      unfolding do_lane_open_def Inr x by (simp split: prod.split sum.split)
    ultimately show ?thesis using e by simp
  qed
qed

lemma lane_renew_effect:
  "lane_effect (t_now t) (named_lane h req) caps (a_registry ag) (a_registry (snd (do_lane_renew h t req ag)))"
proof (cases "rbind (arg_str h req ''lane_id'') (\<lambda>lid. rbind (arg_int h req ''fencing_token'') (\<lambda>tok.
             rbind (py_float (h_env h) (dict_get req ''ttl_s'' (JFloat (Fin 300)))) (\<lambda>ttl. Inr (lid, tok, ttl))))")
  case (Inl e)
  then show ?thesis by (simp add: do_lane_renew_def quiet_effect)
next
  case (Inr x)
  then obtain lid tok ttl where x: "x = (lid, tok, ttl)" by (cases x) auto
  then have "named_lane h req = Some lid" using Inr by (auto simp: rbind_Inr named_lane_def)
  moreover have "a_registry (snd (do_lane_renew h t req ag)) = snd (renew lid tok ttl (t_now t) (a_registry ag))"
    unfolding do_lane_renew_def Inr x by (simp split: prod.split sum.split)
  ultimately show ?thesis using renew_effect by simp
qed

lemma lane_close_effect:
  "lane_effect (t_now t) (named_lane h req) caps (a_registry ag) (a_registry (snd (do_lane_close h t req ag)))"
proof (cases "rbind (arg_str h req ''lane_id'') (\<lambda>lid. rbind (arg_int h req ''fencing_token'') (\<lambda>tok. Inr (lid, tok)))")
  case (Inl e)
  then show ?thesis by (simp add: do_lane_close_def quiet_effect)
next
  case (Inr x)
  then obtain lid tok where x: "x = (lid, tok)" by (cases x) auto
  then have "named_lane h req = Some lid" using Inr by (auto simp: rbind_Inr named_lane_def)
  moreover have "a_registry (snd (do_lane_close h t req ag)) \<in> {a_registry ag, snd (close lid tok (t_now t) (a_registry ag))}"
    unfolding do_lane_close_def Inr x by (auto split: prod.split sum.split)
  ultimately show ?thesis using close_effect quiet_effect [OF quiet_refl] by fastforce
qed

lemma dispatch_effect:
  assumes "registry_inv (h_env h) (a_registry ag)" "bridge_authorizes h"
  shows "lane_effect (t_now t) (named_lane h req) (if op = ''lane.open'' then requested_caps h req else {})
    (a_registry ag) (a_registry (snd (dispatch h t op req ag)))"
  unfolding dispatch_def
  using lane_open_effect [OF assms(1)] lane_renew_effect lane_close_effect quiet_effect [OF quiet_list [OF assms(1)]]
    quiet_dispatches [OF assms(2), THEN quiet_effect] quiet_discover [OF assms(2), THEN quiet_effect]
    quiet_change [THEN quiet_effect] quiet_process [THEN quiet_effect] quiet_effect [OF quiet_refl]
  by simp

section \<open>Effects on processes\<close>

definition proc_effect :: "string option \<Rightarrow> ptable \<Rightarrow> ptable \<Rightarrow> bool" where
  "proc_effect lid pt pt' \<longleftrightarrow> (\<forall>h m. map_of pt h = Some m \<longrightarrow> Some (owner_lane_id m) \<noteq> lid \<longrightarrow> map_of pt' h = Some m)"

lemma proc_effect_refl [simp]: "proc_effect lid pt pt"
  by (simp add: proc_effect_def)

lemma proc_change_effect:
  assumes "fresh_handles pe" "proc_change env os pe ex lid tok req now now_ns reg f pt = (res, reg', pt')"
  shows "proc_effect (Some lid) pt pt'"
  unfolding proc_effect_def
proof (intro allI impI)
  fix k m
  assume m: "map_of pt k = Some m" "Some (owner_lane_id m) \<noteq> Some lid"
  show "map_of pt' k = Some m"
  proof (rule ccontr)
    assume "map_of pt' k \<noteq> Some m"
    then have ch: "map_of pt' k \<noteq> map_of pt k" using m(1) by simp
    have "\<exists>m'. same_output m m' \<and> owned_by m' lid tok"
    proof (cases req)
      case (StartProcess argv cwd rt)
      then show ?thesis using start_control [OF _ assms(1) ch] assms(2) m(1) by (metis option.distinct(1) proc_change.simps(1))
    next
      case (SendInput h s nl)
      then show ?thesis using input_control [OF _ ch] assms(2) m(1) unfolding may_control_def by (metis option.inject proc_change.simps(2))
    next
      case (TerminateProcess h g)
      then show ?thesis using terminate_control [OF _ ch] assms(2) m(1) unfolding may_control_def by (metis option.inject proc_change.simps(3))
    qed
    then show False using m(2) by (auto simp: same_output_def owned_by_def)
  qed
qed

lemmas start_effect = proc_change_effect [where req = "StartProcess argv cwd rt" for argv cwd rt, unfolded proc_change.simps]
lemmas input_effect = proc_change_effect [where req = "SendInput h s nl" for h s nl, unfolded proc_change.simps]
lemmas terminate_effect = proc_change_effect [where req = "TerminateProcess h g" for h g, unfolded proc_change.simps]

lemma close_lane_effect:
  assumes "table_ok pt" "close_lane_processes pe lid tok pt = (r, pt')"
  shows "proc_effect (Some lid) pt pt'"
  using close_lane_spec [OF assms] by (auto simp: proc_effect_def owned_by_def)

lemma lane_close_procs:
  assumes "table_ok (a_procs ag)"
  shows "proc_effect (named_lane h req) (a_procs ag) (a_procs (snd (do_lane_close h t req ag)))"
proof (cases "rbind (arg_str h req ''lane_id'') (\<lambda>lid. rbind (arg_int h req ''fencing_token'') (\<lambda>tok. Inr (lid, tok)))")
  case (Inl e)
  then show ?thesis by (simp add: do_lane_close_def)
next
  case (Inr x)
  then obtain lid tok where x: "x = (lid, tok)" by (cases x) auto
  then have "named_lane h req = Some lid" using Inr by (auto simp: rbind_Inr named_lane_def)
  moreover have "a_procs (snd (do_lane_close h t req ag)) = snd (close_lane_processes (h_pe h) lid tok (a_procs ag))"
    unfolding do_lane_close_def Inr x by (auto split: prod.split sum.split)
  ultimately show ?thesis using close_lane_effect [OF assms] by (metis prod.collapse)
qed

lemma process_dispatch_effect:
  assumes "fresh_handles (h_pe h)"
  shows "proc_effect (named_lane h req) (a_procs ag) (a_procs (snd (do_process h t op req ag)))"
proof (cases "rbind (arg_str h req ''lane_id'') (\<lambda>lid. rbind (arg_int h req ''fencing_token'') (\<lambda>tok. Inr (lid, tok)))")
  case (Inl e)
  then show ?thesis by (simp add: do_process_def)
next
  case (Inr x)
  then obtain lid tok where x: "x = (lid, tok)" by (cases x) auto
  then have n: "named_lane h req = Some lid" using Inr by (auto simp: rbind_Inr named_lane_def)
  have A: "proc_effect (Some lid) (a_procs ag) (snd (snd (process_start env os (h_pe h) ex lid tok argv cwd rt now now_ns reg f (a_procs ag))))"
    for env os ex argv cwd rt now now_ns reg f
  proof -
    obtain r reg1 pt1 where p: "process_start env os (h_pe h) ex lid tok argv cwd rt now now_ns reg f (a_procs ag) = (r, reg1, pt1)"
      by (cases "process_start env os (h_pe h) ex lid tok argv cwd rt now now_ns reg f (a_procs ag)")
    show ?thesis using start_effect [OF assms p] by (simp add: p)
  qed
  have B: "proc_effect (Some lid) (a_procs ag) (snd (snd (process_input env os (h_pe h) ex lid tok ph s nl now reg (a_procs ag))))"
    for env os ex ph s nl now reg
  proof -
    obtain r reg1 pt1 where p: "process_input env os (h_pe h) ex lid tok ph s nl now reg (a_procs ag) = (r, reg1, pt1)"
      by (cases "process_input env os (h_pe h) ex lid tok ph s nl now reg (a_procs ag)")
    show ?thesis using input_effect [OF assms p] by (simp add: p)
  qed
  have C: "proc_effect (Some lid) (a_procs ag) (snd (snd (process_terminate env (h_pe h) ex lid tok ph g now reg (a_procs ag))))"
    for env ex ph g now reg
  proof -
    obtain r reg1 pt1 where p: "process_terminate env (h_pe h) ex lid tok ph g now reg (a_procs ag) = (r, reg1, pt1)"
      by (cases "process_terminate env (h_pe h) ex lid tok ph g now reg (a_procs ag)")
    show ?thesis using terminate_effect [OF assms p] by (simp add: p)
  qed
  show ?thesis unfolding do_process_def Inr x n Let_def
    by (simp only: sum.case prod.case, simp add: A B C split: sum.split prod.split)
qed

lemma other_procs:
  "a_procs (snd (do_lane_renew h t req ag)) = a_procs ag"
  "a_procs (snd (do_write_text h t req ag)) = a_procs ag"
  "a_procs (snd (do_process_exec h t req ag)) = a_procs ag"
  "a_procs (snd (do_change h t op req ag)) = a_procs ag"
  by (simp_all add: do_lane_renew_def do_write_text_def do_process_exec_def do_change_def Let_def split: sum.split prod.split)

lemma lane_open_procs: "a_procs (snd (do_lane_open h t req ag)) = a_procs ag"
proof -
  have "a_procs (snd (agent_open_lane h t lid tid caps cs ttl ag)) = a_procs ag" for lid tid caps cs ttl
    by (simp add: agent_open_lane_def split: option.split prod.split)
  then show ?thesis by (simp add: do_lane_open_def split: sum.split prod.split) (metis snd_conv)
qed

lemma reads_procs:
  "a_procs (snd (do_lane_list t ag)) = a_procs ag" "a_procs (snd (do_read_text h t req ag)) = a_procs ag"
  "a_procs (snd (do_read_bytes h t req ag)) = a_procs ag" "a_procs (snd (do_discover h t op req ag)) = a_procs ag"
  using lane_list_reads [of ag t] read_text_reads [of ag h t req] read_bytes_reads [of ag h t req]
    discover_reads [of ag h t op req] by (simp_all add: same_effects_def)

lemma dispatch_proc_effect:
  assumes "fresh_handles (h_pe h)" "table_ok (a_procs ag)"
  shows "proc_effect (named_lane h req) (a_procs ag) (a_procs (snd (dispatch h t op req ag)))"
  unfolding dispatch_def using lane_close_procs [OF assms(2)] process_dispatch_effect [OF assms(1)]
  by (simp add: other_procs lane_open_procs reads_procs)

section \<open>Effects of a handled request\<close>

text \<open>
  A handled request has the effects of one dispatched operation on the same registry, files and
  processes, or none.
\<close>

lemma handled_cases:
  assumes run: "handle_request h t req ag = (resp, ag')"
  obtains (nothing) "a_registry ag' = a_registry ag" "a_procs ag' = a_procs ag" "a_fs ag' = a_fs ag"
  | (dispatched) rid op ag0 where "valid_request req = Some (rid, op)" "a_registry ag0 = a_registry ag"
      "a_procs ag0 = a_procs ag" "a_fs ag0 = a_fs ag" "a_registry ag' = a_registry (snd (dispatch h t op req ag0))"
      "a_procs ag' = a_procs (snd (dispatch h t op req ag0))" "a_fs ag' = a_fs (snd (dispatch h t op req ag0))"
proof (cases "valid_request req")
  case None
  then have "ag' = ag" using run by (simp add: handle_request_eq)
  then show ?thesis by - (rule nothing; simp)
next
  case (Some q)
  obtain rid op where q: "q = (rid, op)" by fastforce
  have eq: "handle_checked h t rid op req ag = (resp, ag')" using Some q run by (simp add: handle_request_eq)
  have v: "valid_request req = Some (rid, op)" using Some q by simp
  show ?thesis
  proof (cases "a_store ag")
    case None
    then show ?thesis using dispatched [OF v, of ag] eq by (simp add: handle_checked_def split: prod.splits)
  next
    case (Some st)
    from Some show ?thesis
    proof (cases rule: handle_checked_cases [where h = h and t = t and rid = rid and op = op and req = req])
      case reading
      then show ?thesis using dispatched [OF v, of ag] eq by simp
    next
      case (executing st1 r ag2 st2 c st3)
      then show ?thesis using dispatched [OF v, of "ag\<lparr>a_store := Some st1\<rparr>"] eq by simp
    next
      case (refused e st1)
      then have "ag' = ag\<lparr>a_store := Some st1\<rparr>" using eq by simp
      then show ?thesis by - (rule nothing; simp)
    next
      case (replaying d st1)
      then have "ag' = ag\<lparr>a_store := Some st1\<rparr>" using eq by simp
      then show ?thesis by - (rule nothing; simp)
    qed
  qed
qed

lemma handle_lane_effect:
  assumes "registry_inv (h_env h) (a_registry ag)" "bridge_authorizes h" "handle_request h t req ag = (resp, ag')"
  shows "lane_effect (t_now t) (named_lane h req)
    (if dict_get req ''operation'' JNull = JStr ''lane.open'' then requested_caps h req else {}) (a_registry ag) (a_registry ag')"
  using assms(3)
proof (cases rule: handled_cases)
  case nothing
  then show ?thesis by (simp add: quiet_effect)
next
  case (dispatched rid op ag0)
  have "dict_get req ''operation'' JNull = JStr op"
    using dispatched(1) by (auto simp: valid_request_def split: if_splits json.splits)
  then show ?thesis using dispatch_effect [of h ag0 t req op] assms(1,2) dispatched by simp
qed

lemma handle_proc_effect:
  assumes "fresh_handles (h_pe h)" "table_ok (a_procs ag)" "handle_request h t req ag = (resp, ag')"
  shows "proc_effect (named_lane h req) (a_procs ag) (a_procs ag')"
  using assms(3)
proof (cases rule: handled_cases)
  case (dispatched rid op ag0)
  then show ?thesis using dispatch_proc_effect [of h ag0 req t op] assms(1,2) by simp
qed simp

lemma quiet_inv: "quiet now reg reg' \<Longrightarrow> registry_inv env reg \<Longrightarrow> registry_inv env reg'"
  by (simp add: quiet_def)

lemma dispatch_inv:
  assumes inv: "registry_inv (h_env h) (a_registry ag)" and "bridge_authorizes h"
  shows "registry_inv (h_env h) (a_registry (snd (dispatch h t op req ag)))"
proof -
  have "registry_inv (h_env h) (a_registry (snd (agent_open_lane h t lid tid caps cs ttl ag)))" for lid tid caps cs ttl
    using open_inv [OF inv, of None lid tid caps cs ttl "t_now t" "()"]
      open_inv [OF inv, of "Some (next_fence (fence_fault t))" lid tid caps cs ttl "t_now t"]
    by (auto simp: agent_open_lane_def split: option.split prod.split) (metis fst_conv snd_conv)
  then have o: "registry_inv (h_env h) (a_registry (snd (do_lane_open h t req ag)))"
    using inv by (simp add: do_lane_open_def split: sum.split prod.split) (metis snd_conv)
  have r: "registry_inv (h_env h) (a_registry (snd (do_lane_renew h t req ag)))"
    using inv renew_inv [OF inv] by (simp add: do_lane_renew_def split: sum.split prod.split) (metis snd_conv)
  have c: "registry_inv (h_env h) (a_registry (snd (do_lane_close h t req ag)))"
    using inv close_inv [OF inv] by (simp add: do_lane_close_def split: sum.split prod.split) (metis snd_conv)
  show ?thesis unfolding dispatch_def
    using o r c inv quiet_inv [OF quiet_list [OF inv] inv] quiet_dispatches [OF assms(2), THEN quiet_inv, OF inv]
      quiet_discover [OF assms(2), THEN quiet_inv, OF inv] quiet_change [THEN quiet_inv, OF inv]
      quiet_process [THEN quiet_inv, OF inv] by simp
qed

lemma handle_registry_inv:
  assumes "registry_inv (h_env h) (a_registry ag)" "bridge_authorizes h" "handle_request h t req ag = (resp, ag')"
  shows "registry_inv (h_env h) (a_registry ag')"
  using assms(3)
proof (cases rule: handled_cases)
  case (dispatched rid op ag0)
  then show ?thesis using dispatch_inv [of h ag0 t op req] assms(1,2) by simp
qed (use assms(1) in simp)

end
