(* ===== verification/Session_Runtime.thy ===== *)
theory Session_Runtime
  imports Lane_Isolation
begin

text \<open>
  \<^verbatim>\<open>runtime.py\<close>: the handler that binds an authenticated session to the one shared agent of the
  workstation. It refuses requests of an expired session and lanes beyond the session's grant, puts
  the session id before lane ids and the controller before request ids, and takes them off again in
  responses.
\<close>

section \<open>The handler\<close>

definition lane_prefix :: "session_binding \<Rightarrow> string" where
  "lane_prefix b = session_id b @ ''::''"

definition request_prefix :: "session_binding \<Rightarrow> string" where
  "request_prefix b = controller_principal b @ ''::''"

definition bound_error :: "json \<Rightarrow> string \<Rightarrow> string \<Rightarrow> dict" where
  "bound_error rid code message =
     [(''protocol_version'', JStr ''veraport-v1''),
      (''request_id'', case rid of JStr s \<Rightarrow> JStr s | _ \<Rightarrow> JNull), (''ok'', JBool False),
      (''error'', JObj [(''code'', JStr code), (''message'', JStr message)])]"

fun external_lane :: "string \<Rightarrow> json \<Rightarrow> json list" where
  "external_lane pre (JObj kvs) =
     (case map_of kvs ''lane_id'' of
        Some (JStr s) \<Rightarrow> if prefix pre s then [JObj (AList.update ''lane_id'' (JStr (drop (length pre) s)) kvs)] else []
      | _ \<Rightarrow> [])"
| "external_lane pre _ = []"

definition externalize :: "session_binding \<Rightarrow> dict \<Rightarrow> string \<Rightarrow> dict" where
  "externalize b response rid =
     (let result = AList.update ''request_id'' (JStr rid) response; pre = lane_prefix b in
      case map_of result ''result'' of
        Some (JObj payload) \<Rightarrow>
          let p1 = (case map_of payload ''lane_id'' of
                      Some (JStr s) \<Rightarrow> if prefix pre s then AList.update ''lane_id'' (JStr (drop (length pre) s)) payload else payload
                    | _ \<Rightarrow> payload);
              p2 = (case map_of p1 ''lanes'' of
                      Some (JList ls) \<Rightarrow> AList.update ''lanes'' (JList (concat (map (external_lane pre) ls))) p1
                    | _ \<Rightarrow> p1)
          in AList.update ''result'' (JObj p2) result
      | _ \<Rightarrow> result)"

definition internal_request :: "session_binding \<Rightarrow> string \<Rightarrow> dict \<Rightarrow> dict option" where
  "internal_request b rid req =
     (let internal = AList.update ''request_id'' (JStr (request_prefix b @ rid)) req in
      case map_of internal ''lane_id'' of
        None \<Rightarrow> Some internal
      | Some (JStr s) \<Rightarrow> if s = [] then None else Some (AList.update ''lane_id'' (JStr (lane_prefix b @ s)) internal)
      | Some _ \<Rightarrow> None)"

definition denied_capabilities :: "host \<Rightarrow> session_binding \<Rightarrow> dict \<Rightarrow> string set result" where
  "denied_capabilities h b req =
     (case dict_get req ''capabilities'' (JList []) of
        JList vs \<Rightarrow> Inr (set (map (py_str (h_env h)) vs) - granted_capabilities b)
      | _ \<Rightarrow> Inl (Py ValueError))"

definition session_call :: "host \<Rightarrow> session_binding \<Rightarrow> int \<Rightarrow> moment \<Rightarrow> dict \<Rightarrow> agent \<Rightarrow> dict \<times> agent" where
  "session_call h b now_ms t req ag =
     (let rid = dict_get req ''request_id'' JNull; operation = dict_get req ''operation'' JNull in
      if now_ms \<ge> expires_at_ms b then (bound_error rid ''SESSION_EXPIRED'' ''VeraPort session expired'', ag)
      else case rid of
        JStr r \<Rightarrow>
          if r = [] then (bound_error JNull ''INVALID_REQUEST'' ''request_id is required'', ag)
          else (case operation of
             JStr op \<Rightarrow>
               if op = [] then (bound_error rid ''INVALID_REQUEST'' ''operation is required'', ag)
               else (case (if op = ''lane.open'' then denied_capabilities h b req else Inr {}) of
                  Inl _ \<Rightarrow> (bound_error rid ''INVALID_REQUEST'' ''capabilities must be a list'', ag)
                | Inr extras \<Rightarrow>
                    if extras \<noteq> {}
                    then (bound_error rid ''SESSION_CAPABILITY_DENIED''
                            (''session does not grant capabilities: '' @
                               str_other (h_env h) (JList (map JStr (sorted_list_of_set extras)))), ag)
                    else (case internal_request b r req of
                       None \<Rightarrow> (bound_error rid ''INVALID_REQUEST'' ''lane_id must be a non-empty string'', ag)
                     | Some internal \<Rightarrow>
                         (case handle_request h t internal ag of (resp, ag') \<Rightarrow> (externalize b resp r, ag'))))
           | _ \<Rightarrow> (bound_error rid ''INVALID_REQUEST'' ''operation is required'', ag))
      | _ \<Rightarrow> (bound_error JNull ''INVALID_REQUEST'' ''request_id is required'', ag))"

definition session_close :: "host \<Rightarrow> session_binding \<Rightarrow> pyfloat \<Rightarrow> agent \<Rightarrow> dict \<times> agent" where
  "session_close h b now ag = close_session h now (session_id b) ag"

section \<open>Session prefixes\<close>

lemma session_id_no_colon: "CHR '':'' \<notin> set (b64u r)"
proof
  assume "CHR '':'' \<in> set (b64u r)"
  then obtain n where "n \<in> set (b64_sextets r)" "CHR '':'' = b64_char n" by (auto simp: b64u_def)
  then have "b64_value (CHR '':'') = Some n" using b64_char_facts [of n] b64_sextets_lt by metis
  moreover have "b64_value (CHR '':'') = None" by code_simp
  ultimately show False by simp
qed

lemma prefix_unique:
  assumes "CHR '':'' \<notin> set a" "CHR '':'' \<notin> set b" "prefix (a @ ''::'') k" "prefix (b @ ''::'') k"
  shows "a = b"
proof -
  have "takeWhile (\<lambda>c. c \<noteq> CHR '':'') k = a" if "CHR '':'' \<notin> set a" "prefix (a @ ''::'') k" for a
    using that by (auto simp: prefix_def takeWhile_append2 takeWhile_tail intro: takeWhile_eq_all_conv [THEN iffD2])
  then show ?thesis using assms by metis
qed

definition in_session :: "session_binding \<Rightarrow> string \<Rightarrow> bool" where
  "in_session b k \<longleftrightarrow> prefix (lane_prefix b) k"

lemma in_session_unique:
  assumes "CHR '':'' \<notin> set (session_id b)" "CHR '':'' \<notin> set (session_id b')" "in_session b k" "in_session b' k"
  shows "session_id b = session_id b'"
  using assms prefix_unique unfolding in_session_def lane_prefix_def by blast

section \<open>What one call does\<close>

lemma internal_requestD:
  assumes "internal_request b r req = Some ireq"
  shows "dict_get ireq k d = (if k = ''request_id'' then JStr (request_prefix b @ r)
      else if k = ''lane_id'' then (case map_of req ''lane_id'' of Some (JStr s) \<Rightarrow> JStr (lane_prefix b @ s) | _ \<Rightarrow> d)
      else dict_get req k d)"
    "named_lane h ireq = None \<or> (\<exists>lid. named_lane h ireq = Some lid \<and> in_session b lid)"
    "requested_caps h ireq = requested_caps h req"
proof -
  consider (absent) "map_of req ''lane_id'' = None" "ireq = AList.update ''request_id'' (JStr (request_prefix b @ r)) req"
    | (named) s where "map_of req ''lane_id'' = Some (JStr s)"
        "ireq = AList.update ''lane_id'' (JStr (lane_prefix b @ s)) (AList.update ''request_id'' (JStr (request_prefix b @ r)) req)"
    using assms by (auto simp: internal_request_def Let_def dict_simps split: option.splits json.splits if_splits)
  then have "dict_get ireq k d = (if k = ''request_id'' then JStr (request_prefix b @ r)
      else if k = ''lane_id'' then (case map_of req ''lane_id'' of Some (JStr s) \<Rightarrow> JStr (lane_prefix b @ s) | _ \<Rightarrow> d)
      else dict_get req k d) \<and>
    (named_lane h ireq = None \<or> (\<exists>lid. named_lane h ireq = Some lid \<and> in_session b lid)) \<and>
    requested_caps h ireq = requested_caps h req"
    by cases (auto simp: dict_get_def dict_simps named_lane_def arg_str_def dict_item_def in_session_def requested_caps_def)
  then show "dict_get ireq k d = (if k = ''request_id'' then JStr (request_prefix b @ r)
      else if k = ''lane_id'' then (case map_of req ''lane_id'' of Some (JStr s) \<Rightarrow> JStr (lane_prefix b @ s) | _ \<Rightarrow> d)
      else dict_get req k d)"
    "named_lane h ireq = None \<or> (\<exists>lid. named_lane h ireq = Some lid \<and> in_session b lid)"
    "requested_caps h ireq = requested_caps h req" by simp_all
qed

lemma session_call_cases:
  assumes run: "session_call h b now_ms t req ag = (resp, ag')"
  obtains (refused) "ag' = ag"
  | (passed) r ireq resp0 where "now_ms < expires_at_ms b" "internal_request b r req = Some ireq"
      "handle_request h t ireq ag = (resp0, ag')" "resp = externalize b resp0 r"
      "dict_get req ''operation'' JNull = JStr ''lane.open'' \<Longrightarrow> requested_caps h req \<subseteq> granted_capabilities b"
proof -
  have "ag' = ag \<or> (\<exists>r ireq resp0. now_ms < expires_at_ms b \<and> internal_request b r req = Some ireq
      \<and> handle_request h t ireq ag = (resp0, ag') \<and> resp = externalize b resp0 r
      \<and> (dict_get req ''operation'' JNull = JStr ''lane.open'' \<longrightarrow> requested_caps h req \<subseteq> granted_capabilities b))"
    using run
    by (simp add: session_call_def Let_def requested_caps_def denied_capabilities_def not_le
        split: if_splits json.splits sum.splits option.splits prod.splits) blast+
  then show ?thesis using refused passed by blast
qed

lemma session_lane_effect:
  assumes "registry_inv (h_env h) (a_registry ag)" "bridge_authorizes h" "session_call h b now_ms t req ag = (resp, ag')"
  shows "\<exists>lid. (\<forall>k. lid = Some k \<longrightarrow> in_session b k)
    \<and> lane_effect (t_now t) lid (granted_capabilities b) (a_registry ag) (a_registry ag')
    \<and> registry_inv (h_env h) (a_registry ag')"
  using assms(3)
proof (cases rule: session_call_cases)
  case refused
  then show ?thesis using assms(1) quiet_effect [OF quiet_refl] by (intro exI [of _ None]) simp
next
  case (passed r ireq resp0)
  note d = internal_requestD [OF passed(2)]
  have op: "dict_get ireq ''operation'' JNull = dict_get req ''operation'' JNull" using d(1) by simp
  have "lane_effect (t_now t) (named_lane h ireq)
      (if dict_get req ''operation'' JNull = JStr ''lane.open'' then requested_caps h req else {}) (a_registry ag) (a_registry ag')"
    using handle_lane_effect [OF assms(1,2) passed(3)] unfolding op d(3) .
  then have "lane_effect (t_now t) (named_lane h ireq) (granted_capabilities b) (a_registry ag) (a_registry ag')"
    using passed(5) unfolding lane_effect_def by (auto split: if_splits) blast
  moreover have "\<forall>k. named_lane h ireq = Some k \<longrightarrow> in_session b k" using d(2) [of h] by auto
  ultimately show ?thesis using handle_registry_inv [OF assms(1,2) passed(3)] by blast
qed

lemma session_proc_effect:
  assumes "fresh_handles (h_pe h)" "table_ok (a_procs ag)" "session_call h b now_ms t req ag = (resp, ag')"
  shows "\<exists>lid. (\<forall>k. lid = Some k \<longrightarrow> in_session b k) \<and> proc_effect lid (a_procs ag) (a_procs ag')"
  using assms(3)
proof (cases rule: session_call_cases)
  case refused
  then show ?thesis by (intro exI [of _ None]) simp
next
  case (passed r ireq resp0)
  then show ?thesis using handle_proc_effect [OF assms(1,2) passed(3)] internal_requestD(2) [OF passed(2), of h]
    by (intro exI [of _ "named_lane h ireq"]) auto
qed


section \<open>Listings\<close>

lemma external_laneD:
  "j \<in> set (external_lane pre v) \<Longrightarrow> \<exists>kvs s. map_of kvs ''lane_id'' = Some (JStr s) \<and> prefix pre s
     \<and> j = JObj (AList.update ''lane_id'' (JStr (drop (length pre) s)) kvs)"
  by (cases "(pre, v)" rule: external_lane.cases) (auto split: option.splits json.splits if_splits, metis)

lemma externalize_listing:
  assumes "map_of (externalize b resp0 r) ''result'' = Some (JObj p)" "map_of p ''lanes'' = Some (JList js)" "j \<in> set js"
  shows "\<exists>v. j \<in> set (external_lane (lane_prefix b) v)"
proof -
  define res where "res = AList.update ''request_id'' (JStr r) resp0"
  have eq: "map_of res ''result'' = map_of resp0 ''result''" by (simp add: res_def dict_simps)
  show ?thesis
  proof (cases "\<exists>payload. map_of resp0 ''result'' = Some (JObj payload)")
    case False
    then have "externalize b resp0 r = res"
      by (auto simp: externalize_def Let_def res_def [symmetric] eq split: option.splits json.splits)
    then show ?thesis using assms(1) False eq by simp
  next
    case True
    then obtain payload where pl: "map_of res ''result'' = Some (JObj payload)" using eq by auto
    obtain p1 where p: "p = (case map_of p1 ''lanes'' of
        Some (JList ls) \<Rightarrow> AList.update ''lanes'' (JList (concat (map (external_lane (lane_prefix b)) ls))) p1 | _ \<Rightarrow> p1)"
      using assms(1) unfolding externalize_def Let_def res_def [symmetric] pl by (simp add: dict_simps) blast
    have "\<exists>ls. map_of p1 ''lanes'' = Some (JList ls)"
      using p assms(2) by (auto split: option.splits json.splits)
    then obtain ls where "map_of p1 ''lanes'' = Some (JList ls)" ..
    then have "js = concat (map (external_lane (lane_prefix b)) ls)" using p assms(2) by (simp add: dict_simps)
    then show ?thesis using assms(3) by auto
  qed
qed

lemma bound_error_no_result: "map_of (bound_error rid c m) ''result'' = None"
  by (simp add: bound_error_def)

lemma session_response:
  assumes "session_call h b now_ms t req ag = (resp, ag')"
  shows "map_of resp ''result'' = None \<or> (\<exists>r resp0. resp = externalize b resp0 r)"
  using assms bound_error_no_result
  by (auto simp: session_call_def Let_def split: if_splits json.splits sum.splits option.splits prod.splits)

lemma session_listing:
  assumes "session_call h b now_ms t req ag = (resp, ag')"
    and "map_of resp ''result'' = Some (JObj p)" "map_of p ''lanes'' = Some (JList js)" "j \<in> set js"
  shows "\<exists>kvs s. map_of kvs ''lane_id'' = Some (JStr s) \<and> in_session b s
     \<and> j = JObj (AList.update ''lane_id'' (JStr (drop (length (lane_prefix b)) s)) kvs)"
proof -
  obtain r resp0 where "resp = externalize b resp0 r" using session_response [OF assms(1)] assms(2) by auto
  then obtain v where "j \<in> set (external_lane (lane_prefix b) v)" using externalize_listing assms(2-4) by blast
  then show ?thesis using external_laneD unfolding in_session_def by blast
qed

lemma internal_distinct: "internal_request b r req = Some i \<Longrightarrow> distinct (map fst req) \<Longrightarrow> distinct (map fst i)"
  by (auto simp: internal_request_def Let_def distinct_update split: option.splits json.splits if_splits)

lemma internal_lane:
  "internal_request b r req = Some i \<Longrightarrow> map_of req ''lane_id'' = Some (JStr s) \<Longrightarrow>
   map_of i ''lane_id'' = Some (JStr (lane_prefix b @ s))"
  by (auto simp: internal_request_def Let_def dict_simps split: option.splits json.splits if_splits)


section \<open>Runs of several sessions\<close>

definition lanes_shrink :: "pyenv \<Rightarrow> registry \<Rightarrow> registry \<Rightarrow> bool" where
  "lanes_shrink env reg reg' \<longleftrightarrow> registry_inv env reg' \<and> map_of (lanes reg') \<subseteq>\<^sub>m map_of (lanes reg)
     \<and> session_capabilities reg' = session_capabilities reg"

lemma close_shrinks:
  "registry_inv env reg \<Longrightarrow> close lid tok now reg = (r, reg') \<Longrightarrow> lanes_shrink env reg reg'"
  using close_inv [of env reg lid tok now]
  by (auto simp: lanes_shrink_def close_def require_lane_locked_def dict_simps map_le_def split: option.splits if_splits)

lemma close_lanes_shrink:
  assumes "registry_inv env (a_registry ag)" "close_lanes h now ls ag rep = (rep', ag')"
  shows "lanes_shrink env (a_registry ag) (a_registry ag')"
  using assms
proof (induction h now ls ag rep rule: close_lanes.induct)
  case (1 h now ag rep)
  then show ?case by (simp add: lanes_shrink_def)
next
  case (2 h now l ls ag rep)
  obtain r pt where c: "close_lane_processes (h_pe h) (lane_id l) (fencing_token l) (a_procs ag) = (r, pt)" by fastforce
  obtain q reg where d: "close (lane_id l) (fencing_token l) now (a_registry ag) = (q, reg)" by fastforce
  have s: "lanes_shrink env (a_registry ag) reg" by (rule close_shrinks [OF 2(4) d])
  then have i: "registry_inv env reg" by (simp add: lanes_shrink_def)
  show ?case
  proof (cases r)
    case (Inl e)
    then show ?thesis using 2(1) [OF c [symmetric] Inl] 2(4,5) c by simp
  next
    case (Inr hs)
    have "\<exists>rep1. close_lanes h now ls (ag\<lparr>a_procs := pt, a_registry := reg\<rparr>) rep1 = (rep', ag')"
      using 2(5) c Inr d by (cases q) (auto simp: Let_def)
    then obtain rep1 where "close_lanes h now ls (ag\<lparr>a_procs := pt, a_registry := reg\<rparr>) rep1 = (rep', ag')" ..
    then have "lanes_shrink env reg (a_registry ag')"
      using 2(2,3) [OF c [symmetric] Inr _ d [symmetric]] i 2(5) c Inr d by (cases q) (auto simp: Let_def)
    then show ?thesis using s map_le_trans unfolding lanes_shrink_def by blast
  qed
qed

lemma session_close_shrinks:
  assumes "registry_inv (h_env h) (a_registry ag)" "session_close h b now ag = (rep, ag')"
  shows "lanes_shrink (h_env h) (a_registry ag) (a_registry ag')"
proof -
  define reg where "reg = snd (reap_expired_locked now (a_registry ag))"
  have q: "quiet now (a_registry ag) reg" unfolding reg_def by (rule reap_quiet [OF assms(1)])
  obtain ls rep0 rep1 where "close_lanes h now ls (ag\<lparr>a_registry := reg\<rparr>) rep0 = (rep1, ag')"
    using assms(2) by (auto simp: session_close_def close_session_def snapshot_def reg_def Let_def split: prod.splits)
  from close_lanes_shrink [OF _ this, of "h_env h"] show ?thesis
    using q assms(1) map_le_trans unfolding quiet_def lanes_shrink_def by fastforce
qed

text \<open>
  Several sessions call into one agent and close, in any order, while running processes change the
  files and the process table.
\<close>

inductive session_run :: "host \<Rightarrow> session_binding set \<Rightarrow> agent \<Rightarrow> bool" for h B where
  fresh_agent: "LaneRegistry caps n = Inr (a_registry ag) \<Longrightarrow> session_run h B ag"
| one_call: "session_run h B ag \<Longrightarrow> b \<in> B \<Longrightarrow> session_call h b now_ms t req ag = (resp, ag') \<Longrightarrow> session_run h B ag'"
| one_close: "session_run h B ag \<Longrightarrow> b \<in> B \<Longrightarrow> session_close h b now ag = (rep, ag') \<Longrightarrow> session_run h B ag'"
| processes: "session_run h B ag \<Longrightarrow> session_run h B (ag\<lparr>a_procs := pt, a_fs := f\<rparr>)"

definition within_grants :: "session_binding set \<Rightarrow> registry \<Rightarrow> bool" where
  "within_grants B reg \<longleftrightarrow> (\<forall>k l. map_of (lanes reg) k = Some l \<longrightarrow>
     (\<exists>b \<in> B. in_session b k \<and> capabilities l \<subseteq> granted_capabilities b))"

lemma within_grants_effect:
  assumes "within_grants B reg" "lane_effect now lid (granted_capabilities b) reg reg'" "b \<in> B"
    and "\<forall>k. lid = Some k \<longrightarrow> in_session b k"
  shows "within_grants B reg'"
  unfolding within_grants_def
proof (intro allI impI)
  fix k l'
  assume "map_of (lanes reg') k = Some l'"
  then consider l where "map_of (lanes reg) k = Some l" "capabilities l' = capabilities l"
    | "Some k = lid" "capabilities l' \<subseteq> granted_capabilities b"
    using assms(2) unfolding lane_effect_def by blast
  then show "\<exists>b \<in> B. in_session b k \<and> capabilities l' \<subseteq> granted_capabilities b"
  proof cases
    case 1
    then show ?thesis using assms(1) unfolding within_grants_def by metis
  next
    case 2
    then show ?thesis using assms(3,4) by metis
  qed
qed

lemma within_grants_shrink: "within_grants B reg \<Longrightarrow> lanes_shrink env reg reg' \<Longrightarrow> within_grants B reg'"
  unfolding within_grants_def lanes_shrink_def map_le_def by (metis domI)

lemma session_run_inv:
  assumes "session_run h B ag" "bridge_authorizes h"
  shows "registry_inv (h_env h) (a_registry ag) \<and> within_grants B (a_registry ag)"
  using assms
proof (induction rule: session_run.induct)
  case (fresh_agent caps n ag)
  have "lanes (a_registry ag) = []"
    using fresh_agent(1) by (cases "a_registry ag") (auto simp: LaneRegistry_def split: if_splits)
  then show ?case using LaneRegistry_inv [OF fresh_agent(1)] by (simp add: within_grants_def)
next
  case (one_call ag b now_ms t req resp ag')
  then have i: "registry_inv (h_env h) (a_registry ag)" "within_grants B (a_registry ag)" by simp_all
  from session_lane_effect [OF i(1) one_call.prems one_call.hyps(3)] show ?case
    using within_grants_effect [OF i(2) _ one_call.hyps(2)] by blast
next
  case (one_close ag b now rep ag')
  then have i: "registry_inv (h_env h) (a_registry ag)" "within_grants B (a_registry ag)" by simp_all
  then show ?case using session_close_shrinks [OF i(1) one_close.hyps(3)] within_grants_shrink
    by (auto simp: lanes_shrink_def)
qed simp

section \<open>Properties\<close>

text \<open>
  (C28) Sessions are isolated. A call in one session leaves every unexpired lane of another session,
  and every process such a lane owns, as it was; and of the lanes a response lists, each is a lane of
  the calling session.
\<close>

theorem session_isolation:
  assumes "registry_inv (h_env h) (a_registry ag)" "table_ok (a_procs ag)" "fresh_handles (h_pe h)" "bridge_authorizes h"
    and ids: "session_id b = b64u x" "session_id b' = b64u y" "session_id b \<noteq> session_id b'"
    and run: "session_call h b now_ms t req ag = (resp, ag')"
  shows "(\<forall>k. in_session b' k \<longrightarrow> live (t_now t) (a_registry ag') k = live (t_now t) (a_registry ag) k)
    \<and> (\<forall>ph m. map_of (a_procs ag) ph = Some m \<longrightarrow> in_session b' (owner_lane_id m) \<longrightarrow> map_of (a_procs ag') ph = Some m)
    \<and> (\<forall>p js j. map_of resp ''result'' = Some (JObj p) \<longrightarrow> map_of p ''lanes'' = Some (JList js) \<longrightarrow> j \<in> set js \<longrightarrow>
         (\<exists>kvs s. map_of kvs ''lane_id'' = Some (JStr s) \<and> in_session b s
            \<and> j = JObj (AList.update ''lane_id'' (JStr (drop (length (lane_prefix b)) s)) kvs)))"
proof (intro conjI allI impI)
  have other: "lid \<noteq> Some k" if "in_session b' k" "\<forall>k. lid = Some k \<longrightarrow> in_session b k" for lid k
    using that in_session_unique [of b b' k] ids session_id_no_colon by auto
  fix k
  assume "in_session b' k"
  then show "live (t_now t) (a_registry ag') k = live (t_now t) (a_registry ag) k"
    using session_lane_effect [OF assms(1,4) run] other unfolding lane_effect_def by metis
next
  have other: "lid \<noteq> Some k" if "in_session b' k" "\<forall>k. lid = Some k \<longrightarrow> in_session b k" for lid k
    using that in_session_unique [of b b' k] ids session_id_no_colon by auto
  fix ph m
  assume m: "map_of (a_procs ag) ph = Some m" "in_session b' (owner_lane_id m)"
  obtain lid where lid: "\<forall>k. lid = Some k \<longrightarrow> in_session b k" "proc_effect lid (a_procs ag) (a_procs ag')"
    using session_proc_effect [OF assms(3,2) run] by blast
  then have "Some (owner_lane_id m) \<noteq> lid" using other [OF m(2) lid(1)] by simp
  then show "map_of (a_procs ag') ph = Some m" using lid(2) m(1) unfolding proc_effect_def by simp
next
  fix p js j
  assume l: "map_of resp ''result'' = Some (JObj p)" "map_of p ''lanes'' = Some (JList js)" "j \<in> set js"
  then show "\<exists>kvs s. map_of kvs ''lane_id'' = Some (JStr s) \<and> in_session b s
            \<and> j = JObj (AList.update ''lane_id'' (JStr (drop (length (lane_prefix b)) s)) kvs)"
    using session_listing [OF run l] by blast
qed

definition demo_binding :: "string \<Rightarrow> session_binding" where
  "demo_binding sid = \<lparr>session_id = sid, controller_principal = ''c'', workstation_principal = ''w'',
     granted_capabilities = {''fs.write''}, expires_at_ms = 100\<rparr>"

lemma demo_bridge: "bridge_authorizes demo_host" "bridge_authorizes demo_posix_host"
  by (simp_all add: bridge_authorizes_def demo_host_def demo_posix_host_def)

lemma session_isolation_witness:
  "live (Fin 20) (a_registry (snd (session_call demo_posix_host (demo_binding (b64u ''x'')) 5 demo_moment
       (demo_request ''lane.close'') demo_agent))) (b64u ''y'' @ ''::a'')
   = live (Fin 20) demo_open_registry (b64u ''y'' @ ''::a'')"
proof -
  have inv: "registry_inv (h_env demo_posix_host) (a_registry demo_agent)"
    using reg_reach_inv [OF demo_reach] by (simp add: demo_posix_host_def demo_host_def demo_agent_def)
  have ok: "table_ok (a_procs demo_agent)" "fresh_handles (h_pe demo_posix_host)"
    using demo_fresh by (simp_all add: demo_agent_def table_ok_def demo_posix_host_def demo_host_def)
  have "b64u ''x'' \<noteq> b64u ''y''" by code_simp
  then have "session_id (demo_binding (b64u ''x'')) \<noteq> session_id (demo_binding (b64u ''y''))" by (simp add: demo_binding_def)
  moreover obtain resp ag' where r: "session_call demo_posix_host (demo_binding (b64u ''x'')) 5 demo_moment
       (demo_request ''lane.close'') demo_agent = (resp, ag')" by fastforce
  moreover have "in_session (demo_binding (b64u ''y'')) (b64u ''y'' @ ''::a'')"
    by (simp add: in_session_def lane_prefix_def demo_binding_def)
  ultimately show ?thesis
    using session_isolation [OF inv ok demo_bridge(2), of "demo_binding (b64u ''x'')" "''x''" "demo_binding (b64u ''y'')" "''y''"
        5 demo_moment "demo_request ''lane.close''" resp ag']
    by (simp add: demo_binding_def demo_moment_def demo_agent_def)
qed

lemma session_lane_grant:
  assumes "session_run h B ag" "bridge_authorizes h" "\<forall>b \<in> B. CHR '':'' \<notin> set (session_id b)" "inj_on session_id B"
    "b \<in> B" "in_session b lid" "map_of (lanes (a_registry ag)) lid = Some l"
  shows "capabilities l \<subseteq> granted_capabilities b"
proof -
  obtain b' where b': "b' \<in> B" "in_session b' lid" "capabilities l \<subseteq> granted_capabilities b'"
    using session_run_inv [OF assms(1,2)] assms(7) unfolding within_grants_def by blast
  then have "session_id b' = session_id b" using in_session_unique assms(3,5,6) by blast
  then have "b' = b" using assms(4,5) b'(1) by (meson inj_onD)
  then show ?thesis using b'(3) by blast
qed

text \<open>
  A session never exceeds its grant. However many sessions, with pairwise different ids, share
  the agent and however their calls and closings interleave, an access that the registry authorizes
  for a lane of a session uses a capability that the handshake granted to that session.
\<close>

theorem session_capability_ceiling:
  assumes run: "session_run h B ag" and "bridge_authorizes h"
    and ids: "\<forall>b \<in> B. CHR '':'' \<notin> set (session_id b)" "inj_on session_id B"
    and b: "b \<in> B" "in_session b lid"
    and auth: "authorize (h_env h) lid tok cap rk rm now (a_registry ag) = (Inr l, reg')"
  shows "cap \<in> granted_capabilities b"
proof -
  have l: "map_of (lanes (a_registry ag)) lid = Some l" "cap \<in> capabilities l"
    using auth authorize_lease [of "h_env h" lid tok cap rk rm now "a_registry ag" l] by (auto simp: lease_live_iff)
  then show ?thesis using session_lane_grant [OF run assms(2) ids b] by blast
qed

definition demo_open_request :: dict where
  "demo_open_request = [(''protocol_version'', JStr ''veraport-v1''), (''request_id'', JStr ''r1''),
     (''operation'', JStr ''lane.open''), (''lane_id'', JStr ''a''), (''task_id'', JStr ''t''),
     (''capabilities'', JList [JStr ''fs.write'']),
     (''claims'', JList [JObj [(''key'', JStr ''fs:/w''), (''mode'', JStr ''write'')]]), (''ttl_s'', JInt 300)]"

definition demo_fresh_agent :: agent where
  "demo_fresh_agent = \<lparr>a_registry = demo_registry, a_store = None, a_fs = demo_fs, a_procs = []\<rparr>"

lemma demo_internal:
  "internal_request (demo_binding ''s'') ''r1'' demo_open_request =
     Some (AList.update ''lane_id'' (JStr ''s::a'') (AList.update ''request_id'' (JStr ''c::r1'') demo_open_request))"
  by (simp add: internal_request_def demo_open_request_def demo_binding_def lane_prefix_def request_prefix_def Let_def)

lemma demo_open_dispatch:
  assumes "req = AList.update ''lane_id'' (JStr ''s::a'') (AList.update ''request_id'' (JStr ''c::r1'') demo_open_request)"
  shows "a_registry (snd (handle_request demo_posix_host (demo_moment\<lparr>t_now := Fin 10\<rparr>) req demo_fresh_agent)) = demo_open_registry"
proof -
  have v: "valid_request req = Some (''c::r1'', ''lane.open'')"
    by (simp add: assms valid_request_def demo_open_request_def dict_get_def)
  have c: "claim_of_json demo_posix_host (JObj [(''key'', JStr ''fs:/w''), (''mode'', JStr ''write'')]) = Inr (ResourceClaim ''fs:/w'' WRITE)"
    by (simp add: arg_str_def dict_item_def claim_mode_of_def mk_resource_claim_def)
  have "do_lane_open demo_posix_host (demo_moment\<lparr>t_now := Fin 10\<rparr>) req demo_fresh_agent =
      (case agent_open_lane demo_posix_host (demo_moment\<lparr>t_now := Fin 10\<rparr>) ''s::a'' ''t'' {''fs.write''} [ResourceClaim ''fs:/w'' WRITE]
         (Fin 300) demo_fresh_agent of (Inl e, ag') \<Rightarrow> (Inl e, ag') | (Inr l, ag') \<Rightarrow> (Inr (lane_json l), ag'))"
    unfolding do_lane_open_def assms
    by (simp add: arg_str_def dict_item_def dict_get_def demo_open_request_def c del: claim_of_json.simps)
  then show ?thesis using v
    by (simp add: handle_request_eq handle_checked_def demo_fresh_agent_def dispatch_def agent_open_lane_def
        demo_posix_host_def demo_open)
qed

lemma demo_session_run:
  "\<exists>ag. session_run demo_posix_host {demo_binding ''s''} ag \<and> a_registry ag = demo_open_registry"
proof -
  have start: "session_run demo_posix_host {demo_binding ''s''} demo_fresh_agent"
    by (rule fresh_agent [of "{''fs.read'', ''fs.write''}" 2]) (simp add: demo_fresh_agent_def demo_start)
  obtain resp ag' where r: "session_call demo_posix_host (demo_binding ''s'') 5 (demo_moment\<lparr>t_now := Fin 10\<rparr>) demo_open_request demo_fresh_agent
      = (resp, ag')" by fastforce
  have ms: "expires_at_ms (demo_binding ''s'') = 100" by (simp add: demo_binding_def)
  have "dict_get demo_open_request ''request_id'' JNull = JStr ''r1''" "dict_get demo_open_request ''operation'' JNull = JStr ''lane.open''"
    "denied_capabilities demo_posix_host (demo_binding ''s'') demo_open_request = Inr {}"
    by (simp_all add: demo_open_request_def dict_get_def denied_capabilities_def demo_binding_def)
  then have "a_registry ag' = demo_open_registry"
    using r demo_open_dispatch [OF refl] ms
    by (simp add: session_call_def Let_def demo_internal case_prod_unfold)
  then show ?thesis using one_call [OF start _ r] by blast
qed

lemma session_capability_ceiling_witness:
  "\<exists>ag l. session_run demo_posix_host {demo_binding ''s''} ag
     \<and> authorize posix_env ''s::a'' 1 ''fs.write'' (Some ''fs:/w'') (Some WRITE) (Fin 20) (a_registry ag) = (Inr l, a_registry ag)
     \<and> ''fs.write'' \<in> granted_capabilities (demo_binding ''s'')"
proof -
  obtain ag where ag: "session_run demo_posix_host {demo_binding ''s''} ag" "a_registry ag = demo_open_registry"
    using demo_session_run by blast
  have au: "authorize (h_env demo_posix_host) ''s::a'' 1 ''fs.write'' (Some ''fs:/w'') (Some WRITE) (Fin 20) (a_registry ag) = (Inr demo_lane, a_registry ag)"
    using demo_authorize [of "''fs:/w''"] ag(2) by (simp add: demo_posix_host_def)
  have "in_session (demo_binding ''s'') ''s::a''" by (simp add: in_session_def lane_prefix_def demo_binding_def)
  then have "''fs.write'' \<in> granted_capabilities (demo_binding ''s'')"
    using session_capability_ceiling [OF ag(1) demo_bridge(2) _ _ _ _ au, of "demo_binding ''s''"] by (simp add: demo_binding_def)
  then show ?thesis using ag au by (auto simp: demo_posix_host_def)
qed


lemma json_env_digest: "request_digest demo_host p = request_digest demo_host q \<Longrightarrow> json_sorted (JObj p) = json_sorted (JObj q)"
  by (auto simp: request_digest_def demo_host_def json_env_def posix_env_def dest!: digits_inj injD [OF inj_to_nat])

lemma demo_reconnect_request:
  "\<exists>i. internal_request (demo_binding sid) ''r1'' (demo_request ''lane.renew'') = Some i \<and> executes demo_host demo_moment i demo_agent ''c::r1''"
proof -
  define i where "i = AList.update ''lane_id'' (JStr (sid @ ''::s::a'')) (AList.update ''request_id'' (JStr ''c::r1'') (demo_request ''lane.renew''))"
  have i: "internal_request (demo_binding sid) ''r1'' (demo_request ''lane.renew'') = Some i"
    by (simp add: internal_request_def i_def demo_request_def demo_binding_def lane_prefix_def request_prefix_def Let_def)
  have "valid_request i = Some (''c::r1'', ''lane.renew'')"
    by (simp add: valid_request_def i_def demo_request_def dict_get_def)
  then have "executes demo_host demo_moment i demo_agent ''c::r1''"
    by (simp add: executes_def demo_agent_def demo_store_def DURABLE_MUTATING_OPERATIONS_def begin_NEW_iff
        demo_moment_def request_record_count_def)
  then show ?thesis using i by blast
qed


end
