(* ===== verification/Stream_Frames.thy ===== *)
theory Stream_Frames
  imports VM_Prelude
begin

text \<open>
  \<^verbatim>\<open>stream.py\<close>: length-prefixed JSON frames on a byte stream, the client that correlates many requests
  on one connection, and the server loop with its admission bound. Bytes are characters. The text of
  a value and its parser are those of \<^verbatim>\<open>json\<close> (\<open>json_dumps\<close>, \<open>json_loads\<close> of \<open>pyenv\<close>, where the parser
  also refuses bytes that are not UTF-8); \<^verbatim>\<open>readexactly\<close> is taking a prefix of what the peer sent, and
  fails at the end of the stream.
\<close>

section \<open>Frames\<close>

definition be32 :: "nat \<Rightarrow> string" where
  "be32 n = [byte_of (n div 16777216 mod 256), byte_of (n div 65536 mod 256), byte_of (n div 256 mod 256), byte_of (n mod 256)]"

definition from_be :: "string \<Rightarrow> nat" where
  "from_be bs = foldl (\<lambda>acc c. acc * 256 + byte_val c) 0 bs"

definition readexactly :: "nat \<Rightarrow> string \<Rightarrow> (string \<times> string) result" where
  "readexactly n s = (if length s < n then Inl (Stream StreamClosed) else Inr (take n s, drop n s))"

definition read_frame :: "pyenv \<Rightarrow> nat \<Rightarrow> string \<Rightarrow> (dict \<times> string) result" where
  "read_frame env max_frame_bytes s =
     (case readexactly 4 s of
        Inl e \<Rightarrow> Inl e
      | Inr (header, s1) \<Rightarrow>
          let size = from_be header in
          if size < 2 \<or> size > max_frame_bytes then Inl (Stream FrameTooLarge)
          else (case readexactly size s1 of
             Inl e \<Rightarrow> Inl e
           | Inr (raw, s2) \<Rightarrow>
               (case json_loads env raw of
                  Inr (JObj value) \<Rightarrow> Inr (value, s2)
                | _ \<Rightarrow> Inl (Stream StreamProtocolError))))"

definition encode_frame_payload :: "pyenv \<Rightarrow> nat \<Rightarrow> dict \<Rightarrow> string result" where
  "encode_frame_payload env max_frame_bytes value =
     (let raw = json_dumps env (JObj value) in
      if length raw > max_frame_bytes then Inl (Stream FrameTooLarge) else Inr raw)"

text \<open>What \<^verbatim>\<open>write_frame\<close> puts on the stream; \<^verbatim>\<open>struct.pack\<close> raises where the length has no 32 bits.\<close>

definition write_frame :: "pyenv \<Rightarrow> nat \<Rightarrow> dict \<Rightarrow> string result" where
  "write_frame env max_frame_bytes value =
     (case encode_frame_payload env max_frame_bytes value of
        Inl e \<Rightarrow> Inl e
      | Inr raw \<Rightarrow> if length raw \<ge> 2 ^ 32 then Inl (Py ValueError) else Inr (be32 (length raw) @ raw))"

lemma readexactly_shorter: "readexactly n s = Inr (a, s') \<Longrightarrow> length s = n + length s'"
  by (auto simp: readexactly_def split: if_splits)

lemma read_frame_shorter:
  assumes "read_frame env n s = Inr (v, s')"
  shows "length s' < length s"
proof -
  obtain header s1 raw k where "readexactly 4 s = Inr (header, s1)" "readexactly k s1 = Inr (raw, s')"
    using assms by (auto simp: read_frame_def Let_def split: sum.splits json.splits if_splits)
  then show ?thesis by (auto dest!: readexactly_shorter)
qed

function read_frames :: "pyenv \<Rightarrow> nat \<Rightarrow> string \<Rightarrow> dict list \<times> exn" where
  "read_frames env n s =
     (case read_frame env n s of
        Inl e \<Rightarrow> ([], e)
      | Inr (v, s') \<Rightarrow> (case read_frames env n s' of (vs, e) \<Rightarrow> (v # vs, e)))"
  by pat_completeness auto
termination
  by (relation "measure (\<lambda>(env, n, s). length s)") (auto dest: read_frame_shorter)

declare read_frames.simps [simp del]

lemma byte_val_of: "n < 256 \<Longrightarrow> byte_val (byte_of n) = n"
  by (simp add: byte_val_def byte_of_def)

lemma from_be32:
  assumes "n < 2 ^ 32"
  shows "from_be (be32 n) = n"
proof -
  have top: "n div 16777216 < 256" using assms by (simp add: less_mult_imp_div_less)
  have "n div 65536 = n div 16777216 * 256 + n div 65536 mod 256"
    using div_mult_mod_eq [of "n div 65536" 256] by (simp add: div_mult2_eq [symmetric])
  moreover have "n div 256 = n div 65536 * 256 + n div 256 mod 256"
    using div_mult_mod_eq [of "n div 256" 256] by (simp add: div_mult2_eq [symmetric])
  moreover have "n = n div 256 * 256 + n mod 256" by simp
  ultimately have "((n div 16777216 * 256 + n div 65536 mod 256) * 256 + n div 256 mod 256) * 256 + n mod 256 = n"
    by metis
  then show ?thesis using top by (simp add: from_be_def be32_def byte_val_of)
qed

lemma length_be32 [simp]: "length (be32 n) = 4"
  by (simp add: be32_def)

lemma read_written:
  assumes "write_frame env n v = Inr fr" "json_loads env (json_dumps env (JObj v)) = Inr (JObj w)"
    and "2 \<le> length (json_dumps env (JObj v))"
  shows "read_frame env n (fr @ rest) = Inr (w, rest)"
proof -
  define raw where "raw = json_dumps env (JObj v)"
  have fr: "fr = be32 (length raw) @ raw" "length raw \<le> n" "length raw < 2 ^ 32"
    using assms(1) by (auto simp: write_frame_def encode_frame_payload_def raw_def Let_def split: if_splits)
  then show ?thesis using assms(2,3) from_be32 [OF fr(3)]
    by (simp add: read_frame_def readexactly_def raw_def)
qed

lemma read_cut:
  assumes "write_frame env n v = Inr fr" "2 \<le> length (json_dumps env (JObj v))" "k < length fr"
  shows "read_frame env n (take k fr) = Inl (Stream StreamClosed)"
proof -
  define raw where "raw = json_dumps env (JObj v)"
  have fr: "fr = be32 (length raw) @ raw" "length raw \<le> n" "length raw < 2 ^ 32"
    using assms(1) by (auto simp: write_frame_def encode_frame_payload_def raw_def Let_def split: if_splits)
  show ?thesis
  proof (cases "k < 4")
    case True
    then show ?thesis using fr(1) by (simp add: read_frame_def readexactly_def)
  next
    case False
    then have "take k fr = be32 (length raw) @ take (k - 4) raw" "k - 4 < length raw"
      using fr(1) assms(3) by auto
    then show ?thesis using assms(2) fr(2) from_be32 [OF fr(3)]
      by (simp add: read_frame_def readexactly_def raw_def)
  qed
qed


text \<open>The frames on a stream: a sequence of written frames, of which the last may have been cut off.\<close>

fun write_frames :: "pyenv \<Rightarrow> nat \<Rightarrow> dict list \<Rightarrow> string result" where
  "write_frames env n [] = Inr []"
| "write_frames env n (v # vs) =
     (case write_frame env n v of
        Inl e \<Rightarrow> Inl e
      | Inr fr \<Rightarrow> (case write_frames env n vs of Inl e \<Rightarrow> Inl e | Inr rest \<Rightarrow> Inr (fr @ rest)))"

definition sorted_dict :: "dict \<Rightarrow> dict" where
  "sorted_dict d = sort_key fst (map (\<lambda>(k, v). (k, json_sorted v)) d)"

lemma read_frames_written:
  assumes "write_frames env n vs = Inr bytes"
    and "\<And>v. v \<in> set vs \<Longrightarrow> json_loads env (json_dumps env (JObj v)) = Inr (JObj (sorted_dict v))"
    and "\<And>v. v \<in> set vs \<Longrightarrow> 2 \<le> length (json_dumps env (JObj v))"
  shows "read_frames env n (bytes @ rest) = map_prod (\<lambda>ws. map sorted_dict vs @ ws) (\<lambda>e. e) (read_frames env n rest)"
  using assms
proof (induction vs arbitrary: bytes)
  case Nil
  then show ?case by (simp add: map_prod_def case_prod_unfold)
next
  case (Cons v vs)
  from Cons.prems(1) obtain fr b where fr: "write_frame env n v = Inr fr" "write_frames env n vs = Inr b" "bytes = fr @ b"
    by (auto split: sum.splits)
  have "read_frame env n (fr @ (b @ rest)) = Inr (sorted_dict v, b @ rest)"
    using fr(1) Cons.prems(2,3) by (simp add: read_written)
  moreover have "read_frames env n (b @ rest) = map_prod (\<lambda>ws. map sorted_dict vs @ ws) (\<lambda>e. e) (read_frames env n rest)"
    using Cons.IH [OF fr(2)] Cons.prems(2,3) by simp
  ultimately show ?case by (simp add: read_frames.simps [of env n "fr @ b @ rest"] fr(3) map_prod_def case_prod_unfold)
qed

text \<open>
  (C34) Whatever the peer wrote as frames is read back value by value in the same order (keys sorted, as
  they were serialized), and a stream that breaks off inside the next frame, at any byte of it, yields
  these values and then the closed-stream error, never part of a frame.
\<close>
theorem frames_roundtrip:
  assumes "write_frames env n vs = Inr bytes" "write_frame env n v = Inr fr" "k < length fr"
    and "\<forall>d \<in> set (v # vs). json_loads env (json_dumps env (JObj d)) = Inr (json_sorted (JObj d))"
    and "\<forall>d \<in> set (v # vs). 2 \<le> length (json_dumps env (JObj d))"
  shows "read_frames env n (bytes @ take k fr) = (map sorted_dict vs, Stream StreamClosed)"
proof -
  have "read_frames env n (take k fr) = ([], Stream StreamClosed)"
    using read_cut [OF assms(2) _ assms(3)] assms(5) by (simp add: read_frames.simps)
  moreover have "read_frames env n (bytes @ take k fr)
      = map_prod (\<lambda>ws. map sorted_dict vs @ ws) (\<lambda>e. e) (read_frames env n (take k fr))"
    using assms(4,5) by (intro read_frames_written [OF assms(1)]) (auto simp: sorted_dict_def)
  ultimately show ?thesis by simp
qed

definition braces_env :: pyenv where
  "braces_env = posix_env\<lparr>json_dumps := (\<lambda>_. ''{}''), json_loads := (\<lambda>_. Inr (JObj []))\<rparr>"

theorem frames_roundtrip_witness:
  "read_frames braces_env 100 (be32 2 @ ''{}'' @ be32 2 @ ''{'') = ([[]], Stream StreamClosed)"
proof -
  have "write_frames braces_env 100 [[]] = Inr (be32 2 @ ''{}'')" "write_frame braces_env 100 [] = Inr (be32 2 @ ''{}'')"
    by (simp_all add: write_frame_def encode_frame_payload_def braces_env_def flip: numeral_2_eq_2)
  then have "read_frames braces_env 100 ((be32 2 @ ''{}'') @ take 5 (be32 2 @ ''{}'')) = (map sorted_dict [[]], Stream StreamClosed)"
    by (rule frames_roundtrip) (simp_all add: braces_env_def)
  then show ?thesis by (simp add: sorted_dict_def)
qed

text \<open>The reader accepts no frame beyond the configured size, whatever the peer announces.\<close>

lemma read_frame_bounded:
  assumes "read_frame env n s = Inr (v, s')"
  shows "length s \<le> n + 4 + length s'"
proof -
  obtain header s1 raw k where "readexactly 4 s = Inr (header, s1)" "readexactly k s1 = Inr (raw, s')" "k \<le> n"
    using assms by (auto simp: read_frame_def Let_def not_less split: sum.splits json.splits if_splits)
  then show ?thesis by (auto dest!: readexactly_shorter)
qed


section \<open>The multiplexing client\<close>

text \<open>
  A call of \<^verbatim>\<open>request\<close> owns a future; calls are numbered in the order they start. \<open>mux_calls\<close> records the
  request id each call sent and \<open>mux_futures\<close> how its future was completed. \<open>mux_reader\<close> holds while the
  read loop waits for a frame, \<open>mux_closing\<close> while \<^verbatim>\<open>close\<close> waits for the writer.
\<close>

datatype future = Result dict | Exception exn | Cancelled

record mux_client =
  mux_pending :: "(string \<times> nat) list"
  mux_closed :: bool
  mux_closing :: bool
  mux_reader :: bool
  mux_calls :: "(nat \<times> string) list"
  mux_futures :: "(nat \<times> future) list"

definition mux_new :: "pyfloat \<Rightarrow> mux_client result" where
  "mux_new request_timeout_s =
     (if fle request_timeout_s (Fin 0) then Inl (Py ValueError)
      else Inr \<lparr>mux_pending = [], mux_closed = False, mux_closing = False, mux_reader = True, mux_calls = [], mux_futures = []\<rparr>)"

definition request_id_of :: "dict \<Rightarrow> string option" where
  "request_id_of d = (case map_of d ''request_id'' of Some (JStr s) \<Rightarrow> Some s | _ \<Rightarrow> None)"

text \<open>\<^verbatim>\<open>request\<close> up to its first wait: the checks and the entry in the table.\<close>

definition mux_request :: "dict \<Rightarrow> mux_client \<Rightarrow> nat result \<times> mux_client" where
  "mux_request req c =
     (case request_id_of req of
        None \<Rightarrow> (Inl (Py ValueError), c)
      | Some rid \<Rightarrow>
          if rid = [] then (Inl (Py ValueError), c)
          else if mux_closed c then (Inl (Stream StreamClosed), c)
          else if map_of (mux_pending c) rid \<noteq> None then (Inl (Stream StreamProtocolError), c)
          else let n = length (mux_calls c) in
            (Inr n, c\<lparr>mux_pending := (rid, n) # mux_pending c, mux_calls := (n, rid) # mux_calls c\<rparr>))"

text \<open>Completing a future that is not done yet, and failing every pending one.\<close>

definition complete_future :: "nat \<Rightarrow> future \<Rightarrow> (nat \<times> future) list \<Rightarrow> (nat \<times> future) list" where
  "complete_future n out fs = (if map_of fs n = None then (n, out) # fs else fs)"

definition fail_pending :: "exn \<Rightarrow> mux_client \<Rightarrow> mux_client" where
  "fail_pending e c =
     c\<lparr>mux_pending := [], mux_futures := fold (\<lambda>p. complete_future (snd p) (Exception e)) (mux_pending c) (mux_futures c)\<rparr>"

text \<open>One turn of \<^verbatim>\<open>_read_loop\<close> with what \<^verbatim>\<open>read_frame\<close> gave.\<close>

definition read_loop_failed :: "exn \<Rightarrow> mux_client \<Rightarrow> mux_client" where
  "read_loop_failed e c = (fail_pending e c)\<lparr>mux_closed := True, mux_reader := False\<rparr>"

definition mux_receive :: "dict result \<Rightarrow> mux_client \<Rightarrow> mux_client" where
  "mux_receive fr c =
     (if \<not> mux_reader c then c
      else case fr of
        Inl e \<Rightarrow> read_loop_failed e c
      | Inr response \<Rightarrow>
          (case request_id_of response of
             None \<Rightarrow> read_loop_failed (Stream StreamProtocolError) c
           | Some rid \<Rightarrow>
               (case map_of (mux_pending c) rid of
                  None \<Rightarrow> read_loop_failed (Stream StreamProtocolError) c
                | Some n \<Rightarrow> c\<lparr>mux_pending := AList.delete rid (mux_pending c),
                                 mux_futures := complete_future n (Result response) (mux_futures c),
                                 mux_reader := \<not> mux_closed c\<rparr>)))"

text \<open>
  \<^verbatim>\<open>close\<close> marks the client, waits until the writer is closed, then stops the read loop and fails what is
  still pending.
\<close>

definition mux_close :: "mux_client \<Rightarrow> mux_client" where
  "mux_close c = (if mux_closed c then c else c\<lparr>mux_closed := True, mux_closing := True\<rparr>)"

definition mux_close_finish :: "mux_client \<Rightarrow> mux_client" where
  "mux_close_finish c =
     (if mux_closing c then (fail_pending (Stream StreamClosed) c)\<lparr>mux_reader := False, mux_closing := False\<rparr> else c)"

text \<open>
  The ways \<^verbatim>\<open>request\<close> goes on after its entry: its frame cannot be written, the timer fires while it waits
  (which cancels the future and closes the client), or its task is cancelled while it waits. Only
  \<^verbatim>\<open>Exception\<close> removes the entry: a cancelled task leaves it in the table.
\<close>

definition mux_write_failed :: "string \<Rightarrow> mux_client \<Rightarrow> mux_client" where
  "mux_write_failed rid c = c\<lparr>mux_pending := AList.delete rid (mux_pending c)\<rparr>"

definition mux_timeout :: "nat \<Rightarrow> string \<Rightarrow> mux_client \<Rightarrow> mux_client" where
  "mux_timeout n rid c =
     mux_close (c\<lparr>mux_pending := AList.delete rid (mux_pending c), mux_futures := complete_future n Cancelled (mux_futures c)\<rparr>)"

definition mux_cancel :: "nat \<Rightarrow> mux_client \<Rightarrow> mux_client" where
  "mux_cancel n c = c\<lparr>mux_futures := complete_future n Cancelled (mux_futures c)\<rparr>"

inductive mux_reach :: "mux_client \<Rightarrow> bool" where
  mux_init: "mux_new t = Inr c \<Longrightarrow> mux_reach c"
| mux_step_request: "mux_reach c \<Longrightarrow> mux_request req c = (r, c') \<Longrightarrow> mux_reach c'"
| mux_step_receive: "mux_reach c \<Longrightarrow> mux_reach (mux_receive fr c)"
| mux_step_close: "mux_reach c \<Longrightarrow> mux_reach (mux_close c)"
| mux_step_finish: "mux_reach c \<Longrightarrow> mux_reach (mux_close_finish c)"
| mux_step_write: "mux_reach c \<Longrightarrow> map_of (mux_calls c) n = Some rid \<Longrightarrow> mux_reach (mux_write_failed rid c)"
| mux_step_timeout: "mux_reach c \<Longrightarrow> map_of (mux_calls c) n = Some rid \<Longrightarrow> map_of (mux_futures c) n = None \<Longrightarrow>
    mux_reach (mux_timeout n rid c)"
| mux_step_cancel: "mux_reach c \<Longrightarrow> map_of (mux_calls c) n = Some rid \<Longrightarrow> map_of (mux_futures c) n = None \<Longrightarrow>
    mux_reach (mux_cancel n c)"

lemma complete_future_lookup:
  "map_of (complete_future n out fs) m = (if m = n \<and> map_of fs n = None then Some out else map_of fs m)"
  by (auto simp: complete_future_def)

lemma fold_complete_lookup:
  "map_of (fold (\<lambda>p. complete_future (snd p) out) ps fs) m =
     (if m \<in> snd ` set ps \<and> map_of fs m = None then Some out else map_of fs m)"
  by (induction ps arbitrary: fs) (auto simp: complete_future_lookup)

text \<open>What holds of every client: the table is a partial inverse of the calls, a result answers the id its call sent.\<close>

definition mux_inv :: "mux_client \<Rightarrow> bool" where
  "mux_inv c \<longleftrightarrow> distinct (map fst (mux_pending c)) \<and> (\<forall>(rid, n) \<in> set (mux_pending c). map_of (mux_calls c) n = Some rid)
     \<and> (\<forall>n \<in> fst ` set (mux_calls c). n < length (mux_calls c))
     \<and> (\<forall>n d. map_of (mux_futures c) n = Some (Result d) \<longrightarrow> (\<exists>rid. map_of (mux_calls c) n = Some rid \<and> request_id_of d = Some rid))
     \<and> (mux_closed c \<and> \<not> mux_closing c \<longrightarrow> mux_pending c = [] \<and> \<not> mux_reader c)
     \<and> (mux_closing c \<longrightarrow> mux_closed c) \<and> (\<not> mux_closed c \<longrightarrow> mux_reader c)"


lemma mux_inv_new: "mux_new t = Inr c \<Longrightarrow> mux_inv c"
  by (auto simp: mux_new_def mux_inv_def split: if_splits)

lemma mux_inv_result_of:
  "mux_inv c \<Longrightarrow> map_of (mux_futures c) n = Some (Result d) \<Longrightarrow> \<exists>rid. map_of (mux_calls c) n = Some rid \<and> request_id_of d = Some rid"
  by (simp add: mux_inv_def)

lemma mux_inv_request:
  assumes "mux_inv c" "mux_request req c = (r, c')"
  shows "mux_inv c'"
proof -
  have old: "n < length (mux_calls c)" if "map_of (mux_calls c) n = Some rid" for n rid
    using assms(1) map_of_SomeD [OF that] by (force simp: mux_inv_def)
  have "c' = c \<or> (\<exists>rid. map_of (mux_pending c) rid = None \<and> \<not> mux_closed c \<and>
      c' = c\<lparr>mux_pending := (rid, length (mux_calls c)) # mux_pending c, mux_calls := (length (mux_calls c), rid) # mux_calls c\<rparr>)"
    using assms(2) by (simp add: mux_request_def Let_def split: option.splits if_splits) metis
  then consider "c' = c" | rid where "map_of (mux_pending c) rid = None" "\<not> mux_closed c"
      "c' = c\<lparr>mux_pending := (rid, length (mux_calls c)) # mux_pending c, mux_calls := (length (mux_calls c), rid) # mux_calls c\<rparr>"
    by blast
  then show ?thesis
  proof cases
    case (2 rid)
    have keep: "map_of (mux_calls c') n = Some k" if "map_of (mux_calls c) n = Some k" for n k
      using old [OF that] that by (simp add: 2(3))
    have "\<forall>(k, n) \<in> set (mux_pending c). map_of (mux_calls c') n = Some k"
      using assms(1) keep unfolding mux_inv_def by blast
    moreover have "\<exists>k. map_of (mux_calls c') n = Some k \<and> request_id_of d = Some k"
      if "map_of (mux_futures c) n = Some (Result d)" for n d
      using mux_inv_result_of [OF assms(1) that] keep by blast
    moreover have "\<forall>n \<in> fst ` set (mux_calls c'). n < length (mux_calls c')"
      using assms(1) by (auto simp: 2(3) mux_inv_def less_Suc_eq)
    ultimately show ?thesis using assms(1) 2(1,2)
      by (simp add: mux_inv_def map_of_eq_None_iff 2(3) split_beta)
  qed (use assms(1) in simp)
qed

lemma mux_inv_fail:
  assumes "mux_inv c"
  shows "mux_inv ((fail_pending e c)\<lparr>mux_closed := True, mux_reader := False\<rparr>)"
    "mux_closing c \<Longrightarrow> mux_inv ((fail_pending e c)\<lparr>mux_reader := False, mux_closing := False\<rparr>)"
  using assms by (auto simp: mux_inv_def fail_pending_def fold_complete_lookup split: if_splits)

lemma mux_inv_delete:
  assumes "mux_inv c"
  shows "mux_inv (c\<lparr>mux_pending := AList.delete rid (mux_pending c)\<rparr>)"
  using assms by (auto simp: mux_inv_def AList.delete_eq distinct_map_filter split: if_splits)

lemma mux_inv_result:
  assumes "mux_inv c" "map_of (mux_calls c) n = Some rid" "request_id_of d = Some rid"
  shows "mux_inv (c\<lparr>mux_futures := complete_future n (Result d) (mux_futures c)\<rparr>)"
  using assms by (auto simp: mux_inv_def complete_future_lookup split: if_splits)

lemma mux_inv_cancel: "mux_inv c \<Longrightarrow> mux_inv (mux_cancel n c)"
  by (auto simp: mux_cancel_def mux_inv_def complete_future_lookup split: if_splits)

lemma mux_inv_close: "mux_inv c \<Longrightarrow> mux_inv (mux_close c)"
  by (auto simp: mux_close_def mux_inv_def)

lemma mux_inv_pending: "mux_inv c \<Longrightarrow> map_of (mux_pending c) rid = Some n \<Longrightarrow> map_of (mux_calls c) n = Some rid"
  by (auto simp: mux_inv_def dest!: map_of_SomeD)

lemma mux_inv_receive:
  assumes "mux_inv c"
  shows "mux_inv (mux_receive fr c)"
proof -
  have "mux_inv (c\<lparr>mux_pending := AList.delete rid (mux_pending c),
      mux_futures := complete_future n (Result d) (mux_futures c), mux_reader := \<not> mux_closed c\<rparr>)"
    if "request_id_of d = Some rid" "map_of (mux_pending c) rid = Some n" for d rid n
  proof -
    have "mux_inv (c\<lparr>mux_pending := AList.delete rid (mux_pending c),
        mux_futures := complete_future n (Result d) (mux_futures c)\<rparr>)"
      using mux_inv_result [OF mux_inv_delete [OF assms, of rid], of n rid d] mux_inv_pending [OF assms that(2)] that(1) by simp
    then show ?thesis by (auto simp: mux_inv_def)
  qed
  then show ?thesis using assms mux_inv_fail(1) [OF assms]
    by (auto simp: mux_receive_def read_loop_failed_def split: sum.split option.split)
qed

lemma mux_inv_reach: "mux_reach c \<Longrightarrow> mux_inv c"
proof (induction rule: mux_reach.induct)
  case (mux_step_timeout c n rid)
  then show ?case
    using mux_inv_close [OF mux_inv_cancel [OF mux_inv_delete], of c n rid] by (simp add: mux_timeout_def mux_cancel_def)
next
  case (mux_step_finish c)
  then show ?case by (simp add: mux_close_finish_def mux_inv_fail(2))
qed (simp_all add: mux_inv_new mux_inv_request mux_inv_receive mux_inv_close mux_inv_delete mux_write_failed_def mux_inv_cancel)

text \<open>A response to a pending request completes the future of its call and no other.\<close>

lemma mux_receive_pending:
  assumes "mux_inv c" "\<not> mux_closed c" "request_id_of d = Some rid" "map_of (mux_pending c) rid = Some n"
  shows "mux_receive (Inr d) c = c\<lparr>mux_pending := AList.delete rid (mux_pending c),
    mux_futures := complete_future n (Result d) (mux_futures c)\<rparr>"
proof -
  have "mux_reader c" using assms(1,2) by (simp add: mux_inv_def)
  then show ?thesis using assms(2-4) by (simp add: mux_receive_def)
qed

definition answers :: "mux_client \<Rightarrow> nat \<Rightarrow> dict \<Rightarrow> bool" where
  "answers c n d \<longleftrightarrow> (case request_id_of d of None \<Rightarrow> False | Some rid \<Rightarrow> map_of (mux_pending c) rid = Some n)"

lemma mux_receive_all:
  assumes "mux_inv c" "\<not> mux_closed c" "distinct (map request_id_of rs)" "\<forall>d \<in> set rs. \<exists>n. answers c n d"
  shows "map_of (mux_futures (fold (\<lambda>d. mux_receive (Inr d)) rs c)) n
     = (case map_of (mux_futures c) n of None \<Rightarrow> map_option Result (find (answers c n) rs) | Some f \<Rightarrow> Some f)"
  using assms
proof (induction rs arbitrary: c)
  case Nil
  then show ?case by (simp split: option.split)
next
  case (Cons r rs)
  obtain rid m where r: "request_id_of r = Some rid" "map_of (mux_pending c) rid = Some m"
    using Cons.prems(4) by (auto simp: answers_def split: option.splits)
  define c1 where "c1 = mux_receive (Inr r) c"
  have c1: "c1 = c\<lparr>mux_pending := AList.delete rid (mux_pending c), mux_futures := complete_future m (Result r) (mux_futures c)\<rparr>"
    unfolding c1_def by (rule mux_receive_pending [OF Cons.prems(1,2) r])
  have same: "answers c1 k x = answers c k x" if "x \<in> set rs" for k x
  proof -
    have "request_id_of x \<noteq> Some rid" using Cons.prems(3) r(1) that by (auto simp: image_iff)
    then show ?thesis by (auto simp: answers_def c1 AList.delete_conv split: option.split)
  qed
  then have "find (answers c1 n) rs = find (answers c n) rs" by (intro find_cong) simp_all
  moreover have "answers c n r \<longleftrightarrow> n = m" using r by (auto simp: answers_def)
  moreover have "mux_inv c1" unfolding c1_def by (rule mux_inv_receive [OF Cons.prems(1)])
  then have "map_of (mux_futures (fold (\<lambda>d. mux_receive (Inr d)) rs c1)) n
     = (case map_of (mux_futures c1) n of None \<Rightarrow> map_option Result (find (answers c1 n) rs) | Some f \<Rightarrow> Some f)"
    using Cons.prems(2-4) same by (intro Cons.IH) (auto simp: c1)
  ultimately show ?case
    by (auto simp: c1_def [symmetric]) (auto simp: c1 complete_future_lookup split: option.split)
qed

text \<open>
  (C35) On one connection, whatever requests, responses, failures, timeouts, cancellations and closings
  came before: a call returns only a response with the request id it sent, and after the client has
  closed nothing is left pending. While it is open, responses to pending requests may arrive in any
  order: each completes the future of the call that sent its id, and every other future stays as it was.
\<close>
theorem responses_reach_their_calls:
  assumes "mux_reach c" "distinct (map request_id_of rs)" "\<forall>d \<in> set rs. \<exists>n. answers c n d"
  shows "(\<forall>n d. map_of (mux_futures c) n = Some (Result d) \<longrightarrow> request_id_of d = map_of (mux_calls c) n)
    \<and> (mux_closed c \<and> \<not> mux_closing c \<longrightarrow> mux_pending c = [])
    \<and> (\<not> mux_closed c \<longrightarrow> (\<forall>n. map_of (mux_futures (fold (\<lambda>d. mux_receive (Inr d)) rs c)) n
         = (case map_of (mux_futures c) n of None \<Rightarrow> map_option Result (find (answers c n) rs) | Some f \<Rightarrow> Some f)))"
proof -
  have inv: "mux_inv c" by (rule mux_inv_reach [OF assms(1)])
  then have "map_of (mux_futures c) n = Some (Result d) \<Longrightarrow> request_id_of d = map_of (mux_calls c) n" for n d
    by (fastforce simp: mux_inv_def)
  moreover have "mux_closed c \<and> \<not> mux_closing c \<longrightarrow> mux_pending c = []" using inv by (simp add: mux_inv_def)
  ultimately show ?thesis using mux_receive_all [OF inv _ assms(2,3)] by simp
qed

definition demo_mux0 :: mux_client where
  "demo_mux0 = \<lparr>mux_pending = [], mux_closed = False, mux_closing = False, mux_reader = True, mux_calls = [], mux_futures = []\<rparr>"

definition demo_mux :: mux_client where
  "demo_mux = demo_mux0\<lparr>mux_pending := [(''b'', 1), (''a'', 0)], mux_calls := [(1, ''b''), (0, ''a'')]\<rparr>"

lemma demo_mux_reach: "mux_reach demo_mux"
proof -
  have "mux_new (Fin 5) = Inr demo_mux0" by (simp add: mux_new_def demo_mux0_def)
  then have "mux_reach (snd (mux_request [(''request_id'', JStr ''b'')] (snd (mux_request [(''request_id'', JStr ''a'')] demo_mux0))))"
    by (intro mux_step_request [OF mux_step_request [OF mux_init]]) (assumption, rule prod.collapse [symmetric], rule prod.collapse [symmetric])
  then show ?thesis by (simp add: demo_mux_def demo_mux0_def mux_request_def request_id_of_def)
qed

theorem responses_reach_their_calls_witness:
  "map_of (mux_futures (fold (\<lambda>d. mux_receive (Inr d))
      [[(''request_id'', JStr ''a'')], [(''request_id'', JStr ''b'')]] demo_mux)) 1 = Some (Result [(''request_id'', JStr ''b'')])"
  using responses_reach_their_calls [OF demo_mux_reach,
      of "[[(''request_id'', JStr ''a'')], [(''request_id'', JStr ''b'')]]"]
  by (simp add: demo_mux_def demo_mux0_def answers_def request_id_of_def)


section \<open>The server loop\<close>

text \<open>
  \<^verbatim>\<open>serve_multiplexed\<close>: a permit is taken before the next frame is read and is given back when the reading
  fails or when the task of that frame ends, however it ends. \<open>inflight\<close> counts the tasks that have not
  ended, \<open>ended\<close> is the exception that ended the loop.
\<close>

record serve_state =
  permits :: nat
  reading :: bool
  inflight :: nat
  ended :: "exn option"

definition serve_start :: "int \<Rightarrow> serve_state result" where
  "serve_start max_inflight =
     (if max_inflight < 1 then Inl (Py ValueError)
      else Inr \<lparr>permits = nat max_inflight, reading = False, inflight = 0, ended = None\<rparr>)"

inductive serve_step :: "serve_state \<Rightarrow> serve_state \<Rightarrow> bool" where
  serve_acquire: "ended s = None \<Longrightarrow> \<not> reading s \<Longrightarrow> 0 < permits s \<Longrightarrow>
    serve_step s (s\<lparr>permits := permits s - 1, reading := True\<rparr>)"
| serve_frame: "reading s \<Longrightarrow> serve_step s (s\<lparr>reading := False, inflight := Suc (inflight s)\<rparr>)"
| serve_read_failed: "reading s \<Longrightarrow> serve_step s (s\<lparr>reading := False, permits := Suc (permits s), ended := Some e\<rparr>)"
| serve_done: "0 < inflight s \<Longrightarrow> serve_step s (s\<lparr>inflight := inflight s - 1, permits := Suc (permits s)\<rparr>)"

text \<open>The end of the loop: a closed stream is a normal return, every other exception leaves it; tasks are awaited first.\<close>

definition serve_result :: "serve_state \<Rightarrow> unit result option" where
  "serve_result s =
     (case ended s of
        None \<Rightarrow> None
      | Some e \<Rightarrow> if inflight s \<noteq> 0 then None else if e = Stream StreamClosed then Some (Inr ()) else Some (Inl e))"

lemma serve_admission_bound:
  assumes "serve_start m = Inr s0" "serve_step\<^sup>*\<^sup>* s0 s"
  shows "int (permits s + inflight s + of_bool (reading s)) = m" "int (inflight s) \<le> m" "ended s \<noteq> None \<Longrightarrow> \<not> reading s"
proof -
  have "int (permits s + inflight s + of_bool (reading s)) = m \<and> (ended s \<noteq> None \<longrightarrow> \<not> reading s)"
    using assms(2)
  proof (induction rule: rtranclp_induct)
    case base
    then show ?case using assms(1) by (auto simp: serve_start_def split: if_splits)
  next
    case (step y z)
    then show ?case by (auto elim!: serve_step.cases)
  qed
  then show "int (permits s + inflight s + of_bool (reading s)) = m" "ended s \<noteq> None \<Longrightarrow> \<not> reading s" by blast+
  then show "int (inflight s) \<le> m" by linarith
qed

text \<open>After the loop has ended, the tasks that are left can finish, and then \<^verbatim>\<open>serve_multiplexed\<close> returns.\<close>

lemma serve_drains:
  assumes "ended s = Some e"
  shows "\<exists>s'. serve_step\<^sup>*\<^sup>* s s' \<and> ended s' = Some e \<and> serve_result s' \<noteq> None"
  using assms
proof (induction "inflight s" arbitrary: s)
  case 0
  then show ?case by (intro exI [of _ s]) (simp add: serve_result_def)
next
  case (Suc k)
  define t where "t = s\<lparr>inflight := inflight s - 1, permits := Suc (permits s)\<rparr>"
  have "serve_step s t" using Suc.hyps(2) unfolding t_def by (intro serve_done) simp
  moreover obtain s' where "serve_step\<^sup>*\<^sup>* t s'" "ended s' = Some e" "serve_result s' \<noteq> None"
    using Suc.hyps(1) [of t] Suc.hyps(2) [symmetric] Suc.prems by (auto simp: t_def)
  ultimately show ?case by (meson converse_rtranclp_into_rtranclp)
qed

text \<open>
  The response \<^verbatim>\<open>run_one\<close> writes for the outcome of the handler; \<open>describe\<close> gives the upper-case class name
  and the text of an exception. The values of the model are all serializable, so \<open>encode_frame_payload\<close>
  fails only on the size.
\<close>

definition run_one_error :: "json \<Rightarrow> string \<Rightarrow> string \<Rightarrow> dict" where
  "run_one_error rid code message =
     [(''protocol_version'', JStr ''veraport-v1''), (''request_id'', rid), (''ok'', JBool False),
      (''error'', JObj [(''code'', JStr code), (''message'', JStr message)])]"

definition run_one_response :: "pyenv \<Rightarrow> (exn \<Rightarrow> string \<times> string) \<Rightarrow> nat \<Rightarrow> dict \<Rightarrow> dict result \<Rightarrow> dict" where
  "run_one_response env describe max_frame_bytes req outcome =
     (let rid = dict_get req ''request_id'' JNull;
          response = (case outcome of Inr d \<Rightarrow> d
                      | Inl e \<Rightarrow> run_one_error rid (fst (describe e)) (snd (describe e)))
      in case encode_frame_payload env max_frame_bytes response of
           Inr _ \<Rightarrow> response
         | Inl e \<Rightarrow>
             if e = Stream FrameTooLarge
             then run_one_error rid ''RESPONSE_FRAME_TOO_LARGE''
                    (''encoded response exceeds max_frame_bytes='' @ str_int (int max_frame_bytes))
             else run_one_error rid ''RESPONSE_SERIALIZATION_ERROR'' ''handler response is not JSON-serializable'')"

text \<open>A handler that echoes the request id is answered under that id, whether it fails or its response does not fit.\<close>

lemma run_one_echoes:
  assumes "request_id_of req = Some rid" "\<And>d. outcome = Inr d \<Longrightarrow> request_id_of d = Some rid"
  shows "request_id_of (run_one_response env describe n req outcome) = Some rid"
  using assms
  by (auto simp: run_one_response_def run_one_error_def request_id_of_def dict_get_def Let_def
      split: sum.splits option.splits json.splits)


end
