(* ===== verification/TLS_Transport.thy ===== *)
theory TLS_Transport
  imports Session_Runtime Stream_Frames
begin

text \<open>
  \<^verbatim>\<open>tls_transport.py\<close>: the handshake of \<^verbatim>\<open>Hot_Session\<close> as frames on a TLS connection, and the connection a workstation serves
  with the handler of \<^verbatim>\<open>Session_Runtime\<close>. TLS itself is the library's: of a connection the code reads the version and the
  protocol that was negotiated, and bytes. What a peer sends is one string; a time-out is a string that ends.
\<close>

section \<open>Policy and frames\<close>

record tls_info =
  tls_version :: "string option"
  tls_alpn :: "string option"

definition ALPN :: string where
  "ALPN = ''veraport/1''"

definition require_tls_policy :: "tls_info option \<Rightarrow> unit result" where
  "require_tls_policy ssl_object =
     (case ssl_object of
        None \<Rightarrow> Inl (Tls TLSPolicyError)
      | Some i \<Rightarrow>
          if tls_version i \<noteq> Some ''TLSv1.3'' then Inl (Tls TLSPolicyError)
          else if tls_alpn i \<noteq> Some ALPN then Inl (Tls TLSPolicyError)
          else Inr ())"

definition challenge_frame :: "server_challenge \<Rightarrow> dict" where
  "challenge_frame c =
     [(''frame_type'', JStr ''server_challenge''), (''protocol_version'', JStr (sc_protocol_version c)),
      (''workstation_principal'', JStr (sc_workstation_principal c)), (''workstation_key_id'', JStr (sc_workstation_key_id c)),
      (''challenge'', JStr (sc_challenge c))]"

definition client_auth_frame :: "client_auth \<Rightarrow> dict" where
  "client_auth_frame c =
     [(''frame_type'', JStr ''client_auth''), (''protocol_version'', JStr (ca_protocol_version c)),
      (''controller_principal'', JStr (ca_controller_principal c)), (''controller_key_id'', JStr (ca_controller_key_id c)),
      (''workstation_principal'', JStr (ca_workstation_principal c)), (''server_challenge'', JStr (ca_server_challenge c)),
      (''client_nonce'', JStr (ca_client_nonce c)),
      (''requested_capabilities'', JList (map JStr (ca_requested_capabilities c))), (''signature'', JStr (ca_signature c))]"

definition accept_frame :: "server_accept \<Rightarrow> dict" where
  "accept_frame a =
     [(''frame_type'', JStr ''server_accept''), (''protocol_version'', JStr (sa_protocol_version a)),
      (''session_id'', JStr (sa_session_id a)), (''controller_principal'', JStr (sa_controller_principal a)),
      (''workstation_principal'', JStr (sa_workstation_principal a)), (''workstation_key_id'', JStr (sa_workstation_key_id a)),
      (''server_challenge'', JStr (sa_server_challenge a)), (''client_nonce'', JStr (sa_client_nonce a)),
      (''granted_capabilities'', JList (map JStr (sa_granted_capabilities a))),
      (''expires_at_ms'', JInt (sa_expires_at_ms a)), (''signature'', JStr (sa_signature a))]"

text \<open>
  A frame becomes a dataclass by \<^verbatim>\<open>cls(**value)\<close>, which asks for exactly its fields. The dataclass does not check the types of
  its fields. A field that is only compared with a text (\<open>plain_field\<close>) is different from it when it is no text, like the empty
  one; a field that is decoded or signed (\<open>text_field\<close>) raises where it is used when it is no text, and is refused here. A list of
  capabilities may be any iterable of texts.
\<close>

definition has_fields :: "string list \<Rightarrow> dict \<Rightarrow> bool" where
  "has_fields names d \<longleftrightarrow> set (map fst d) = set (''frame_type'' # names)"

definition plain_field :: "dict \<Rightarrow> string \<Rightarrow> string" where
  "plain_field d k = (case map_of d k of Some (JStr s) \<Rightarrow> s | _ \<Rightarrow> [])"

definition text_field :: "dict \<Rightarrow> string \<Rightarrow> string result" where
  "text_field d k = (case map_of d k of Some (JStr s) \<Rightarrow> Inr s | _ \<Rightarrow> Inl (Py TypeError))"

fun texts_of :: "json list \<Rightarrow> string list result" where
  "texts_of [] = Inr []"
| "texts_of (JStr s # vs) = map_sum id (Cons s) (texts_of vs)"
| "texts_of (v # vs) = Inl (Py TypeError)"

definition capabilities_field :: "dict \<Rightarrow> string \<Rightarrow> string list result" where
  "capabilities_field d k =
     (case map_of d k of
        Some (JList vs) \<Rightarrow> texts_of vs
      | Some (JStr s) \<Rightarrow> Inr (map (\<lambda>c. [c]) s)
      | Some (JObj kvs) \<Rightarrow> Inr (map fst kvs)
      | _ \<Rightarrow> Inl (Py TypeError))"

definition parse_challenge :: "dict \<Rightarrow> server_challenge result" where
  "parse_challenge value =
     (if map_of value ''frame_type'' \<noteq> Some (JStr ''server_challenge'') then Inl (Tls TLSHotSessionError)
      else if \<not> has_fields [''protocol_version'', ''workstation_principal'', ''workstation_key_id'', ''challenge''] value
      then Inl (Py TypeError)
      else rbind (text_field value ''workstation_principal'') (\<lambda>w. rbind (text_field value ''challenge'') (\<lambda>c.
        Inr \<lparr>sc_protocol_version = plain_field value ''protocol_version'', sc_workstation_principal = w,
             sc_workstation_key_id = plain_field value ''workstation_key_id'', sc_challenge = c\<rparr>)))"

definition parse_client_auth :: "dict \<Rightarrow> client_auth result" where
  "parse_client_auth value =
     (if map_of value ''frame_type'' \<noteq> Some (JStr ''client_auth'') then Inl (Tls TLSHotSessionError)
      else if \<not> has_fields [''protocol_version'', ''controller_principal'', ''controller_key_id'', ''workstation_principal'',
                 ''server_challenge'', ''client_nonce'', ''requested_capabilities'', ''signature''] value
      then Inl (Py TypeError)
      else rbind (text_field value ''client_nonce'') (\<lambda>nonce.
        rbind (capabilities_field value ''requested_capabilities'') (\<lambda>caps.
        Inr \<lparr>ca_protocol_version = plain_field value ''protocol_version'',
             ca_controller_principal = plain_field value ''controller_principal'',
             ca_controller_key_id = plain_field value ''controller_key_id'',
             ca_workstation_principal = plain_field value ''workstation_principal'',
             ca_server_challenge = plain_field value ''server_challenge'', ca_client_nonce = nonce,
             ca_requested_capabilities = caps, ca_signature = plain_field value ''signature''\<rparr>)))"

definition parse_accept :: "dict \<Rightarrow> server_accept result" where
  "parse_accept value =
     (if map_of value ''frame_type'' \<noteq> Some (JStr ''server_accept'') then Inl (Tls SessionRejected)
      else if \<not> has_fields [''protocol_version'', ''session_id'', ''controller_principal'', ''workstation_principal'',
                 ''workstation_key_id'', ''server_challenge'', ''client_nonce'', ''granted_capabilities'', ''expires_at_ms'',
                 ''signature''] value
      then Inl (Py TypeError)
      else rbind (text_field value ''session_id'') (\<lambda>sid. rbind (capabilities_field value ''granted_capabilities'') (\<lambda>caps.
        case map_of value ''expires_at_ms'' of
          Some (JInt expires) \<Rightarrow>
            Inr \<lparr>sa_protocol_version = plain_field value ''protocol_version'', sa_session_id = sid,
                 sa_controller_principal = plain_field value ''controller_principal'',
                 sa_workstation_principal = plain_field value ''workstation_principal'',
                 sa_workstation_key_id = plain_field value ''workstation_key_id'',
                 sa_server_challenge = plain_field value ''server_challenge'', sa_client_nonce = plain_field value ''client_nonce'',
                 sa_granted_capabilities = caps, sa_expires_at_ms = expires, sa_signature = plain_field value ''signature''\<rparr>
        | _ \<Rightarrow> Inl (Py TypeError))))"

section \<open>The workstation\<close>

text \<open>
  The arguments of \<^verbatim>\<open>serve_tls_connection\<close>: \<open>ep_host\<close> holds the platform and the configuration of the agent that the handler
  factory binds, \<open>ep_describe\<close> is the code and the message of an exception.
\<close>

record ('sk, 'pk) endpoint =
  ep_host :: host
  ep_crypto :: "('sk, 'pk) crypto"
  ep_authenticator :: "('sk, 'pk) authenticator"
  ep_session_ttl_ms :: int
  ep_max_frame_bytes :: nat
  ep_max_inflight :: int
  ep_describe :: "exn \<Rightarrow> string \<times> string"

definition ep_write :: "('sk, 'pk) endpoint \<Rightarrow> dict \<Rightarrow> string result" where
  "ep_write ep = write_frame (h_env (ep_host ep)) (ep_max_frame_bytes ep)"

definition ep_read :: "('sk, 'pk) endpoint \<Rightarrow> string \<Rightarrow> (dict \<times> string) result" where
  "ep_read ep = read_frame (h_env (ep_host ep)) (ep_max_frame_bytes ep)"

text \<open>
  The handshake: what is written, and the session with what is left to read. \<open>random\<close> and \<open>sid\<close> are what \<^verbatim>\<open>os.urandom\<close>
  returns for the challenge and for the session id.
\<close>

definition answer_client :: "('sk, 'pk) endpoint \<Rightarrow> server_challenge \<Rightarrow> string \<Rightarrow> int \<Rightarrow> string \<Rightarrow> (string \<times> session_binding \<times> string) result" where
  "answer_client ep ch sid now input =
     rbind (ep_read ep input) (\<lambda>(raw_auth, left).
     rbind (parse_client_auth raw_auth) (\<lambda>client.
     rbind (accept (ep_crypto ep) (ep_authenticator ep) ch client now (ep_session_ttl_ms ep) sid) (\<lambda>(ac, b).
     rbind (ep_write ep (accept_frame ac)) (\<lambda>bytes. Inr (bytes, b, left)))))"

definition serve_handshake ::
  "('sk, 'pk) endpoint \<Rightarrow> tls_info option \<Rightarrow> string \<Rightarrow> string \<Rightarrow> int \<Rightarrow> string \<Rightarrow> string \<times> (session_binding \<times> string) result" where
  "serve_handshake ep ssl_object random sid now input =
     (case rbind (require_tls_policy ssl_object) (\<lambda>_.
           rbind (create_challenge (ep_crypto ep) (public_of (ep_crypto ep) (workstation_private_key (ep_authenticator ep))) random) (\<lambda>ch.
           rbind (ep_write ep (challenge_frame ch)) (\<lambda>bytes. Inr (ch, bytes)))) of
        Inl e \<Rightarrow> ([], Inl e)
      | Inr (ch, bytes) \<Rightarrow>
          (case answer_client ep ch sid now input of
             Inl e \<Rightarrow> (bytes, Inl e)
           | Inr (answer, b, left) \<Rightarrow> (bytes @ answer, Inr (b, left))))"

definition session_reject :: "('sk, 'pk) endpoint \<Rightarrow> exn \<Rightarrow> string" where
  "session_reject ep e =
     (case ep_write ep [(''frame_type'', JStr ''session_reject''), (''code'', JStr (fst (ep_describe ep e))),
                        (''message'', JStr (snd (ep_describe ep e)))] of
        Inl _ \<Rightarrow> []
      | Inr bytes \<Rightarrow> bytes)"

text \<open>
  The requests of the connection, each with the moment its task runs, and the responses in that order. A response that cannot be
  written closes the writer.
\<close>

fun session_calls :: "('sk, 'pk) endpoint \<Rightarrow> session_binding \<Rightarrow> (int \<times> moment \<times> dict) list \<Rightarrow> agent \<Rightarrow> dict list \<times> agent" where
  "session_calls ep b [] ag = ([], ag)"
| "session_calls ep b ((now_ms, t, req) # cs) ag =
     (case session_call (ep_host ep) b now_ms t req ag of (resp, ag1) \<Rightarrow>
        case session_calls ep b cs ag1 of (rs, ag2) \<Rightarrow>
          (run_one_response (h_env (ep_host ep)) (ep_describe ep) (ep_max_frame_bytes ep) req (Inr resp) # rs, ag2))"

fun write_responses :: "('sk, 'pk) endpoint \<Rightarrow> dict list \<Rightarrow> string" where
  "write_responses ep [] = []"
| "write_responses ep (r # rs) = (case ep_write ep r of Inl _ \<Rightarrow> [] | Inr bytes \<Rightarrow> bytes @ write_responses ep rs)"

text \<open>
  The whole connection. The loop reads frames until the stream ends or breaks, then awaits every task; \<open>sched\<close> is the order in
  which the tasks of these frames ran, with their clocks. The session is closed however the loop ended, at \<open>t_end\<close>; a reject frame
  after that is written to a stream that is already closed.
\<close>

definition serve_tls_connection ::
  "('sk, 'pk) endpoint \<Rightarrow> tls_info option \<Rightarrow> string \<Rightarrow> string \<Rightarrow> int \<Rightarrow> string \<Rightarrow> (dict list \<Rightarrow> (int \<times> moment \<times> dict) list) \<Rightarrow> pyfloat
   \<Rightarrow> agent \<Rightarrow> string \<times> session_binding option \<times> agent" where
  "serve_tls_connection ep ssl_object random sid now input sched t_end ag =
     (case serve_handshake ep ssl_object random sid now input of
        (sent, Inl e) \<Rightarrow> (sent @ session_reject ep e, None, ag)
      | (sent, Inr (b, left)) \<Rightarrow>
          (case serve_start (ep_max_inflight ep) of
             Inl e \<Rightarrow> (sent @ session_reject ep e, Some b, snd (session_close (ep_host ep) b t_end ag))
           | Inr _ \<Rightarrow>
               (case session_calls ep b (sched (fst (read_frames (h_env (ep_host ep)) (ep_max_frame_bytes ep) left))) ag of
                  (rs, ag1) \<Rightarrow> (sent @ write_responses ep rs, Some b, snd (session_close (ep_host ep) b t_end ag1)))))"

section \<open>The controller\<close>

text \<open>
  \<open>conn\<close> is what \<^verbatim>\<open>asyncio.open_connection\<close> gives: the TLS connection and all that the peer sends. The result is what is written and, where it
  succeeds, the client, the session and what is left to read; on every exception the writer is closed.
\<close>

definition open_tls_session ::
  "pyenv \<Rightarrow> ('sk, 'pk) crypto \<Rightarrow> nat \<Rightarrow> 'sk \<Rightarrow> 'pk \<Rightarrow> string list \<Rightarrow> pyfloat \<Rightarrow> pyfloat \<Rightarrow> string \<Rightarrow> int
   \<Rightarrow> (tls_info option \<times> string) result \<Rightarrow> string \<times> (mux_client \<times> session_binding \<times> string) result" where
  "open_tls_session env cr max_frame_bytes sk pk requested connect_timeout request_timeout nonce now conn =
     (if fle connect_timeout (Fin 0) \<or> fle request_timeout (Fin 0) then ([], Inl (Py ValueError))
      else case rbind conn (\<lambda>(ssl_object, input).
           rbind (require_tls_policy ssl_object) (\<lambda>_.
           rbind (read_frame env max_frame_bytes input) (\<lambda>(d, s1).
           rbind (parse_challenge d) (\<lambda>ch.
           rbind (create_client_auth cr sk (sc_workstation_principal ch) (sc_challenge ch) requested nonce) (\<lambda>client.
           rbind (write_frame env max_frame_bytes (client_auth_frame client)) (\<lambda>bytes. Inr (ch, client, bytes, s1))))))) of
        Inl e \<Rightarrow> ([], Inl e)
      | Inr (ch, client, bytes, s1) \<Rightarrow>
          (bytes,
           rbind (read_frame env max_frame_bytes s1) (\<lambda>(raw_accept, s2).
           rbind (parse_accept raw_accept) (\<lambda>ac.
           rbind (verify_server_accept cr ch client ac pk now) (\<lambda>b.
           rbind (mux_new request_timeout) (\<lambda>mux. Inr (mux, b, s2)))))))"

section \<open>Frames are read back\<close>

lemma texts_of_names [simp]: "texts_of (map JStr s) = Inr s"
  by (induction s) auto

lemma sorted_field: "distinct (map fst d) \<Longrightarrow> map_of (sorted_dict d) k = map_option json_sorted (map_of d k)"
  using map_of_sorted [of d json_sorted] by (simp add: sorted_dict_def)

lemma sorted_names: "set (map fst (sorted_dict d)) = fst ` set d"
  by (force simp: sorted_dict_def)

lemmas frame_fields = has_fields_def plain_field_def text_field_def capabilities_field_def sorted_names rbind_def

lemma parse_challenge_frame: "parse_challenge (sorted_dict (challenge_frame c)) = Inr c"
  unfolding parse_challenge_def frame_fields by (simp add: sorted_field challenge_frame_def)

lemma parse_client_auth_frame: "parse_client_auth (sorted_dict (client_auth_frame c)) = Inr c"
  unfolding parse_client_auth_def frame_fields by (simp add: sorted_field client_auth_frame_def comp_def)

lemma parse_accept_frame: "parse_accept (sorted_dict (accept_frame a)) = Inr a"
  unfolding parse_accept_def frame_fields by (simp add: sorted_field accept_frame_def comp_def)

text \<open>A value that both ends can put on the stream: it fits, and its text is parsed back.\<close>

definition carried :: "pyenv \<Rightarrow> nat \<Rightarrow> dict \<Rightarrow> bool" where
  "carried env n d \<longleftrightarrow> (\<exists>bytes. write_frame env n d = Inr bytes) \<and> 2 \<le> length (json_dumps env (JObj d))
     \<and> json_loads env (json_dumps env (JObj d)) = Inr (json_sorted (JObj d))"

lemma carried_read:
  assumes "carried env n d"
  obtains bytes where "write_frame env n d = Inr bytes" "\<And>rest. read_frame env n (bytes @ rest) = Inr (sorted_dict d, rest)"
  using assms read_written [of env n d _ "sorted_dict d"] by (auto simp: carried_def sorted_dict_def)

section \<open>Properties\<close>

text \<open>
  (C10) The handshake works on the wire. Two honest ends over TLS 1.3 with the right protocol, whose three frames can be carried, both
  end it with the same session when each reads what the other writes: the workstation accepts the controller's frame, the
  controller verifies the answer before it expires, neither reads a byte of what follows, and the client is ready for requests.
\<close>
theorem tls_handshake_agreement:
  assumes keys: "key_pair_ok cr wsk" "key_pair_ok cr csk"
    and enrolled: "map_of allowed (''controller:'' @ spki_sha256_hex cr (public_of cr csk)) = Some (public_of cr csk)"
    and covered: "set requested \<subseteq> dict_get policy (''controller:'' @ spki_sha256_hex cr (public_of cr csk)) {}"
    and nonces: "length rnd = 32" "length nonce = 32"
    and times: "0 < ep_session_ttl_ms ep" "now' < now + ep_session_ttl_ms ep" "\<not> fle ct (Fin 0)" "mux_new rt = Inr mux"
    and tls: "require_tls_policy info = Inr ()" "require_tls_policy info' = Inr ()"
    and built: "ep_crypto ep = cr" "WorkstationAuthenticator cr wsk allowed policy = Inr (ep_authenticator ep)"
    and frames: "create_challenge cr (public_of cr wsk) rnd = Inr ch"
      "create_client_auth cr csk (sc_workstation_principal ch) (sc_challenge ch) requested nonce = Inr cl"
      "accept cr (ep_authenticator ep) ch cl now (ep_session_ttl_ms ep) sid = Inr (ac, b)"
    and wire: "\<forall>d \<in> {challenge_frame ch, client_auth_frame cl, accept_frame ac}. carried (h_env (ep_host ep)) (ep_max_frame_bytes ep) d"
  shows "\<exists>to_client to_server.
    serve_handshake ep info rnd sid now (to_server @ reqs) = (to_client, Inr (b, reqs))
    \<and> open_tls_session (h_env (ep_host ep)) cr (ep_max_frame_bytes ep) csk (public_of cr wsk) requested ct rt nonce now'
        (Inr (info', to_client @ resps)) = (to_server, Inr (mux, b, resps))
    \<and> granted_capabilities b = set requested \<and> session_id b = b64u sid"
proof -
  let ?env = "h_env (ep_host ep)" and ?n = "ep_max_frame_bytes ep"
  have v: "verify_server_accept cr ch cl ac (public_of cr wsk) now' = Inr b" "granted_capabilities b = set requested" "session_id b = b64u sid"
    using handshake_agreement [OF keys enrolled covered nonces times(1,2), of sid] frames built by auto
  have wsk: "workstation_private_key (ep_authenticator ep) = wsk"
    using built(2) by (cases "ep_authenticator ep") (auto simp: WorkstationAuthenticator_def split: sum.splits)
  obtain f1 f2 f3 where f: "write_frame ?env ?n (challenge_frame ch) = Inr f1" "write_frame ?env ?n (client_auth_frame cl) = Inr f2"
      "write_frame ?env ?n (accept_frame ac) = Inr f3"
    and r: "\<And>rest. read_frame ?env ?n (f1 @ rest) = Inr (sorted_dict (challenge_frame ch), rest)"
      "\<And>rest. read_frame ?env ?n (f2 @ rest) = Inr (sorted_dict (client_auth_frame cl), rest)"
      "\<And>rest. read_frame ?env ?n (f3 @ rest) = Inr (sorted_dict (accept_frame ac), rest)"
    using wire carried_read by (metis insertI1 insertI2)
  have "answer_client ep ch sid now (f2 @ reqs) = Inr (f3, b, reqs)"
    using frames(3) built(1) by (simp add: answer_client_def ep_read_def ep_write_def r f rbind_def parse_client_auth_frame)
  then have "serve_handshake ep info rnd sid now (f2 @ reqs) = (f1 @ f3, Inr (b, reqs))"
    using tls(1) frames(1) built(1) wsk by (simp add: serve_handshake_def ep_write_def f rbind_def)
  moreover have "\<not> fle rt (Fin 0)" using times(4) by (simp add: mux_new_def split: if_splits)
  then have "open_tls_session ?env cr ?n csk (public_of cr wsk) requested ct rt nonce now' (Inr (info', (f1 @ f3) @ resps))
      = (f2, Inr (mux, b, resps))"
    using tls(2) frames(2) times(3,4) v(1)
    by (simp add: open_tls_session_def rbind_def r f parse_challenge_frame parse_accept_frame)
  ultimately show ?thesis using v(2,3) by blast
qed

text \<open>A platform whose JSON texts are names for the three frames of the demonstration handshake.\<close>

abbreviation demo_auth :: client_auth where
  "demo_auth \<equiv> Hot_Session.demo_request"

definition wire_env :: pyenv where
  "wire_env = posix_env\<lparr>
     json_dumps := (\<lambda>v. if v = JObj (challenge_frame demo_challenge) then ''{c}''
                    else if v = JObj (client_auth_frame demo_auth) then ''{a}''
                    else if v = JObj (accept_frame demo_answer) then ''{s}'' else ''{}''),
     json_loads := (\<lambda>raw. if raw = ''{c}'' then Inr (json_sorted (JObj (challenge_frame demo_challenge)))
                    else if raw = ''{a}'' then Inr (json_sorted (JObj (client_auth_frame demo_auth)))
                    else if raw = ''{s}'' then Inr (json_sorted (JObj (accept_frame demo_answer))) else Inr (JObj []))\<rparr>"

definition demo_endpoint :: "(nat, nat) endpoint" where
  "demo_endpoint = \<lparr>ep_host = demo_posix_host\<lparr>h_env := wire_env\<rparr>, ep_crypto = toy_crypto UNIV,
     ep_authenticator = demo_authenticator, ep_session_ttl_ms = 50, ep_max_frame_bytes = 1048576, ep_max_inflight = 64,
     ep_describe = (\<lambda>_. ([], []))\<rparr>"

definition demo_tls :: "tls_info option" where
  "demo_tls = Some \<lparr>tls_version = Some ''TLSv1.3'', tls_alpn = Some ''veraport/1''\<rparr>"

lemma demo_wire:
  "\<forall>d \<in> {challenge_frame demo_challenge, client_auth_frame demo_auth, accept_frame demo_answer}. carried wire_env 1048576 d"
proof -
  have "client_auth_frame demo_auth \<noteq> challenge_frame demo_challenge" "accept_frame demo_answer \<noteq> challenge_frame demo_challenge"
    "accept_frame demo_answer \<noteq> client_auth_frame demo_auth"
    by (simp_all add: challenge_frame_def client_auth_frame_def accept_frame_def)
  then show ?thesis by (auto simp: carried_def wire_env_def write_frame_def encode_frame_payload_def)
qed

lemma demo_policy: "require_tls_policy demo_tls = Inr ()"
  by (simp add: demo_tls_def require_tls_policy_def ALPN_def)

lemma demo_frames:
  "create_challenge (toy_crypto UNIV) 1 (replicate 32 (CHR ''r'')) = Inr demo_challenge"
  "create_client_auth (toy_crypto UNIV) 2 (sc_workstation_principal demo_challenge) (sc_challenge demo_challenge) [''fs.read'']
     (replicate 32 (CHR ''n'')) = Inr demo_auth"
  "accept (toy_crypto UNIV) demo_authenticator demo_challenge demo_auth 100 50 ''sid'' = Inr (demo_answer, demo_session)"
proof -
  show "create_challenge (toy_crypto UNIV) 1 (replicate 32 (CHR ''r'')) = Inr demo_challenge"
    by (simp add: create_challenge_def toy_ids demo_challenge_def)
  show "create_client_auth (toy_crypto UNIV) 2 (sc_workstation_principal demo_challenge) (sc_challenge demo_challenge) [''fs.read'']
     (replicate 32 (CHR ''n'')) = Inr demo_auth"
    unfolding create_client_auth_def toy_ids toy_sign
    by (simp add: toy_crypto_def demo_challenge_def Hot_Session.demo_request_def key_id_def principal_id_def numeral_2_eq_2)
  have "accept_checks (toy_crypto UNIV) demo_authenticator demo_challenge demo_auth = Inr ()"
    unfolding accept_checks_def nonces_ok_def toy_ids
    by (simp add: demo_authenticator_def demo_challenge_def Hot_Session.demo_request_def numeral_2_eq_2 toy_verify)
  then show "accept (toy_crypto UNIV) demo_authenticator demo_challenge demo_auth 100 50 ''sid'' = Inr (demo_answer, demo_session)"
    by (simp add: accept_def toy_sign Let_def)
      (simp add: dict_get_def demo_authenticator_def demo_challenge_def demo_answer_def demo_session_def Hot_Session.demo_request_def)
qed

lemma toy_keys: "public_of (toy_crypto UNIV) k = k" "spki_sha256_hex (toy_crypto UNIV) k = replicate k (CHR ''a'')" "key_pair_ok (toy_crypto UNIV) k"
  by (simp_all add: key_pair_ok_def toy_crypto_def)

lemma demo_built:
  "WorkstationAuthenticator (toy_crypto UNIV) 1 [(''controller:aa'', 2)] [(''controller:aa'', {''fs.read''})] = Inr demo_authenticator"
  by (simp add: WorkstationAuthenticator_def toy_ids toy_keys demo_authenticator_def)

lemma tls_handshake_agreement_witness:
  "\<exists>to_client to_server.
    serve_handshake demo_endpoint demo_tls (replicate 32 (CHR ''r'')) ''sid'' 100 (to_server @ ''rest'') = (to_client, Inr (demo_session, ''rest''))
    \<and> open_tls_session (h_env (ep_host demo_endpoint)) (toy_crypto UNIV) (ep_max_frame_bytes demo_endpoint) 2 (public_of (toy_crypto UNIV) 1)
        [''fs.read''] (Fin 5) (Fin 5) (replicate 32 (CHR ''n'')) 120 (Inr (demo_tls, to_client @ []))
        = (to_server, Inr (\<lparr>mux_pending = [], mux_closed = False, mux_closing = False, mux_reader = True, mux_calls = [], mux_futures = []\<rparr>, demo_session, []))
    \<and> granted_capabilities demo_session = set [''fs.read''] \<and> session_id demo_session = b64u ''sid''"
  by (rule tls_handshake_agreement
      [where wsk = 1 and csk = 2 and allowed = "[(''controller:aa'', 2)]" and policy = "[(''controller:aa'', {''fs.read''})]"
        and ch = demo_challenge and cl = demo_auth and ac = demo_answer])
    (use demo_wire demo_policy demo_frames demo_built in
      \<open>simp_all add: demo_endpoint_def toy_keys dict_get_def mux_new_def numeral_2_eq_2\<close>)

section \<open>What a served connection does\<close>

lemma start_table:
  assumes "table_ok pt" "process_start env os pe ex lid tok argv cwd rt now now_ns reg f pt = (res, reg', pt')"
  shows "table_ok pt'"
  using assms(2)
proof (cases rule: process_start_cases)
  case (started p r l)
  then show ?thesis using assms(1) by (auto simp: start_process_sync_def Let_def intro!: table_ok_update split: sum.splits)
qed (use assms(1) in simp)

lemma keeps_table: "table_ok pt \<Longrightarrow> kept pt pt' \<Longrightarrow> table_ok pt'"
  by (simp add: kept_def)

lemma process_dispatch_table:
  assumes "table_ok (a_procs ag)"
  shows "table_ok (a_procs (snd (do_process h t op req ag)))"
proof -
  have A: "table_ok (snd (snd (process_start env os pe ex lid tok argv cwd rt now now_ns reg f (a_procs ag))))"
    for env os pe ex lid tok argv cwd rt now now_ns reg f
    using start_table [OF assms] by (metis prod.collapse)
  have B: "table_ok (snd (snd (process_input env os pe ex lid tok ph s nl now reg (a_procs ag))))" for env os pe ex lid tok ph s nl now reg
    using input_kept [OF assms] keeps_table [OF assms] by (metis prod.collapse)
  have C: "table_ok (snd (snd (process_terminate env pe ex lid tok ph g now reg (a_procs ag))))" for env pe ex lid tok ph g now reg
    using terminate_kept [OF assms] keeps_table [OF assms] by (metis prod.collapse)
  show ?thesis unfolding do_process_def Let_def
    by (simp add: A B C assms split: sum.split prod.split)
qed

lemma lane_close_table:
  assumes "table_ok (a_procs ag)"
  shows "table_ok (a_procs (snd (do_lane_close h t req ag)))"
proof -
  have "table_ok (snd (close_lane_processes (h_pe h) lid tok (a_procs ag)))" for lid tok
    using close_lane_spec [OF assms] keeps_table [OF assms] by (metis prod.collapse)
  then show ?thesis unfolding do_lane_close_def using assms by (auto split: sum.split prod.split) (metis snd_conv)+
qed

lemma session_call_table:
  assumes "table_ok (a_procs ag)" "session_call h b now_ms t req ag = (resp, ag')"
  shows "table_ok (a_procs ag')"
  using assms(2)
proof (cases rule: session_call_cases)
  case (passed r ireq resp0)
  from passed(3) show ?thesis
  proof (cases rule: handled_cases)
    case (dispatched rid op ag0)
    have "table_ok (a_procs (snd (dispatch h t op ireq ag0)))"
      unfolding dispatch_def using assms(1) dispatched(3) lane_close_table [of ag0] process_dispatch_table [of ag0]
      by (simp add: other_procs lane_open_procs reads_procs)
    then show ?thesis using dispatched(6) by simp
  qed (use assms(1) in simp)
qed (use assms(1) in simp)

lemma session_calls_keep:
  assumes "registry_inv (h_env (ep_host ep)) (a_registry ag)" "table_ok (a_procs ag)" "bridge_authorizes (ep_host ep)"
    "session_calls ep b cs ag = (rs, ag')"
  shows "registry_inv (h_env (ep_host ep)) (a_registry ag') \<and> table_ok (a_procs ag')"
  using assms
proof (induction ep b cs ag arbitrary: rs rule: session_calls.induct)
  case (2 ep b now_ms t req cs ag)
  obtain resp ag1 where c: "session_call (ep_host ep) b now_ms t req ag = (resp, ag1)" by fastforce
  obtain rs1 where d: "session_calls ep b cs ag1 = (rs1, ag')" using 2(5) c by (auto split: prod.splits)
  have "registry_inv (h_env (ep_host ep)) (a_registry ag1)" using session_lane_effect [OF 2(2,4) c] by blast
  then show ?case using 2(1) [OF c [symmetric] _ session_call_table [OF 2(3) c] 2(4) d] by simp
qed simp

lemma calls_are_a_run:
  assumes "session_run (ep_host ep) B ag" "b \<in> B" "session_calls ep b cs ag = (rs, ag')"
  shows "session_run (ep_host ep) B ag'"
  using assms
proof (induction ep b cs ag arbitrary: rs rule: session_calls.induct)
  case (2 ep b now_ms t req cs ag)
  obtain resp ag1 where c: "session_call (ep_host ep) b now_ms t req ag = (resp, ag1)" by fastforce
  obtain rs1 where d: "session_calls ep b cs ag1 = (rs1, ag')" using 2(4) c by (auto split: prod.splits)
  show ?case using 2(1) [OF c [symmetric] one_call [OF 2(2,3) c] 2(3) d] .
qed simp

text \<open>A connection either is refused and changes nothing, or runs the calls of one session and closes it.\<close>

lemma connection_cases:
  assumes "serve_tls_connection ep info rnd sid now input sched t_end ag = (sent, s, ag')"
  obtains (refused) "s = None" "ag' = ag"
  | (served) ch raw left cl ac b cs rs ag1 where "s = Some b" "require_tls_policy info = Inr ()"
      "create_challenge (ep_crypto ep) (public_of (ep_crypto ep) (workstation_private_key (ep_authenticator ep))) rnd = Inr ch"
      "ep_read ep input = Inr (raw, left)" "parse_client_auth raw = Inr cl"
      "accept (ep_crypto ep) (ep_authenticator ep) ch cl now (ep_session_ttl_ms ep) sid = Inr (ac, b)"
      "session_calls ep b cs ag = (rs, ag1)" "ag' = snd (session_close (ep_host ep) b t_end ag1)"
      "cs = [] \<or> cs = sched (fst (read_frames (h_env (ep_host ep)) (ep_max_frame_bytes ep) left))"
proof (cases "serve_handshake ep info rnd sid now input")
  case (Pair out r)
  show ?thesis
  proof (cases r)
    case (Inl e)
    then show ?thesis using assms Pair refused by (simp add: serve_tls_connection_def)
  next
    case (Inr x)
    obtain b left where x: "x = (b, left)" by fastforce
    obtain ch bytes answer where h: "require_tls_policy info = Inr ()"
        "create_challenge (ep_crypto ep) (public_of (ep_crypto ep) (workstation_private_key (ep_authenticator ep))) rnd = Inr ch"
        "answer_client ep ch sid now input = Inr (answer, b, left)"
      using Pair Inr x by (auto simp: serve_handshake_def rbind_def split: sum.splits prod.splits)
    obtain raw cl ac where a: "ep_read ep input = Inr (raw, left)" "parse_client_auth raw = Inr cl"
        "accept (ep_crypto ep) (ep_authenticator ep) ch cl now (ep_session_ttl_ms ep) sid = Inr (ac, b)"
      using h(3) by (auto simp: answer_client_def rbind_def split: sum.splits prod.splits)
    obtain cs rs ag1 where "session_calls ep b cs ag = (rs, ag1)" "s = Some b" "ag' = snd (session_close (ep_host ep) b t_end ag1)"
      "cs = [] \<or> cs = sched (fst (read_frames (h_env (ep_host ep)) (ep_max_frame_bytes ep) left))"
    proof (cases "serve_start (ep_max_inflight ep)")
      case (Inl e)
      then show ?thesis using assms Pair Inr x that [of "[]" "[]" ag] \<open>r = Inr x\<close> by (simp add: serve_tls_connection_def)
    next
      case (Inr st)
      then show ?thesis using assms Pair x that \<open>r = Inr x\<close>
        by (auto simp: serve_tls_connection_def split: prod.splits)
    qed
    then show ?thesis using served h(1,2) a by blast
  qed
qed

lemma connection_is_a_run:
  assumes "serve_tls_connection ep info rnd sid now input sched t_end ag = (sent, s, ag')"
    and "session_run (ep_host ep) B ag" "set_option s \<subseteq> B"
  shows "session_run (ep_host ep) B ag'"
  using assms(1)
proof (cases rule: connection_cases)
  case (served ch raw left cl ac b cs rs ag1)
  then have b: "b \<in> B" using assms(3) by simp
  obtain rep where "session_close (ep_host ep) b t_end ag1 = (rep, ag')" using served(8) by (metis prod.collapse)
  then show ?thesis using one_close [OF calls_are_a_run [OF assms(2) b served(7)] b] by blast
qed (use assms(2) in simp)

text \<open>
  (C11) A connection is served only to an authenticated peer and leaves nothing behind. A connection either changes nothing on the
  workstation, or it runs over TLS 1.3 with the right protocol, its first frame is an authentication by an enrolled
  controller, signed over the challenge of this very connection, and the session has only capabilities of this
  controller's policy; the state is that after requests of this session and the closing of it: however the connection ended, no
  lane of the session is left, and no process of a lane that was unexpired runs.
\<close>
theorem served_session_is_authentic_and_drained:
  assumes run: "serve_tls_connection ep info rnd sid now input sched t_end ag = (sent, s, ag')"
    and inv: "registry_inv (h_env (ep_host ep)) (a_registry ag)" "table_ok (a_procs ag)"
    and platform: "bridge_authorizes (ep_host ep)" "\<forall>m. after_kill (h_pe (ep_host ep)) m \<noteq> None"
    and served: "ag' \<noteq> ag"
  shows "\<exists>b raw left cl pk rs. s = Some b \<and> info = Some \<lparr>tls_version = Some ''TLSv1.3'', tls_alpn = Some ALPN\<rparr>
    \<and> ep_read ep input = Inr (raw, left) \<and> parse_client_auth raw = Inr cl
    \<and> map_of (allowed_controllers (ep_authenticator ep)) (ca_controller_principal cl) = Some pk
    \<and> ca_server_challenge cl = b64u rnd \<and> ecdsa_verify (ep_crypto ep) pk rs (client_signature_base cl)
    \<and> granted_capabilities b \<subseteq> dict_get (capability_policy (ep_authenticator ep)) (ca_controller_principal cl) {}
    \<and> (\<forall>k. in_session b k \<longrightarrow> map_of (lanes (a_registry ag')) k = None)
    \<and> (\<exists>cs rs ag1. session_calls ep b cs ag = (rs, ag1) \<and> only_ended (a_procs ag1) (a_procs ag') \<and> a_fs ag' = a_fs ag1
         \<and> (\<forall>k l. live t_end (a_registry ag1) k = Some l \<longrightarrow> in_session b k \<longrightarrow> lane_procs_ended l (a_procs ag')))"
  using run
proof (cases rule: connection_cases)
  case refused
  then show ?thesis using served by simp
next
  case (served ch raw left cl ac b cs rs ag1)
  note a = acceptD [OF served(6)]
  obtain pk where pk: "map_of (allowed_controllers (ep_authenticator ep)) (ca_controller_principal cl) = Some pk"
      "ca_server_challenge cl = sc_challenge ch" "verify_p1363 (ep_crypto ep) pk (ca_signature cl) (client_signature_base cl) = Inr ()"
    using accept_checksD [OF a(1)] by blast
  obtain sg where sg: "ecdsa_verify (ep_crypto ep) pk sg (client_signature_base cl)" using verify_p1363D [OF pk(3)] by blast
  have ch: "sc_challenge ch = b64u rnd" using served(3) by (auto simp: create_challenge_def split: sum.splits)
  have info: "info = Some \<lparr>tls_version = Some ''TLSv1.3'', tls_alpn = Some ALPN\<rparr>"
    using served(2) by (cases info) (auto simp: require_tls_policy_def split: if_splits)
  obtain rep where c: "close_session (ep_host ep) t_end (session_id b) ag1 = (rep, ag')"
    using served(8) by (metis prod.collapse session_close_def)
  have k: "registry_inv (h_env (ep_host ep)) (a_registry ag1)" "table_ok (a_procs ag1)"
    using session_calls_keep [OF inv platform(1) served(7)] by simp_all
  note d = close_session_drains [OF k platform(2) c]
  have "\<forall>k. in_session b k \<longrightarrow> map_of (lanes (a_registry ag')) k = None"
    using d by (simp add: in_session_def lane_prefix_def)
  moreover have "granted_capabilities b \<subseteq> dict_get (capability_policy (ep_authenticator ep)) (ca_controller_principal cl) {}"
    using a(2,3) by simp
  moreover have "\<exists>cs rs ag1. session_calls ep b cs ag = (rs, ag1) \<and> only_ended (a_procs ag1) (a_procs ag') \<and> a_fs ag' = a_fs ag1
         \<and> (\<forall>k l. live t_end (a_registry ag1) k = Some l \<longrightarrow> in_session b k \<longrightarrow> lane_procs_ended l (a_procs ag'))"
    using d served(7) by (intro exI [of _ cs] exI [of _ rs] exI [of _ ag1]) (simp add: in_session_def lane_prefix_def)
  ultimately show ?thesis using served(1,4,5) info pk(1,2) sg ch
    by (intro exI [of _ b] exI [of _ raw] exI [of _ left] exI [of _ cl] exI [of _ pk] exI [of _ sg]) simp
qed

lemma demo_served:
  obtains input to_client where "ep_read demo_endpoint input = Inr (sorted_dict (client_auth_frame demo_auth), [])"
    "serve_handshake demo_endpoint demo_tls (replicate 32 (CHR ''r'')) ''sid'' 100 input = (to_client, Inr (demo_session, []))"
proof -
  obtain f1 where f1: "write_frame wire_env 1048576 (challenge_frame demo_challenge) = Inr f1"
    using demo_wire carried_read by (metis insertI1)
  obtain f2 where f2: "\<And>rest. read_frame wire_env 1048576 (f2 @ rest) = Inr (sorted_dict (client_auth_frame demo_auth), rest)"
    using demo_wire carried_read by (metis insertI1 insertI2)
  obtain f3 where f3: "write_frame wire_env 1048576 (accept_frame demo_answer) = Inr f3"
    using demo_wire carried_read by (metis insertI1 insertI2)
  have r: "ep_read demo_endpoint f2 = Inr (sorted_dict (client_auth_frame demo_auth), [])"
    using f2 [of "[]"] by (simp add: ep_read_def demo_endpoint_def)
  have "answer_client demo_endpoint demo_challenge ''sid'' 100 f2 = Inr (f3, demo_session, [])"
    unfolding answer_client_def r using demo_frames(3) f3
    by (simp add: rbind_def parse_client_auth_frame) (simp add: demo_endpoint_def ep_write_def)
  then have "serve_handshake demo_endpoint demo_tls (replicate 32 (CHR ''r'')) ''sid'' 100 f2 = (f1 @ f3, Inr (demo_session, []))"
    unfolding serve_handshake_def demo_policy rbind_def using demo_frames(1) f1
    by (simp add: demo_endpoint_def demo_authenticator_def toy_keys ep_write_def)
  then show thesis using r that by blast
qed

lemma served_session_is_authentic_and_drained_witness:
  "\<exists>input sent ag'. serve_tls_connection demo_endpoint demo_tls (replicate 32 (CHR ''r'')) ''sid'' 100 input (map (\<lambda>req. (100, demo_moment, req)))
      (Fin 1000) demo_agent = (sent, Some demo_session, ag')
    \<and> (\<forall>k. in_session demo_session k \<longrightarrow> map_of (lanes (a_registry ag')) k = None)"
proof -
  obtain input to_client where i: "ep_read demo_endpoint input = Inr (sorted_dict (client_auth_frame demo_auth), [])"
    "serve_handshake demo_endpoint demo_tls (replicate 32 (CHR ''r'')) ''sid'' 100 input = (to_client, Inr (demo_session, []))"
    using demo_served .
  define h where "h = ep_host demo_endpoint"
  have inv: "registry_inv (h_env h) (a_registry demo_agent)" "table_ok (a_procs demo_agent)"
    by (simp_all add: demo_agent_def table_ok_def registry_inv_def lane_ok_def demo_open_registry_def demo_registry_def demo_lane_def split: if_splits)
  have plat: "bridge_authorizes h" "\<forall>m. after_kill (h_pe h) m \<noteq> None"
    using demo_kills demo_bridge(2) by (simp_all add: h_def demo_endpoint_def bridge_authorizes_def demo_posix_host_def demo_host_def)
  have "fst (read_frames wire_env 1048576 []) = []" by (simp add: read_frames.simps read_frame_def readexactly_def)
  moreover obtain rep ag' where c: "close_session h (Fin 1000) (session_id demo_session) demo_agent = (rep, ag')" by fastforce
  ultimately have run: "serve_tls_connection demo_endpoint demo_tls (replicate 32 (CHR ''r'')) ''sid'' 100 input
      (map (\<lambda>req. (100, demo_moment, req))) (Fin 1000) demo_agent = (to_client, Some demo_session, ag')"
    unfolding serve_tls_connection_def i(2) h_def by (simp add: demo_endpoint_def serve_start_def demo_posix_host_def session_close_def)
  have "map_of (lanes (a_registry ag')) ''s::a'' = None"
    using close_session_drains [OF inv plat(2) c] by (simp add: demo_agent_def demo_open_registry_def demo_lane_def live_def expired_def)
  then have "ag' \<noteq> demo_agent" by (auto simp: demo_agent_def demo_open_registry_def)
  from served_session_is_authentic_and_drained [OF run, folded h_def, OF inv plat this]
  have "\<forall>k. in_session demo_session k \<longrightarrow> map_of (lanes (a_registry ag')) k = None" by auto
  then show ?thesis using run by (intro exI [of _ input] exI [of _ to_client] exI [of _ ag']) simp
qed

end
