(* ===== verification/Lane_Locks.thy ===== *)
theory Lane_Locks
  imports VM_Prelude
begin

text \<open>
  \<^verbatim>\<open>protocol.py\<close>, \<^verbatim>\<open>_lane_operation\<close>: the lock under which operations of one lane run. Lock objects
  are created on demand and dropped when their last user leaves; a count of users per lane decides
  when. A task enters under the guard, waits for the lock, works, releases, and leaves under the
  guard; each of these is one atomic step of the event loop. A task that is cancelled while it waits
  never reaches the \<^verbatim>\<open>finally\<close> block, and one that is cancelled while it waits for the guard inside
  that block does not finish it: both disappear without giving their count back.
\<close>

section \<open>State and steps\<close>

datatype lock_phase = Waiting | Holding | Released

record lock_task =
  lt_lane :: string
  lt_lock :: nat
  lt_phase :: lock_phase

record lane_lock_table =
  lane_locks :: "(string \<times> nat) list"
  lane_lock_users :: "(string \<times> int) list"
  lock_holder :: "(nat \<times> nat) list"
  next_lock :: nat
  lock_tasks :: "(nat \<times> lock_task) list"

definition no_locks :: lane_lock_table where
  "no_locks = \<lparr>lane_locks = [], lane_lock_users = [], lock_holder = [], next_lock = 0, lock_tasks = []\<rparr>"

definition lane_enter :: "nat \<Rightarrow> string \<Rightarrow> lane_lock_table \<Rightarrow> lane_lock_table" where
  "lane_enter tid lane st =
     (let (lock, st1) = (case map_of (lane_locks st) lane of
            Some l \<Rightarrow> (l, st)
          | None \<Rightarrow> (next_lock st, st\<lparr>lane_locks := AList.update lane (next_lock st) (lane_locks st),
                                       next_lock := Suc (next_lock st)\<rparr>))
      in st1\<lparr>lane_lock_users := AList.update lane (dict_get (lane_lock_users st1) lane 0 + 1) (lane_lock_users st1),
             lock_tasks := AList.update tid \<lparr>lt_lane = lane, lt_lock = lock, lt_phase = Waiting\<rparr> (lock_tasks st1)\<rparr>)"

definition lane_acquire :: "nat \<Rightarrow> lock_task \<Rightarrow> lane_lock_table \<Rightarrow> lane_lock_table" where
  "lane_acquire tid t st =
     st\<lparr>lock_holder := AList.update (lt_lock t) tid (lock_holder st),
        lock_tasks := AList.update tid (t\<lparr>lt_phase := Holding\<rparr>) (lock_tasks st)\<rparr>"

definition lane_release :: "nat \<Rightarrow> lock_task \<Rightarrow> lane_lock_table \<Rightarrow> lane_lock_table" where
  "lane_release tid t st =
     st\<lparr>lock_holder := AList.delete (lt_lock t) (lock_holder st),
        lock_tasks := AList.update tid (t\<lparr>lt_phase := Released\<rparr>) (lock_tasks st)\<rparr>"

definition lane_leave :: "nat \<Rightarrow> lock_task \<Rightarrow> lane_lock_table \<Rightarrow> lane_lock_table" where
  "lane_leave tid t st =
     (let remaining = dict_get (lane_lock_users st) (lt_lane t) 1 - 1;
          st1 = st\<lparr>lock_tasks := AList.delete tid (lock_tasks st)\<rparr>
      in if remaining \<le> 0
         then st1\<lparr>lane_lock_users := AList.delete (lt_lane t) (lane_lock_users st),
                  lane_locks := (if map_of (lane_locks st) (lt_lane t) = Some (lt_lock t)
                                 then AList.delete (lt_lane t) (lane_locks st) else lane_locks st)\<rparr>
         else st1\<lparr>lane_lock_users := AList.update (lt_lane t) remaining (lane_lock_users st)\<rparr>)"

definition lane_cancel :: "nat \<Rightarrow> lane_lock_table \<Rightarrow> lane_lock_table" where
  "lane_cancel tid st = st\<lparr>lock_tasks := AList.delete tid (lock_tasks st)\<rparr>"

inductive lock_reach :: "bool \<Rightarrow> lane_lock_table \<Rightarrow> bool" for cancels where
  lock_init: "lock_reach cancels no_locks"
| lock_enter: "lock_reach cancels st \<Longrightarrow> map_of (lock_tasks st) tid = None \<Longrightarrow> lock_reach cancels (lane_enter tid lane st)"
| lock_acquire: "lock_reach cancels st \<Longrightarrow> map_of (lock_tasks st) tid = Some t \<Longrightarrow> lt_phase t = Waiting \<Longrightarrow>
    map_of (lock_holder st) (lt_lock t) = None \<Longrightarrow> lock_reach cancels (lane_acquire tid t st)"
| lock_release: "lock_reach cancels st \<Longrightarrow> map_of (lock_tasks st) tid = Some t \<Longrightarrow> lt_phase t = Holding \<Longrightarrow>
    lock_reach cancels (lane_release tid t st)"
| lock_leave: "lock_reach cancels st \<Longrightarrow> map_of (lock_tasks st) tid = Some t \<Longrightarrow> lt_phase t = Released \<Longrightarrow>
    lock_reach cancels (lane_leave tid t st)"
| lock_cancel: "lock_reach cancels st \<Longrightarrow> cancels \<Longrightarrow> map_of (lock_tasks st) tid = Some t \<Longrightarrow> lt_phase t \<noteq> Holding \<Longrightarrow>
    lock_reach cancels (lane_cancel tid st)"

section \<open>The invariant\<close>

definition users_of :: "string \<Rightarrow> lane_lock_table \<Rightarrow> nat" where
  "users_of lane st = length (filter (\<lambda>(_, t). lt_lane t = lane) (lock_tasks st))"

text \<open>The entries of one lane, whose count is exact as long as no task is cancelled.\<close>

definition lane_count_ok :: "bool \<Rightarrow> nat option \<Rightarrow> int option \<Rightarrow> nat \<Rightarrow> bool" where
  "lane_count_ok cancels lock users n \<longleftrightarrow>
     (case users of
        None \<Rightarrow> lock = None \<and> n = 0
      | Some m \<Rightarrow> lock \<noteq> None \<and> 1 \<le> m \<and> int n \<le> m \<and> (\<not> cancels \<longrightarrow> int n = m))"

definition lock_count_ok :: "bool \<Rightarrow> lane_lock_table \<Rightarrow> bool" where
  "lock_count_ok cancels st \<longleftrightarrow>
     (\<forall>k. lane_count_ok cancels (map_of (lane_locks st) k) (map_of (lane_lock_users st) k) (users_of k st))"

definition lock_names_ok :: "lane_lock_table \<Rightarrow> bool" where
  "lock_names_ok st \<longleftrightarrow> distinct (map fst (lock_tasks st))
     \<and> (\<forall>lane l. map_of (lane_locks st) lane = Some l \<longrightarrow> l < next_lock st)
     \<and> (\<forall>a b l. map_of (lane_locks st) a = Some l \<longrightarrow> map_of (lane_locks st) b = Some l \<longrightarrow> a = b)
     \<and> (\<forall>tid t. map_of (lock_tasks st) tid = Some t \<longrightarrow> map_of (lane_locks st) (lt_lane t) = Some (lt_lock t))"

definition lock_holders_ok :: "lane_lock_table \<Rightarrow> bool" where
  "lock_holders_ok st \<longleftrightarrow> (\<forall>tid t. map_of (lock_tasks st) tid = Some t \<longrightarrow>
     lt_phase t = Holding \<longrightarrow> map_of (lock_holder st) (lt_lock t) = Some tid)
     \<and> (\<forall>l tid. map_of (lock_holder st) l = Some tid \<longrightarrow>
          (\<exists>t. map_of (lock_tasks st) tid = Some t \<and> lt_lock t = l \<and> lt_phase t = Holding))"

definition lock_inv :: "bool \<Rightarrow> lane_lock_table \<Rightarrow> bool" where
  "lock_inv cancels st \<longleftrightarrow> lock_count_ok cancels st \<and> lock_names_ok st \<and> lock_holders_ok st"

lemma users_of_update:
  assumes "distinct (map fst ts)"
  shows "length (filter (\<lambda>(_, t). P t) (AList.update k x ts)) =
    length (filter (\<lambda>(_, t). P t) ts) - (case map_of ts k of Some y \<Rightarrow> if P y then 1 else 0 | None \<Rightarrow> 0)
      + (if P x then 1 else 0)"
  using assms
proof (induction ts)
  case (Cons a ts)
  obtain k' y where a: "a = (k', y)" by fastforce
  have "P z \<Longrightarrow> map_of ts k = Some z \<Longrightarrow> 0 < length (filter (\<lambda>(_, t). P t) ts)" for z
    by (auto dest!: map_of_SomeD simp: length_greater_0_conv filter_empty_conv)
  then show ?case using Cons a by (auto split: option.split)
qed simp

lemma users_of_delete:
  assumes "distinct (map fst ts)"
  shows "length (filter (\<lambda>(_, t). P t) (AList.delete k ts)) =
    length (filter (\<lambda>(_, t). P t) ts) - (case map_of ts k of Some y \<Rightarrow> if P y then 1 else 0 | None \<Rightarrow> 0)"
  using assms
proof (induction ts)
  case (Cons a ts)
  obtain k' y where a: "a = (k', y)" by fastforce
  have "P z \<Longrightarrow> map_of ts k = Some z \<Longrightarrow> 0 < length (filter (\<lambda>(_, t). P t) ts)" for z
    by (auto dest!: map_of_SomeD simp: length_greater_0_conv filter_empty_conv)
  moreover have "k' = k \<Longrightarrow> AList.delete k ts = ts" using Cons.prems a by (auto simp: delete_conv image_iff)
  ultimately show ?case using Cons a by (auto split: option.split)
qed simp

lemma users_of_pos:
  "map_of (lock_tasks st) tid = Some t \<Longrightarrow> 0 < users_of (lt_lane t) st"
  by (auto simp: users_of_def length_greater_0_conv filter_empty_conv dest!: map_of_SomeD)


lemma enter_tasks [simp]:
  "lock_tasks (lane_enter tid lane st) = AList.update tid \<lparr>lt_lane = lane,
     lt_lock = (case map_of (lane_locks st) lane of Some l \<Rightarrow> l | None \<Rightarrow> next_lock st), lt_phase = Waiting\<rparr> (lock_tasks st)"
  "lock_holder (lane_enter tid lane st) = lock_holder st"
  "lane_lock_users (lane_enter tid lane st) = AList.update lane (dict_get (lane_lock_users st) lane 0 + 1) (lane_lock_users st)"
  "map_of (lane_locks (lane_enter tid lane st)) =
     (map_of (lane_locks st))(lane \<mapsto> (case map_of (lane_locks st) lane of Some l \<Rightarrow> l | None \<Rightarrow> next_lock st))"
  "next_lock (lane_enter tid lane st) =
     (case map_of (lane_locks st) lane of Some l \<Rightarrow> next_lock st | None \<Rightarrow> Suc (next_lock st))"
  by (auto simp: lane_enter_def dict_simps Let_def split: option.split)

lemma enter_count:
  assumes "lock_inv c st" "map_of (lock_tasks st) tid = None"
  shows "lock_count_ok c (lane_enter tid lane st)"
proof -
  have d: "distinct (map fst (lock_tasks st))" using assms by (simp add: lock_inv_def lock_names_ok_def)
  have u: "users_of k (lane_enter tid lane st) = users_of k st + (if k = lane then 1 else 0)" for k
    using users_of_update [OF d, of "\<lambda>t. lt_lane t = k"] assms(2) by (simp add: users_of_def)
  have ok: "lane_count_ok c (map_of (lane_locks st) k) (map_of (lane_lock_users st) k) (users_of k st)" for k
    using assms by (simp add: lock_inv_def lock_count_ok_def)
  show ?thesis unfolding lock_count_ok_def
  proof
    fix k
    show "lane_count_ok c (map_of (lane_locks (lane_enter tid lane st)) k) (map_of (lane_lock_users (lane_enter tid lane st)) k)
        (users_of k (lane_enter tid lane st))"
      using ok [of k] by (auto simp: u lane_count_ok_def dict_simps dict_get_def split: option.splits)
  qed
qed

lemma enter_names:
  assumes "lock_inv c st" "map_of (lock_tasks st) tid = None"
  shows "lock_names_ok (lane_enter tid lane st)"
proof -
  have n: "distinct (map fst (lock_tasks st))"
    "\<And>a l. map_of (lane_locks st) a = Some l \<Longrightarrow> l < next_lock st"
    "\<And>a b l. map_of (lane_locks st) a = Some l \<Longrightarrow> map_of (lane_locks st) b = Some l \<Longrightarrow> a = b"
    "\<And>k t. map_of (lock_tasks st) k = Some t \<Longrightarrow> map_of (lane_locks st) (lt_lane t) = Some (lt_lock t)"
    using assms(1) by (simp_all add: lock_inv_def lock_names_ok_def)
  show ?thesis unfolding lock_names_ok_def
  proof (intro conjI allI impI)
    show "distinct (map fst (lock_tasks (lane_enter tid lane st)))" using n(1) by (simp add: distinct_update)
    show "l < next_lock (lane_enter tid lane st)" if "map_of (lane_locks (lane_enter tid lane st)) a = Some l" for a l
      using that n(2) by (auto split: option.splits if_splits intro: less_SucI)
    show "a = b" if "map_of (lane_locks (lane_enter tid lane st)) a = Some l" "map_of (lane_locks (lane_enter tid lane st)) b = Some l" for a b l
      using that n(2,3) by (auto split: option.splits if_splits)
    show "map_of (lane_locks (lane_enter tid lane st)) (lt_lane t) = Some (lt_lock t)"
      if "map_of (lock_tasks (lane_enter tid lane st)) k = Some t" for k t
      using that n(4) [of k t] by (auto simp: dict_simps split: option.splits if_splits)
  qed
qed

lemma enter_holders:
  assumes "lock_inv c st" "map_of (lock_tasks st) tid = None"
  shows "lock_holders_ok (lane_enter tid lane st)"
  using assms unfolding lock_inv_def lock_holders_ok_def by (auto simp: dict_simps) fastforce

text \<open>A step that keeps the tables and the lanes of the tasks keeps counts and names.\<close>

lemma phase_step:
  assumes inv: "lock_inv c st" and t: "map_of (lock_tasks st) tid = Some t"
    and st': "lock_tasks st' = AList.update tid (t\<lparr>lt_phase := p\<rparr>) (lock_tasks st)" "lane_locks st' = lane_locks st"
      "lane_lock_users st' = lane_lock_users st" "next_lock st' = next_lock st"
  shows "lock_count_ok c st'" "lock_names_ok st'"
proof -
  have d: "distinct (map fst (lock_tasks st))" using inv by (simp add: lock_inv_def lock_names_ok_def)
  have u: "users_of k st' = users_of k st" for k
    using users_of_update [OF d, of "\<lambda>t. lt_lane t = k" tid "t\<lparr>lt_phase := p\<rparr>"] t st'(1) users_of_pos [OF t]
    by (auto simp: users_of_def)
  show "lock_count_ok c st'" using inv unfolding lock_inv_def lock_count_ok_def u st'(2,3) by blast
  show "lock_names_ok st'" using inv t st'
    by (auto simp: lock_inv_def lock_names_ok_def dict_simps distinct_update)
qed

lemma acquire_inv:
  assumes "lock_inv c st" "map_of (lock_tasks st) tid = Some t" "lt_phase t = Waiting" "map_of (lock_holder st) (lt_lock t) = None"
  shows "lock_inv c (lane_acquire tid t st)"
proof -
  have "lock_holders_ok (lane_acquire tid t st)"
    using assms unfolding lock_inv_def lock_holders_ok_def lane_acquire_def
    by (auto simp: dict_simps) (metis lock_phase.distinct(1) option.distinct(1) option.inject)+
  then show ?thesis using phase_step [OF assms(1,2), of "lane_acquire tid t st" Holding]
    by (simp add: lock_inv_def lane_acquire_def)
qed

lemma release_inv:
  assumes "lock_inv c st" "map_of (lock_tasks st) tid = Some t" "lt_phase t = Holding"
  shows "lock_inv c (lane_release tid t st)"
proof -
  have h: "map_of (lock_holder st) (lt_lock t) = Some tid"
    using assms unfolding lock_inv_def lock_holders_ok_def by blast
  have "lock_holders_ok (lane_release tid t st)"
    using assms h unfolding lock_inv_def lock_holders_ok_def lane_release_def
    by (auto simp: dict_simps split: if_splits) (metis option.inject)+
  then show ?thesis using phase_step [OF assms(1,2), of "lane_release tid t st" Released]
    by (simp add: lock_inv_def lane_release_def)
qed

lemma gone_holders:
  assumes "lock_inv c st" "map_of (lock_tasks st) tid = Some t" "lt_phase t \<noteq> Holding"
    and "lock_tasks st' = AList.delete tid (lock_tasks st)" "lock_holder st' = lock_holder st"
  shows "lock_holders_ok st'"
  using assms unfolding lock_inv_def lock_holders_ok_def by (auto simp: dict_simps split: if_splits) (metis option.inject)

lemma gone_users:
  assumes "lock_inv c st" "map_of (lock_tasks st) tid = Some t" "lock_tasks st' = AList.delete tid (lock_tasks st)"
  shows "users_of k st' = users_of k st - (if k = lt_lane t then 1 else 0)"
  using users_of_delete [of "lock_tasks st" "\<lambda>t. lt_lane t = k" tid] assms
  by (auto simp: users_of_def lock_inv_def lock_names_ok_def)

lemma cancel_inv:
  assumes "lock_inv c st" "c" "map_of (lock_tasks st) tid = Some t" "lt_phase t \<noteq> Holding"
  shows "lock_inv c (lane_cancel tid st)"
proof -
  note u = gone_users [OF assms(1,3), of "lane_cancel tid st"]
  have "lane_count_ok c (map_of (lane_locks st) k) (map_of (lane_lock_users st) k) (users_of k (lane_cancel tid st))" for k
  proof -
    have "lane_count_ok c (map_of (lane_locks st) k) (map_of (lane_lock_users st) k) (users_of k st)"
      using assms(1) by (simp add: lock_inv_def lock_count_ok_def)
    moreover have "users_of k (lane_cancel tid st) \<le> users_of k st" using u [of k] by (simp add: lane_cancel_def)
    ultimately show ?thesis using assms(2) by (auto simp: lane_count_ok_def split: option.splits)
  qed
  then have "lock_count_ok c (lane_cancel tid st)" by (simp add: lock_count_ok_def lane_cancel_def)
  moreover have "lock_names_ok (lane_cancel tid st)"
    using assms(1) by (auto simp: lock_inv_def lock_names_ok_def lane_cancel_def dict_simps distinct_delete split: if_splits)
  ultimately show ?thesis using gone_holders [OF assms(1,3,4), of "lane_cancel tid st"]
    by (simp add: lock_inv_def lane_cancel_def)
qed

lemma leave_inv:
  assumes inv: "lock_inv c st" and t: "map_of (lock_tasks st) tid = Some t" "lt_phase t = Released"
  shows "lock_inv c (lane_leave tid t st)"
proof -
  let ?st' = "lane_leave tid t st"
  have tasks: "lock_tasks ?st' = AList.delete tid (lock_tasks st)" "lock_holder ?st' = lock_holder st" "next_lock ?st' = next_lock st"
    by (simp_all add: lane_leave_def Let_def)
  note u = gone_users [OF inv t(1) tasks(1)]
  have ok: "lane_count_ok c (map_of (lane_locks st) k) (map_of (lane_lock_users st) k) (users_of k st)" for k
    using inv by (simp add: lock_inv_def lock_count_ok_def)
  have lk: "map_of (lane_locks st) (lt_lane t) = Some (lt_lock t)"
    using inv t by (auto simp: lock_inv_def lock_names_ok_def)
  obtain m where m: "map_of (lane_lock_users st) (lt_lane t) = Some m" "1 \<le> m" "int (users_of (lt_lane t) st) \<le> m"
    "\<not> c \<Longrightarrow> int (users_of (lt_lane t) st) = m"
    using ok [of "lt_lane t"] users_of_pos [OF t(1)] by (auto simp: lane_count_ok_def split: option.splits)
  have rem: "dict_get (lane_lock_users st) (lt_lane t) 1 - 1 = m - 1" using m(1) by (simp add: dict_get_def)
  have locks: "map_of (lane_locks ?st') k = (if k = lt_lane t \<and> m = 1 then None else map_of (lane_locks st) k)" for k
    using lk m(2) by (auto simp: lane_leave_def Let_def rem dict_simps)
  have users: "map_of (lane_lock_users ?st') k =
      (if k = lt_lane t then if m = 1 then None else Some (m - 1) else map_of (lane_lock_users st) k)" for k
    using m(2) by (auto simp: lane_leave_def Let_def rem dict_simps)
  have "lane_count_ok c (map_of (lane_locks ?st') k) (map_of (lane_lock_users ?st') k) (users_of k ?st')" for k
  proof (cases "k = lt_lane t")
    case True
    then show ?thesis using m lk users_of_pos [OF t(1)] by (auto simp: lane_count_ok_def locks users u)
  next
    case False
    then show ?thesis using ok [of k] by (simp add: locks users u)
  qed
  then have "lock_count_ok c ?st'" by (simp add: lock_count_ok_def)
  moreover have "lock_names_ok ?st'" unfolding lock_names_ok_def
  proof (intro conjI allI impI)
    have n: "distinct (map fst (lock_tasks st))" "\<And>a l. map_of (lane_locks st) a = Some l \<Longrightarrow> l < next_lock st"
      "\<And>a b l. map_of (lane_locks st) a = Some l \<Longrightarrow> map_of (lane_locks st) b = Some l \<Longrightarrow> a = b"
      "\<And>k x. map_of (lock_tasks st) k = Some x \<Longrightarrow> map_of (lane_locks st) (lt_lane x) = Some (lt_lock x)"
      using inv by (simp_all add: lock_inv_def lock_names_ok_def)
    show "distinct (map fst (lock_tasks ?st'))" using n(1) by (simp add: tasks distinct_delete)
    show "l < next_lock ?st'" if "map_of (lane_locks ?st') a = Some l" for a l
      using that n(2) by (auto simp: locks tasks split: if_splits)
    show "a = b" if "map_of (lane_locks ?st') a = Some l" "map_of (lane_locks ?st') b = Some l" for a b l
      using that n(3) by (auto simp: locks split: if_splits)
    show "map_of (lane_locks ?st') (lt_lane x) = Some (lt_lock x)" if "map_of (lock_tasks ?st') k = Some x" for k x
    proof -
      have k: "k \<noteq> tid" "map_of (lock_tasks st) k = Some x" using that by (auto simp: tasks dict_simps split: if_splits)
      have "map_of (lock_tasks ?st') k = Some x" using that .
      then have "0 < users_of (lt_lane x) ?st'" by (rule users_of_pos)
      then have "\<not> (lt_lane x = lt_lane t \<and> m = 1)" using u m(3) by auto
      then show ?thesis using n(4) [OF k(2)] by (auto simp: locks)
    qed
  qed
  moreover have "lock_holders_ok ?st'" using gone_holders [OF inv t(1) _ tasks(1,2)] t(2) by simp
  ultimately show ?thesis by (simp add: lock_inv_def)
qed

lemma lock_reach_inv: "lock_reach c st \<Longrightarrow> lock_inv c st"
proof (induction rule: lock_reach.induct)
  case lock_init
  show ?case by (simp add: no_locks_def lock_inv_def lock_count_ok_def lane_count_ok_def users_of_def lock_names_ok_def lock_holders_ok_def)
next
  case (lock_enter st tid lane)
  then show ?case using enter_count [of c st tid lane] enter_names [of c st tid lane] enter_holders [of c st tid lane]
    by (simp add: lock_inv_def)
qed (blast intro: acquire_inv release_inv leave_inv cancel_inv)+

section \<open>Properties\<close>

definition demo_locks :: lane_lock_table where
  "demo_locks = lane_acquire 1 \<lparr>lt_lane = ''a'', lt_lock = 0, lt_phase = Waiting\<rparr> (lane_enter 2 ''a'' (lane_enter 1 ''a'' no_locks))"

lemma demo_locks_reach: "lock_reach False demo_locks"
  unfolding demo_locks_def
  by (rule lock_acquire, rule lock_enter, rule lock_enter, rule lock_init)
    (simp_all add: no_locks_def lane_enter_def Let_def)

text \<open>
  (C31) Operations of a lane exclude each other, and the tables do not grow. Whatever tasks enter,
  wait, leave or are cancelled, two tasks that hold the lock of the same lane are the same task, even
  though lock objects come and go; and as long as no task is cancelled while it waits, a lane without
  tasks has no lock and no count.
\<close>

theorem lane_operations_exclusive:
  assumes "lock_reach cancels st"
  shows "(map_of (lock_tasks st) a = Some t \<longrightarrow> map_of (lock_tasks st) b = Some t' \<longrightarrow> lt_lane t = lt_lane t' \<longrightarrow>
      lt_phase t = Holding \<longrightarrow> lt_phase t' = Holding \<longrightarrow> a = b)
    \<and> (\<not> cancels \<longrightarrow> (\<forall>x \<in> set (lock_tasks st). lt_lane (snd x) \<noteq> lane) \<longrightarrow>
        map_of (lane_locks st) lane = None \<and> map_of (lane_lock_users st) lane = None)"
proof (intro conjI impI)
  have inv: "lock_inv cancels st" by (rule lock_reach_inv [OF assms])
  show "a = b" if "map_of (lock_tasks st) a = Some t" "map_of (lock_tasks st) b = Some t'" "lt_lane t = lt_lane t'"
    "lt_phase t = Holding" "lt_phase t' = Holding"
  proof -
    have "lt_lock t = lt_lock t'" using inv that(1-3) unfolding lock_inv_def lock_names_ok_def by (metis option.inject)
    then show ?thesis using inv that unfolding lock_inv_def lock_holders_ok_def by (metis option.inject)
  qed
  assume "\<not> cancels" "\<forall>x \<in> set (lock_tasks st). lt_lane (snd x) \<noteq> lane"
  then have "users_of lane st = 0" by (auto simp: users_of_def filter_empty_conv)
  moreover have "lane_count_ok cancels (map_of (lane_locks st) lane) (map_of (lane_lock_users st) lane) (users_of lane st)"
    using inv by (simp add: lock_inv_def lock_count_ok_def)
  ultimately show "map_of (lane_locks st) lane = None" "map_of (lane_lock_users st) lane = None"
    using \<open>\<not> cancels\<close> by (auto simp: lane_count_ok_def split: option.splits)
qed

lemma lane_operations_exclusive_witness:
  "lock_reach False demo_locks \<and> map_of (lane_locks demo_locks) ''b'' = None
   \<and> (\<exists>t. map_of (lock_tasks demo_locks) 1 = Some t \<and> lt_phase t = Holding)"
  using lane_operations_exclusive [OF demo_locks_reach, of 1 _ 2 _ "''b''"] demo_locks_reach
  by (simp add: demo_locks_def lane_acquire_def lane_enter_def no_locks_def Let_def)

text \<open>A cancelled waiter leaves its lane in the tables for good.\<close>

lemma cancelled_waiter_leaks:
  "\<exists>st. lock_reach True st \<and> lock_tasks st = [] \<and> map_of (lane_locks st) ''a'' = Some 0 \<and> map_of (lane_lock_users st) ''a'' = Some 1"
proof (intro exI conjI)
  show "lock_reach True (lane_cancel 1 (lane_enter 1 ''a'' no_locks))"
    by (rule lock_cancel [OF lock_enter [OF lock_init], where t = "\<lparr>lt_lane = ''a'', lt_lock = 0, lt_phase = Waiting\<rparr>"])
      (simp_all add: no_locks_def lane_enter_def Let_def)
qed (simp_all add: lane_cancel_def no_locks_def lane_enter_def dict_get_def Let_def)

end
