(* ===== verification/Live_Edge.thy ===== *)
theory Live_Edge
  imports VM_Prelude
begin

text \<open>
  \<^verbatim>\<open>edge_adapter.py\<close> and \<^verbatim>\<open>verarelay_live_edge.py\<close>: the two ways through an edge, a proxy that forwards at once and a relay that only
  takes custody, and the reference carrier that copies bytes between two sockets without reading them. The carrier is a
  state machine: the tasks of its connections interleave at each wait, and \<^verbatim>\<open>close\<close> cancels them.
\<close>

section \<open>Proxy and relay\<close>

text \<open>What is behind them is a function of its own state.\<close>

record durable_disposition =
  dd_request_id :: string
  dd_state :: string
  dd_relay_receipt_id :: "string option"

definition DurableDisposition :: "string \<Rightarrow> string \<Rightarrow> string option \<Rightarrow> durable_disposition result" where
  "DurableDisposition rid state receipt =
     (if state \<notin> {''QUEUED_NOT_EXECUTED'', ''REJECTED''} then Inl (Py ValueError)
      else Inr \<lparr>dd_request_id = rid, dd_state = state, dd_relay_receipt_id = receipt\<rparr>)"

definition live_request :: "bool \<Rightarrow> (dict \<Rightarrow> 'w \<Rightarrow> dict result \<times> 'w) \<Rightarrow> dict \<Rightarrow> 'w \<Rightarrow> dict result \<times> 'w" where
  "live_request authenticated forward req w =
     (if \<not> authenticated then (Inl (Edge EdgeUnauthenticated), w) else forward req w)"

definition relay_enqueue :: "bool \<Rightarrow> (dict \<Rightarrow> 'w \<Rightarrow> json result \<times> 'w) \<Rightarrow> dict \<Rightarrow> 'w \<Rightarrow> durable_disposition result \<times> 'w" where
  "relay_enqueue authenticated submit req w =
     (if \<not> authenticated then (Inl (Edge EdgeUnauthenticated), w)
      else (case dict_get req ''request_id'' JNull of
        JStr rid \<Rightarrow>
          if rid = [] then (Inl (Py ValueError), w)
          else (case submit req w of
             (Inl e, w1) \<Rightarrow> (Inl e, w1)
           | (Inr (JStr receipt), w1) \<Rightarrow>
               if receipt = [] then (Inl (Edge EdgeAdapterError), w1)
               else (DurableDisposition rid ''QUEUED_NOT_EXECUTED'' (Some receipt), w1)
           | (Inr _, w1) \<Rightarrow> (Inl (Edge EdgeAdapterError), w1))
      | _ \<Rightarrow> (Inl (Py ValueError), w)))"

text \<open>Custody is not execution: a disposition is only made for a receipt of the relay, under the id of the request, as queued.\<close>

lemma relay_enqueue_custody:
  assumes "relay_enqueue authenticated submit req w = (Inr d, w')"
  shows "authenticated \<and> dict_get req ''request_id'' JNull = JStr (dd_request_id d) \<and> dd_state d = ''QUEUED_NOT_EXECUTED''
    \<and> (\<exists>receipt. receipt \<noteq> [] \<and> submit req w = (Inr (JStr receipt), w') \<and> dd_relay_receipt_id d = Some receipt)"
  using assms by (auto simp: relay_enqueue_def DurableDisposition_def split: if_splits json.splits sum.splits prod.splits)

section \<open>Configuration of the carrier\<close>

record edge_config =
  listen_host :: string
  listen_port :: int
  upstream_host :: string
  upstream_port :: int
  max_connections :: int
  edge_connect_timeout_s :: pyfloat
  io_chunk_bytes :: int

definition edge_config_check :: "edge_config \<Rightarrow> unit result" where
  "edge_config_check c =
     (if listen_host c = [] then Inl (Py ValueError)
      else if upstream_host c = [] then Inl (Py ValueError)
      else if list_ex (\<lambda>p. \<not> (1 \<le> p \<and> p \<le> 65535)) [listen_port c, upstream_port c] then Inl (Py ValueError)
      else if \<not> (1 \<le> max_connections c \<and> max_connections c \<le> 1024) then Inl (Py ValueError)
      else if \<not> (fle (Fin (1 / 20)) (edge_connect_timeout_s c) \<and> fle (edge_connect_timeout_s c) (Fin 60)) then Inl (Py ValueError)
      else if \<not> (1024 \<le> io_chunk_bytes c \<and> io_chunk_bytes c \<le> 1048576) then Inl (Py ValueError)
      else Inr ())"

section \<open>Connections\<close>

text \<open>
  One direction of a connection: \<open>arrived\<close> is all that its reader has received, \<open>sent\<close> what was written to the other side,
  \<open>at_eof\<close> holds when the sender has finished, \<open>pump_done\<close> when the task has ended. A chunk is written in the turn in which it is
  read.
\<close>

record pump =
  arrived :: string
  sent :: string
  at_eof :: bool
  pump_done :: bool

text \<open>
  The phases of \<^verbatim>\<open>_accept\<close> are its waits: for the admission lock, for the close of a refused connection (with the lock held), for
  the upstream, for the close after a failed one, for the pumps, for the close of both sides, and for the lock once more.
\<close>

datatype edge_phase = Arrived | Refusing | Connecting | Rejecting | Pumping | Closing | Releasing | Finished

record edge_connection =
  ec_phase :: edge_phase
  ec_admitted :: bool
  ec_upstream :: bool
  ec_pumps :: "bool \<Rightarrow> pump"

definition idle_pump :: pump where
  "idle_pump = \<lparr>arrived = [], sent = [], at_eof = False, pump_done = False\<rparr>"

definition new_connection :: edge_connection where
  "new_connection = \<lparr>ec_phase = Arrived, ec_admitted = False, ec_upstream = False, ec_pumps = (\<lambda>_. idle_pump)\<rparr>"

text \<open>\<^verbatim>\<open>_pump\<close>: a turn of the loop with bytes to read, and its end; \<open>fault\<close> is an exception of the sockets.\<close>

definition pump_chunk :: "edge_config \<Rightarrow> pump \<Rightarrow> pump" where
  "pump_chunk cfg p = p\<lparr>sent := sent p @ take (nat (io_chunk_bytes cfg)) (drop (length (sent p)) (arrived p))\<rparr>"

definition pump_can_end :: "bool \<Rightarrow> pump \<Rightarrow> bool" where
  "pump_can_end fault p \<longleftrightarrow> fault \<or> (at_eof p \<and> length (sent p) = length (arrived p))"

definition on_pump :: "bool \<Rightarrow> (pump \<Rightarrow> pump) \<Rightarrow> edge_connection \<Rightarrow> edge_connection" where
  "on_pump d f c = c\<lparr>ec_pumps := (ec_pumps c)(d := f (ec_pumps c d))\<rparr>"

section \<open>The carrier\<close>

record live_edge =
  ed_config :: edge_config
  ed_server :: bool
  ed_active_connections :: int
  ed_lock :: "nat option"
  ed_connections :: "edge_connection list"

definition edge_new :: "edge_config \<Rightarrow> live_edge" where
  "edge_new cfg = \<lparr>ed_config = cfg, ed_server = False, ed_active_connections = 0, ed_lock = None, ed_connections = []\<rparr>"

definition edge_start :: "live_edge \<Rightarrow> live_edge" where
  "edge_start e = e\<lparr>ed_server := True\<rparr>"

definition set_connection :: "nat \<Rightarrow> edge_connection \<Rightarrow> live_edge \<Rightarrow> live_edge" where
  "set_connection i c e = e\<lparr>ed_connections := (ed_connections e)[i := c]\<rparr>"

definition edge_arrival :: "live_edge \<Rightarrow> live_edge" where
  "edge_arrival e = e\<lparr>ed_connections := ed_connections e @ [new_connection]\<rparr>"

text \<open>The first block under the admission lock; a refused connection keeps the lock until it is closed.\<close>

definition edge_admit :: "nat \<Rightarrow> edge_connection \<Rightarrow> live_edge \<Rightarrow> live_edge" where
  "edge_admit i c e =
     (if ed_active_connections e \<ge> max_connections (ed_config e)
      then set_connection i (c\<lparr>ec_phase := Refusing\<rparr>) e\<lparr>ed_lock := Some i\<rparr>
      else set_connection i (c\<lparr>ec_phase := Connecting, ec_admitted := True\<rparr>) e
             \<lparr>ed_active_connections := ed_active_connections e + 1\<rparr>)"

definition edge_refused :: "nat \<Rightarrow> edge_connection \<Rightarrow> live_edge \<Rightarrow> live_edge" where
  "edge_refused i c e = set_connection i (c\<lparr>ec_phase := Finished\<rparr>) e\<lparr>ed_lock := None\<rparr>"

definition edge_connected :: "bool \<Rightarrow> nat \<Rightarrow> edge_connection \<Rightarrow> live_edge \<Rightarrow> live_edge" where
  "edge_connected ok i c e =
     set_connection i (if ok then c\<lparr>ec_phase := Pumping, ec_upstream := True\<rparr> else c\<lparr>ec_phase := Rejecting\<rparr>) e"

text \<open>The first pump that ends ends the other; then both sides are closed and awaited.\<close>

definition edge_stop :: "nat \<Rightarrow> edge_connection \<Rightarrow> live_edge \<Rightarrow> live_edge" where
  "edge_stop i c e = set_connection i (c\<lparr>ec_phase := Closing\<rparr>) e"

definition edge_closed :: "nat \<Rightarrow> edge_connection \<Rightarrow> live_edge \<Rightarrow> live_edge" where
  "edge_closed i c e = set_connection i (c\<lparr>ec_phase := Releasing\<rparr>) e"

definition edge_release :: "nat \<Rightarrow> edge_connection \<Rightarrow> live_edge \<Rightarrow> live_edge" where
  "edge_release i c e =
     set_connection i (c\<lparr>ec_phase := Finished\<rparr>) e\<lparr>ed_active_connections := ed_active_connections e - 1\<rparr>"

text \<open>
  What a cancelled task does with its \<^verbatim>\<open>finally\<close> blocks. \<open>waits\<close> says that a task is suspended at the lock: then the release of its
  place is skipped.
\<close>

definition cancel_connection :: "bool \<Rightarrow> edge_connection \<Rightarrow> edge_connection" where
  "cancel_connection waits c =
     c\<lparr>ec_phase := (case ec_phase c of
          Arrived \<Rightarrow> Finished | Refusing \<Rightarrow> Finished | Connecting \<Rightarrow> Releasing | Rejecting \<Rightarrow> Releasing
        | Pumping \<Rightarrow> Closing | Closing \<Rightarrow> Releasing | Releasing \<Rightarrow> (if waits then Finished else Releasing)
        | Finished \<Rightarrow> Finished)\<rparr>"

definition edge_close :: "(nat \<Rightarrow> bool) \<Rightarrow> live_edge \<Rightarrow> live_edge" where
  "edge_close waits e =
     e\<lparr>ed_server := False, ed_lock := None,
       ed_connections := map (\<lambda>(i, c). cancel_connection (waits i) c) (enumerate 0 (ed_connections e))\<rparr>"

text \<open>The steps; \<open>closes\<close> says whether \<^verbatim>\<open>close\<close> may be among them.\<close>

definition is_connection :: "live_edge \<Rightarrow> nat \<Rightarrow> edge_connection \<Rightarrow> bool" where
  "is_connection e i c \<longleftrightarrow> i < length (ed_connections e) \<and> ed_connections e ! i = c"

inductive edge_step :: "bool \<Rightarrow> live_edge \<Rightarrow> live_edge \<Rightarrow> bool" for closes where
  step_start: "edge_step closes e (edge_start e)"
| step_arrival: "ed_server e \<Longrightarrow> edge_step closes e (edge_arrival e)"
| step_admit: "is_connection e i c \<Longrightarrow> ec_phase c = Arrived \<Longrightarrow> ed_lock e = None \<Longrightarrow> edge_step closes e (edge_admit i c e)"
| step_refused: "is_connection e i c \<Longrightarrow> ec_phase c = Refusing \<Longrightarrow> edge_step closes e (edge_refused i c e)"
| step_connected: "is_connection e i c \<Longrightarrow> ec_phase c = Connecting \<Longrightarrow> edge_step closes e (edge_connected ok i c e)"
| step_sends: "is_connection e i c \<Longrightarrow> \<not> at_eof (ec_pumps c d) \<Longrightarrow>
    edge_step closes e (set_connection i (on_pump d (\<lambda>p. p\<lparr>arrived := arrived p @ bytes, at_eof := eof\<rparr>) c) e)"
| step_chunk: "is_connection e i c \<Longrightarrow> ec_phase c = Pumping \<Longrightarrow> \<not> pump_done (ec_pumps c d) \<Longrightarrow>
    edge_step closes e (set_connection i (on_pump d (pump_chunk (ed_config e)) c) e)"
| step_pump_end: "is_connection e i c \<Longrightarrow> ec_phase c = Pumping \<Longrightarrow> pump_can_end fault (ec_pumps c d) \<Longrightarrow>
    edge_step closes e (set_connection i (on_pump d (\<lambda>p. p\<lparr>pump_done := True\<rparr>) c) e)"
| step_stop: "is_connection e i c \<Longrightarrow> ec_phase c = Pumping \<Longrightarrow> pump_done (ec_pumps c d) \<Longrightarrow> edge_step closes e (edge_stop i c e)"
| step_closed: "is_connection e i c \<Longrightarrow> ec_phase c \<in> {Rejecting, Closing} \<Longrightarrow> edge_step closes e (edge_closed i c e)"
| step_release: "is_connection e i c \<Longrightarrow> ec_phase c = Releasing \<Longrightarrow> ed_lock e = None \<Longrightarrow> edge_step closes e (edge_release i c e)"
| step_close: "closes \<Longrightarrow> edge_step closes e (edge_close waits e)"

section \<open>The invariant\<close>

definition counted :: "edge_connection \<Rightarrow> bool" where
  "counted c \<longleftrightarrow> ec_admitted c \<and> ec_phase c \<noteq> Finished"

definition pump_ok :: "edge_connection \<Rightarrow> pump \<Rightarrow> bool" where
  "pump_ok c p \<longleftrightarrow> prefix (sent p) (arrived p) \<and> (\<not> ec_upstream c \<longrightarrow> sent p = [])"

definition connection_ok :: "edge_connection \<Rightarrow> bool" where
  "connection_ok c \<longleftrightarrow> (\<forall>d. pump_ok c (ec_pumps c d)) \<and> (ec_upstream c \<longrightarrow> ec_admitted c)
     \<and> (ec_phase c \<in> {Connecting, Rejecting, Pumping, Closing, Releasing} \<longrightarrow> ec_admitted c)
     \<and> (ec_phase c \<in> {Arrived, Refusing} \<longrightarrow> \<not> ec_admitted c) \<and> (ec_phase c = Pumping \<longrightarrow> ec_upstream c)"

definition admitted_count :: "live_edge \<Rightarrow> int" where
  "admitted_count e = int (length (filter counted (ed_connections e)))"

definition edge_inv :: "bool \<Rightarrow> live_edge \<Rightarrow> bool" where
  "edge_inv closes e \<longleftrightarrow> (\<forall>c \<in> set (ed_connections e). connection_ok c)
     \<and> admitted_count e \<le> ed_active_connections e \<and> ed_active_connections e \<le> max_connections (ed_config e)
     \<and> (\<not> closes \<longrightarrow> admitted_count e = ed_active_connections e)
     \<and> (\<forall>i c. is_connection e i c \<longrightarrow> (ed_lock e = Some i \<longleftrightarrow> ec_phase c = Refusing))
     \<and> (\<forall>i. ed_lock e = Some i \<longrightarrow> i < length (ed_connections e))"

lemma count_update:
  "i < length xs \<Longrightarrow> int (length (filter P (xs[i := x]))) = int (length (filter P xs)) - of_bool (P (xs ! i)) + of_bool (P x)"
proof (induction xs arbitrary: i)
  case (Cons a xs)
  then show ?case using Cons.IH [of "i - 1"] by (cases i) auto
qed simp

lemma admitted_set:
  assumes "is_connection e i c"
  shows "admitted_count (set_connection i c' e) = admitted_count e - of_bool (counted c) + of_bool (counted c')"
  using assms count_update [of i "ed_connections e" counted c'] by (simp add: admitted_count_def set_connection_def is_connection_def)

text \<open>A step of one connection, with what it does to the count and the lock.\<close>

lemma edge_inv_set:
  assumes inv: "edge_inv closes e" and c: "is_connection e i c" and ok: "connection_ok c \<Longrightarrow> connection_ok c'"
    and n: "connection_ok c \<Longrightarrow> n = ed_active_connections e - of_bool (counted c) + of_bool (counted c')" "n \<le> max_connections (ed_config e)"
    and l: "l = Some i \<longleftrightarrow> ec_phase c' = Refusing" "\<And>j. j \<noteq> i \<Longrightarrow> l = Some j \<longleftrightarrow> ed_lock e = Some j"
  shows "edge_inv closes (set_connection i c' e\<lparr>ed_active_connections := n, ed_lock := l\<rparr>)" (is "edge_inv closes ?e")
proof -
  have co: "connection_ok c" "i < length (ed_connections e)" using inv c by (auto simp: edge_inv_def is_connection_def)
  then have "admitted_count ?e = admitted_count e - of_bool (counted c) + of_bool (counted c')"
    using admitted_set [OF c, of c'] by (simp add: admitted_count_def)
  moreover have "connection_ok x" if "x \<in> set (ed_connections ?e)" for x
    using that ok co inv set_update_subset_insert [of "ed_connections e" i c'] by (auto simp: set_connection_def edge_inv_def)
  moreover have "ed_lock ?e = Some j \<longleftrightarrow> ec_phase x = Refusing" if "is_connection ?e j x" for j x
    using that inv c l by (cases "j = i") (auto simp: edge_inv_def is_connection_def set_connection_def)
  moreover have "j < length (ed_connections ?e)" if "ed_lock ?e = Some j" for j
    using that inv co l(2) by (cases "j = i") (auto simp: edge_inv_def set_connection_def)
  moreover have "ed_config ?e = ed_config e" by (simp add: set_connection_def)
  ultimately show ?thesis using inv n co by (simp add: edge_inv_def)
qed

lemma edge_inv_same:
  assumes "edge_inv closes e" "is_connection e i c" "connection_ok c \<Longrightarrow> connection_ok c'" "connection_ok c \<Longrightarrow> counted c' = counted c"
    "ec_phase c' = Refusing \<longleftrightarrow> ec_phase c = Refusing"
  shows "edge_inv closes (set_connection i c' e)"
proof -
  have "ed_lock e = Some i \<longleftrightarrow> ec_phase c' = Refusing" "ed_active_connections e \<le> max_connections (ed_config e)"
    using assms(1,2,5) by (auto simp: edge_inv_def)
  then have "edge_inv closes (set_connection i c' e\<lparr>ed_active_connections := ed_active_connections e, ed_lock := ed_lock e\<rparr>)"
    using assms by (intro edge_inv_set [OF assms(1,2)]) auto
  then show ?thesis by (simp add: set_connection_def)
qed

lemma pump_ok_upstream: "ec_upstream c' = ec_upstream c \<Longrightarrow> pump_ok c' p = pump_ok c p"
  by (simp add: pump_ok_def)

lemma connection_phase:
  assumes "connection_ok c" "ec_phase c \<in> {Connecting, Rejecting, Pumping, Closing, Releasing}"
    "ph \<in> {Rejecting, Closing, Releasing, Finished}"
  shows "connection_ok (c\<lparr>ec_phase := ph\<rparr>)"
  using assms by (auto simp: connection_ok_def pump_ok_def)

lemma connection_pump:
  assumes "connection_ok c" "pump_ok c (f (ec_pumps c d))"
  shows "connection_ok (on_pump d f c)"
  using assms by (auto simp: connection_ok_def on_pump_def pump_ok_def)

lemma pump_ok_arrives: "pump_ok c p \<Longrightarrow> pump_ok c (p\<lparr>arrived := arrived p @ bytes, at_eof := eof\<rparr>)"
  by (auto simp: pump_ok_def)

lemma pump_ok_chunk: "pump_ok c p \<Longrightarrow> ec_upstream c \<Longrightarrow> pump_ok c (pump_chunk cfg p)"
  by (auto simp: pump_ok_def pump_chunk_def prefix_def) (metis append_take_drop_id)

lemma pump_ok_done: "pump_ok c p \<Longrightarrow> pump_ok c (p\<lparr>pump_done := b\<rparr>)"
  by (simp add: pump_ok_def)

lemma cancelled_ok:
  assumes "connection_ok c"
  shows "connection_ok (cancel_connection w c)" "counted (cancel_connection w c) \<Longrightarrow> counted c"
    "ec_phase (cancel_connection w c) \<noteq> Refusing"
  using assms by (auto simp: connection_ok_def cancel_connection_def pump_ok_def counted_def split: edge_phase.splits if_splits)

lemma edge_inv_close:
  assumes "edge_inv closes e" "closes"
  shows "edge_inv closes (edge_close waits e)"
proof -
  let ?f = "\<lambda>(i, c). cancel_connection (waits i) c" and ?cs = "ed_connections e"
  have ok: "connection_ok c" if "(i, c) \<in> set (enumerate 0 ?cs)" for i c
    using that assms(1) in_set_enumerate_eq [of "(i, c)" 0 ?cs] by (auto simp: edge_inv_def)
  have "length (filter counted (map ?f xs)) \<le> length (filter counted (map snd xs))"
    if "\<forall>(i, c) \<in> set xs. connection_ok c" for xs
    using that cancelled_ok(2) by (induction xs) (auto intro: le_SucI)
  from this [of "enumerate 0 ?cs"] have "admitted_count (edge_close waits e) \<le> admitted_count e"
    using ok by (auto simp: admitted_count_def edge_close_def)
  moreover have "connection_ok x \<and> ec_phase x \<noteq> Refusing" if "x \<in> set (ed_connections (edge_close waits e))" for x
    using that ok cancelled_ok by (fastforce simp: edge_close_def)
  ultimately show ?thesis using assms by (auto simp: edge_inv_def edge_close_def is_connection_def)
qed

lemma edge_inv_new: "edge_config_check cfg = Inr u \<Longrightarrow> edge_inv closes (edge_new cfg)"
  by (auto simp: edge_inv_def edge_new_def admitted_count_def is_connection_def edge_config_check_def split: if_splits)

lemma edge_inv_arrival:
  assumes "edge_inv closes e"
  shows "edge_inv closes (edge_arrival e)"
proof -
  have "connection_ok new_connection" by (simp add: connection_ok_def new_connection_def pump_ok_def idle_pump_def)
  moreover have "admitted_count (edge_arrival e) = admitted_count e"
    by (simp add: admitted_count_def edge_arrival_def counted_def new_connection_def)
  moreover have "ed_lock e = Some j \<longleftrightarrow> ec_phase x = Refusing" if "is_connection (edge_arrival e) j x" for j x
    using that assms by (cases "j < length (ed_connections e)")
      (auto simp: edge_inv_def is_connection_def edge_arrival_def nth_append new_connection_def split: if_splits)
  ultimately show ?thesis using assms by (fastforce simp: edge_inv_def edge_arrival_def)
qed

lemma edge_inv_admit:
  assumes inv: "edge_inv closes e" and c: "is_connection e i c" and p: "ec_phase c = Arrived" and l: "ed_lock e = None"
  shows "edge_inv closes (edge_admit i c e)"
proof -
  have co: "connection_ok c" using inv c by (auto simp: edge_inv_def is_connection_def)
  then have n: "\<not> counted c" "\<not> ec_admitted c" "\<not> ec_upstream c" using p by (auto simp: connection_ok_def counted_def)
  have "connection_ok (c\<lparr>ec_phase := Refusing\<rparr>)" "connection_ok (c\<lparr>ec_phase := Connecting, ec_admitted := True\<rparr>)"
    using co n by (auto simp: connection_ok_def pump_ok_def)
  then have "edge_inv closes (set_connection i (c\<lparr>ec_phase := Refusing\<rparr>) e\<lparr>ed_active_connections := ed_active_connections e, ed_lock := Some i\<rparr>)"
    "\<not> max_connections (ed_config e) \<le> ed_active_connections e \<Longrightarrow> edge_inv closes (set_connection i (c\<lparr>ec_phase := Connecting, ec_admitted := True\<rparr>) e
       \<lparr>ed_active_connections := ed_active_connections e + 1, ed_lock := None\<rparr>)"
    using inv c n l by (intro edge_inv_set; auto simp: counted_def edge_inv_def)+
  then show ?thesis using l by (cases e) (simp add: edge_admit_def set_connection_def)
qed

lemma edge_inv_refused:
  assumes inv: "edge_inv closes e" and c: "is_connection e i c" and p: "ec_phase c = Refusing"
  shows "edge_inv closes (edge_refused i c e)"
proof -
  have co: "connection_ok c" "ed_lock e = Some i" using inv c p by (auto simp: edge_inv_def is_connection_def)
  then have "edge_inv closes (set_connection i (c\<lparr>ec_phase := Finished\<rparr>) e\<lparr>ed_active_connections := ed_active_connections e, ed_lock := None\<rparr>)"
    using inv p by (intro edge_inv_set [OF inv c]) (auto simp: counted_def edge_inv_def connection_ok_def pump_ok_def)
  then show ?thesis by (simp add: edge_refused_def set_connection_def)
qed

lemma edge_inv_release:
  assumes inv: "edge_inv closes e" and c: "is_connection e i c" and p: "ec_phase c = Releasing" and l: "ed_lock e = None"
  shows "edge_inv closes (edge_release i c e)"
proof -
  have "edge_inv closes (set_connection i (c\<lparr>ec_phase := Finished\<rparr>) e\<lparr>ed_active_connections := ed_active_connections e - 1, ed_lock := None\<rparr>)"
    using inv p l by (intro edge_inv_set [OF inv c]) (auto simp: counted_def edge_inv_def connection_ok_def pump_ok_def)
  then show ?thesis using l by (cases e) (simp add: edge_release_def set_connection_def)
qed

lemma edge_inv_pump:
  assumes "edge_inv closes e" "is_connection e i c" "connection_ok c \<Longrightarrow> pump_ok c (f (ec_pumps c d))"
  shows "edge_inv closes (set_connection i (on_pump d f c) e)"
proof (rule edge_inv_same [OF assms(1,2)])
  assume ok: "connection_ok c"
  show "connection_ok (on_pump d f c)" by (rule connection_pump [where f = f, OF ok assms(3) [OF ok]])
qed (simp_all add: counted_def on_pump_def)

lemma connection_okD: "connection_ok c \<Longrightarrow> pump_ok c (ec_pumps c d)" "connection_ok c \<Longrightarrow> ec_phase c = Pumping \<Longrightarrow> ec_upstream c"
  by (simp_all add: connection_ok_def)

lemma edge_inv_step:
  assumes "edge_step closes e e'" "edge_inv closes e"
  shows "edge_inv closes e'"
  using assms
proof (cases rule: edge_step.cases)
  case step_start
  then show ?thesis using assms(2) by (simp add: edge_start_def edge_inv_def admitted_count_def is_connection_def)
next
  case step_arrival
  then show ?thesis using edge_inv_arrival assms(2) by simp
next
  case (step_admit i c)
  then show ?thesis using edge_inv_admit assms(2) by simp
next
  case (step_refused i c)
  then show ?thesis using edge_inv_refused assms(2) by simp
next
  case (step_connected i c ok)
  then show ?thesis unfolding step_connected(1) edge_connected_def
    by (intro edge_inv_same [OF assms(2) step_connected(2)]) (auto simp: connection_ok_def pump_ok_def counted_def)
next
  case (step_sends i c d bytes eof)
  show ?thesis unfolding step_sends(1) by (intro edge_inv_pump [OF assms(2) step_sends(2)] pump_ok_arrives connection_okD)
next
  case (step_chunk i c d)
  show ?thesis unfolding step_chunk(1)
    by (intro edge_inv_pump [OF assms(2) step_chunk(2)] pump_ok_chunk connection_okD step_chunk(3))
next
  case (step_pump_end i c fault d)
  show ?thesis unfolding step_pump_end(1) by (intro edge_inv_pump [OF assms(2) step_pump_end(2)] pump_ok_done connection_okD)
next
  case (step_stop i c d)
  show ?thesis unfolding step_stop(1) edge_stop_def
    by (rule edge_inv_same [OF assms(2) step_stop(2)]) (use step_stop(3) in \<open>auto intro: connection_phase simp: counted_def\<close>)
next
  case (step_closed i c)
  show ?thesis unfolding step_closed(1) edge_closed_def
    by (rule edge_inv_same [OF assms(2) step_closed(2)]) (use step_closed(3) in \<open>auto intro: connection_phase simp: counted_def\<close>)
next
  case (step_release i c)
  then show ?thesis using edge_inv_release assms(2) by simp
next
  case (step_close waits)
  then show ?thesis using edge_inv_close assms(2) by simp
qed

section \<open>Properties\<close>

lemma edge_reach_inv:
  assumes "edge_config_check cfg = Inr u" "(edge_step closes)\<^sup>*\<^sup>* (edge_new cfg) e"
  shows "edge_inv closes e \<and> ed_config e = cfg"
  using assms(2)
proof (induction rule: rtranclp_induct)
  case base
  then show ?case using edge_inv_new [OF assms(1)] by (simp add: edge_new_def)
next
  case (step e e')
  have "ed_config e' = ed_config e"
    using step(2) by cases (auto simp: edge_start_def edge_arrival_def edge_admit_def edge_refused_def edge_connected_def
        edge_stop_def edge_closed_def edge_release_def edge_close_def set_connection_def)
  then show ?case using step edge_inv_step by simp
qed

lemma filter_weaker: "(\<And>x. x \<in> set xs \<Longrightarrow> P x \<Longrightarrow> Q x) \<Longrightarrow> length (filter P xs) \<le> length (filter Q xs)"
  by (induction xs) (auto intro: le_SucI)

text \<open>
  (C40) The edge is a bounded and transparent carrier. However the connections interleave, and whether or not it is closed, at most
  the configured number of connections holds an upstream at a time; without a closing, the count of the edge is exactly the
  number of admitted connections. What was written in each direction of a connection is a prefix of what arrived on the other
  side of this connection, byte for byte; and nothing is written for a connection that was not admitted.
\<close>
theorem edge_is_a_bounded_carrier:
  assumes "edge_config_check cfg = Inr u" "(edge_step closes)\<^sup>*\<^sup>* (edge_new cfg) e"
  shows "int (length (filter (\<lambda>c. ec_upstream c \<and> ec_phase c \<noteq> Finished) (ed_connections e))) \<le> max_connections cfg
    \<and> (\<not> closes \<longrightarrow> ed_active_connections e = admitted_count e)
    \<and> (\<forall>c \<in> set (ed_connections e). \<forall>d. prefix (sent (ec_pumps c d)) (arrived (ec_pumps c d))
         \<and> (\<not> ec_admitted c \<longrightarrow> sent (ec_pumps c d) = []))"
proof -
  note inv = edge_reach_inv [OF assms]
  then have ok: "\<forall>c \<in> set (ed_connections e). connection_ok c" by (simp add: edge_inv_def)
  then have "int (length (filter (\<lambda>c. ec_upstream c \<and> ec_phase c \<noteq> Finished) (ed_connections e))) \<le> admitted_count e"
    unfolding admitted_count_def by (intro of_nat_mono filter_weaker) (auto simp: connection_ok_def counted_def)
  moreover have "admitted_count e \<le> max_connections cfg" "\<not> closes \<longrightarrow> ed_active_connections e = admitted_count e"
    using inv by (auto simp: edge_inv_def)
  moreover have "prefix (sent (ec_pumps c d)) (arrived (ec_pumps c d)) \<and> (\<not> ec_admitted c \<longrightarrow> sent (ec_pumps c d) = [])"
    if "c \<in> set (ed_connections e)" for c d
    using ok that by (auto simp: connection_ok_def pump_ok_def)
  ultimately show ?thesis by auto
qed

definition demo_edge :: edge_config where
  "demo_edge = \<lparr>listen_host = ''127.0.0.1'', listen_port = 17445, upstream_host = ''w'', upstream_port = 17444, max_connections = 1,
     edge_connect_timeout_s = Fin 5, io_chunk_bytes = 65536\<rparr>"

lemma demo_edge_ok: "edge_config_check demo_edge = Inr ()"
  by (simp add: edge_config_check_def demo_edge_def)

text \<open>A connection is admitted, reaches its upstream, and a chunk goes through.\<close>

lemma demo_edge_run:
  "\<exists>e. (edge_step False)\<^sup>*\<^sup>* (edge_new demo_edge) e \<and> (\<exists>c. ed_connections e = [c] \<and> sent (ec_pumps c True) = ''hi'')"
proof -
  define e1 where "e1 = edge_arrival (edge_start (edge_new demo_edge))"
  define c2 where "c2 = new_connection\<lparr>ec_phase := Connecting, ec_admitted := True\<rparr>"
  define e2 where "e2 = edge_admit 0 new_connection e1"
  define c3 where "c3 = c2\<lparr>ec_phase := Pumping, ec_upstream := True\<rparr>"
  define e3 where "e3 = edge_connected True 0 c2 e2"
  define c4 where "c4 = on_pump True (\<lambda>p. p\<lparr>arrived := arrived p @ ''hi'', at_eof := False\<rparr>) c3"
  define e4 where "e4 = set_connection 0 c4 e3"
  define e5 where "e5 = set_connection 0 (on_pump True (pump_chunk (ed_config e4)) c4) e4"
  have e1: "ed_connections e1 = [new_connection]" "ed_lock e1 = None" "ed_config e1 = demo_edge" "ed_active_connections e1 = 0"
    by (simp_all add: e1_def edge_arrival_def edge_start_def edge_new_def)
  have e2: "ed_connections e2 = [c2]" "ed_config e2 = demo_edge" using e1 by (simp_all add: e2_def edge_admit_def set_connection_def c2_def demo_edge_def)
  have e3: "ed_connections e3 = [c3]" "ed_config e3 = demo_edge" using e2 by (simp_all add: e3_def edge_connected_def set_connection_def c3_def)
  have e4: "ed_connections e4 = [c4]" "ed_config e4 = demo_edge" using e3 by (simp_all add: e4_def set_connection_def)
  have c: "ec_phase c4 = Pumping" "\<not> pump_done (ec_pumps c4 True)" "\<not> at_eof (ec_pumps c3 True)"
    "ec_pumps c4 True = \<lparr>arrived = ''hi'', sent = [], at_eof = False, pump_done = False\<rparr>"
    by (simp_all add: c4_def c3_def c2_def on_pump_def new_connection_def idle_pump_def)
  have "edge_step False (edge_new demo_edge) (edge_start (edge_new demo_edge))" by (rule step_start)
  moreover have "edge_step False (edge_start (edge_new demo_edge)) e1" unfolding e1_def by (rule step_arrival) (simp add: edge_start_def)
  moreover have "edge_step False e1 e2" unfolding e2_def
    using e1 by (intro step_admit) (auto simp: is_connection_def new_connection_def)
  moreover have "edge_step False e2 e3" unfolding e3_def using e2 by (intro step_connected) (auto simp: is_connection_def c2_def)
  moreover have "edge_step False e3 e4" unfolding e4_def c4_def using e3 c by (intro step_sends) (auto simp: is_connection_def)
  moreover have "edge_step False e4 e5" unfolding e5_def using e4 c by (intro step_chunk) (auto simp: is_connection_def)
  ultimately have "(edge_step False)\<^sup>*\<^sup>* (edge_new demo_edge) e5" by (meson converse_rtranclp_into_rtranclp rtranclp.rtrancl_refl)
  moreover have "ed_connections e5 = [on_pump True (pump_chunk demo_edge) c4]" using e4 by (simp add: e5_def set_connection_def)
  moreover have "sent (ec_pumps (on_pump True (pump_chunk demo_edge) c4) True) = ''hi''"
    using c(4) by (simp add: on_pump_def pump_chunk_def demo_edge_def)
  ultimately show ?thesis by blast
qed

lemma edge_is_a_bounded_carrier_witness:
  "\<exists>e c. (edge_step False)\<^sup>*\<^sup>* (edge_new demo_edge) e \<and> ed_connections e = [c] \<and> sent (ec_pumps c True) = ''hi''
     \<and> prefix (sent (ec_pumps c True)) (arrived (ec_pumps c True)) \<and> ed_active_connections e = admitted_count e"
proof -
  obtain e c where e: "(edge_step False)\<^sup>*\<^sup>* (edge_new demo_edge) e" "ed_connections e = [c]" "sent (ec_pumps c True) = ''hi''"
    using demo_edge_run by blast
  show ?thesis using edge_is_a_bounded_carrier [OF demo_edge_ok e(1)] e by auto
qed

text \<open>Every connection can end: a decreasing rank of its phase, and the steps that lower it.\<close>

fun phase_rank :: "edge_phase \<Rightarrow> nat" where
  "phase_rank Arrived = 5" | "phase_rank Connecting = 4" | "phase_rank Pumping = 4" | "phase_rank Refusing = 3"
| "phase_rank Rejecting = 2" | "phase_rank Closing = 2" | "phase_rank Releasing = 1" | "phase_rank Finished = 0"

definition edge_rank :: "live_edge \<Rightarrow> nat" where
  "edge_rank e = sum_list (map (phase_rank \<circ> ec_phase) (ed_connections e))"

lemma rank_set:
  assumes "is_connection e i c" "phase_rank (ec_phase c') < phase_rank (ec_phase c)"
  shows "edge_rank (set_connection i c' e) < edge_rank e"
proof -
  let ?f = "phase_rank \<circ> ec_phase" and ?cs = "ed_connections e"
  have i: "i < length ?cs" "?f (?cs ! i) = phase_rank (ec_phase c)" using assms(1) by (auto simp: is_connection_def)
  have "edge_rank (set_connection i c' e) = edge_rank e + phase_rank (ec_phase c') - phase_rank (ec_phase c)"
    using i sum_list_update [of i "map ?f ?cs" "?f c'"] by (simp add: edge_rank_def set_connection_def map_update)
  moreover have "phase_rank (ec_phase c) \<le> edge_rank e"
    using i member_le_sum_list [of "?f (?cs ! i)" "map ?f ?cs"] nth_mem [of i "map ?f ?cs"] by (simp add: edge_rank_def)
  ultimately show ?thesis using assms(2) by simp
qed

lemma edge_rank_other [simp]:
  "edge_rank (e\<lparr>ed_lock := l\<rparr>) = edge_rank e" "edge_rank (e\<lparr>ed_active_connections := n\<rparr>) = edge_rank e"
  by (simp_all add: edge_rank_def)

lemma pumping_stops:
  assumes c: "is_connection e i c" and p: "ec_phase c = Pumping"
  shows "\<exists>e'. (edge_step closes)\<^sup>*\<^sup>* e e' \<and> edge_rank e' < edge_rank e"
proof -
  define c1 where "c1 = on_pump True (\<lambda>p. p\<lparr>pump_done := True\<rparr>) c"
  define e1 where "e1 = set_connection i c1 e"
  have "edge_step closes e e1" unfolding e1_def c1_def
    by (rule step_pump_end [OF c p, of True]) (simp add: pump_can_end_def)
  moreover have c1: "is_connection e1 i c1" using c by (simp add: e1_def is_connection_def set_connection_def)
  have "ec_phase c1 = Pumping" "pump_done (ec_pumps c1 True)" using p by (simp_all add: c1_def on_pump_def)
  then have "edge_step closes e1 (edge_stop i c1 e1)" by (rule step_stop [OF c1])
  moreover have "edge_stop i c1 e1 = set_connection i (c1\<lparr>ec_phase := Closing\<rparr>) e"
    by (simp add: edge_stop_def e1_def set_connection_def)
  then have "edge_rank (edge_stop i c1 e1) < edge_rank e" using rank_set [OF c, of "c1\<lparr>ec_phase := Closing\<rparr>"] p by simp
  ultimately show ?thesis by (meson converse_rtranclp_into_rtranclp rtranclp.rtrancl_refl)
qed

lemma edge_progress:
  assumes inv: "edge_inv closes e" and "\<exists>c \<in> set (ed_connections e). ec_phase c \<noteq> Finished"
  shows "\<exists>e'. (edge_step closes)\<^sup>*\<^sup>* e e' \<and> edge_rank e' < edge_rank e"
proof -
  have stepping: ?thesis if "edge_step closes e e'" "edge_rank e' < edge_rank e" for e' using that by blast
  show ?thesis
  proof (cases "ed_lock e")
    case (Some j)
    then have j: "is_connection e j (ed_connections e ! j)" using inv by (simp add: edge_inv_def is_connection_def)
    then have p: "ec_phase (ed_connections e ! j) = Refusing" using inv Some by (auto simp: edge_inv_def)
    then show ?thesis using stepping [OF step_refused [OF j p]] rank_set [OF j] by (simp add: edge_refused_def)
  next
    case None
    obtain i c where c: "is_connection e i c" "ec_phase c \<noteq> Finished"
      using assms(2) by (auto simp: in_set_conv_nth is_connection_def)
    then have nr: "ec_phase c \<noteq> Refusing" using inv None by (auto simp: edge_inv_def)
    show ?thesis
    proof (cases "ec_phase c")
      case Arrived
      then show ?thesis using stepping [OF step_admit [OF c(1) Arrived None]] rank_set [OF c(1)] by (simp add: edge_admit_def)
    next
      case Connecting
      then show ?thesis using stepping [OF step_connected [OF c(1) Connecting, of _ False]] rank_set [OF c(1)] by (simp add: edge_connected_def)
    next
      case Rejecting
      then show ?thesis using stepping [OF step_closed [OF c(1)]] rank_set [OF c(1)] by (simp add: edge_closed_def)
    next
      case Pumping
      then show ?thesis by (rule pumping_stops [OF c(1)])
    next
      case Closing
      then show ?thesis using stepping [OF step_closed [OF c(1)]] rank_set [OF c(1)] by (simp add: edge_closed_def)
    next
      case Releasing
      then show ?thesis using stepping [OF step_release [OF c(1) Releasing None]] rank_set [OF c(1)] by (simp add: edge_release_def)
    qed (use nr c in simp_all)
  qed
qed

lemma edge_inv_steps: "(edge_step closes)\<^sup>*\<^sup>* e e' \<Longrightarrow> edge_inv closes e \<Longrightarrow> edge_inv closes e'"
  by (induction rule: rtranclp_induct) (auto intro: edge_inv_step)

lemma edge_all_end:
  "edge_inv closes e \<Longrightarrow> \<exists>e'. (edge_step closes)\<^sup>*\<^sup>* e e' \<and> (\<forall>c \<in> set (ed_connections e'). ec_phase c = Finished)"
proof (induction "edge_rank e" arbitrary: e rule: less_induct)
  case less
  show ?case
  proof (cases "\<exists>c \<in> set (ed_connections e). ec_phase c \<noteq> Finished")
    case True
    then obtain e1 where e1: "(edge_step closes)\<^sup>*\<^sup>* e e1" "edge_rank e1 < edge_rank e" using edge_progress less.prems by blast
    then show ?thesis using less.hyps [of e1] edge_inv_steps [OF e1(1) less.prems] by (meson rtranclp_trans)
  qed auto
qed

text \<open>
  The edge never wedges. From every state that it can reach, closed or not, with a refused connection holding the admission
  lock or not, a run of its own tasks ends every connection, and unless it was closed its count is then zero.
\<close>
theorem edge_drains:
  assumes "edge_config_check cfg = Inr u" "(edge_step closes)\<^sup>*\<^sup>* (edge_new cfg) e"
  shows "\<exists>e'. (edge_step closes)\<^sup>*\<^sup>* e e' \<and> (\<forall>c \<in> set (ed_connections e'). ec_phase c = Finished)
    \<and> (\<not> closes \<longrightarrow> ed_active_connections e' = 0)"
proof -
  obtain e' where e': "(edge_step closes)\<^sup>*\<^sup>* e e'" "\<forall>c \<in> set (ed_connections e'). ec_phase c = Finished"
    using edge_all_end edge_reach_inv [OF assms] by blast
  then have "edge_inv closes e'" using edge_inv_steps edge_reach_inv [OF assms] by blast
  moreover have "filter counted (ed_connections e') = []" using e'(2) by (simp add: filter_empty_conv counted_def)
  ultimately show ?thesis using e' by (auto simp: edge_inv_def admitted_count_def)
qed

lemma edge_drains_witness:
  "\<exists>e e'. (edge_step False)\<^sup>*\<^sup>* (edge_new demo_edge) e \<and> ed_connections e \<noteq> [] \<and> (edge_step False)\<^sup>*\<^sup>* e e'
     \<and> (\<forall>c \<in> set (ed_connections e'). ec_phase c = Finished) \<and> ed_active_connections e' = 0"
proof -
  obtain e where e: "(edge_step False)\<^sup>*\<^sup>* (edge_new demo_edge) e" "ed_connections e \<noteq> []" using demo_edge_run by fastforce
  then show ?thesis using edge_drains [OF demo_edge_ok e(1)] by auto
qed

end
