(* ===== verification/Controller_Config.thy ===== *)
theory Controller_Config
  imports Path_Select
begin

text \<open>
  The configuration of the controller and the catalogue of gateway operations: \<^verbatim>\<open>controller_config.py\<close>
  and the operation sets and descriptors of \<^verbatim>\<open>gateway.py\<close>. Reading the file and resolving a path
  (\<^verbatim>\<open>expanduser\<close>, \<^verbatim>\<open>resolve\<close>) belong to the platform: the loaded text is parsed by \<open>json_loads\<close> and
  \<open>resolve\<close> is an argument that maps the base directory and the configured text to a path.
\<close>

section \<open>Operations of the gateway\<close>

definition READ_OPERATIONS :: "string list" where
  "READ_OPERATIONS =
     [''lane.list'', ''fs.read_text'', ''fs.read_bytes'', ''fs.stat'', ''fs.list_dir'', ''fs.search'',
      ''fs.search_content'', ''process.list'', ''process.status'', ''process.output'']"

definition GATEWAY_MUTATING_OPERATIONS :: "string list" where
  "GATEWAY_MUTATING_OPERATIONS =
     [''lane.open'', ''lane.renew'', ''lane.close'', ''fs.write_text'', ''fs.append_text'', ''fs.mkdir'',
      ''fs.move'', ''fs.replace_text'', ''process.exec'', ''process.start'', ''process.input'',
      ''process.terminate'']"

definition ALL_OPERATIONS :: "string list" where
  "ALL_OPERATIONS = READ_OPERATIONS @ GATEWAY_MUTATING_OPERATIONS"

record tool_descriptor =
  td_name :: string
  td_operation :: string
  td_mutating :: bool

definition tool :: "string \<Rightarrow> string \<Rightarrow> bool \<Rightarrow> tool_descriptor" where
  "tool n op m = \<lparr>td_name = n, td_operation = op, td_mutating = m\<rparr>"

definition TOOL_DESCRIPTORS :: "tool_descriptor list" where
  "TOOL_DESCRIPTORS =
     [tool ''list_lanes'' ''lane.list'' False, tool ''open_lane'' ''lane.open'' True,
      tool ''renew_lane'' ''lane.renew'' True, tool ''close_lane'' ''lane.close'' True,
      tool ''read_text'' ''fs.read_text'' False, tool ''read_bytes'' ''fs.read_bytes'' False,
      tool ''stat'' ''fs.stat'' False, tool ''list_dir'' ''fs.list_dir'' False,
      tool ''search'' ''fs.search'' False, tool ''search_content'' ''fs.search_content'' False,
      tool ''write_text'' ''fs.write_text'' True, tool ''append_text'' ''fs.append_text'' True,
      tool ''make_directory'' ''fs.mkdir'' True, tool ''move_path'' ''fs.move'' True,
      tool ''replace_text'' ''fs.replace_text'' True, tool ''run_process'' ''process.exec'' True,
      tool ''start_process'' ''process.start'' True, tool ''list_processes'' ''process.list'' False,
      tool ''process_status'' ''process.status'' False, tool ''process_output'' ''process.output'' False,
      tool ''process_input'' ''process.input'' True, tool ''terminate_process'' ''process.terminate'' True]"

section \<open>Text\<close>

function rstrip :: "string \<Rightarrow> string" where
  "rstrip s = (case find (\<lambda>w. suffix w s) py_whitespace of None \<Rightarrow> s
     | Some w \<Rightarrow> rstrip (take (length s - length w) s))"
  by pat_completeness auto
termination
proof (relation "measure length")
  fix s w
  assume "find (\<lambda>w. suffix w s) py_whitespace = Some w"
  then have "w \<in> set py_whitespace" "suffix w s" by (auto simp: find_Some_iff)
  then show "(take (length s - length w) s, s) \<in> measure length"
    using py_whitespace_nonempty by (auto simp: suffix_def)
qed simp

declare rstrip.simps [simp del]

definition py_strip :: "string \<Rightarrow> string" where
  "py_strip s = rstrip (lstrip s)"

text \<open>\<^verbatim>\<open>str(value.get(key, "")).strip()\<close>\<close>

definition stripped :: "pyenv \<Rightarrow> dict \<Rightarrow> string \<Rightarrow> string" where
  "stripped env d k = py_strip (py_str env (dict_get d k (JStr [])))"

section \<open>Endpoints\<close>

record endpoint_config =
  ec_id :: string
  ec_mode :: path_mode
  ec_host :: string
  ec_port :: int
  ec_server_hostname :: string
  ec_durable :: bool

definition mode_of_name :: "string \<Rightarrow> path_mode option" where
  "mode_of_name s =
     (if s = ''DIRECT_STREAM'' then Some DIRECT_STREAM
      else if s = ''EDGE_STREAM'' then Some EDGE_STREAM
      else if s = ''DURABLE_RELAY'' then Some DURABLE_RELAY
      else None)"

definition endpoint_from_dict :: "pyenv \<Rightarrow> json \<Rightarrow> endpoint_config result" where
  "endpoint_from_dict env v =
     (case v of
        JObj d \<Rightarrow>
          let eid = stripped env d ''endpoint_id'' in
          if eid = [] then Inl (Config ControllerConfigError)
          else (case mode_of_name (stripped env d ''mode'') of
             None \<Rightarrow> Inl (Config ControllerConfigError)
           | Some mode \<Rightarrow>
               if mode = DURABLE_RELAY then Inl (Config ControllerConfigError)
               else let host = stripped env d ''host'' in
               if host = [] then Inl (Config ControllerConfigError)
               else (case py_int env (dict_get d ''port'' (JInt 0)) of
                  Inl e \<Rightarrow> Inl e
                | Inr port \<Rightarrow>
                    if \<not> (1 \<le> port \<and> port \<le> 65535) then Inl (Config ControllerConfigError)
                    else let server_hostname = stripped env d ''server_hostname'' in
                    if server_hostname = [] then Inl (Config ControllerConfigError)
                    else (case map_of d ''durable_idempotency'' of
                       Some (JBool durable) \<Rightarrow>
                         Inr \<lparr>ec_id = eid, ec_mode = mode, ec_host = host, ec_port = port,
                              ec_server_hostname = server_hostname, ec_durable = durable\<rparr>
                     | _ \<Rightarrow> Inl (Config ControllerConfigError))))
      | _ \<Rightarrow> Inl (Config ControllerConfigError))"

fun endpoints_from :: "pyenv \<Rightarrow> json list \<Rightarrow> endpoint_config list result" where
  "endpoints_from env [] = Inr []"
| "endpoints_from env (v # vs) =
     (case endpoint_from_dict env v of
        Inl e \<Rightarrow> Inl e
      | Inr c \<Rightarrow> (case endpoints_from env vs of Inl e \<Rightarrow> Inl e | Inr cs \<Rightarrow> Inr (c # cs)))"

section \<open>The controller\<close>

record controller_config =
  controller_key :: string
  tls_ca :: string
  workstation_public_key :: string
  requested_capabilities :: "string set"
  gateway_operations :: "string set"
  endpoints :: "endpoint_config list"
  cc_max_path_age_ms :: int
  connect_timeout_s :: pyfloat
  cc_request_timeout_s :: pyfloat

definition required_caps :: "(string \<times> string list) list" where
  "required_caps =
     [(''fs.read_text'', [''fs.read'']), (''fs.read_bytes'', [''fs.read'']), (''fs.stat'', [''fs.read'']),
      (''fs.list_dir'', [''fs.read'']), (''fs.search'', [''fs.read'']), (''fs.search_content'', [''fs.read'']),
      (''fs.write_text'', [''fs.write'']), (''fs.append_text'', [''fs.write'']), (''fs.mkdir'', [''fs.write'']),
      (''fs.move'', [''fs.write'']), (''fs.replace_text'', [''fs.read'', ''fs.write'']),
      (''process.exec'', [''process.exec'']), (''process.start'', [''process.exec'']),
      (''process.list'', [''process.inspect'']), (''process.status'', [''process.inspect'']),
      (''process.output'', [''process.inspect'']), (''process.input'', [''process.interact'']),
      (''process.terminate'', [''process.control''])]"

definition missing_caps :: "string set \<Rightarrow> string set \<Rightarrow> bool" where
  "missing_caps caps ops \<longleftrightarrow> list_ex (\<lambda>(op, need). op \<in> ops \<and> \<not> set need \<subseteq> caps) required_caps"

definition config_path :: "(string \<Rightarrow> string) \<Rightarrow> json option \<Rightarrow> string result" where
  "config_path resolve v =
     (case v of
        Some (JStr s) \<Rightarrow> if is_blank s then Inl (Config ControllerConfigError) else Inr (resolve s)
      | _ \<Rightarrow> Inl (Config ControllerConfigError))"

text \<open>A non-empty list of texts; \<^verbatim>\<open>frozenset(str(item) ...)\<close>.\<close>

definition config_names :: "pyenv \<Rightarrow> json option \<Rightarrow> string set result" where
  "config_names env v =
     (case v of
        Some (JList (x # xs)) \<Rightarrow> Inr (set (map (py_str env) (x # xs)))
      | _ \<Rightarrow> Inl (Config ControllerConfigError))"

definition outside :: "pyfloat \<Rightarrow> bool" where
  "outside t \<longleftrightarrow> flt t (Fin (1 / 20)) \<or> flt (Fin 60) t"

text \<open>The numbers of the configuration, checked after the endpoints.\<close>

definition config_limits :: "pyenv \<Rightarrow> dict \<Rightarrow> (int \<times> pyfloat \<times> pyfloat) result" where
  "config_limits env d =
     (case py_int env (dict_get d ''max_path_age_ms'' (JInt 5000)) of
        Inl e \<Rightarrow> Inl e
      | Inr age \<Rightarrow>
          if age < 100 \<or> age > 300000 then Inl (Config ControllerConfigError)
          else (case py_float env (dict_get d ''connect_timeout_s'' (JFloat (Fin 5))) of
             Inl e \<Rightarrow> Inl e
           | Inr ct \<Rightarrow>
               (case py_float env (dict_get d ''request_timeout_s'' (JFloat (Fin 5))) of
                  Inl e \<Rightarrow> Inl e
                | Inr rt \<Rightarrow>
                    if outside ct then Inl (Config ControllerConfigError)
                    else if outside rt then Inl (Config ControllerConfigError)
                    else Inr (age, ct, rt))))"

definition config_endpoints :: "pyenv \<Rightarrow> json option \<Rightarrow> endpoint_config list result" where
  "config_endpoints env v =
     (case v of
        Some (JList (x # xs)) \<Rightarrow>
          (case endpoints_from env (x # xs) of
             Inl e \<Rightarrow> Inl e
           | Inr cs \<Rightarrow> if \<not> distinct (map ec_id cs) then Inl (Config ControllerConfigError) else Inr cs)
      | _ \<Rightarrow> Inl (Config ControllerConfigError))"

definition config_policy :: "pyenv \<Rightarrow> dict \<Rightarrow> (string set \<times> string set) result" where
  "config_policy env d =
     (case config_names env (map_of d ''requested_capabilities'') of
        Inl e \<Rightarrow> Inl e
      | Inr caps \<Rightarrow>
          (case config_names env (map_of d ''gateway_operations'') of
             Inl e \<Rightarrow> Inl e
           | Inr ops \<Rightarrow>
               if \<not> ops \<subseteq> set ALL_OPERATIONS then Inl (Config ControllerConfigError)
               else if missing_caps caps ops then Inl (Config ControllerConfigError)
               else Inr (caps, ops)))"

definition config_from_dict :: "pyenv \<Rightarrow> (string \<Rightarrow> string) \<Rightarrow> json \<Rightarrow> controller_config result" where
  "config_from_dict env resolve v =
     (case v of
        JObj d \<Rightarrow>
          if map_of d ''schema'' \<noteq> Some (JStr ''VERAPORT_CONTROLLER_MCP_CONFIG_V1'')
          then Inl (Config ControllerConfigError)
          else (case config_path resolve (map_of d ''controller_key'') of Inl e \<Rightarrow> Inl e
           | Inr key \<Rightarrow> (case config_path resolve (map_of d ''tls_ca'') of Inl e \<Rightarrow> Inl e
           | Inr ca \<Rightarrow> (case config_path resolve (map_of d ''workstation_public_key'') of Inl e \<Rightarrow> Inl e
           | Inr wpk \<Rightarrow> (case config_policy env d of Inl e \<Rightarrow> Inl e
           | Inr (caps, ops) \<Rightarrow> (case config_endpoints env (map_of d ''endpoints'') of Inl e \<Rightarrow> Inl e
           | Inr eps \<Rightarrow> (case config_limits env d of Inl e \<Rightarrow> Inl e
           | Inr (age, ct, rt) \<Rightarrow>
               Inr \<lparr>controller_key = key, tls_ca = ca, workstation_public_key = wpk,
                    requested_capabilities = caps, gateway_operations = ops, endpoints = eps,
                    cc_max_path_age_ms = age, connect_timeout_s = ct, cc_request_timeout_s = rt\<rparr>))))))
      | _ \<Rightarrow> Inl (Config ControllerConfigError))"

text \<open>\<^verbatim>\<open>load\<close>: every failure to read or parse the file is a configuration error.\<close>

definition config_load :: "pyenv \<Rightarrow> (string \<Rightarrow> string) \<Rightarrow> string result \<Rightarrow> controller_config result" where
  "config_load env resolve content =
     (case content of
        Inl _ \<Rightarrow> Inl (Config ControllerConfigError)
      | Inr s \<Rightarrow> (case json_loads env s of
          Inl _ \<Rightarrow> Inl (Config ControllerConfigError)
        | Inr v \<Rightarrow> config_from_dict env resolve v))"

section \<open>What an accepted configuration guarantees\<close>

definition endpoint_ok :: "endpoint_config \<Rightarrow> bool" where
  "endpoint_ok c \<longleftrightarrow> ec_id c \<noteq> [] \<and> ec_mode c \<noteq> DURABLE_RELAY \<and> ec_host c \<noteq> [] \<and> 1 \<le> ec_port c \<and> ec_port c \<le> 65535
     \<and> ec_server_hostname c \<noteq> []"

definition config_ok :: "controller_config \<Rightarrow> bool" where
  "config_ok c \<longleftrightarrow> gateway_operations c \<subseteq> set ALL_OPERATIONS \<and> gateway_operations c \<noteq> {}
     \<and> (\<forall>(op, need) \<in> set required_caps. op \<in> gateway_operations c \<longrightarrow> set need \<subseteq> requested_capabilities c)
     \<and> endpoints c \<noteq> [] \<and> distinct (map ec_id (endpoints c)) \<and> (\<forall>e \<in> set (endpoints c). endpoint_ok e)
     \<and> 100 \<le> cc_max_path_age_ms c \<and> cc_max_path_age_ms c \<le> 300000
     \<and> (\<forall>t \<in> {connect_timeout_s c, cc_request_timeout_s c}. t = NaN \<or> fle (Fin (1 / 20)) t \<and> fle t (Fin 60))"

lemma endpoint_from_dict_ok: "endpoint_from_dict env v = Inr c \<Longrightarrow> endpoint_ok c"
  by (auto simp: endpoint_from_dict_def endpoint_ok_def Let_def split: json.splits if_splits option.splits sum.splits)

lemma endpoints_from_ok:
  "endpoints_from env vs = Inr cs \<Longrightarrow> length cs = length vs \<and> (\<forall>c \<in> set cs. endpoint_ok c)"
  by (induction vs arbitrary: cs) (auto split: sum.splits dest: endpoint_from_dict_ok)

lemma config_endpoints_ok:
  "config_endpoints env v = Inr cs \<Longrightarrow> cs \<noteq> [] \<and> distinct (map ec_id cs) \<and> (\<forall>c \<in> set cs. endpoint_ok c)"
  by (auto simp: config_endpoints_def simp del: endpoints_from.simps
      split: option.splits json.splits list.splits sum.splits if_splits dest!: endpoints_from_ok)

lemma inside_bounds: "\<not> outside t \<Longrightarrow> t = NaN \<or> fle (Fin (1 / 20)) t \<and> fle t (Fin 60)"
  by (cases t) (auto simp: outside_def flt_def)

lemma config_limits_ok:
  assumes "config_limits env d = Inr (age, ct, rt)"
  shows "100 \<le> age" "age \<le> 300000" "\<not> outside ct" "\<not> outside rt"
  using assms by (auto simp: config_limits_def split: sum.splits if_splits)

lemma config_policy_ok:
  assumes "config_policy env d = Inr (caps, ops)"
  shows "ops \<subseteq> set ALL_OPERATIONS" "ops \<noteq> {}" "\<not> missing_caps caps ops"
  using assms by (auto simp: config_policy_def config_names_def split: sum.splits if_splits option.splits json.splits list.splits)

lemma config_from_dict_parts:
  assumes "config_from_dict env resolve v = Inr c"
  obtains d where "v = JObj d" "config_policy env d = Inr (requested_capabilities c, gateway_operations c)"
    "config_endpoints env (map_of d ''endpoints'') = Inr (endpoints c)"
    "config_limits env d = Inr (cc_max_path_age_ms c, connect_timeout_s c, cc_request_timeout_s c)"
  using assms
  by (auto simp: config_from_dict_def simp del: endpoints_from.simps split: json.splits if_splits sum.splits)

lemma accepted_config_ok:
  assumes "config_load env resolve content = Inr c"
  shows "config_ok c"
proof -
  obtain v where "config_from_dict env resolve v = Inr c"
    using assms by (auto simp: config_load_def split: sum.splits)
  then obtain d where d: "config_policy env d = Inr (requested_capabilities c, gateway_operations c)"
    "config_endpoints env (map_of d ''endpoints'') = Inr (endpoints c)"
    "config_limits env d = Inr (cc_max_path_age_ms c, connect_timeout_s c, cc_request_timeout_s c)"
    by (rule config_from_dict_parts)
  have "\<forall>(op, need) \<in> set required_caps. op \<in> gateway_operations c \<longrightarrow> set need \<subseteq> requested_capabilities c"
    using config_policy_ok(3) [OF d(1)] by (auto simp: missing_caps_def list_ex_iff)
  then show ?thesis
    using config_policy_ok(1,2) [OF d(1)] config_endpoints_ok [OF d(2)] config_limits_ok [OF d(3)]
    by (simp add: config_ok_def inside_bounds)
qed

text \<open>The catalogue of tools covers every operation once, and calls it mutating exactly when it is.\<close>

lemma tool_descriptors_cover:
  "set (map td_operation TOOL_DESCRIPTORS) = set ALL_OPERATIONS"
  "distinct (map td_operation TOOL_DESCRIPTORS)" "distinct (map td_name TOOL_DESCRIPTORS)"
  "\<forall>t \<in> set TOOL_DESCRIPTORS. td_mutating t \<longleftrightarrow> td_operation t \<in> set GATEWAY_MUTATING_OPERATIONS"
  by (auto simp: TOOL_DESCRIPTORS_def tool_def ALL_OPERATIONS_def READ_OPERATIONS_def GATEWAY_MUTATING_OPERATIONS_def)

end
