(* ===== verification/Read_Lane.thy ===== *)
theory Read_Lane
  imports Session_Pool Controller_Config
begin

text \<open>
  \<^verbatim>\<open>read_lane.py\<close>: logical read lanes of the controller. A logical lane is materialized lazily as a lane of
  its own (a mirror) on each endpoint it is read through, so that reads fail over between sessions.

  The network and the clock are the record \<open>net\<close> over a world \<open>'w\<close>: \<open>n_answer\<close> is what awaiting a
  request on the channel of an endpoint and session gives in that world, \<open>n_after\<close> the world after a
  request was attempted on some endpoints, \<open>n_now\<close> and \<open>n_fresh\<close> are \<^verbatim>\<open>now_ms\<close> and
  \<^verbatim>\<open>request_id_factory\<close>. Every request is recorded in \<open>ns_log\<close> with its answer. An operation of the
  router is one step: operations on one lane exclude each other by its lock.
\<close>

unbundle bit_operations_syntax

section \<open>Endpoints and the network\<close>

record live_endpoint =
  le_config :: endpoint_config
  le_binding :: session_binding
  le_path :: path_observation

record 'w net =
  n_answer :: "'w \<Rightarrow> string \<Rightarrow> string \<Rightarrow> dict \<Rightarrow> dict result"
  n_after :: "(string \<times> string) list \<Rightarrow> dict \<Rightarrow> 'w \<Rightarrow> 'w"
  n_now :: "'w \<Rightarrow> int \<times> 'w"
  n_fresh :: "'w \<Rightarrow> string \<times> 'w"

record sent =
  s_endpoint :: string
  s_session :: string
  s_request :: dict
  s_answer :: "dict result"

record 'w net_state =
  ns_world :: 'w
  ns_log :: "sent list"

definition now_ms :: "'w net \<Rightarrow> 'w net_state \<Rightarrow> int \<times> 'w net_state" where
  "now_ms net s = (let (t, w) = n_now net (ns_world s) in (t, s\<lparr>ns_world := w\<rparr>))"

definition fresh_id :: "'w net \<Rightarrow> 'w net_state \<Rightarrow> string \<times> 'w net_state" where
  "fresh_id net s = (let (i, w) = n_fresh net (ns_world s) in (i, s\<lparr>ns_world := w\<rparr>))"

abbreviation le_id :: "live_endpoint \<Rightarrow> string" where
  "le_id e \<equiv> ec_id (le_config e)"

abbreviation le_session :: "live_endpoint \<Rightarrow> string" where
  "le_session e \<equiv> session_id (le_binding e)"

text \<open>Awaiting a request on one channel under the timeout.\<close>

definition transmit :: "'w net \<Rightarrow> string \<Rightarrow> string \<Rightarrow> dict \<Rightarrow> 'w net_state \<Rightarrow> dict result \<times> 'w net_state" where
  "transmit net eid sid req s =
     (let r = n_answer net (ns_world s) eid sid req in
      (r, \<lparr>ns_world = n_after net [(eid, sid)] req (ns_world s),
           ns_log = ns_log s @ [\<lparr>s_endpoint = eid, s_session = sid, s_request = req, s_answer = r\<rparr>]\<rparr>))"

definition lane_request :: "'w net \<Rightarrow> live_endpoint \<Rightarrow> dict \<Rightarrow> 'w net_state \<Rightarrow> dict result \<times> 'w net_state" where
  "lane_request net e req s =
     (case transmit net (le_id e) (le_session e) req s of
        (Inl x, s1) \<Rightarrow> (Inl (if x = Py TimeoutError then Stream StreamClosed else x), s1)
      | (Inr resp, s1) \<Rightarrow> (Inr resp, s1))"

definition is_ok :: "dict \<Rightarrow> bool" where
  "is_ok resp \<longleftrightarrow> map_of resp ''ok'' = Some (JBool True)"

section \<open>The router\<close>

record logical_read_lane =
  rl_lane_id :: string
  rl_task_id :: string
  rl_claims :: "json list"
  rl_fence :: int
  rl_expires_at_ms :: int
  rl_mirrors :: "(string \<times> (string \<times> int)) list"

record read_router =
  rr_lanes :: "(string \<times> logical_read_lane) list"
  rr_epoch :: int
  rr_last :: int

definition router_new :: "int \<Rightarrow> pyfloat \<Rightarrow> read_router result" where
  "router_new epoch request_timeout_s =
     (if fle request_timeout_s (Fin 0) then Inl (Py ValueError)
      else if epoch \<le> 0 then Inl (Py ValueError)
      else Inr \<lparr>rr_lanes = [], rr_epoch = epoch, rr_last = 0\<rparr>)"

definition read_claim :: "json \<Rightarrow> bool" where
  "read_claim item =
     (case item of
        JObj d \<Rightarrow> map_of d ''mode'' = Some (JStr ''read'')
          \<and> (case map_of d ''key'' of Some (JStr k) \<Rightarrow> startswith k ''fs:'' | _ \<Rightarrow> False)
      | _ \<Rightarrow> False)"

definition supports_open :: "string list \<Rightarrow> json list \<Rightarrow> bool" where
  "supports_open caps claims \<longleftrightarrow> set caps = {''fs.read''} \<and> claims \<noteq> [] \<and> list_all read_claim claims"

definition router_owns :: "read_router \<Rightarrow> string \<Rightarrow> int \<Rightarrow> bool" where
  "router_owns rr lid tok = (case map_of (rr_lanes rr) lid of None \<Rightarrow> False | Some l \<Rightarrow> rl_fence l = tok)"

text \<open>\<^verbatim>\<open>(self._fence_epoch << 32) | self._last_fence\<close>\<close>

definition router_next_fence :: "read_router \<Rightarrow> int \<times> read_router" where
  "router_next_fence rr = (let n = rr_last rr + 1 in (push_bit 32 (rr_epoch rr) OR n, rr\<lparr>rr_last := n\<rparr>))"

definition put_lane :: "logical_read_lane \<Rightarrow> read_router \<Rightarrow> read_router" where
  "put_lane l rr = rr\<lparr>rr_lanes := AList.update (rl_lane_id l) l (rr_lanes rr)\<rparr>"

definition drop_lane :: "string \<Rightarrow> read_router \<Rightarrow> read_router" where
  "drop_lane lid rr = rr\<lparr>rr_lanes := AList.delete lid (rr_lanes rr)\<rparr>"

text \<open>\<^verbatim>\<open>_require\<close>\<close>

definition require_read_lane ::
  "'w net \<Rightarrow> string \<Rightarrow> int \<Rightarrow> read_router \<Rightarrow> 'w net_state \<Rightarrow> logical_read_lane result \<times> read_router \<times> 'w net_state" where
  "require_read_lane net lid tok rr s =
     (case map_of (rr_lanes rr) lid of
        None \<Rightarrow> (Inl (ReadLane LogicalReadLaneNotFound), rr, s)
      | Some l \<Rightarrow>
          if rl_fence l \<noteq> tok then (Inl (ReadLane LogicalReadLaneStaleFence), rr, s)
          else let (now, s1) = now_ms net s in
            if now \<ge> rl_expires_at_ms l then (Inl (ReadLane LogicalReadLaneExpired), drop_lane lid rr, s1)
            else (Inr l, rr, s1))"

text \<open>\<^verbatim>\<open>_ordered_current_endpoints\<close>: the usable endpoints, best first.\<close>

lemma length_remove1_find: "find P xs = Some x \<Longrightarrow> length (remove1 x xs) < length xs"
  by (metis find_Some_iff length_greater_0_conv length_pos_if_in_set length_remove1 lessI nth_mem Suc_pred')

function order_endpoints :: "int \<Rightarrow> int \<Rightarrow> live_endpoint list \<Rightarrow> live_endpoint list result" where
  "order_endpoints now max_age remaining =
     (if remaining = [] then Inr []
      else case select_path (map le_path remaining) now max_age of
        Inl e \<Rightarrow> Inl e
      | Inr decision \<Rightarrow>
          (case selected decision of
             None \<Rightarrow> Inr []
           | Some p \<Rightarrow>
               (case find (\<lambda>e. path_id (le_path e) = path_id p) remaining of
                  None \<Rightarrow> Inl (Py RuntimeError)
                | Some e \<Rightarrow>
                    (case order_endpoints now max_age (remove1 e remaining) of
                       Inl x \<Rightarrow> Inl x
                     | Inr es \<Rightarrow> Inr (if now < expires_at_ms (le_binding e) then e # es else es)))))"
  by pat_completeness auto
termination
  by (relation "measure (\<lambda>(_, _, remaining). length remaining)") (auto dest: length_remove1_find)

declare order_endpoints.simps [simp del]

definition ordered_current_endpoints ::
  "'w net \<Rightarrow> int \<Rightarrow> live_endpoint list \<Rightarrow> 'w net_state \<Rightarrow> live_endpoint list result \<times> 'w net_state" where
  "ordered_current_endpoints net max_age live s =
     (let (now, s1) = now_ms net s in (order_endpoints now max_age live, s1))"

text \<open>\<^verbatim>\<open>_ensure_mirror\<close>: the fence of the mirror, opened now if the session of the endpoint has none.\<close>

definition mirror_open_request :: "string \<Rightarrow> logical_read_lane \<Rightarrow> int \<Rightarrow> dict" where
  "mirror_open_request rid l remaining_ms =
     [(''protocol_version'', JStr ''veraport-v1''), (''request_id'', JStr (''logical-open-'' @ rid)),
      (''operation'', JStr ''lane.open''), (''lane_id'', JStr (rl_lane_id l)), (''task_id'', JStr (rl_task_id l)),
      (''capabilities'', JList [JStr ''fs.read'']), (''claims'', JList (rl_claims l)),
      (''ttl_s'', JFloat (Fin (of_int remaining_ms / 1000)))]"

definition mirror_fence_of :: "dict \<Rightarrow> int result" where
  "mirror_fence_of resp =
     (if \<not> is_ok resp then Inl (ReadLane LogicalReadLaneError)
      else case map_of resp ''result'' of
        Some (JObj result) \<Rightarrow>
          (case map_of result ''fencing_token'' of
             Some (JInt f) \<Rightarrow> Inr f
           | _ \<Rightarrow> Inl (ReadLane LogicalReadLaneError))
      | _ \<Rightarrow> Inl (ReadLane LogicalReadLaneError))"

definition open_mirror ::
  "'w net \<Rightarrow> logical_read_lane \<Rightarrow> live_endpoint \<Rightarrow> 'w net_state \<Rightarrow> int result \<times> logical_read_lane \<times> 'w net_state" where
  "open_mirror net l e s =
     (let (now, s1) = now_ms net s; remaining_ms = rl_expires_at_ms l - now in
      if remaining_ms \<le> 0 then (Inl (ReadLane LogicalReadLaneExpired), l, s1)
      else let (rid, s2) = fresh_id net s1 in
        (case lane_request net e (mirror_open_request rid l remaining_ms) s2 of
           (Inl x, s3) \<Rightarrow> (Inl x, l, s3)
         | (Inr resp, s3) \<Rightarrow>
             (case mirror_fence_of resp of
                Inl x \<Rightarrow> (Inl x, l, s3)
              | Inr f \<Rightarrow> (Inr f, l\<lparr>rl_mirrors := AList.update (le_id e) (le_session e, f) (rl_mirrors l)\<rparr>, s3))))"

definition ensure_mirror ::
  "'w net \<Rightarrow> logical_read_lane \<Rightarrow> live_endpoint \<Rightarrow> 'w net_state \<Rightarrow> int result \<times> logical_read_lane \<times> 'w net_state" where
  "ensure_mirror net l e s =
     (case map_of (rl_mirrors l) (le_id e) of
        Some (sid, f) \<Rightarrow> if sid = le_session e then (Inr f, l, s) else open_mirror net l e s
      | None \<Rightarrow> open_mirror net l e s)"

section \<open>Opening\<close>

fun open_first ::
  "'w net \<Rightarrow> logical_read_lane \<Rightarrow> live_endpoint list \<Rightarrow> exn option \<Rightarrow> 'w net_state
   \<Rightarrow> unit result \<times> logical_read_lane \<times> 'w net_state" where
  "open_first net l [] last_error s =
     (Inl (case last_error of Some x \<Rightarrow> x | None \<Rightarrow> ReadLane LogicalReadLaneError), l, s)"
| "open_first net l (e # es) last_error s =
     (case ensure_mirror net l e s of
        (Inr _, l1, s1) \<Rightarrow> (Inr (), l1, s1)
      | (Inl x, l1, s1) \<Rightarrow>
          if x = Stream StreamClosed then open_first net l1 es (Some x) s1 else (Inl x, l1, s1))"

definition lane_result :: "(string \<times> json) list \<Rightarrow> dict" where
  "lane_result result =
     [(''protocol_version'', JStr ''veraport-v1''), (''request_id'', JNull), (''ok'', JBool True),
      (''result'', JObj (result @ [(''logical_read_lane'', JBool True)]))]"

fun fmul1000 :: "pyfloat \<Rightarrow> pyfloat" where
  "fmul1000 (Fin a) = Fin (a * 1000)"
| "fmul1000 f = f"

definition router_open ::
  "pyenv \<Rightarrow> 'w net \<Rightarrow> int \<Rightarrow> live_endpoint list \<Rightarrow> string \<Rightarrow> string \<Rightarrow> string list \<Rightarrow> json list \<Rightarrow> pyfloat
   \<Rightarrow> read_router \<Rightarrow> 'w net_state \<Rightarrow> dict result \<times> read_router \<times> 'w net_state" where
  "router_open env net max_age live lid task caps claims ttl rr s =
     (if \<not> supports_open caps claims then (Inl (ReadLane LogicalReadLaneError), rr, s)
      else if lid = [] \<or> task = [] then (Inl (Py ValueError), rr, s)
      else if fle ttl (Fin 0) then (Inl (Py ValueError), rr, s)
      else let (now, s1) = now_ms net s in
        if (case map_of (rr_lanes rr) lid of None \<Rightarrow> False | Some c \<Rightarrow> now < rl_expires_at_ms c)
        then (Inl (ReadLane LogicalReadLaneError), rr, s1)
        else let (f, rr1) = router_next_fence rr in
          (case py_int env (JFloat (fmul1000 ttl)) of
             Inl x \<Rightarrow> (Inl x, rr1, s1)
           | Inr ttl_ms \<Rightarrow>
               let l = \<lparr>rl_lane_id = lid, rl_task_id = task, rl_claims = claims, rl_fence = f,
                        rl_expires_at_ms = now + ttl_ms, rl_mirrors = []\<rparr>;
                   rr2 = put_lane l rr1 in
               (case ordered_current_endpoints net max_age live s1 of
                  (Inl x, s2) \<Rightarrow> (Inl x, drop_lane lid rr2, s2)
                | (Inr es, s2) \<Rightarrow>
                    (case open_first net l es None s2 of
                       (Inl x, l1, s3) \<Rightarrow> (Inl x, drop_lane lid rr2, s3)
                     | (Inr _, l1, s3) \<Rightarrow>
                         (Inr (lane_result [(''lane_id'', JStr lid), (''fencing_token'', JInt f)]), put_lane l1 rr2, s3)))))"

section \<open>Renewing and closing\<close>

definition endpoint_table :: "live_endpoint list \<Rightarrow> (string \<times> live_endpoint) list" where
  "endpoint_table es = fold (\<lambda>e. AList.update (le_id e) e) es []"

definition pop_mirror :: "string \<Rightarrow> logical_read_lane \<Rightarrow> logical_read_lane" where
  "pop_mirror eid l = l\<lparr>rl_mirrors := AList.delete eid (rl_mirrors l)\<rparr>"

definition mirror_renew_request :: "string \<Rightarrow> logical_read_lane \<Rightarrow> int \<Rightarrow> pyfloat \<Rightarrow> dict" where
  "mirror_renew_request rid l f ttl =
     [(''protocol_version'', JStr ''veraport-v1''), (''request_id'', JStr (''logical-renew-'' @ rid)),
      (''operation'', JStr ''lane.renew''), (''lane_id'', JStr (rl_lane_id l)), (''fencing_token'', JInt f),
      (''ttl_s'', JFloat ttl)]"

fun renew_mirrors ::
  "'w net \<Rightarrow> (string \<times> live_endpoint) list \<Rightarrow> pyfloat \<Rightarrow> (string \<times> (string \<times> int)) list \<Rightarrow> logical_read_lane
   \<Rightarrow> 'w net_state \<Rightarrow> unit result \<times> logical_read_lane \<times> 'w net_state" where
  "renew_mirrors net eps ttl [] l s = (Inr (), l, s)"
| "renew_mirrors net eps ttl ((eid, sid, f) # ms) l s =
     (case map_of eps eid of
        None \<Rightarrow> renew_mirrors net eps ttl ms (pop_mirror eid l) s
      | Some e \<Rightarrow>
          if le_session e \<noteq> sid then renew_mirrors net eps ttl ms (pop_mirror eid l) s
          else let (rid, s1) = fresh_id net s in
            (case lane_request net e (mirror_renew_request rid l f ttl) s1 of
               (Inr resp, s2) \<Rightarrow> renew_mirrors net eps ttl ms (if is_ok resp then l else pop_mirror eid l) s2
             | (Inl x, s2) \<Rightarrow>
                 if x = Stream StreamClosed then renew_mirrors net eps ttl ms (pop_mirror eid l) s2 else (Inl x, l, s2)))"

text \<open>Taking the lane before and after waiting for its lock.\<close>

definition require_twice ::
  "'w net \<Rightarrow> string \<Rightarrow> int \<Rightarrow> read_router \<Rightarrow> 'w net_state \<Rightarrow> logical_read_lane result \<times> read_router \<times> 'w net_state" where
  "require_twice net lid tok rr s =
     (case require_read_lane net lid tok rr s of
        (Inl x, rr1, s1) \<Rightarrow> (Inl x, rr1, s1)
      | (Inr _, rr1, s1) \<Rightarrow> require_read_lane net lid tok rr1 s1)"

definition router_renew ::
  "pyenv \<Rightarrow> 'w net \<Rightarrow> int \<Rightarrow> live_endpoint list \<Rightarrow> string \<Rightarrow> int \<Rightarrow> pyfloat
   \<Rightarrow> read_router \<Rightarrow> 'w net_state \<Rightarrow> dict result \<times> read_router \<times> 'w net_state" where
  "router_renew env net max_age live lid tok ttl rr s =
     (case require_twice net lid tok rr s of
        (Inl x, rr1, s1) \<Rightarrow> (Inl x, rr1, s1)
      | (Inr l, rr1, s1) \<Rightarrow>
          if fle ttl (Fin 0) then (Inl (Py ValueError), rr1, s1)
          else let (now, s2) = now_ms net s1 in
            (case py_int env (JFloat (fmul1000 ttl)) of
               Inl x \<Rightarrow> (Inl x, rr1, s2)
             | Inr ttl_ms \<Rightarrow>
                 let l1 = l\<lparr>rl_expires_at_ms := now + ttl_ms\<rparr> in
                 (case ordered_current_endpoints net max_age live s2 of
                    (Inl x, s3) \<Rightarrow> (Inl x, put_lane l1 rr1, s3)
                  | (Inr es, s3) \<Rightarrow>
                      (case renew_mirrors net (endpoint_table es) ttl (rl_mirrors l1) l1 s3 of
                         (Inl x, l2, s4) \<Rightarrow> (Inl x, put_lane l2 rr1, s4)
                       | (Inr _, l2, s4) \<Rightarrow>
                           (Inr (lane_result [(''lane_id'', JStr lid), (''fencing_token'', JInt tok)]), put_lane l2 rr1, s4)))))"

definition mirror_close_request :: "string \<Rightarrow> logical_read_lane \<Rightarrow> int \<Rightarrow> dict" where
  "mirror_close_request rid l f =
     [(''protocol_version'', JStr ''veraport-v1''), (''request_id'', JStr (''logical-close-'' @ rid)),
      (''operation'', JStr ''lane.close''), (''lane_id'', JStr (rl_lane_id l)), (''fencing_token'', JInt f)]"

text \<open>The result counts the mirrors that could not be closed.\<close>

fun close_mirrors ::
  "'w net \<Rightarrow> (string \<times> live_endpoint) list \<Rightarrow> (string \<times> (string \<times> int)) list \<Rightarrow> logical_read_lane
   \<Rightarrow> 'w net_state \<Rightarrow> string list result \<times> logical_read_lane \<times> 'w net_state" where
  "close_mirrors net eps [] l s = (Inr [], l, s)"
| "close_mirrors net eps ((eid, sid, f) # ms) l s =
     (let unresolved = (\<lambda>l1 s1. case close_mirrors net eps ms l1 s1 of
            (Inl x, l2, s2) \<Rightarrow> (Inl x, l2, s2) | (Inr us, l2, s2) \<Rightarrow> (Inr (eid # us), l2, s2)) in
      case map_of eps eid of
        None \<Rightarrow> unresolved l s
      | Some e \<Rightarrow>
          if le_session e \<noteq> sid then unresolved l s
          else let (rid, s1) = fresh_id net s in
            (case lane_request net e (mirror_close_request rid l f) s1 of
               (Inr resp, s2) \<Rightarrow>
                 if \<not> is_ok resp then unresolved l s2 else close_mirrors net eps ms (pop_mirror eid l) s2
             | (Inl x, s2) \<Rightarrow> if x = Stream StreamClosed then unresolved l s2 else (Inl x, l, s2)))"

definition router_close ::
  "'w net \<Rightarrow> int \<Rightarrow> live_endpoint list \<Rightarrow> string \<Rightarrow> int
   \<Rightarrow> read_router \<Rightarrow> 'w net_state \<Rightarrow> dict result \<times> read_router \<times> 'w net_state" where
  "router_close net max_age live lid tok rr s =
     (case require_twice net lid tok rr s of
        (Inl x, rr1, s1) \<Rightarrow> (Inl x, rr1, s1)
      | (Inr l, rr1, s1) \<Rightarrow>
          (case ordered_current_endpoints net max_age live s1 of
             (Inl x, s2) \<Rightarrow> (Inl x, rr1, s2)
           | (Inr es, s2) \<Rightarrow>
               (case close_mirrors net (endpoint_table es) (rl_mirrors l) l s2 of
                  (Inl x, l1, s3) \<Rightarrow> (Inl x, put_lane l1 rr1, s3)
                | (Inr us, l1, s3) \<Rightarrow>
                    if us \<noteq> [] then (Inl (ReadLane LogicalReadLaneCloseIncomplete), put_lane l1 rr1, s3)
                    else (Inr (lane_result [(''lane_id'', JStr lid), (''closed'', JBool True)]), drop_lane lid rr1, s3))))"

section \<open>Reading\<close>

definition mirrored_request :: "string \<Rightarrow> string \<Rightarrow> string \<Rightarrow> dict \<Rightarrow> string \<Rightarrow> int \<Rightarrow> dict" where
  "mirrored_request pre rid operation body lid f =
     fold (\<lambda>(k, v). AList.update k v) body
       [(''protocol_version'', JStr ''veraport-v1''), (''request_id'', JStr (pre @ rid)),
        (''operation'', JStr operation), (''lane_id'', JStr lid), (''fencing_token'', JInt f)]"

text \<open>The loop over the endpoints that the three reading operations share.\<close>

fun read_first ::
  "'w net \<Rightarrow> string \<Rightarrow> string \<Rightarrow> dict \<Rightarrow> logical_read_lane \<Rightarrow> live_endpoint list \<Rightarrow> exn option \<Rightarrow> 'w net_state
   \<Rightarrow> dict result \<times> logical_read_lane \<times> 'w net_state" where
  "read_first net pre operation body l [] last_error s =
     (Inl (case last_error of Some x \<Rightarrow> x | None \<Rightarrow> ReadLane LogicalReadLaneError), l, s)"
| "read_first net pre operation body l (e # es) last_error s =
     (case ensure_mirror net l e s of
        (Inl x, l1, s1) \<Rightarrow>
          if x = Stream StreamClosed then read_first net pre operation body l1 es (Some x) s1 else (Inl x, l1, s1)
      | (Inr f, l1, s1) \<Rightarrow>
          let (rid, s2) = fresh_id net s1 in
          (case lane_request net e (mirrored_request pre rid operation body (rl_lane_id l1) f) s2 of
             (Inr resp, s3) \<Rightarrow> (Inr resp, l1, s3)
           | (Inl x, s3) \<Rightarrow>
               if x = Stream StreamClosed then read_first net pre operation body l1 es (Some x) s3 else (Inl x, l1, s3)))"

definition router_read ::
  "'w net \<Rightarrow> int \<Rightarrow> live_endpoint list \<Rightarrow> string \<Rightarrow> string \<Rightarrow> dict \<Rightarrow> string \<Rightarrow> int
   \<Rightarrow> read_router \<Rightarrow> 'w net_state \<Rightarrow> dict result \<times> read_router \<times> 'w net_state" where
  "router_read net max_age live pre operation body lid tok rr s =
     (case require_twice net lid tok rr s of
        (Inl x, rr1, s1) \<Rightarrow> (Inl x, rr1, s1)
      | (Inr l, rr1, s1) \<Rightarrow>
          (case ordered_current_endpoints net max_age live s1 of
             (Inl x, s2) \<Rightarrow> (Inl x, rr1, s2)
           | (Inr es, s2) \<Rightarrow>
               (case read_first net pre operation body l es None s2 of (r, l1, s3) \<Rightarrow> (r, put_lane l1 rr1, s3))))"

definition router_read_text ::
  "'w net \<Rightarrow> int \<Rightarrow> live_endpoint list \<Rightarrow> string \<Rightarrow> int \<Rightarrow> string \<Rightarrow> string
   \<Rightarrow> read_router \<Rightarrow> 'w net_state \<Rightarrow> dict result \<times> read_router \<times> 'w net_state" where
  "router_read_text net max_age live lid tok file encoding =
     router_read net max_age live ''logical-read-'' ''fs.read_text''
       [(''path'', JStr file), (''encoding'', JStr encoding)] lid tok"

definition router_read_bytes ::
  "'w net \<Rightarrow> int \<Rightarrow> live_endpoint list \<Rightarrow> string \<Rightarrow> int \<Rightarrow> string \<Rightarrow> json \<Rightarrow> json \<Rightarrow> json
   \<Rightarrow> read_router \<Rightarrow> 'w net_state \<Rightarrow> dict result \<times> read_router \<times> 'w net_state" where
  "router_read_bytes net max_age live lid tok file offset max_bytes expected =
     router_read net max_age live ''logical-read-bytes-'' ''fs.read_bytes''
       [(''path'', JStr file), (''offset'', offset), (''max_bytes'', max_bytes), (''expected_file_version'', expected)]
       lid tok"

definition MIRRORED_OPERATIONS :: "string list" where
  "MIRRORED_OPERATIONS = [''fs.stat'', ''fs.list_dir'', ''fs.search'', ''fs.search_content'']"

definition router_call_read ::
  "'w net \<Rightarrow> int \<Rightarrow> live_endpoint list \<Rightarrow> string \<Rightarrow> string \<Rightarrow> int \<Rightarrow> dict
   \<Rightarrow> read_router \<Rightarrow> 'w net_state \<Rightarrow> dict result \<times> read_router \<times> 'w net_state" where
  "router_call_read net max_age live operation lid tok body rr s =
     (if operation \<notin> set MIRRORED_OPERATIONS then (Inl (Py ValueError), rr, s)
      else router_read net max_age live ''logical-read-op-'' operation body lid tok rr s)"


section \<open>What the router sends\<close>

text \<open>
  \<open>granted\<close>: the endpoint answered, in this session, the opening of this lane with this fence. A request
  of the router is in order when it opens a lane for reading only, or carries a fence its endpoint
  granted in the same session for the lane it names.
\<close>

definition granted :: "sent list \<Rightarrow> string \<Rightarrow> string \<Rightarrow> string \<Rightarrow> int \<Rightarrow> bool" where
  "granted L eid sid lid f \<longleftrightarrow> (\<exists>x \<in> set L. s_endpoint x = eid \<and> s_session x = sid
     \<and> map_of (s_request x) ''operation'' = Some (JStr ''lane.open'') \<and> map_of (s_request x) ''lane_id'' = Some (JStr lid)
     \<and> (\<exists>resp. s_answer x = Inr resp \<and> mirror_fence_of resp = Inr f))"

definition opens_for_reading :: "dict \<Rightarrow> bool" where
  "opens_for_reading req \<longleftrightarrow> map_of req ''operation'' = Some (JStr ''lane.open'')
     \<and> map_of req ''capabilities'' = Some (JList [JStr ''fs.read''])
     \<and> (\<exists>cs. map_of req ''claims'' = Some (JList cs) \<and> cs \<noteq> [] \<and> list_all read_claim cs)"

definition LANE_BOUND :: "string list" where
  "LANE_BOUND = [''lane.renew'', ''lane.close'', ''fs.read_text'', ''fs.read_bytes''] @ MIRRORED_OPERATIONS"

definition in_order :: "sent list \<Rightarrow> sent \<Rightarrow> bool" where
  "in_order L x \<longleftrightarrow> opens_for_reading (s_request x)
     \<or> (\<exists>op lid f. op \<in> set LANE_BOUND \<and> map_of (s_request x) ''operation'' = Some (JStr op)
          \<and> map_of (s_request x) ''lane_id'' = Some (JStr lid) \<and> map_of (s_request x) ''fencing_token'' = Some (JInt f)
          \<and> granted L (s_endpoint x) (s_session x) lid f)"

text \<open>The log grew by requests in order.\<close>

inductive grew :: "sent list \<Rightarrow> sent list \<Rightarrow> bool" where
  grew_refl: "grew L L"
| grew_snoc: "grew L M \<Longrightarrow> in_order M x \<Longrightarrow> grew L (M @ [x])"

lemma grew_prefix: "grew L M \<Longrightarrow> \<exists>d. M = L @ d"
  by (induction rule: grew.induct) auto

lemma grew_trans: "grew M N \<Longrightarrow> grew L M \<Longrightarrow> grew L N"
  by (induction rule: grew.induct) (auto intro: grew.intros)

lemma grew_granted: "grew L M \<Longrightarrow> granted L eid sid lid f \<Longrightarrow> granted M eid sid lid f"
  by (auto simp: granted_def dest!: grew_prefix)

lemma grew_entries: "grew [] L \<Longrightarrow> L = pre @ x # post \<Longrightarrow> in_order pre x"
proof (induction "[] :: sent list" L arbitrary: post rule: grew.induct)
  case (grew_snoc M y)
  show ?case
  proof (cases post rule: rev_cases)
    case Nil
    then show ?thesis using grew_snoc by simp
  next
    case (snoc ys z)
    then show ?thesis using grew_snoc by simp
  qed
qed simp

text \<open>A lane whose claims are for reading and whose mirrors were granted.\<close>

definition all_granted :: "sent list \<Rightarrow> string \<Rightarrow> (string \<times> (string \<times> int)) list \<Rightarrow> bool" where
  "all_granted L lid ms \<longleftrightarrow> (\<forall>(eid, sid, f) \<in> set ms. granted L eid sid lid f)"

lemma all_granted_grew: "all_granted L lid ms \<Longrightarrow> grew L M \<Longrightarrow> all_granted M lid ms"
  by (auto simp: all_granted_def intro: grew_granted)

definition mirrors_ok :: "sent list \<Rightarrow> logical_read_lane \<Rightarrow> bool" where
  "mirrors_ok L l \<longleftrightarrow> rl_claims l \<noteq> [] \<and> list_all read_claim (rl_claims l) \<and> all_granted L (rl_lane_id l) (rl_mirrors l)
     \<and> distinct (map fst (rl_mirrors l))"

lemma mirrors_ok_grew: "mirrors_ok L l \<Longrightarrow> grew L M \<Longrightarrow> mirrors_ok M l"
  by (auto simp: mirrors_ok_def intro: all_granted_grew)

lemma mirrors_ok_pop: "mirrors_ok L l \<Longrightarrow> mirrors_ok L (pop_mirror eid l)"
  by (auto simp: mirrors_ok_def pop_mirror_def all_granted_def distinct_delete) (auto simp: AList.delete_eq)

lemma pop_mirror_id [simp]: "rl_lane_id (pop_mirror eid l) = rl_lane_id l"
  by (simp add: pop_mirror_def)

lemma mirrors_ok_granted: "mirrors_ok L l \<Longrightarrow> map_of (rl_mirrors l) eid = Some (sid, f) \<Longrightarrow> granted L eid sid (rl_lane_id l) f"
  by (auto simp: mirrors_ok_def all_granted_def dest!: map_of_SomeD)

lemma now_ms_log: "now_ms net s = (t, s') \<Longrightarrow> ns_log s' = ns_log s"
  by (auto simp: now_ms_def split: prod.splits)

lemma fresh_id_log: "fresh_id net s = (i, s') \<Longrightarrow> ns_log s' = ns_log s"
  by (auto simp: fresh_id_def split: prod.splits)

lemma lane_request_log:
  assumes "lane_request net e req s = (r, s')"
  obtains a where "ns_log s' = ns_log s @ [\<lparr>s_endpoint = le_id e, s_session = le_session e, s_request = req, s_answer = a\<rparr>]"
    "\<And>resp. r = Inr resp \<Longrightarrow> a = Inr resp"
  using assms by (auto simp: lane_request_def transmit_def Let_def split: sum.splits)

lemma lane_request_grew:
  assumes "lane_request net e req s = (r, s')"
    and "\<And>a. in_order (ns_log s) \<lparr>s_endpoint = le_id e, s_session = le_session e, s_request = req, s_answer = a\<rparr>"
  shows "grew (ns_log s) (ns_log s')"
  using lane_request_log [OF assms(1)] assms(2) by (metis grew.intros)

lemma open_request_in_order:
  "mirrors_ok L l \<Longrightarrow> in_order L \<lparr>s_endpoint = eid, s_session = sid, s_request = mirror_open_request rid l ms, s_answer = a\<rparr>"
  by (simp add: in_order_def opens_for_reading_def mirror_open_request_def mirrors_ok_def)

lemma open_mirror_ok:
  assumes "open_mirror net l e s = (r, l', s')" "mirrors_ok (ns_log s) l"
  shows "grew (ns_log s) (ns_log s') \<and> mirrors_ok (ns_log s') l' \<and> rl_lane_id l' = rl_lane_id l
    \<and> (\<forall>f. r = Inr f \<longrightarrow> granted (ns_log s') (le_id e) (le_session e) (rl_lane_id l) f)"
proof -
  obtain now s1 where n: "now_ms net s = (now, s1)" by fastforce
  obtain rid s2 where i: "fresh_id net s1 = (rid, s2)" by fastforce
  define req where "req = mirror_open_request rid l (rl_expires_at_ms l - now)"
  obtain a s3 where q: "lane_request net e req s2 = (a, s3)" by fastforce
  have log: "ns_log s1 = ns_log s" "ns_log s2 = ns_log s" using now_ms_log [OF n] fresh_id_log [OF i] by simp_all
  have g: "grew (ns_log s) (ns_log s3)"
    using lane_request_grew [OF q] open_request_in_order [OF assms(2)] log by (simp add: req_def)
  show ?thesis
  proof (cases "\<exists>resp f. a = Inr resp \<and> mirror_fence_of resp = Inr f \<and> \<not> rl_expires_at_ms l - now \<le> 0")
    case True
    then obtain resp f where f: "a = Inr resp" "mirror_fence_of resp = Inr f" "\<not> rl_expires_at_ms l - now \<le> 0" by blast
    have new: "granted (ns_log s3) (le_id e) (le_session e) (rl_lane_id l) f"
      using lane_request_log [OF q] f by (fastforce simp: granted_def req_def mirror_open_request_def)
    have "r = Inr f" "l' = l\<lparr>rl_mirrors := AList.update (le_id e) (le_session e, f) (rl_mirrors l)\<rparr>" "s' = s3"
      using assms(1) n i q f by (simp_all add: open_mirror_def Let_def req_def)
    moreover have "mirrors_ok (ns_log s3) (l\<lparr>rl_mirrors := AList.update (le_id e) (le_session e, f) (rl_mirrors l)\<rparr>)"
      using mirrors_ok_grew [OF assms(2) g] new set_update_subset [of "le_id e" "(le_session e, f)" "rl_mirrors l"]
      by (auto simp: mirrors_ok_def all_granted_def distinct_update)
    ultimately show ?thesis using g new by simp
  next
    case False
    then have "l' = l" "s' = s1 \<or> s' = s3" "\<forall>f. r \<noteq> Inr f"
      using assms(1) n i q by (auto simp: open_mirror_def Let_def req_def split: if_splits sum.splits)
    then show ?thesis using g log mirrors_ok_grew [OF assms(2) g] assms(2) by (auto intro: grew_refl)
  qed
qed

lemma ensure_mirror_ok:
  assumes "ensure_mirror net l e s = (r, l', s')" "mirrors_ok (ns_log s) l"
  shows "grew (ns_log s) (ns_log s') \<and> mirrors_ok (ns_log s') l' \<and> rl_lane_id l' = rl_lane_id l
    \<and> (\<forall>f. r = Inr f \<longrightarrow> granted (ns_log s') (le_id e) (le_session e) (rl_lane_id l) f)"
proof (cases "\<exists>f. map_of (rl_mirrors l) (le_id e) = Some (le_session e, f)")
  case True
  then show ?thesis using assms mirrors_ok_granted [OF assms(2)] by (auto simp: ensure_mirror_def intro: grew_refl)
next
  case False
  then have "open_mirror net l e s = (r, l', s')"
    using assms(1) by (auto simp: ensure_mirror_def split: option.splits if_splits)
  then show ?thesis by (rule open_mirror_ok [OF _ assms(2)])
qed

lemma open_first_ok:
  assumes "open_first net l es err s = (r, l', s')" "mirrors_ok (ns_log s) l"
  shows "grew (ns_log s) (ns_log s') \<and> mirrors_ok (ns_log s') l' \<and> rl_lane_id l' = rl_lane_id l"
  using assms
proof (induction es arbitrary: l err s)
  case (Cons e es)
  obtain q l1 s1 where m: "ensure_mirror net l e s = (q, l1, s1)" by (metis prod_cases3)
  note ok = ensure_mirror_ok [OF m Cons.prems(2)]
  show ?case
  proof (cases "q = Inl (Stream StreamClosed)")
    case True
    then have "open_first net l1 es (Some (Stream StreamClosed)) s1 = (r, l', s')" using Cons.prems(1) m by simp
    then show ?thesis using Cons.IH ok grew_trans by metis
  next
    case False
    then show ?thesis using Cons.prems(1) m ok by (auto split: sum.splits)
  qed
qed (auto intro: grew_refl)

text \<open>A request that carries a fence of the lane.\<close>

lemma bound_request_in_order:
  assumes "map_of req ''operation'' = Some (JStr op)" "op \<in> set LANE_BOUND" "map_of req ''lane_id'' = Some (JStr lid)"
    and "map_of req ''fencing_token'' = Some (JInt f)" "granted L eid sid lid f"
  shows "in_order L \<lparr>s_endpoint = eid, s_session = sid, s_request = req, s_answer = a\<rparr>"
  using assms by (auto simp: in_order_def)

lemma bound_request_grew:
  assumes "fresh_id net s = (rid, s1)" "lane_request net e req s1 = (r, s')"
    and "map_of req ''operation'' = Some (JStr op)" "op \<in> set LANE_BOUND" "map_of req ''lane_id'' = Some (JStr lid)"
    and "map_of req ''fencing_token'' = Some (JInt f)" "granted (ns_log s) (le_id e) (le_session e) lid f"
  shows "grew (ns_log s) (ns_log s')"
  using lane_request_grew [OF assms(2)] bound_request_in_order [OF assms(3-6)] assms(7) fresh_id_log [OF assms(1)] by simp


lemma endpoint_table_D: "map_of (endpoint_table es) k = Some e \<Longrightarrow> le_id e = k \<and> e \<in> set es"
proof -
  have "map_of (fold (\<lambda>e. AList.update (le_id e) e) es m) k = Some e \<Longrightarrow> map_of m k = Some e \<or> le_id e = k \<and> e \<in> set es" for m
  proof (induction es arbitrary: m)
    case (Cons a es)
    from Cons.prems Cons.IH [of "AList.update (le_id a) a m"] show ?case by (auto simp: dict_simps split: if_splits)
  qed simp
  then show "map_of (endpoint_table es) k = Some e \<Longrightarrow> le_id e = k \<and> e \<in> set es"
    unfolding endpoint_table_def by fastforce
qed

lemma renew_mirrors_ok:
  assumes "renew_mirrors net (endpoint_table es) ttl ms l s = (r, l', s')" "mirrors_ok (ns_log s) l"
    and "all_granted (ns_log s) (rl_lane_id l) ms"
  shows "grew (ns_log s) (ns_log s') \<and> mirrors_ok (ns_log s') l' \<and> rl_lane_id l' = rl_lane_id l"
  using assms
proof (induction ms arbitrary: l s)
  case (Cons m ms)
  obtain eid sid f where m: "m = (eid, sid, f)" by (metis prod_cases3)
  have g: "granted (ns_log s) eid sid (rl_lane_id l) f" "all_granted (ns_log s) (rl_lane_id l) ms"
    using Cons.prems(3) by (auto simp: all_granted_def m)
  have pop: "renew_mirrors net (endpoint_table es) ttl ms (pop_mirror eid l) s = (r, l', s') \<Longrightarrow> ?case"
    using Cons.IH [OF _ mirrors_ok_pop [OF Cons.prems(2)]] g(2) by simp
  show ?case
  proof (cases "\<exists>e. map_of (endpoint_table es) eid = Some e \<and> le_session e = sid")
    case False
    then show ?thesis using Cons.prems(1) by (intro pop) (auto simp: m split: option.splits if_splits)
  next
    case True
    then obtain e where e: "map_of (endpoint_table es) eid = Some e" "le_session e = sid" "le_id e = eid"
      by (auto dest: endpoint_table_D)
    obtain rid s1 where i: "fresh_id net s = (rid, s1)" by fastforce
    obtain q s2 where t: "lane_request net e (mirror_renew_request rid l f ttl) s1 = (q, s2)" by fastforce
    have grown: "grew (ns_log s) (ns_log s2)"
      by (rule bound_request_grew [OF i t, where op = "''lane.renew''" and lid = "rl_lane_id l" and f = f])
        (use g(1) e in \<open>simp_all add: mirror_renew_request_def LANE_BOUND_def\<close>)
    note ok2 = mirrors_ok_grew [OF Cons.prems(2) grown]
    have rest: "renew_mirrors net (endpoint_table es) ttl ms l1 s2 = (r, l', s') \<Longrightarrow> l1 = l \<or> l1 = pop_mirror eid l \<Longrightarrow> ?thesis" for l1
      using Cons.IH [of l1 s2] ok2 mirrors_ok_pop [OF ok2] all_granted_grew [OF g(2) grown] grew_trans [OF _ grown] by auto
    show ?thesis
    proof (cases "\<exists>x. q = Inl x \<and> x \<noteq> Stream StreamClosed")
      case True
      then show ?thesis using Cons.prems(1) e i t ok2 grown by (auto simp: m)
    next
      case False
      then obtain l1 where "renew_mirrors net (endpoint_table es) ttl ms l1 s2 = (r, l', s')" "l1 = l \<or> l1 = pop_mirror eid l"
        using Cons.prems(1) e i t by (auto simp: m split: sum.splits if_splits)
      then show ?thesis by (rule rest)
    qed
  qed
qed (auto intro: grew_refl)

text \<open>One turn of the closing loop: the mirror is closed, stays unresolved, or the channel fails for good.\<close>

definition closed_mirror :: "sent list \<Rightarrow> string \<Rightarrow> string \<Rightarrow> string \<Rightarrow> int \<Rightarrow> bool" where
  "closed_mirror L eid sid lid f \<longleftrightarrow> (\<exists>x \<in> set L. s_endpoint x = eid \<and> s_session x = sid
     \<and> map_of (s_request x) ''operation'' = Some (JStr ''lane.close'') \<and> map_of (s_request x) ''lane_id'' = Some (JStr lid)
     \<and> map_of (s_request x) ''fencing_token'' = Some (JInt f) \<and> (\<exists>resp. s_answer x = Inr resp \<and> is_ok resp))"

lemma close_mirrors_step:
  assumes "close_mirrors net (endpoint_table es) ((eid, sid, f) # ms) l s = (r, l', s')"
    and "granted (ns_log s) eid sid (rl_lane_id l) f"
  obtains (gone) s2 where "grew (ns_log s) (ns_log s2)" "closed_mirror (ns_log s2) eid sid (rl_lane_id l) f"
      "close_mirrors net (endpoint_table es) ms (pop_mirror eid l) s2 = (r, l', s')"
  | (failed) x where "grew (ns_log s) (ns_log s')" "r = Inl x" "l' = l"
  | (missed) s2 q where "grew (ns_log s) (ns_log s2)" "close_mirrors net (endpoint_table es) ms l s2 = (q, l', s')"
      "r = map_sum id (Cons eid) q"
proof (cases "\<exists>e. map_of (endpoint_table es) eid = Some e \<and> le_session e = sid")
  case False
  obtain q l2 s2 where "close_mirrors net (endpoint_table es) ms l s = (q, l2, s2)" by (metis prod_cases3)
  then show ?thesis using False assms(1)
    by (intro missed [of s q]) (auto intro: grew_refl split: option.splits if_splits sum.splits)
next
  case True
  then obtain e where e: "map_of (endpoint_table es) eid = Some e" "le_session e = sid" "le_id e = eid"
    by (auto dest: endpoint_table_D)
  obtain rid s1 where i: "fresh_id net s = (rid, s1)" by fastforce
  obtain a s2 where t: "lane_request net e (mirror_close_request rid l f) s1 = (a, s2)" by fastforce
  have grown: "grew (ns_log s) (ns_log s2)"
    by (rule bound_request_grew [OF i t, where op = "''lane.close''" and lid = "rl_lane_id l" and f = f])
      (use assms(2) e in \<open>simp_all add: mirror_close_request_def LANE_BOUND_def\<close>)
  obtain q l2 s3 where u: "close_mirrors net (endpoint_table es) ms l s2 = (q, l2, s3)" by (metis prod_cases3)
  consider (ok) resp where "a = Inr resp" "is_ok resp" | (bad) x where "a = Inl x" "x \<noteq> Stream StreamClosed"
    | (miss) "a = Inl (Stream StreamClosed) \<or> (\<exists>resp. a = Inr resp \<and> \<not> is_ok resp)"
    by (cases a) auto
  then show ?thesis
  proof cases
    case (ok resp)
    then have "closed_mirror (ns_log s2) eid sid (rl_lane_id l) f"
      using lane_request_log [OF t] e by (fastforce simp: closed_mirror_def mirror_close_request_def)
    then show ?thesis using assms(1) e i t ok by (intro gone [OF grown]) simp_all
  next
    case (bad x)
    then show ?thesis using assms(1) e i t grown by (intro failed) auto
  next
    case miss
    then show ?thesis using assms(1) e i t u by (intro missed [OF grown, of q]) (auto split: sum.splits)
  qed
qed

lemma close_mirrors_ok:
  assumes "close_mirrors net (endpoint_table es) ms l s = (r, l', s')" "mirrors_ok (ns_log s) l"
    and "all_granted (ns_log s) (rl_lane_id l) ms"
  shows "grew (ns_log s) (ns_log s') \<and> mirrors_ok (ns_log s') l' \<and> rl_lane_id l' = rl_lane_id l"
  using assms
proof (induction ms arbitrary: l s r)
  case (Cons m ms)
  obtain eid sid f where m: "m = (eid, sid, f)" by (metis prod_cases3)
  have g: "granted (ns_log s) eid sid (rl_lane_id l) f" "all_granted (ns_log s) (rl_lane_id l) ms"
    using Cons.prems(3) by (auto simp: all_granted_def m)
  from Cons.prems(1) [unfolded m] g(1) show ?case
  proof (cases rule: close_mirrors_step)
    case (gone s2)
    then show ?thesis using Cons.IH [OF gone(3)] mirrors_ok_pop [OF mirrors_ok_grew [OF Cons.prems(2) gone(1)]]
      all_granted_grew [OF g(2) gone(1)] by (auto intro: grew_trans)
  next
    case (failed x)
    then show ?thesis using mirrors_ok_grew [OF Cons.prems(2)] by simp
  next
    case (missed s2 q)
    then show ?thesis using Cons.IH [OF missed(2)] mirrors_ok_grew [OF Cons.prems(2) missed(1)]
      all_granted_grew [OF g(2) missed(1)] by (auto intro: grew_trans)
  qed
qed (auto intro: grew_refl)

lemma map_of_update_all:
  "k \<notin> fst ` set body \<Longrightarrow> map_of (fold (\<lambda>(k, v). AList.update k v) body d) k = map_of d k"
  by (induction body arbitrary: d) (auto simp: dict_simps)

definition plain_body :: "dict \<Rightarrow> bool" where
  "plain_body body \<longleftrightarrow> fst ` set body \<inter> {''operation'', ''lane_id'', ''fencing_token''} = {}"

lemma read_first_ok:
  assumes "read_first net pre op body l es err s = (r, l', s')" "mirrors_ok (ns_log s) l"
    and "op \<in> set LANE_BOUND" "plain_body body"
  shows "grew (ns_log s) (ns_log s') \<and> mirrors_ok (ns_log s') l' \<and> rl_lane_id l' = rl_lane_id l"
  using assms(1,2)
proof (induction es arbitrary: l err s)
  case (Cons e es)
  obtain q l1 s1 where m: "ensure_mirror net l e s = (q, l1, s1)" by (metis prod_cases3)
  note ok = ensure_mirror_ok [OF m Cons.prems(2)]
  show ?case
  proof (cases q)
    case (Inl x)
    then show ?thesis using Cons.prems(1) m ok Cons.IH [of l1 "Some x" s1]
      by (auto split: if_splits intro: grew_trans)
  next
    case (Inr f)
    obtain rid s2 where i: "fresh_id net s1 = (rid, s2)" by fastforce
    obtain a s3 where t: "lane_request net e (mirrored_request pre rid op body (rl_lane_id l1) f) s2 = (a, s3)" by fastforce
    have grown: "grew (ns_log s1) (ns_log s3)"
      by (rule bound_request_grew [OF i t, where op = op and lid = "rl_lane_id l1" and f = f])
        (use assms(3,4) ok Inr in \<open>simp_all add: mirrored_request_def map_of_update_all plain_body_def\<close>)
    have ok3: "mirrors_ok (ns_log s3) l1" using mirrors_ok_grew [OF _ grown] ok by blast
    have g3: "grew (ns_log s) (ns_log s3)" using grew_trans [OF grown] ok by blast
    show ?thesis using Cons.prems(1) m i t Inr ok ok3 g3 Cons.IH [of l1 "Some (Stream StreamClosed)" s3]
      by (auto split: sum.splits if_splits intro: grew_trans)
  qed
qed (auto intro: grew_refl)

section \<open>Runs of the router\<close>

definition router_inv :: "read_router \<Rightarrow> sent list \<Rightarrow> bool" where
  "router_inv rr L \<longleftrightarrow> (\<forall>k l. map_of (rr_lanes rr) k = Some l \<longrightarrow> rl_lane_id l = k \<and> mirrors_ok L l)"

lemma router_inv_put: "router_inv rr L \<Longrightarrow> mirrors_ok L l \<Longrightarrow> router_inv (put_lane l rr) L"
  by (auto simp: router_inv_def put_lane_def dict_simps)

lemma router_inv_drop: "router_inv rr L \<Longrightarrow> router_inv (drop_lane lid rr) L"
  by (auto simp: router_inv_def drop_lane_def dict_simps)

lemma router_inv_grew: "router_inv rr L \<Longrightarrow> grew L M \<Longrightarrow> router_inv rr M"
  by (auto simp: router_inv_def intro: mirrors_ok_grew)

lemma require_read_lane_ok:
  assumes "require_read_lane net lid tok rr s = (r, rr', s')" "router_inv rr (ns_log s)"
  shows "ns_log s' = ns_log s" "router_inv rr' (ns_log s')"
    "\<And>l. r = Inr l \<Longrightarrow> rr' = rr \<and> map_of (rr_lanes rr) lid = Some l \<and> rl_fence l = tok"
    "r = Inl (ReadLane LogicalReadLaneExpired) \<or> rr' = rr"
  using assms
  by (auto simp: require_read_lane_def Let_def router_inv_drop now_ms_log split: option.splits if_splits prod.splits)

lemma require_twice_ok:
  assumes "require_twice net lid tok rr s = (r, rr', s')" "router_inv rr (ns_log s)"
  shows "ns_log s' = ns_log s" "router_inv rr' (ns_log s')"
    "\<And>l. r = Inr l \<Longrightarrow> rr' = rr \<and> map_of (rr_lanes rr) lid = Some l \<and> rl_fence l = tok"
    "r = Inl (ReadLane LogicalReadLaneExpired) \<or> rr' = rr"
proof -
  obtain q rr1 s1 where one: "require_read_lane net lid tok rr s = (q, rr1, s1)" by (metis prod_cases3)
  note f = require_read_lane_ok [OF one assms(2)]
  have "(r, rr', s') = (q, rr1, s1) \<and> (\<exists>x. q = Inl x) \<or> rr1 = rr \<and> require_read_lane net lid tok rr s1 = (r, rr', s')"
    using assms(1) one f(3) by (auto simp: require_twice_def split: sum.splits)
  then show "ns_log s' = ns_log s" "router_inv rr' (ns_log s')"
    "\<And>l. r = Inr l \<Longrightarrow> rr' = rr \<and> map_of (rr_lanes rr) lid = Some l \<and> rl_fence l = tok"
    "r = Inl (ReadLane LogicalReadLaneExpired) \<or> rr' = rr"
    using f require_read_lane_ok [of net lid tok rr s1 r rr' s'] by auto
qed

lemma ordered_log: "ordered_current_endpoints net max_age live s = (r, s') \<Longrightarrow> ns_log s' = ns_log s"
  by (auto simp: ordered_current_endpoints_def dest: now_ms_log split: prod.splits)


lemma router_inv_lane: "router_inv rr L \<Longrightarrow> map_of (rr_lanes rr) lid = Some l \<Longrightarrow> mirrors_ok L l \<and> rl_lane_id l = lid"
  by (simp add: router_inv_def)

text \<open>Every operation keeps the invariant and sends only requests in order.\<close>

lemma router_open_ok:
  assumes "router_open env net max_age live lid task caps claims ttl rr s = (r, rr', s')" "router_inv rr (ns_log s)"
  shows "grew (ns_log s) (ns_log s') \<and> router_inv rr' (ns_log s')"
proof -
  obtain now s1 where n: "now_ms net s = (now, s1)" by fastforce
  obtain f rr1 where k: "router_next_fence rr = (f, rr1)" by fastforce
  have same: "ns_log s1 = ns_log s" "router_inv rr1 (ns_log s)"
    using now_ms_log [OF n] assms(2) k by (auto simp: router_next_fence_def Let_def router_inv_def)
  show ?thesis
  proof (cases "supports_open caps claims \<and> lid \<noteq> [] \<and> task \<noteq> [] \<and> \<not> fle ttl (Fin 0)
      \<and> \<not> (case map_of (rr_lanes rr) lid of None \<Rightarrow> False | Some c \<Rightarrow> now < rl_expires_at_ms c)")
    case False
    then show ?thesis using assms n same by (auto simp: router_open_def intro: grew_refl split: if_splits)
  next
    case True
    show ?thesis
    proof (cases "py_int env (JFloat (fmul1000 ttl))")
      case (Inl x)
      then show ?thesis using True assms n k same by (auto simp: router_open_def intro: grew_refl)
    next
      case (Inr ttl_ms)
      define l where "l = \<lparr>rl_lane_id = lid, rl_task_id = task, rl_claims = claims, rl_fence = f,
                        rl_expires_at_ms = now + ttl_ms, rl_mirrors = []\<rparr>"
      have l: "mirrors_ok (ns_log s) l" using True by (simp add: l_def mirrors_ok_def all_granted_def supports_open_def)
      obtain q s2 where o: "ordered_current_endpoints net max_age live s1 = (q, s2)" by fastforce
      note log2 = ordered_log [OF o]
      have inv2: "router_inv (put_lane l rr1) (ns_log s)" by (rule router_inv_put [OF same(2) l])
      show ?thesis
      proof (cases q)
        case (Inl x)
        then have "rr' = drop_lane lid (put_lane l rr1)" "s' = s2"
          using True assms(1) n k o \<open>py_int env _ = Inr ttl_ms\<close> by (auto simp: router_open_def l_def Let_def)
        then show ?thesis using router_inv_drop [OF inv2] log2 same by (auto intro: grew_refl)
      next
        case (Inr es)
        obtain a l1 s3 where p: "open_first net l es None s2 = (a, l1, s3)" by (metis prod_cases3)
        have g: "grew (ns_log s) (ns_log s3)" "mirrors_ok (ns_log s3) l1"
          using open_first_ok [OF p] l log2 same(1) by simp_all
        have "rr' = drop_lane lid (put_lane l rr1) \<or> rr' = put_lane l1 (put_lane l rr1)" "s' = s3"
          using True assms(1) n k o p Inr \<open>py_int env _ = Inr ttl_ms\<close>
          by (auto simp: router_open_def l_def Let_def split: sum.splits)
        then show ?thesis using g router_inv_grew [OF inv2 g(1)] by (auto intro: router_inv_drop router_inv_put)
      qed
    qed
  qed
qed

lemma router_inv_store:
  assumes "router_inv rr L" "grew L M" "mirrors_ok M l"
  shows "router_inv (put_lane l rr) M"
  by (rule router_inv_put [OF router_inv_grew [OF assms(1,2)] assms(3)])

lemma router_renew_ok:
  assumes "router_renew env net max_age live lid tok ttl rr s = (r, rr', s')" "router_inv rr (ns_log s)"
  shows "grew (ns_log s) (ns_log s') \<and> router_inv rr' (ns_log s')"
proof -
  obtain q rr1 s1 where t: "require_twice net lid tok rr s = (q, rr1, s1)" by (metis prod_cases3)
  note tw = require_twice_ok [OF t assms(2)]
  obtain now s2 where n: "now_ms net s1 = (now, s2)" by fastforce
  show ?thesis
  proof (cases "\<exists>l ttl_ms. q = Inr l \<and> \<not> fle ttl (Fin 0) \<and> py_int env (JFloat (fmul1000 ttl)) = Inr ttl_ms")
    case False
    then have "rr' = rr1" "ns_log s' = ns_log s1"
      using assms(1) t n now_ms_log [OF n] by (auto simp: router_renew_def split: sum.splits if_splits)
    then show ?thesis using tw by (auto intro: grew_refl)
  next
    case True
    then obtain l ttl_ms where l: "q = Inr l" "\<not> fle ttl (Fin 0)" "py_int env (JFloat (fmul1000 ttl)) = Inr ttl_ms" by blast
    obtain es s3 where o: "ordered_current_endpoints net max_age live s2 = (es, s3)" by fastforce
    define l1 where "l1 = l\<lparr>rl_expires_at_ms := now + ttl_ms\<rparr>"
    have log: "ns_log s3 = ns_log s" using tw(1) now_ms_log [OF n] ordered_log [OF o] by simp
    have rr: "rr1 = rr" "mirrors_ok (ns_log s) l1" "all_granted (ns_log s) (rl_lane_id l1) (rl_mirrors l1)"
      using tw(3) [OF l(1)] router_inv_lane [OF assms(2)] by (auto simp: mirrors_ok_def l1_def)
    show ?thesis
    proof (cases es)
      case (Inl x)
      then have "rr' = put_lane l1 rr" "s' = s3"
        using assms(1) t l n o rr(1) by (simp_all add: router_renew_def Let_def l1_def)
      then show ?thesis using router_inv_put [OF assms(2) rr(2)] log by (auto intro: grew_refl)
    next
      case (Inr ys)
      obtain a l2 s4 where p: "renew_mirrors net (endpoint_table ys) ttl (rl_mirrors l1) l1 s3 = (a, l2, s4)" by (metis prod_cases3)
      have g: "grew (ns_log s) (ns_log s4)" "mirrors_ok (ns_log s4) l2" using renew_mirrors_ok [OF p] rr log by simp_all
      have "rr' = put_lane l2 rr" "s' = s4"
        using assms(1) t l n o p rr(1) Inr by (auto simp: router_renew_def Let_def l1_def split: sum.splits)
      then show ?thesis using g router_inv_store [OF assms(2) g] by simp
    qed
  qed
qed

text \<open>Closing: what it leaves behind.\<close>

lemma router_close_cases:
  assumes "router_close net max_age live lid tok rr s = (r, rr', s')" "router_inv rr (ns_log s)"
  obtains (refused) x where "r = Inl x" "x = ReadLane LogicalReadLaneExpired \<or> rr' = rr"
      "ns_log s' = ns_log s" "router_inv rr' (ns_log s')"
  | (run) l es l1 us s2 where "map_of (rr_lanes rr) lid = Some l" "rl_fence l = tok" "ns_log s2 = ns_log s"
      "close_mirrors net (endpoint_table es) (rl_mirrors l) l s2 = (us, l1, s')"
      "rr' = (if us = Inr [] then drop_lane lid rr else put_lane l1 rr)"
      "r = (case us of Inl x \<Rightarrow> Inl x | Inr [] \<Rightarrow> Inr (lane_result [(''lane_id'', JStr lid), (''closed'', JBool True)])
            | Inr _ \<Rightarrow> Inl (ReadLane LogicalReadLaneCloseIncomplete))"
proof -
  obtain q rr1 s1 where t: "require_twice net lid tok rr s = (q, rr1, s1)" by (metis prod_cases3)
  note tw = require_twice_ok [OF t assms(2)]
  obtain es s2 where o: "ordered_current_endpoints net max_age live s1 = (es, s2)" by fastforce
  note log2 = ordered_log [OF o]
  show ?thesis
  proof (cases "\<exists>l ys. q = Inr l \<and> es = Inr ys")
    case False
    then obtain x where "r = Inl x" "rr' = rr1" "ns_log s' = ns_log s1" "\<And>y. q = Inl y \<Longrightarrow> x = y"
      using assms(1) t o log2 by (auto simp: router_close_def split: sum.splits)
    then show ?thesis using tw(1,2,4) tw(3) by (intro refused [of x]) (cases q; auto)+
  next
    case True
    then obtain l ys where l: "q = Inr l" "es = Inr ys" by blast
    obtain us l1 s3 where p: "close_mirrors net (endpoint_table ys) (rl_mirrors l) l s2 = (us, l1, s3)" by (metis prod_cases3)
    have "rr1 = rr" "map_of (rr_lanes rr) lid = Some l" "rl_fence l = tok" using tw(3) [OF l(1)] by simp_all
    then show ?thesis using assms(1) t o l p tw(1) log2
      by (intro run [of l s2 ys us l1]) (auto simp: router_close_def split: sum.splits list.splits if_splits)
  qed
qed

lemma router_close_ok:
  assumes "router_close net max_age live lid tok rr s = (r, rr', s')" "router_inv rr (ns_log s)"
  shows "grew (ns_log s) (ns_log s') \<and> router_inv rr' (ns_log s')"
  using assms
proof (cases rule: router_close_cases)
  case (run l es l1 us s2)
  have l: "mirrors_ok (ns_log s) l" using router_inv_lane [OF assms(2) run(1)] by simp
  then have "all_granted (ns_log s) (rl_lane_id l) (rl_mirrors l)" by (simp add: mirrors_ok_def)
  with l have g: "grew (ns_log s) (ns_log s')" "mirrors_ok (ns_log s') l1"
    using close_mirrors_ok [OF run(4)] run(3) by simp_all
  then show ?thesis using run(5) router_inv_store [OF assms(2) g] router_inv_drop [OF router_inv_grew [OF assms(2) g(1)]] by simp
qed (auto intro: grew_refl)

lemma router_read_ok:
  assumes "router_read net max_age live pre op body lid tok rr s = (r, rr', s')" "router_inv rr (ns_log s)"
    and "op \<in> set LANE_BOUND" "plain_body body"
  shows "grew (ns_log s) (ns_log s') \<and> router_inv rr' (ns_log s')"
proof -
  obtain q rr1 s1 where t: "require_twice net lid tok rr s = (q, rr1, s1)" by (metis prod_cases3)
  note tw = require_twice_ok [OF t assms(2)]
  obtain es s2 where o: "ordered_current_endpoints net max_age live s1 = (es, s2)" by fastforce
  note log2 = ordered_log [OF o]
  show ?thesis
  proof (cases "\<exists>l ys. q = Inr l \<and> es = Inr ys")
    case False
    then have "rr' = rr1 \<and> ns_log s' = ns_log s1"
      using assms(1) t o log2 by (auto simp: router_read_def split: sum.splits)
    then show ?thesis using tw by (auto intro: grew_refl)
  next
    case True
    then obtain l ys where l: "q = Inr l" "es = Inr ys" by blast
    obtain a l1 s3 where p: "read_first net pre op body l ys None s2 = (a, l1, s3)" by (metis prod_cases3)
    have rr: "rr1 = rr" "mirrors_ok (ns_log s) l" using tw(3) [OF l(1)] router_inv_lane [OF assms(2)] by auto
    have g: "grew (ns_log s) (ns_log s3)" "mirrors_ok (ns_log s3) l1"
      using read_first_ok [OF p _ assms(3,4)] rr(2) log2 tw(1) by simp_all
    have "rr' = put_lane l1 rr" "s' = s3" using assms(1) t o l p rr(1) by (simp_all add: router_read_def)
    then show ?thesis using g router_inv_store [OF assms(2) g] by simp
  qed
qed

text \<open>Everything callers can do with a router, from an empty log; the endpoints may change between calls.\<close>

inductive router_reach :: "pyenv \<Rightarrow> 'w net \<Rightarrow> read_router \<Rightarrow> 'w net_state \<Rightarrow> bool" for env net where
  reach_new: "router_new epoch timeout = Inr rr \<Longrightarrow> ns_log s = [] \<Longrightarrow> router_reach env net rr s"
| reach_open: "router_reach env net rr s \<Longrightarrow> router_open env net max_age live lid task caps claims ttl rr s = (r, rr', s') \<Longrightarrow>
    router_reach env net rr' s'"
| reach_renew: "router_reach env net rr s \<Longrightarrow> router_renew env net max_age live lid tok ttl rr s = (r, rr', s') \<Longrightarrow>
    router_reach env net rr' s'"
| reach_close: "router_reach env net rr s \<Longrightarrow> router_close net max_age live lid tok rr s = (r, rr', s') \<Longrightarrow>
    router_reach env net rr' s'"
| reach_read_text: "router_reach env net rr s \<Longrightarrow> router_read_text net max_age live lid tok file enc rr s = (r, rr', s') \<Longrightarrow>
    router_reach env net rr' s'"
| reach_read_bytes: "router_reach env net rr s \<Longrightarrow> router_read_bytes net max_age live lid tok file off mx ver rr s = (r, rr', s') \<Longrightarrow>
    router_reach env net rr' s'"
| reach_call_read: "router_reach env net rr s \<Longrightarrow> plain_body body \<Longrightarrow>
    router_call_read net max_age live op lid tok body rr s = (r, rr', s') \<Longrightarrow> router_reach env net rr' s'"
| reach_world: "router_reach env net rr s \<Longrightarrow> router_reach env net rr (s\<lparr>ns_world := w\<rparr>)"

lemma router_reach_inv: "router_reach env net rr s \<Longrightarrow> router_inv rr (ns_log s) \<and> grew [] (ns_log s)"
proof (induction rule: router_reach.induct)
  case (reach_new epoch timeout rr s)
  then show ?case by (auto simp: router_new_def router_inv_def intro: grew_refl split: if_splits)
next
  case (reach_open rr s max_age live lid task caps claims ttl r rr' s')
  then show ?case using router_open_ok [OF reach_open.hyps(2)] by (auto intro: grew_trans)
next
  case (reach_renew rr s max_age live lid tok ttl r rr' s')
  then show ?case using router_renew_ok [OF reach_renew.hyps(2)] by (auto intro: grew_trans)
next
  case (reach_close rr s max_age live lid tok r rr' s')
  then show ?case using router_close_ok [OF reach_close.hyps(2)] by (auto intro: grew_trans)
next
  case (reach_read_text rr s max_age live lid tok fname enc r rr' s')
  then show ?case
    using router_read_ok [OF reach_read_text.hyps(2) [unfolded router_read_text_def]]
    by (auto simp: LANE_BOUND_def plain_body_def intro: grew_trans)
next
  case (reach_read_bytes rr s max_age live lid tok fname off mx ver r rr' s')
  then show ?case
    using router_read_ok [OF reach_read_bytes.hyps(2) [unfolded router_read_bytes_def]]
    by (auto simp: LANE_BOUND_def plain_body_def intro: grew_trans)
next
  case (reach_call_read rr s body max_age live op lid tok r rr' s')
  show ?case
  proof (cases "op \<in> set MIRRORED_OPERATIONS")
    case True
    then show ?thesis
      using reach_call_read router_read_ok [of net max_age live "''logical-read-op-''" op body lid tok rr s r rr' s']
      by (auto simp: router_call_read_def LANE_BOUND_def intro: grew_trans)
  next
    case False
    then show ?thesis using reach_call_read by (simp add: router_call_read_def)
  qed
qed simp

text \<open>
  (C13) Whatever is done with logical read lanes, over any endpoints coming and going: every request the
  router sends either opens a lane with the capability \<^verbatim>\<open>fs.read\<close> alone and read claims alone, or is a
  renewal, a close or a read that carries a fence this endpoint granted, in this very session, for the
  lane it names.
\<close>
theorem mirrored_requests_are_granted:
  assumes "router_reach env net rr s" "ns_log s = pre @ x # post"
  shows "opens_for_reading (s_request x)
    \<or> (\<exists>op lid f. op \<in> set LANE_BOUND \<and> map_of (s_request x) ''operation'' = Some (JStr op)
         \<and> map_of (s_request x) ''lane_id'' = Some (JStr lid) \<and> map_of (s_request x) ''fencing_token'' = Some (JInt f)
         \<and> granted pre (s_endpoint x) (s_session x) lid f)"
  using grew_entries [OF conjunct2 [OF router_reach_inv [OF assms(1)]] assms(2)] by (simp add: in_order_def)

definition demo_live :: live_endpoint where
  "demo_live =
     \<lparr>le_config = \<lparr>ec_id = ''d'', ec_mode = DIRECT_STREAM, ec_host = ''h'', ec_port = 1, ec_server_hostname = ''n'', ec_durable = True\<rparr>,
      le_binding = \<lparr>session_id = ''s'', controller_principal = ''c'', workstation_principal = ''w'',
                    granted_capabilities = {''fs.read''}, expires_at_ms = 1000\<rparr>,
      le_path = \<lparr>path_id = ''d'', path_mode = DIRECT_STREAM, authenticated = True, healthy = True, observed_at_ms = 0, rtt_ms = None\<rparr>\<rparr>"

definition demo_net :: "unit net" where
  "demo_net =
     \<lparr>n_answer = (\<lambda>_ _ _ _. Inr [(''ok'', JBool True), (''result'', JObj [(''fencing_token'', JInt 7)])]),
      n_after = (\<lambda>_ _ w. w), n_now = (\<lambda>w. (10, w)), n_fresh = (\<lambda>w. (''x'', w))\<rparr>"

definition demo_router :: read_router where
  "demo_router = \<lparr>rr_lanes = [], rr_epoch = 1, rr_last = 0\<rparr>"

definition demo_lane :: logical_read_lane where
  "demo_lane = \<lparr>rl_lane_id = ''L'', rl_task_id = ''T'', rl_claims = [JObj [(''key'', JStr ''fs:/a''), (''mode'', JStr ''read'')]],
     rl_fence = push_bit 32 1 OR 1, rl_expires_at_ms = 1010, rl_mirrors = []\<rparr>"

definition demo_sent :: sent where
  "demo_sent = \<lparr>s_endpoint = ''d'', s_session = ''s'', s_request = mirror_open_request ''x'' demo_lane 1000,
     s_answer = Inr [(''ok'', JBool True), (''result'', JObj [(''fencing_token'', JInt 7)])]\<rparr>"

definition demo_mirrored :: read_router where
  "demo_mirrored = \<lparr>rr_lanes = [(''L'', demo_lane\<lparr>rl_mirrors := [(''d'', ''s'', 7)]\<rparr>)], rr_epoch = 1, rr_last = 1\<rparr>"

lemma demo_ordered: "order_endpoints 10 100 [demo_live] = Inr [demo_live]"
  by (simp add: order_endpoints.simps select_path_def Let_def reject_def demo_live_def)

lemma demo_opened:
  "router_open posix_env demo_net 100 [demo_live] ''L'' ''T'' [''fs.read'']
     [JObj [(''key'', JStr ''fs:/a''), (''mode'', JStr ''read'')]] (Fin 1) demo_router \<lparr>ns_world = (), ns_log = []\<rparr>
   = (Inr (lane_result [(''lane_id'', JStr ''L''), (''fencing_token'', JInt (push_bit 32 1 OR 1))]), demo_mirrored,
      \<lparr>ns_world = (), ns_log = [demo_sent]\<rparr>)"
  by (simp add: router_open_def supports_open_def read_claim_def startswith_def now_ms_def demo_net_def Let_def demo_router_def
      router_next_fence_def trunc_def put_lane_def ordered_current_endpoints_def demo_ordered ensure_mirror_def open_mirror_def
      fresh_id_def lane_request_def transmit_def mirror_fence_of_def is_ok_def)
    (simp add: demo_live_def demo_mirrored_def demo_sent_def demo_lane_def)

lemma demo_mirrored_reach: "router_reach posix_env demo_net demo_mirrored \<lparr>ns_world = (), ns_log = [demo_sent]\<rparr>"
proof -
  have "router_reach posix_env demo_net demo_router \<lparr>ns_world = (), ns_log = []\<rparr>"
    by (rule reach_new [where epoch = 1 and timeout = "Fin 5"]) (simp_all add: router_new_def demo_router_def)
  then show ?thesis by (rule reach_open [OF _ demo_opened])
qed

theorem mirrored_requests_are_granted_witness: "opens_for_reading (mirror_open_request ''x'' demo_lane 1000)"
  using mirrored_requests_are_granted [OF demo_mirrored_reach, of "[]" demo_sent "[]"]
  by (simp add: demo_sent_def granted_def)


section \<open>Closing completely\<close>

lemma closed_mirror_grew: "closed_mirror L eid sid lid f \<Longrightarrow> grew L M \<Longrightarrow> closed_mirror M eid sid lid f"
  by (auto simp: closed_mirror_def dest!: grew_prefix)

lemma pop_mirror_other: "k \<noteq> eid \<Longrightarrow> map_of (rl_mirrors (pop_mirror eid l)) k = map_of (rl_mirrors l) k"
  by (simp add: pop_mirror_def dict_simps)

lemma all_granted_Cons: "all_granted L lid ((eid, sid, f) # ms) \<longleftrightarrow> granted L eid sid lid f \<and> all_granted L lid ms"
  by (simp add: all_granted_def)

lemma close_mirrors_keeps:
  assumes "close_mirrors net (endpoint_table es) ms l s = (r, l', s')" "all_granted (ns_log s) (rl_lane_id l) ms"
    and "k \<notin> fst ` set ms"
  shows "map_of (rl_mirrors l') k = map_of (rl_mirrors l) k"
  using assms
proof (induction ms arbitrary: l s r)
  case (Cons m ms)
  obtain eid sid f where m: "m = (eid, sid, f)" by (metis prod_cases3)
  have g: "granted (ns_log s) eid sid (rl_lane_id l) f" "all_granted (ns_log s) (rl_lane_id l) ms" "k \<noteq> eid" "k \<notin> fst ` set ms"
    using Cons.prems(2,3) by (auto simp: m all_granted_Cons)
  from Cons.prems(1) [unfolded m] g(1) show ?case
  proof (cases rule: close_mirrors_step)
    case (gone s2)
    then show ?thesis using Cons.IH [OF gone(3)] all_granted_grew [OF g(2) gone(1)] g(3,4) by (simp add: pop_mirror_other)
  next
    case (missed s2 q)
    then show ?thesis using Cons.IH [OF missed(2)] all_granted_grew [OF g(2) missed(1)] g(4) by simp
  qed simp
qed simp

text \<open>After the loop a mirror was closed or is still in the lane; if all were resolved, all were closed.\<close>

lemma close_mirrors_done:
  assumes "close_mirrors net (endpoint_table es) ms l s = (r, l', s')" "mirrors_ok (ns_log s) l"
    and "all_granted (ns_log s) (rl_lane_id l) ms" "distinct (map fst ms)" "(eid, sid, f) \<in> set ms"
    and "map_of (rl_mirrors l) eid = Some (sid, f)"
  shows "closed_mirror (ns_log s') eid sid (rl_lane_id l) f \<or> map_of (rl_mirrors l') eid = Some (sid, f) \<and> r \<noteq> Inr []"
  using assms
proof (induction ms arbitrary: l s r)
  case (Cons m ms)
  obtain eid1 sid1 f1 where m: "m = (eid1, sid1, f1)" by (metis prod_cases3)
  have g: "granted (ns_log s) eid1 sid1 (rl_lane_id l) f1" "all_granted (ns_log s) (rl_lane_id l) ms"
    "eid1 \<notin> fst ` set ms" "distinct (map fst ms)"
    using Cons.prems(3,4) by (auto simp: m all_granted_Cons)
  have mem: "(eid, sid, f) = m \<or> (eid, sid, f) \<in> set ms \<and> eid \<noteq> eid1" using Cons.prems(5) g(3) by (auto simp: image_iff)
  from Cons.prems(1) [unfolded m] g(1) show ?case
  proof (cases rule: close_mirrors_step)
    case (gone s2)
    note ok = mirrors_ok_pop [OF mirrors_ok_grew [OF Cons.prems(2) gone(1)]] all_granted_grew [OF g(2) gone(1)]
    show ?thesis
    proof (cases "(eid, sid, f) = m")
      case True
      then show ?thesis using closed_mirror_grew [OF gone(2)] close_mirrors_ok [OF gone(3) ok(1)] ok(2) by (auto simp: m)
    next
      case False
      then show ?thesis using Cons.IH [OF gone(3) ok(1)] ok(2) g(4) mem Cons.prems(6) by (auto simp: pop_mirror_other)
    qed
  next
    case (failed x)
    then show ?thesis using Cons.prems(6) by simp
  next
    case (missed s2 q)
    note ok = mirrors_ok_grew [OF Cons.prems(2) missed(1)] all_granted_grew [OF g(2) missed(1)]
    have "r \<noteq> Inr []" using missed(3) by (cases q) auto
    then show ?thesis
      using Cons.IH [OF missed(2) ok g(4)] close_mirrors_keeps [OF missed(2) ok(2) g(3)] mem Cons.prems(6) by (auto simp: m)
  qed
qed simp

lemma router_close_result:
  assumes "router_inv rr (ns_log s)" "router_close net max_age live lid tok rr s = (r, rr', s')"
    and "map_of (rr_lanes rr) lid = Some l" "map_of (rl_mirrors l) eid = Some (sid, f)"
  shows "case r of
      Inr _ \<Rightarrow> map_of (rr_lanes rr') lid = None \<and> closed_mirror (ns_log s') eid sid lid f
    | Inl x \<Rightarrow> x = ReadLane LogicalReadLaneExpired
        \<or> (\<exists>l'. map_of (rr_lanes rr') lid = Some l'
             \<and> (closed_mirror (ns_log s') eid sid lid f \<or> map_of (rl_mirrors l') eid = Some (sid, f)))"
proof -
  note inv = assms(1)
  from assms(2) inv show ?thesis
  proof (cases rule: router_close_cases)
    case (refused x)
    then show ?thesis using assms(3,4) by auto
  next
    case (run l0 es l1 us s2)
    have l: "l0 = l" "mirrors_ok (ns_log s2) l" "rl_lane_id l = lid"
      using run(1,3) assms(3) router_inv_lane [OF inv assms(3)] by simp_all
    then have c: "closed_mirror (ns_log s') eid sid lid f \<or> map_of (rl_mirrors l1) eid = Some (sid, f) \<and> us \<noteq> Inr []"
      using close_mirrors_done [OF run(4), of eid sid f] assms(4) map_of_SomeD [OF assms(4)] by (auto simp: mirrors_ok_def)
    have "rl_lane_id l1 = lid" using close_mirrors_ok [OF run(4)] l by (auto simp: mirrors_ok_def)
    then show ?thesis using c run(5,6)
      by (auto simp: drop_lane_def put_lane_def dict_simps split: sum.splits list.splits)
  qed
qed

text \<open>
  Closing a logical lane with its fence either reports success, after every mirror of the lane was
  closed by its own endpoint and session, and the lane is gone; or it reports an error, and unless the
  lane had expired, it keeps the lane with every mirror that was not closed, so that the close can be
  repeated.
\<close>
theorem close_is_complete_or_kept:
  assumes "router_reach env net rr s" "router_close net max_age live lid tok rr s = (r, rr', s')"
    and "map_of (rr_lanes rr) lid = Some l" "map_of (rl_mirrors l) eid = Some (sid, f)"
  shows "case r of
      Inr _ \<Rightarrow> map_of (rr_lanes rr') lid = None \<and> closed_mirror (ns_log s') eid sid lid f
    | Inl x \<Rightarrow> x = ReadLane LogicalReadLaneExpired
        \<or> (\<exists>l'. map_of (rr_lanes rr') lid = Some l'
             \<and> (closed_mirror (ns_log s') eid sid lid f \<or> map_of (rl_mirrors l') eid = Some (sid, f)))"
  by (rule router_close_result [OF conjunct1 [OF router_reach_inv [OF assms(1)]] assms(2-4)])

theorem close_is_complete_or_kept_witness:
  "closed_mirror (ns_log (snd (snd (router_close demo_net 100 [demo_live] ''L'' (push_bit 32 1 OR 1) demo_mirrored
     \<lparr>ns_world = (), ns_log = [demo_sent]\<rparr>)))) ''d'' ''s'' ''L'' 7"
proof -
  have eq: "router_close demo_net 100 [demo_live] ''L'' (push_bit 32 1 OR 1) demo_mirrored \<lparr>ns_world = (), ns_log = [demo_sent]\<rparr>
      = (Inr (lane_result [(''lane_id'', JStr ''L''), (''closed'', JBool True)]), drop_lane ''L'' demo_mirrored, s')"
    if "s' = snd (snd (router_close demo_net 100 [demo_live] ''L'' (push_bit 32 1 OR 1) demo_mirrored \<lparr>ns_world = (), ns_log = [demo_sent]\<rparr>))" for s'
    unfolding that
    by (simp add: router_close_def require_twice_def require_read_lane_def now_ms_def demo_net_def demo_mirrored_def demo_lane_def
        ordered_current_endpoints_def demo_ordered endpoint_table_def fresh_id_def lane_request_def transmit_def is_ok_def Let_def)
      (simp add: demo_live_def)
  show ?thesis
    using close_is_complete_or_kept [OF demo_mirrored_reach eq [OF refl], of "demo_lane\<lparr>rl_mirrors := [(''d'', ''s'', 7)]\<rparr>" "''d''" "''s''" 7]
    by (simp add: demo_mirrored_def)
qed


section \<open>The order of the endpoints\<close>

lemma order_endpoints_best_first:
  assumes "0 \<le> now" "0 \<le> max_age" "\<forall>e \<in> set live. path_ok (le_path e)" "distinct (map (path_id \<circ> le_path) live)"
  shows "\<exists>es. order_endpoints now max_age live = Inr es
    \<and> set es = {e \<in> set live. path_usable now max_age (le_path e) \<and> now < expires_at_ms (le_binding e)}
    \<and> sorted_wrt (\<lambda>a b. key_less (le_path a) (le_path b)) es"
  using assms
proof (induction now max_age live rule: order_endpoints.induct)
  case (1 now max_age live)
  define v where "v = select_value now max_age (map le_path live)"
  have dec: "select_path (map le_path live) now max_age
      = Inr \<lparr>selected = v, rejected = snd (partition_paths now max_age (map le_path live))\<rparr>"
    unfolding v_def by (rule select_path_cases [OF "1.prems"(1,2)])
  show ?case
  proof (cases v)
    case None
    then have "\<forall>e \<in> set live. \<not> path_usable now max_age (le_path e)"
      using sel.select_None [of now max_age "map le_path live"] by (auto simp: v_def)
    then show ?thesis using dec None by (auto simp: order_endpoints.simps [of now max_age live])
  next
    case (Some p)
    then have sel: "select_value now max_age (map le_path live) = Some p" by (simp add: v_def)
    obtain e where f: "find (\<lambda>e. path_id (le_path e) = path_id p) live = Some e" "e \<in> set live"
      using sel.selected_owner [OF sel] by blast
    have "p \<in> le_path ` set live" "path_usable now max_age p" using sel.select_in [OF sel] by auto
    moreover have "path_id (le_path e) = path_id p" using f(1) by (auto simp: find_Some_iff)
    ultimately have e: "le_path e = p" "path_usable now max_age (le_path e)"
      using "1.prems"(4) f(2) by (auto simp: distinct_map dest: inj_onD)
    have ne: "live \<noteq> []" using f(2) by auto
    have rest: "set (remove1 e live) = set live - {e}" "distinct (map (path_id \<circ> le_path) (remove1 e live))"
      using "1.prems"(4) by (auto simp: distinct_map comp_def intro: inj_on_subset)
    obtain es where es: "order_endpoints now max_age (remove1 e live) = Inr es"
      "set es = {x \<in> set live - {e}. path_usable now max_age (le_path x) \<and> now < expires_at_ms (le_binding x)}"
      "sorted_wrt (\<lambda>a b. key_less (le_path a) (le_path b)) es"
      using "1.IH" [OF ne dec, of p e] Some f(1) rest "1.prems"(1-3) by (auto simp: comp_def)
    have first: "key_less (le_path e) (le_path x)" if "x \<in> set es" for x
    proof -
      have "x \<in> set live" "x \<noteq> e" "path_usable now max_age (le_path x)" using es(2) that by auto
      moreover have "le_path x \<noteq> p"
        using calculation(1,2) f(2) e(1) inj_onD [of "path_id \<circ> le_path" "set live" x e] "1.prems"(4) by (auto simp: distinct_map comp_def)
      ultimately show ?thesis
        using select_value_unique_best [OF sel, of "le_path x"] "1.prems"(3,4) e(1) by auto
    qed
    have "order_endpoints now max_age live = Inr (if now < expires_at_ms (le_binding e) then e # es else es)"
      using dec ne Some f(1) es(1) by (simp add: order_endpoints.simps [of now max_age live])
    then show ?thesis using es(2,3) first f(2) e(2) by auto
  qed
qed

lemma router_fence_value:
  assumes "0 \<le> rr_last rr" "rr_last rr < 2 ^ 32 - 1" "router_next_fence rr = (f, rr')"
  shows "f = rr_epoch rr * 2 ^ 32 + (rr_last rr + 1)"
proof -
  have "take_bit 32 (rr_last rr + 1) = rr_last rr + 1" using assms(1,2) by (simp add: take_bit_int_eq_self)
  then have "push_bit 32 (rr_epoch rr) OR (rr_last rr + 1) = concat_bit 32 (rr_last rr + 1) (rr_epoch rr)"
    by (simp add: concat_bit_def or.commute)
  then show ?thesis using assms by (auto simp: router_next_fence_def concat_bit_eq take_bit_int_eq_self push_bit_eq_mult Let_def)
qed

end
