(* ===== verification/Controller_Runtime.thy ===== *)
theory Controller_Runtime
  imports Read_Lane
begin

text \<open>
  \<^verbatim>\<open>gateway.py\<close> and \<^verbatim>\<open>controller_runtime.py\<close>: the gateway that puts requests on the pool under a ceiling of
  permitted operations, and the runtime that keeps the authenticated endpoints of the controller alive
  and routes reading lanes to the read lane router and everything else to the gateway.

  Opening a session (\<^verbatim>\<open>open_session\<close>), closing a channel and the performance counter are the record
  \<open>connector\<close>; the two key files are the results of loading them. An operation is one step of the
  runtime: its lock covers the refresh, and the later calls only read what the refresh has set up.
\<close>

section \<open>The gateway\<close>

record gateway =
  gw_workstation :: string
  gw_controller :: string
  gw_allowed :: "string set"
  gw_max_path_age_ms :: int
  gw_request_timeout_s :: pyfloat

definition mk_gateway :: "string \<Rightarrow> string \<Rightarrow> string set \<Rightarrow> int \<Rightarrow> pyfloat \<Rightarrow> gateway result" where
  "mk_gateway ws ctl allowed age timeout =
     (if ws = [] then Inl (Py ValueError)
      else if ctl = [] then Inl (Py ValueError)
      else if \<not> allowed \<subseteq> set ALL_OPERATIONS then Inl (Py ValueError)
      else if age < 1 then Inl (Py ValueError)
      else if fle timeout (Fin 0) then Inl (Py ValueError)
      else Inr \<lparr>gw_workstation = ws, gw_controller = ctl, gw_allowed = allowed, gw_max_path_age_ms = age,
                gw_request_timeout_s = timeout\<rparr>)"

definition gateway_request :: "string \<Rightarrow> string \<Rightarrow> dict \<Rightarrow> dict" where
  "gateway_request rid operation body =
     fold (\<lambda>(k, v). AList.update k v) body
       [(''protocol_version'', JStr ''veraport-v1''), (''request_id'', JStr rid), (''operation'', JStr operation)]"

text \<open>\<^verbatim>\<open>_call\<close>: the request goes to the pool, and every endpoint it was attempted on is logged.\<close>

definition sent_to :: "'w net \<Rightarrow> 'w \<Rightarrow> dict \<Rightarrow> session_endpoint \<Rightarrow> sent" where
  "sent_to net w req e =
     \<lparr>s_endpoint = endpoint_id e, s_session = session_id (binding e), s_request = req,
      s_answer = n_answer net w (endpoint_id e) (session_id (binding e)) req\<rparr>"

definition gateway_call ::
  "'w net \<Rightarrow> pool \<Rightarrow> gateway \<Rightarrow> string \<Rightarrow> dict \<Rightarrow> 'w net_state \<Rightarrow> dict result \<times> 'w net_state" where
  "gateway_call net p gw operation body s =
     (if operation \<notin> gw_allowed gw then (Inl (Gateway GatewayOperationDenied), s)
      else let (rid, s1) = fresh_id net s in
        if rid = [] then (Inl (Py ValueError), s1)
        else let req = gateway_request rid operation body;
                 (now, s2) = now_ms net s1;
                 (r, es) = pool_request (\<lambda>e req. n_answer net (ns_world s2) (endpoint_id e) (session_id (binding e)) req)
                    p (gw_workstation gw) (gw_controller gw) req now (gw_max_path_age_ms gw) (gw_request_timeout_s gw)
             in (r, \<lparr>ns_world = n_after net (map (\<lambda>e. (endpoint_id e, session_id (binding e))) es) req (ns_world s2),
                     ns_log = ns_log s2 @ map (sent_to net (ns_world s2) req) es\<rparr>))"

text \<open>The bodies of the named operations.\<close>

definition open_lane_body :: "string \<Rightarrow> string \<Rightarrow> string list \<Rightarrow> json list \<Rightarrow> pyfloat \<Rightarrow> dict" where
  "open_lane_body lid task caps claims ttl =
     [(''lane_id'', JStr lid), (''task_id'', JStr task), (''capabilities'', JList (map JStr caps)),
      (''claims'', JList claims), (''ttl_s'', JFloat ttl)]"

definition renew_lane_body :: "string \<Rightarrow> int \<Rightarrow> pyfloat \<Rightarrow> dict" where
  "renew_lane_body lid tok ttl = [(''lane_id'', JStr lid), (''fencing_token'', JInt tok), (''ttl_s'', JFloat ttl)]"

definition close_lane_body :: "string \<Rightarrow> int \<Rightarrow> dict" where
  "close_lane_body lid tok = [(''lane_id'', JStr lid), (''fencing_token'', JInt tok)]"

definition read_text_body :: "string \<Rightarrow> int \<Rightarrow> string \<Rightarrow> string \<Rightarrow> dict" where
  "read_text_body lid tok file encoding =
     [(''lane_id'', JStr lid), (''fencing_token'', JInt tok), (''path'', JStr file), (''encoding'', JStr encoding)]"

definition read_bytes_body :: "string \<Rightarrow> int \<Rightarrow> string \<Rightarrow> json \<Rightarrow> json \<Rightarrow> json \<Rightarrow> dict" where
  "read_bytes_body lid tok file offset max_bytes expected =
     [(''lane_id'', JStr lid), (''fencing_token'', JInt tok), (''path'', JStr file), (''offset'', offset),
      (''max_bytes'', max_bytes), (''expected_file_version'', expected)]"

definition write_text_body :: "string \<Rightarrow> int \<Rightarrow> string \<Rightarrow> string \<Rightarrow> string \<Rightarrow> dict" where
  "write_text_body lid tok file content encoding =
     [(''lane_id'', JStr lid), (''fencing_token'', JInt tok), (''path'', JStr file), (''content'', JStr content),
      (''encoding'', JStr encoding)]"

definition run_process_body :: "string \<Rightarrow> int \<Rightarrow> string list \<Rightarrow> string \<Rightarrow> pyfloat \<Rightarrow> dict" where
  "run_process_body lid tok argv cwd timeout =
     [(''lane_id'', JStr lid), (''fencing_token'', JInt tok), (''argv'', JList (map JStr argv)), (''cwd'', JStr cwd),
      (''timeout_s'', JFloat timeout)]"

section \<open>The state of the runtime\<close>

text \<open>\<open>c_channels\<close> lists the channels that were opened and not closed, by endpoint and session.\<close>

record 'w controller =
  c_live :: "(string \<times> live_endpoint) list"
  c_pool :: pool
  c_ids :: "(string \<times> string) option"
  c_gateway :: "gateway option"
  c_router :: read_router
  c_channels :: "(string \<times> string) list"
  c_net :: "'w net_state"

record 'w connector =
  k_open :: "endpoint_config \<Rightarrow> string set \<Rightarrow> 'w \<Rightarrow> session_binding result \<times> 'w"
  k_close :: "string \<Rightarrow> string \<Rightarrow> 'w \<Rightarrow> 'w"
  k_rtt_ms :: "'w \<Rightarrow> pyfloat"

record ('w, 'sk, 'pk) runtime =
  rt_config :: controller_config
  rt_net :: "'w net"
  rt_conn :: "'w connector"
  rt_crypto :: "('sk, 'pk) crypto"
  rt_private :: "'sk result"
  rt_public :: "'pk result"

definition controller_new :: "('w, 'sk, 'pk) runtime \<Rightarrow> int \<Rightarrow> 'w \<Rightarrow> 'w controller result" where
  "controller_new rt epoch w =
     (case router_new epoch (cc_request_timeout_s (rt_config rt)) of
        Inl x \<Rightarrow> Inl x
      | Inr rr \<Rightarrow> Inr \<lparr>c_live = [], c_pool = [], c_ids = None, c_gateway = None, c_router = rr, c_channels = [],
                       c_net = \<lparr>ns_world = w, ns_log = []\<rparr>\<rparr>)"

definition load_identities :: "('w, 'sk, 'pk) runtime \<Rightarrow> 'w controller \<Rightarrow> unit result \<times> 'w controller" where
  "load_identities rt c =
     (if c_ids c \<noteq> None then (Inr (), c)
      else case rt_private rt of
        Inl _ \<Rightarrow> (Inl (Gateway ControllerBootstrapError), c)
      | Inr sk \<Rightarrow>
          if \<not> p256_private (rt_crypto rt) sk then (Inl (Gateway ControllerBootstrapError), c)
          else (case rt_public rt of
             Inl _ \<Rightarrow> (Inl (Gateway ControllerBootstrapError), c)
           | Inr pk \<Rightarrow>
               if \<not> p256_public (rt_crypto rt) pk then (Inl (Gateway ControllerBootstrapError), c)
               else (case principal_id (rt_crypto rt) (public_of (rt_crypto rt) sk) ''controller'' of
                  Inl x \<Rightarrow> (Inl x, c)
                | Inr ctl \<Rightarrow>
                    (case principal_id (rt_crypto rt) pk ''workstation'' of
                       Inl x \<Rightarrow> (Inl x, c)
                     | Inr ws \<Rightarrow> (Inr (), c\<lparr>c_ids := Some (ctl, ws)\<rparr>)))))"

section \<open>Connecting and probing\<close>

definition close_channel :: "('w, 'sk, 'pk) runtime \<Rightarrow> string \<Rightarrow> string \<Rightarrow> 'w controller \<Rightarrow> 'w controller" where
  "close_channel rt eid sid c =
     c\<lparr>c_channels := removeAll (eid, sid) (c_channels c),
       c_net := (c_net c)\<lparr>ns_world := k_close (rt_conn rt) eid sid (ns_world (c_net c))\<rparr>\<rparr>"

definition probe_request :: "string \<Rightarrow> dict" where
  "probe_request rid =
     [(''protocol_version'', JStr ''veraport-v1''), (''request_id'', JStr rid), (''operation'', JStr ''lane.list'')]"

definition probe ::
  "('w, 'sk, 'pk) runtime \<Rightarrow> endpoint_config \<Rightarrow> session_binding \<Rightarrow> 'w net_state \<Rightarrow> path_observation result \<times> 'w net_state" where
  "probe rt spec b s =
     (let (i, s1) = fresh_id (rt_net rt) s; rid = ''probe-'' @ i in
      case transmit (rt_net rt) (ec_id spec) (session_id b) (probe_request rid) s1 of
        (Inl x, s2) \<Rightarrow> (Inl x, s2)
      | (Inr resp, s2) \<Rightarrow>
          if map_of resp ''request_id'' \<noteq> Some (JStr rid) \<or> \<not> is_ok resp
          then (Inl (Gateway ControllerBootstrapError), s2)
          else let rtt = k_rtt_ms (rt_conn rt) (ns_world s2); (now, s3) = now_ms (rt_net rt) s2 in
            (mk_path_observation \<lparr>path_id = ec_id spec, path_mode = ec_mode spec, authenticated = True, healthy = True,
               observed_at_ms = now, rtt_ms = Some rtt\<rparr>, s3))"

definition session_of :: "live_endpoint \<Rightarrow> session_endpoint" where
  "session_of e = \<lparr>endpoint_id = le_id e, binding = le_binding e, path = le_path e, durable_idempotency = ec_durable (le_config e)\<rparr>"

text \<open>Putting an endpoint into the table and the pool.\<close>

definition set_live :: "live_endpoint \<Rightarrow> 'w controller \<Rightarrow> 'w controller" where
  "set_live e c = c\<lparr>c_live := AList.update (le_id e) e (c_live c)\<rparr>"

definition register_live :: "live_endpoint \<Rightarrow> 'w controller \<Rightarrow> unit result \<times> 'w controller" where
  "register_live e c =
     (case mk_session_endpoint (session_of e) of
        Inl x \<Rightarrow> (Inl x, c)
      | Inr se \<Rightarrow> (Inr (), c\<lparr>c_pool := pool_register (c_pool c) se\<rparr>))"

definition connect :: "('w, 'sk, 'pk) runtime \<Rightarrow> endpoint_config \<Rightarrow> 'w controller \<Rightarrow> unit result \<times> 'w controller" where
  "connect rt spec c =
     (case c_ids c of
        None \<Rightarrow> (Inl (Py AssertionError), c)
      | Some (ctl, ws) \<Rightarrow>
          (case k_open (rt_conn rt) spec (requested_capabilities (rt_config rt)) (ns_world (c_net c)) of
             (Inl x, w) \<Rightarrow> (Inl x, c\<lparr>c_net := (c_net c)\<lparr>ns_world := w\<rparr>\<rparr>)
           | (Inr b, w) \<Rightarrow>
               let c1 = c\<lparr>c_net := (c_net c)\<lparr>ns_world := w\<rparr>, c_channels := (ec_id spec, session_id b) # c_channels c\<rparr> in
               if controller_principal b \<noteq> ctl
               then (Inl (Gateway ControllerIdentityMismatch), close_channel rt (ec_id spec) (session_id b) c1)
               else if workstation_principal b \<noteq> ws
               then (Inl (Gateway WorkstationIdentityMismatch), close_channel rt (ec_id spec) (session_id b) c1)
               else (case probe rt spec b (c_net c1) of
                  (Inl x, s2) \<Rightarrow> (Inl x, c1\<lparr>c_net := s2\<rparr>)
                | (Inr p, s2) \<Rightarrow>
                    let e = \<lparr>le_config = spec, le_binding = b, le_path = p\<rparr>
                    in register_live e (set_live e (c1\<lparr>c_net := s2\<rparr>)))))"

definition drop_endpoint :: "('w, 'sk, 'pk) runtime \<Rightarrow> endpoint_config \<Rightarrow> live_endpoint \<Rightarrow> 'w controller \<Rightarrow> 'w controller" where
  "drop_endpoint rt spec cur c =
     (let c1 = c\<lparr>c_pool := pool_remove (c_pool c) (workstation_principal (le_binding cur)) (controller_principal (le_binding cur)) (ec_id spec)\<rparr>;
          c2 = close_channel rt (le_id cur) (le_session cur) c1
      in c2\<lparr>c_live := AList.delete (ec_id spec) (c_live c2)\<rparr>)"

text \<open>One turn of \<^verbatim>\<open>_refresh_locked\<close>; a failed connection is left out.\<close>

definition refresh_endpoint :: "('w, 'sk, 'pk) runtime \<Rightarrow> int \<Rightarrow> endpoint_config \<Rightarrow> 'w controller \<Rightarrow> 'w controller" where
  "refresh_endpoint rt now spec c =
     (case map_of (c_live c) (ec_id spec) of
        None \<Rightarrow> snd (connect rt spec c)
      | Some cur \<Rightarrow>
          if now < expires_at_ms (le_binding cur) then
            (case probe rt spec (le_binding cur) (c_net c) of
               (Inl _, s1) \<Rightarrow> snd (connect rt spec (drop_endpoint rt spec cur (c\<lparr>c_net := s1\<rparr>)))
             | (Inr p, s1) \<Rightarrow>
                 let e = cur\<lparr>le_path := p\<rparr> in
                 (case register_live e (set_live e (c\<lparr>c_net := s1\<rparr>)) of
                    (Inr _, c2) \<Rightarrow> c2
                  | (Inl _, c2) \<Rightarrow> snd (connect rt spec (drop_endpoint rt spec e c2))))
          else snd (connect rt spec (drop_endpoint rt spec cur c)))"

definition refresh :: "('w, 'sk, 'pk) runtime \<Rightarrow> 'w controller \<Rightarrow> 'w controller" where
  "refresh rt c =
     (let (now, s1) = now_ms (rt_net rt) (c_net c)
      in fold (refresh_endpoint rt now) (endpoints (rt_config rt)) (c\<lparr>c_net := s1\<rparr>))"

definition refresh_paths :: "('w, 'sk, 'pk) runtime \<Rightarrow> 'w controller \<Rightarrow> unit result \<times> 'w controller" where
  "refresh_paths rt c =
     (case load_identities rt c of
        (Inl x, c1) \<Rightarrow> (Inl x, c1)
      | (Inr _, c1) \<Rightarrow>
          let c2 = refresh rt c1 in
          if c_live c2 = [] then (Inl (Gateway ControllerBootstrapError), c2) else (Inr (), c2))"

definition ensure_started :: "('w, 'sk, 'pk) runtime \<Rightarrow> 'w controller \<Rightarrow> gateway result \<times> 'w controller" where
  "ensure_started rt c =
     (case refresh_paths rt c of
        (Inl x, c1) \<Rightarrow> (Inl x, c1)
      | (Inr _, c1) \<Rightarrow>
          (case c_gateway c1 of
             Some gw \<Rightarrow> (Inr gw, c1)
           | None \<Rightarrow>
               (case c_ids c1 of
                  None \<Rightarrow> (Inl (Py AssertionError), c1)
                | Some (ctl, ws) \<Rightarrow>
                    (case mk_gateway ws ctl (gateway_operations (rt_config rt)) (cc_max_path_age_ms (rt_config rt))
                            (cc_request_timeout_s (rt_config rt)) of
                       Inl x \<Rightarrow> (Inl x, c1)
                     | Inr gw \<Rightarrow> (Inr gw, c1\<lparr>c_gateway := Some gw\<rparr>)))))"

definition controller_close :: "('w, 'sk, 'pk) runtime \<Rightarrow> 'w controller \<Rightarrow> 'w controller" where
  "controller_close rt c =
     (fold (\<lambda>e. close_channel rt (le_id e) (le_session e)) (map snd (c_live c)) c)\<lparr>c_live := []\<rparr>"

section \<open>Operations\<close>

text \<open>Calling the gateway or the router after the runtime has been started.\<close>

definition via_gateway ::
  "('w, 'sk, 'pk) runtime \<Rightarrow> gateway \<Rightarrow> string \<Rightarrow> dict \<Rightarrow> 'w controller \<Rightarrow> dict result \<times> 'w controller" where
  "via_gateway rt gw operation body c =
     (case gateway_call (rt_net rt) (c_pool c) gw operation body (c_net c) of (r, s) \<Rightarrow> (r, c\<lparr>c_net := s\<rparr>))"

definition via_router ::
  "(int \<Rightarrow> live_endpoint list \<Rightarrow> read_router \<Rightarrow> 'w net_state \<Rightarrow> dict result \<times> read_router \<times> 'w net_state)
   \<Rightarrow> ('w, 'sk, 'pk) runtime \<Rightarrow> 'w controller \<Rightarrow> dict result \<times> 'w controller" where
  "via_router f rt c =
     (case f (cc_max_path_age_ms (rt_config rt)) (map snd (c_live c)) (c_router c) (c_net c) of
        (r, rr, s) \<Rightarrow> (r, c\<lparr>c_router := rr, c_net := s\<rparr>))"

definition started ::
  "('w, 'sk, 'pk) runtime \<Rightarrow> (gateway \<Rightarrow> 'w controller \<Rightarrow> 'a result \<times> 'w controller) \<Rightarrow> 'w controller \<Rightarrow> 'a result \<times> 'w controller" where
  "started rt k c = (case ensure_started rt c of (Inl x, c1) \<Rightarrow> (Inl x, c1) | (Inr gw, c1) \<Rightarrow> k gw c1)"

definition rt_list_lanes :: "('w, 'sk, 'pk) runtime \<Rightarrow> 'w controller \<Rightarrow> dict result \<times> 'w controller" where
  "rt_list_lanes rt = started rt (\<lambda>gw. via_gateway rt gw ''lane.list'' [])"

definition rt_open_lane ::
  "pyenv \<Rightarrow> ('w, 'sk, 'pk) runtime \<Rightarrow> string \<Rightarrow> string \<Rightarrow> string list \<Rightarrow> json list \<Rightarrow> pyfloat \<Rightarrow> 'w controller
   \<Rightarrow> dict result \<times> 'w controller" where
  "rt_open_lane env rt lid task caps claims ttl =
     started rt (\<lambda>gw c.
       if supports_open caps claims
       then via_router (\<lambda>age live. router_open env (rt_net rt) age live lid task caps claims ttl) rt c
       else via_gateway rt gw ''lane.open'' (open_lane_body lid task caps claims ttl) c)"

definition rt_renew_lane ::
  "pyenv \<Rightarrow> ('w, 'sk, 'pk) runtime \<Rightarrow> string \<Rightarrow> int \<Rightarrow> pyfloat \<Rightarrow> 'w controller \<Rightarrow> dict result \<times> 'w controller" where
  "rt_renew_lane env rt lid tok ttl =
     started rt (\<lambda>gw c.
       if router_owns (c_router c) lid tok
       then via_router (\<lambda>age live. router_renew env (rt_net rt) age live lid tok ttl) rt c
       else via_gateway rt gw ''lane.renew'' (renew_lane_body lid tok ttl) c)"

definition rt_close_lane ::
  "('w, 'sk, 'pk) runtime \<Rightarrow> string \<Rightarrow> int \<Rightarrow> 'w controller \<Rightarrow> dict result \<times> 'w controller" where
  "rt_close_lane rt lid tok =
     started rt (\<lambda>gw c.
       if router_owns (c_router c) lid tok
       then via_router (\<lambda>age live. router_close (rt_net rt) age live lid tok) rt c
       else via_gateway rt gw ''lane.close'' (close_lane_body lid tok) c)"

definition rt_read_text ::
  "('w, 'sk, 'pk) runtime \<Rightarrow> string \<Rightarrow> int \<Rightarrow> string \<Rightarrow> string \<Rightarrow> 'w controller \<Rightarrow> dict result \<times> 'w controller" where
  "rt_read_text rt lid tok file encoding =
     started rt (\<lambda>gw c.
       if router_owns (c_router c) lid tok
       then via_router (\<lambda>age live. router_read_text (rt_net rt) age live lid tok file encoding) rt c
       else via_gateway rt gw ''fs.read_text'' (read_text_body lid tok file encoding) c)"

definition rt_read_bytes ::
  "('w, 'sk, 'pk) runtime \<Rightarrow> string \<Rightarrow> int \<Rightarrow> string \<Rightarrow> json \<Rightarrow> json \<Rightarrow> json \<Rightarrow> 'w controller \<Rightarrow> dict result \<times> 'w controller" where
  "rt_read_bytes rt lid tok file offset max_bytes expected =
     started rt (\<lambda>gw c.
       if ''fs.read_bytes'' \<notin> gateway_operations (rt_config rt) then (Inl (Gateway GatewayOperationDenied), c)
       else if router_owns (c_router c) lid tok
       then via_router (\<lambda>age live. router_read_bytes (rt_net rt) age live lid tok file offset max_bytes expected) rt c
       else via_gateway rt gw ''fs.read_bytes'' (read_bytes_body lid tok file offset max_bytes expected) c)"

definition rt_read_operation ::
  "('w, 'sk, 'pk) runtime \<Rightarrow> string \<Rightarrow> string \<Rightarrow> int \<Rightarrow> dict \<Rightarrow> 'w controller \<Rightarrow> dict result \<times> 'w controller" where
  "rt_read_operation rt operation lid tok body =
     started rt (\<lambda>gw c.
       if operation \<notin> set MIRRORED_OPERATIONS then (Inl (Gateway GatewayOperationDenied), c)
       else if operation \<notin> gateway_operations (rt_config rt) then (Inl (Gateway GatewayOperationDenied), c)
       else if router_owns (c_router c) lid tok
       then via_router (\<lambda>age live. router_call_read (rt_net rt) age live operation lid tok body) rt c
       else via_gateway rt gw operation ([(''lane_id'', JStr lid), (''fencing_token'', JInt tok)] @ body) c)"

definition rt_write_text ::
  "('w, 'sk, 'pk) runtime \<Rightarrow> string \<Rightarrow> int \<Rightarrow> string \<Rightarrow> string \<Rightarrow> string \<Rightarrow> 'w controller \<Rightarrow> dict result \<times> 'w controller" where
  "rt_write_text rt lid tok file content encoding =
     started rt (\<lambda>gw. via_gateway rt gw ''fs.write_text'' (write_text_body lid tok file content encoding))"

text \<open>\<^verbatim>\<open>ensure_started\<close> followed by \<^verbatim>\<open>gateway.call_operation\<close>, as the callers of the runtime do.\<close>

definition rt_call_operation ::
  "('w, 'sk, 'pk) runtime \<Rightarrow> string \<Rightarrow> dict \<Rightarrow> 'w controller \<Rightarrow> dict result \<times> 'w controller" where
  "rt_call_operation rt operation body = started rt (\<lambda>gw. via_gateway rt gw operation body)"


text \<open>\<^verbatim>\<open>machine_info\<close>: the identities, the policy and the state of the paths.\<close>

definition route_decision :: "('w, 'sk, 'pk) runtime \<Rightarrow> 'w controller \<Rightarrow> path_decision result \<times> 'w controller" where
  "route_decision rt c =
     (let (now, s) = now_ms (rt_net rt) (c_net c)
      in (select_path (map (le_path \<circ> snd) (c_live c)) now (cc_max_path_age_ms (rt_config rt)), c\<lparr>c_net := s\<rparr>))"

fun mode_name :: "path_mode \<Rightarrow> string" where
  "mode_name DIRECT_STREAM = ''DIRECT_STREAM''"
| "mode_name EDGE_STREAM = ''EDGE_STREAM''"
| "mode_name DURABLE_RELAY = ''DURABLE_RELAY''"

fun reason_name :: "reject_reason \<Rightarrow> string" where
  "reason_name CLOCK_FUTURE = ''CLOCK_FUTURE''"
| "reason_name STALE = ''STALE''"
| "reason_name UNAUTHENTICATED = ''UNAUTHENTICATED''"
| "reason_name UNHEALTHY = ''UNHEALTHY''"

definition sorted_names :: "string set \<Rightarrow> json" where
  "sorted_names A = JList (map JStr (sorted_list_of_set A))"

definition path_info :: "live_endpoint \<Rightarrow> json" where
  "path_info e = JObj
     [(''path_id'', JStr (path_id (le_path e))), (''endpoint_id'', JStr (le_id e)), (''mode'', JStr (mode_name (ec_mode (le_config e)))),
      (''host'', JStr (ec_host (le_config e))), (''port'', JInt (ec_port (le_config e))), (''session_id'', JStr (le_session e)),
      (''expires_at_ms'', JInt (expires_at_ms (le_binding e))), (''observed_at_ms'', JInt (observed_at_ms (le_path e))),
      (''rtt_ms'', case rtt_ms (le_path e) of None \<Rightarrow> JNull | Some r \<Rightarrow> JFloat r),
      (''authenticated'', JBool (authenticated (le_path e))), (''data_plane_verified'', JBool (healthy (le_path e))),
      (''durable_idempotency'', JBool (ec_durable (le_config e))),
      (''granted_capabilities'', sorted_names (granted_capabilities (le_binding e)))]"

definition info_dict :: "('w, 'sk, 'pk) runtime \<Rightarrow> 'w controller \<Rightarrow> path_decision \<Rightarrow> dict" where
  "info_dict rt c d =
     [(''schema'', JStr ''VERAPORT_MCP_MACHINE_INFO_V1''),
      (''controller_principal'', case c_ids c of None \<Rightarrow> JNull | Some (ctl, ws) \<Rightarrow> JStr ctl),
      (''workstation_principal'', case c_ids c of None \<Rightarrow> JNull | Some (ctl, ws) \<Rightarrow> JStr ws),
      (''requested_capabilities'', sorted_names (requested_capabilities (rt_config rt))),
      (''gateway_operations'', sorted_names (gateway_operations (rt_config rt))),
      (''selected_path_id'', case selected d of None \<Rightarrow> JNull | Some p \<Rightarrow> JStr (path_id p)),
      (''paths'', JList (map path_info (sort_key (\<lambda>e. le_id e) (map snd (c_live c))))),
      (''rejected_paths'', JList (map (\<lambda>(i, r). JList [JStr i, JStr (reason_name r)]) (rejected d)))]"

definition machine_info :: "('w, 'sk, 'pk) runtime \<Rightarrow> 'w controller \<Rightarrow> dict result \<times> 'w controller" where
  "machine_info rt =
     started rt (\<lambda>gw c. case route_decision rt c of (Inl x, c1) \<Rightarrow> (Inl x, c1) | (Inr d, c1) \<Rightarrow> (Inr (info_dict rt c1 d), c1))"

section \<open>The pool as a table of routes\<close>

definition pool_entry :: "pool \<Rightarrow> route \<Rightarrow> string \<Rightarrow> session_endpoint option" where
  "pool_entry p r k = map_of (dict_get p r []) k"

lemma pool_entry_register:
  "pool_entry (pool_register p se) r k =
     (if r = route_key (binding se) \<and> k = endpoint_id se then Some se else pool_entry p r k)"
  by (auto simp: pool_entry_def pool_register_def Let_def dict_get_def dict_simps split: option.splits)

lemma pool_entry_remove:
  "pool_entry (pool_remove p ws ctl eid) r k = (if r = (ws, ctl) \<and> k = eid then None else pool_entry p r k)"
proof (cases "map_of p (ws, ctl)")
  case None
  then show ?thesis by (auto simp: pool_entry_def pool_remove_def dict_get_def)
next
  case (Some grp)
  have "map_of (AList.delete eid grp) k = None" if "AList.delete eid grp = []" using that by simp
  then show ?thesis using Some
    by (auto simp: pool_entry_def pool_remove_def dict_get_def Let_def dict_simps split: option.splits if_splits)
      (metis delete_conv fun_upd_apply map_of.simps(1))+
qed

section \<open>What the runtime sends\<close>

text \<open>
  \<open>probed\<close>: this session of the endpoint answered a probe. A request of the controller is a probe, a
  request of the read lane router, or an operation under the ceiling on a probed session.
\<close>

definition probed :: "sent list \<Rightarrow> string \<Rightarrow> string \<Rightarrow> bool" where
  "probed L eid sid \<longleftrightarrow> (\<exists>x \<in> set L. s_endpoint x = eid \<and> s_session x = sid \<and> (\<exists>rid. s_request x = probe_request rid
     \<and> (\<exists>resp. s_answer x = Inr resp \<and> is_ok resp \<and> map_of resp ''request_id'' = Some (JStr rid))))"

definition permitted :: "controller_config \<Rightarrow> sent list \<Rightarrow> sent \<Rightarrow> bool" where
  "permitted cfg L x \<longleftrightarrow> (\<exists>rid. s_request x = probe_request rid) \<or> in_order L x
     \<or> (\<exists>op \<in> gateway_operations cfg. map_of (s_request x) ''operation'' = Some (JStr op)) \<and> probed L (s_endpoint x) (s_session x)"

inductive extended :: "controller_config \<Rightarrow> sent list \<Rightarrow> sent list \<Rightarrow> bool" for cfg where
  extended_refl: "extended cfg L L"
| extended_snoc: "extended cfg L M \<Longrightarrow> permitted cfg M x \<Longrightarrow> extended cfg L (M @ [x])"

lemma extended_prefix: "extended cfg L M \<Longrightarrow> \<exists>d. M = L @ d"
  by (induction rule: extended.induct) auto

lemma extended_trans: "extended cfg M N \<Longrightarrow> extended cfg L M \<Longrightarrow> extended cfg L N"
  by (induction rule: extended.induct) (auto intro: extended.intros)

lemma extended_grew: "grew L M \<Longrightarrow> extended cfg L M"
  by (induction rule: grew.induct) (auto intro: extended.intros simp: permitted_def)

lemma extended_append: "\<forall>x \<in> set d. \<forall>M. permitted cfg (L @ M) x \<Longrightarrow> extended cfg L (L @ d)"
proof (induction d rule: rev_induct)
  case (snoc x d)
  then have "extended cfg L ((L @ d) @ [x])" by (intro extended_snoc) auto
  then show ?case by simp
qed (simp add: extended_refl)

lemma extended_entries: "extended cfg [] L \<Longrightarrow> L = pre @ x # post \<Longrightarrow> permitted cfg pre x"
proof (induction "[] :: sent list" L arbitrary: post rule: extended.induct)
  case (extended_snoc M y)
  then show ?case by (cases post rule: rev_cases) auto
qed simp

lemma probed_extended: "probed L eid sid \<Longrightarrow> extended cfg L M \<Longrightarrow> probed M eid sid"
  by (auto simp: probed_def dest!: extended_prefix)

lemma router_inv_extended: "router_inv rr L \<Longrightarrow> extended cfg L M \<Longrightarrow> router_inv rr M"
  by (auto simp: router_inv_def mirrors_ok_def all_granted_def granted_def dest!: extended_prefix) fastforce+

lemma probe_ok:
  assumes "probe rt spec b s = (r, s')"
  shows "extended cfg (ns_log s) (ns_log s')"
    "r = Inr p \<Longrightarrow> probed (ns_log s') (ec_id spec) (session_id b) \<and> path_id p = ec_id spec \<and> authenticated p \<and> healthy p"
proof -
  obtain i s1 where i: "fresh_id (rt_net rt) s = (i, s1)" by fastforce
  define rid where "rid = ''probe-'' @ i"
  obtain a s2 where t: "transmit (rt_net rt) (ec_id spec) (session_id b) (probe_request rid) s1 = (a, s2)" by fastforce
  obtain now s3 where n: "now_ms (rt_net rt) s2 = (now, s3)" by fastforce
  have log: "ns_log s2 = ns_log s @ [\<lparr>s_endpoint = ec_id spec, s_session = session_id b, s_request = probe_request rid, s_answer = a\<rparr>]"
    using t fresh_id_log [OF i] by (auto simp: transmit_def Let_def)
  have "s' = s2 \<or> s' = s3"
    using assms i t n by (auto simp: probe_def Let_def rid_def split: sum.splits if_splits)
  then have log': "ns_log s' = ns_log s2" using now_ms_log [OF n] by auto
  show "extended cfg (ns_log s) (ns_log s')"
    unfolding log' log by (intro extended_append) (auto simp: permitted_def)
  assume "r = Inr p"
  then obtain resp where "a = Inr resp" "is_ok resp" "map_of resp ''request_id'' = Some (JStr rid)"
      "path_id p = ec_id spec \<and> authenticated p \<and> healthy p"
    using assms i t n by (auto simp: probe_def Let_def rid_def mk_path_observation_def split: sum.splits if_splits)
  then show "probed (ns_log s') (ec_id spec) (session_id b) \<and> path_id p = ec_id spec \<and> authenticated p \<and> healthy p"
    unfolding log' log by (auto simp: probed_def)
qed

section \<open>Calls of the gateway\<close>

lemma request_loop_attempts:
  assumes "request_loop now max_age send mutating candidates [] None None = (r, es)"
  shows "set es \<subseteq> set candidates"
proof (cases "0 \<le> now \<and> 0 \<le> max_age")
  case True
  then show ?thesis
    using request_loop_good [of now max_age send mutating candidates "[]" None None] assms by (auto simp: good_run_def)
next
  case False
  then have "es = []"
    using assms by (subst (asm) request_loop.simps) (auto simp: select_path_def Let_def split: if_splits)
  then show ?thesis by simp
qed

lemma pool_request_attempts:
  assumes "pool_request send p ws ctl req now max_age timeout = (r, es)" "e \<in> set es"
  shows "e \<in> set (current_endpoints p ws ctl now)"
proof -
  have "\<exists>mut. request_loop now max_age (\<lambda>e. send e req) mut (current_endpoints p ws ctl now) [] None None = (r, es)"
    using assms by (auto simp: pool_request_def split: if_splits)
  then show ?thesis using request_loop_attempts assms(2) by blast
qed

lemma current_pool_entry:
  assumes "pool_reach p" "e \<in> set (current_endpoints p ws ctl now)"
  shows "pool_entry p (ws, ctl) (endpoint_id e) = Some e"
proof -
  have g: "group_inv (ws, ctl) (dict_get p (ws, ctl) [])"
    using pool_reach_inv [OF assms(1)] by (rule pool_group_inv)
  obtain k where k: "(k, e) \<in> set (dict_get p (ws, ctl) [])" using assms(2) by (auto simp: current_endpoints_def)
  then have "k = endpoint_id e" using g by (auto simp: group_inv_def)
  then show ?thesis using k g by (simp add: pool_entry_def group_inv_def map_of_is_SomeI)
qed

lemma gateway_request_operation:
  "''operation'' \<notin> fst ` set body \<Longrightarrow> map_of (gateway_request rid op body) ''operation'' = Some (JStr op)"
  by (simp add: gateway_request_def map_of_update_all)

lemma gateway_call_extended:
  assumes "gateway_call net p gw op body s = (r, s')" "pool_reach p" "gw_allowed gw \<subseteq> gateway_operations cfg"
    and "''operation'' \<notin> fst ` set body"
    and probed: "\<And>k se. pool_entry p (gw_workstation gw, gw_controller gw) k = Some se \<Longrightarrow> endpoint_id se = k \<Longrightarrow>
      probed (ns_log s) k (session_id (binding se))"
  shows "extended cfg (ns_log s) (ns_log s')"
proof (cases "op \<in> gw_allowed gw \<and> fst (fresh_id net s) \<noteq> []")
  case False
  then have "s' = s \<or> s' = snd (fresh_id net s)"
    using assms(1) by (auto simp: gateway_call_def Let_def case_prod_unfold split: if_splits)
  then show ?thesis using fresh_id_log [of net s, OF prod.collapse [symmetric]] extended_refl by metis
next
  case True
  obtain rid s1 where i: "fresh_id net s = (rid, s1)" by fastforce
  obtain now s2 where n: "now_ms net s1 = (now, s2)" by fastforce
  define req where "req = gateway_request rid op body"
  obtain q es where pr: "pool_request (\<lambda>e req. n_answer net (ns_world s2) (endpoint_id e) (session_id (binding e)) req)
      p (gw_workstation gw) (gw_controller gw) req now (gw_max_path_age_ms gw) (gw_request_timeout_s gw) = (q, es)" by fastforce
  have "ns_log s' = ns_log s2 @ map (sent_to net (ns_world s2) req) es"
    using assms(1) True i n pr by (auto simp: gateway_call_def req_def Let_def)
  moreover have "ns_log s2 = ns_log s" using fresh_id_log [OF i] now_ms_log [OF n] by simp
  moreover have "permitted cfg (ns_log s @ M) x" if x: "x \<in> set (map (sent_to net (ns_world s2) req) es)" for x M
  proof -
    obtain e where e: "e \<in> set es" "x = sent_to net (ns_world s2) req e" using x by auto
    have "probed (ns_log s) (endpoint_id e) (session_id (binding e))"
      using probed [OF current_pool_entry [OF assms(2) pool_request_attempts [OF pr e(1)]]] by simp
    then have "probed (ns_log s @ M) (endpoint_id e) (session_id (binding e))" by (auto simp: probed_def)
    then show ?thesis using e(2) True assms(3) gateway_request_operation [OF assms(4), of rid op]
      by (auto simp: permitted_def sent_to_def req_def)
  qed
  ultimately show ?thesis using extended_append by metis
qed

section \<open>The invariant of the runtime\<close>

definition registered :: "'w controller \<Rightarrow> string \<Rightarrow> live_endpoint \<Rightarrow> bool" where
  "registered c k e \<longleftrightarrow> pool_entry (c_pool c) (route_key (le_binding e)) k = Some (session_of e)"

definition live_ok :: "controller_config \<Rightarrow> 'w controller \<Rightarrow> string \<Rightarrow> live_endpoint \<Rightarrow> bool" where
  "live_ok cfg c k e \<longleftrightarrow> le_id e = k \<and> le_config e \<in> set (endpoints cfg)
     \<and> c_ids c = Some (controller_principal (le_binding e), workstation_principal (le_binding e))
     \<and> path_id (le_path e) = k \<and> authenticated (le_path e) \<and> healthy (le_path e)
     \<and> probed (ns_log (c_net c)) k (le_session e) \<and> registered c k e"

definition pooled_ok :: "'w controller \<Rightarrow> route \<Rightarrow> string \<Rightarrow> session_endpoint \<Rightarrow> bool" where
  "pooled_ok c r k se \<longleftrightarrow> endpoint_id se = k \<and> route_key (binding se) = r \<and> c_ids c = Some (snd r, fst r)
     \<and> probed (ns_log (c_net c)) k (session_id (binding se))"

definition gateway_ok :: "controller_config \<Rightarrow> 'w controller \<Rightarrow> gateway \<Rightarrow> bool" where
  "gateway_ok cfg c gw \<longleftrightarrow> gw_allowed gw = gateway_operations cfg \<and> c_ids c = Some (gw_controller gw, gw_workstation gw)"

definition controller_inv :: "controller_config \<Rightarrow> 'w controller \<Rightarrow> bool" where
  "controller_inv cfg c \<longleftrightarrow> (\<forall>k e. map_of (c_live c) k = Some e \<longrightarrow> live_ok cfg c k e)
     \<and> (\<forall>r k se. pool_entry (c_pool c) r k = Some se \<longrightarrow> pooled_ok c r k se) \<and> pool_reach (c_pool c)
     \<and> (\<forall>gw. c_gateway c = Some gw \<longrightarrow> gateway_ok cfg c gw)
     \<and> router_inv (c_router c) (ns_log (c_net c)) \<and> extended cfg [] (ns_log (c_net c))"

lemma controller_inv_live: "controller_inv cfg c \<Longrightarrow> map_of (c_live c) k = Some e \<Longrightarrow> live_ok cfg c k e"
  by (simp add: controller_inv_def)

lemma controller_inv_pool: "controller_inv cfg c \<Longrightarrow> pool_entry (c_pool c) r k = Some se \<Longrightarrow> pooled_ok c r k se"
  by (cases r) (simp add: controller_inv_def)

text \<open>A longer log, a changed world and a changed list of open channels keep it.\<close>

lemma controller_inv_net:
  assumes "controller_inv cfg c" "extended cfg (ns_log (c_net c)) (ns_log s)"
  shows "controller_inv cfg (c\<lparr>c_net := s\<rparr>)"
proof -
  have "live_ok cfg c k e \<Longrightarrow> live_ok cfg (c\<lparr>c_net := s\<rparr>) k e" for k e
    using probed_extended [OF _ assms(2)] by (simp add: live_ok_def registered_def)
  moreover have "pooled_ok c r k se \<Longrightarrow> pooled_ok (c\<lparr>c_net := s\<rparr>) r k se" for r k se
    using probed_extended [OF _ assms(2)] by (simp add: pooled_ok_def)
  ultimately show ?thesis using assms(1) router_inv_extended [OF _ assms(2)] extended_trans [OF assms(2)]
    by (simp add: controller_inv_def gateway_ok_def)
qed

lemma controller_inv_channels: "controller_inv cfg c \<Longrightarrow> controller_inv cfg (c\<lparr>c_channels := ch\<rparr>)"
  by (simp add: controller_inv_def live_ok_def pooled_ok_def gateway_ok_def registered_def)

lemma controller_inv_world: "controller_inv cfg c \<Longrightarrow> controller_inv cfg (c\<lparr>c_net := (c_net c)\<lparr>ns_world := w\<rparr>\<rparr>)"
  by (rule controller_inv_net) (simp_all add: extended_refl)

lemma close_channel_inv: "controller_inv cfg c \<Longrightarrow> controller_inv cfg (close_channel rt eid sid c)"
  unfolding close_channel_def
  by (drule controller_inv_channels [of cfg c "removeAll (eid, sid) (c_channels c)"], drule controller_inv_world) simp

lemma close_channel_simps [simp]:
  "c_live (close_channel rt eid sid c) = c_live c" "c_pool (close_channel rt eid sid c) = c_pool c"
  "c_ids (close_channel rt eid sid c) = c_ids c" "c_router (close_channel rt eid sid c) = c_router c"
  "c_gateway (close_channel rt eid sid c) = c_gateway c" "ns_log (c_net (close_channel rt eid sid c)) = ns_log (c_net c)"
  by (simp_all add: close_channel_def)

lemma drop_endpoint_inv:
  assumes "controller_inv cfg c"
  shows "controller_inv cfg (drop_endpoint rt spec cur c)"
proof -
  define r where "r = route_key (le_binding cur)"
  have "live_ok cfg (drop_endpoint rt spec cur c) k e" if "map_of (c_live c) k = Some e" "k \<noteq> ec_id spec" for k e
    using controller_inv_live [OF assms that(1)] that(2)
    by (simp add: live_ok_def registered_def drop_endpoint_def Let_def pool_entry_remove)
  moreover have "pool_reach (c_pool (drop_endpoint rt spec cur c))"
    using assms by (simp add: drop_endpoint_def Let_def controller_inv_def pool_drop)
  ultimately show ?thesis using assms
    unfolding controller_inv_def
    by (simp add: drop_endpoint_def Let_def dict_simps pool_entry_remove pooled_ok_def gateway_ok_def)
qed

text \<open>An endpoint that was probed in a session of the pinned principals can be put into service.\<close>

lemma serve_endpoint_inv:
  assumes "controller_inv cfg c" "le_config e \<in> set (endpoints cfg)" "le_id e \<noteq> []"
    and "c_ids c = Some (controller_principal (le_binding e), workstation_principal (le_binding e))"
    and "path_id (le_path e) = le_id e" "authenticated (le_path e)" "healthy (le_path e)"
    and "probed (ns_log (c_net c)) (le_id e) (le_session e)"
  shows "\<exists>c2. register_live e (set_live e c) = (Inr (), c2) \<and> controller_inv cfg c2 \<and> c_ids c2 = c_ids c"
proof -
  define c2 where "c2 = c\<lparr>c_live := AList.update (le_id e) e (c_live c), c_pool := pool_register (c_pool c) (session_of e)\<rparr>"
  have mk: "mk_session_endpoint (session_of e) = Inr (session_of e)"
    using assms(3,6) by (simp add: mk_session_endpoint_def session_of_def)
  then have eq: "register_live e (set_live e c) = (Inr (), c2)" by (simp add: register_live_def set_live_def c2_def)
  have other: "live_ok cfg c2 k x" if "map_of (c_live c) k = Some x" "k \<noteq> le_id e" for k x
    using controller_inv_live [OF assms(1) that(1)] that(2)
    by (auto simp: live_ok_def registered_def c2_def pool_entry_register session_of_def)
  have own: "live_ok cfg c2 (le_id e) e"
    using assms by (simp add: live_ok_def registered_def c2_def pool_entry_register session_of_def)
  have "\<forall>k x. map_of (c_live c2) k = Some x \<longrightarrow> live_ok cfg c2 k x"
    using other own by (auto simp: c2_def dict_simps)
  moreover have "pooled_ok c2 r k se" if "pool_entry (c_pool c2) r k = Some se" for r k se
  proof (cases "r = route_key (le_binding e) \<and> k = le_id e")
    case True
    then show ?thesis using that assms(4,8) by (auto simp: c2_def pool_entry_register pooled_ok_def session_of_def route_key_def)
  next
    case False
    then have "pool_entry (c_pool c) r k = Some se" using that by (auto simp: c2_def pool_entry_register session_of_def)
    then show ?thesis using controller_inv_pool [OF assms(1)] by (simp add: pooled_ok_def c2_def)
  qed
  moreover have "pool_reach (c_pool c2)"
    using assms(1) mk by (simp add: c2_def controller_inv_def pool_add)
  moreover have "router_inv (c_router c2) (ns_log (c_net c2))" "extended cfg [] (ns_log (c_net c2))" "\<And>gw. c_gateway c2 = Some gw \<Longrightarrow> gateway_ok cfg c2 gw"
    using assms(1) by (auto simp: c2_def controller_inv_def gateway_ok_def)
  ultimately have "controller_inv cfg c2" by (simp add: controller_inv_def)
  then show ?thesis using eq by (simp add: c2_def)
qed

lemma probe_inv:
  assumes "controller_inv cfg c" "probe rt spec b (c_net c) = (r, s)"
  shows "controller_inv cfg (c\<lparr>c_net := s\<rparr>)"
  using controller_inv_net [OF assms(1) probe_ok(1) [OF assms(2)]] .

lemma connect_inv:
  assumes "controller_inv cfg c" "config_ok cfg" "cfg = rt_config rt" "spec \<in> set (endpoints cfg)" "connect rt spec c = (r, c')"
  shows "controller_inv cfg c' \<and> c_ids c' = c_ids c"
proof (cases "c_ids c")
  case None
  then show ?thesis using assms(1,5) by (simp add: connect_def)
next
  case (Some ids)
  obtain ctl ws where ids: "c_ids c = Some (ctl, ws)" using Some by (cases ids) simp
  obtain q w where k: "k_open (rt_conn rt) spec (requested_capabilities (rt_config rt)) (ns_world (c_net c)) = (q, w)" by fastforce
  show ?thesis
  proof (cases q)
    case (Inl x)
    then show ?thesis using assms(5) ids k controller_inv_world [OF assms(1)] by (auto simp: connect_def)
  next
    case (Inr b)
    define c1 where "c1 = c\<lparr>c_net := (c_net c)\<lparr>ns_world := w\<rparr>, c_channels := (ec_id spec, session_id b) # c_channels c\<rparr>"
    have c1: "controller_inv cfg c1" "c_ids c1 = c_ids c"
      using controller_inv_channels [OF controller_inv_world [OF assms(1)]] by (auto simp: c1_def)
    obtain a s2 where p: "probe rt spec b (c_net c1) = (a, s2)" by fastforce
    note pinv = probe_inv [OF c1(1) p]
    consider (foreign) "c' = close_channel rt (ec_id spec) (session_id b) c1"
      | (unprobed) "c' = c1\<lparr>c_net := s2\<rparr>"
      | (served) pth e where "a = Inr pth" "e = \<lparr>le_config = spec, le_binding = b, le_path = pth\<rparr>" "controller_principal b = ctl"
          "workstation_principal b = ws" "register_live e (set_live e (c1\<lparr>c_net := s2\<rparr>)) = (r, c')"
      using assms(5) ids k Inr p by (auto simp: connect_def c1_def Let_def split: if_splits sum.splits)
    then show ?thesis
    proof cases
      case foreign
      then show ?thesis using close_channel_inv [OF c1(1)] c1(2) by simp
    next
      case unprobed
      then show ?thesis using pinv c1(2) by simp
    next
      case (served pth e)
      have "ec_id spec \<noteq> []" using assms(2,4) by (auto simp: config_ok_def endpoint_ok_def)
      then have "\<exists>c2. register_live e (set_live e (c1\<lparr>c_net := s2\<rparr>)) = (Inr (), c2) \<and> controller_inv cfg c2 \<and> c_ids c2 = c_ids (c1\<lparr>c_net := s2\<rparr>)"
        using served(1-4) assms(4) ids c1(2) probe_ok(2) [OF p served(1)] by (intro serve_endpoint_inv [OF pinv]) simp_all
      then show ?thesis using served(5) c1(2) by auto
    qed
  qed
qed

lemma connect_after:
  assumes "controller_inv cfg c" "config_ok cfg" "cfg = rt_config rt" "spec \<in> set (endpoints cfg)"
  shows "controller_inv cfg (snd (connect rt spec c)) \<and> c_ids (snd (connect rt spec c)) = c_ids c"
  using connect_inv [OF assms, of "fst (connect rt spec c)" "snd (connect rt spec c)"] by simp

lemma drop_endpoint_ids [simp]: "c_ids (drop_endpoint rt spec cur c) = c_ids c"
  by (simp add: drop_endpoint_def Let_def)

lemma refresh_endpoint_inv:
  assumes "controller_inv cfg c" "config_ok cfg" "cfg = rt_config rt" "spec \<in> set (endpoints cfg)"
  shows "controller_inv cfg (refresh_endpoint rt now spec c) \<and> c_ids (refresh_endpoint rt now spec c) = c_ids c"
proof -
  note conn = connect_after [OF _ assms(2-4)]
  show ?thesis
  proof (cases "map_of (c_live c) (ec_id spec)")
    case None
    then show ?thesis using conn [OF assms(1)] by (simp add: refresh_endpoint_def)
  next
    case (Some cur)
    note live = controller_inv_live [OF assms(1) Some]
    obtain a s1 where p: "probe rt spec (le_binding cur) (c_net c) = (a, s1)" by fastforce
    note pinv = probe_inv [OF assms(1) p]
    show ?thesis
    proof (cases "now < expires_at_ms (le_binding cur)")
      case False
      then show ?thesis using Some conn [OF drop_endpoint_inv [OF assms(1)]] by (simp add: refresh_endpoint_def)
    next
      case True
      show ?thesis
      proof (cases a)
        case (Inl x)
        then show ?thesis using Some True p conn [OF drop_endpoint_inv [OF pinv]] by (simp add: refresh_endpoint_def)
      next
        case (Inr pth)
        have "ec_id spec \<noteq> []" using assms(2,4) by (auto simp: config_ok_def endpoint_ok_def)
        then have "\<exists>c2. register_live (cur\<lparr>le_path := pth\<rparr>) (set_live (cur\<lparr>le_path := pth\<rparr>) (c\<lparr>c_net := s1\<rparr>)) = (Inr (), c2)
            \<and> controller_inv cfg c2 \<and> c_ids c2 = c_ids (c\<lparr>c_net := s1\<rparr>)"
          using live probe_ok(2) [OF p Inr] by (intro serve_endpoint_inv [OF pinv]) (simp_all add: live_ok_def)
        then show ?thesis using Some True p Inr by (auto simp: refresh_endpoint_def Let_def)
      qed
    qed
  qed
qed

lemma refresh_inv:
  assumes "controller_inv cfg c" "config_ok cfg" "cfg = rt_config rt"
  shows "controller_inv cfg (refresh rt c) \<and> c_ids (refresh rt c) = c_ids c"
proof -
  obtain now s1 where n: "now_ms (rt_net rt) (c_net c) = (now, s1)" by fastforce
  have "controller_inv cfg (fold (refresh_endpoint rt now) specs c0) \<and> c_ids (fold (refresh_endpoint rt now) specs c0) = c_ids c0"
    if "set specs \<subseteq> set (endpoints cfg)" "controller_inv cfg c0" for specs c0
    using that refresh_endpoint_inv [OF _ assms(2,3)] by (induction specs arbitrary: c0) auto
  moreover have "controller_inv cfg (c\<lparr>c_net := s1\<rparr>)"
    using controller_inv_net [OF assms(1)] now_ms_log [OF n] by (simp add: extended_refl)
  ultimately show ?thesis using n assms(3) by (simp add: refresh_def)
qed

lemma load_identities_inv:
  assumes "controller_inv cfg c" "load_identities rt c = (r, c')"
  shows "controller_inv cfg c'" "r = Inr () \<Longrightarrow> c_ids c' \<noteq> None" "c_net c' = c_net c" "c_ids c \<noteq> None \<Longrightarrow> c_ids c' = c_ids c"
proof -
  have empty: "c_ids c = None \<Longrightarrow> \<not> live_ok cfg c k e" "c_ids c = None \<Longrightarrow> \<not> pooled_ok c ro k se" "c_ids c = None \<Longrightarrow> \<not> gateway_ok cfg c gw"
    for k e ro se gw by (simp_all add: live_ok_def pooled_ok_def gateway_ok_def)
  have "c' = c \<or> (\<exists>ids. c_ids c = None \<and> c' = c\<lparr>c_ids := Some ids\<rparr>)"
    using assms(2) by (cases "c_ids c") (auto simp: load_identities_def split: if_splits sum.splits)
  then show "controller_inv cfg c'" using assms(1) empty by (auto simp: controller_inv_def)
  show "r = Inr () \<Longrightarrow> c_ids c' \<noteq> None" "c_net c' = c_net c" "c_ids c \<noteq> None \<Longrightarrow> c_ids c' = c_ids c"
    using assms(2) by (auto simp: load_identities_def split: if_splits sum.splits)
qed

lemma refresh_paths_inv:
  assumes "controller_inv cfg c" "config_ok cfg" "cfg = rt_config rt" "refresh_paths rt c = (r, c')"
  shows "controller_inv cfg c' \<and> (r = Inr () \<longrightarrow> c_ids c' \<noteq> None \<and> c_live c' \<noteq> [])"
proof -
  obtain q c1 where l: "load_identities rt c = (q, c1)" by fastforce
  note li = load_identities_inv [OF assms(1) l]
  note re = refresh_inv [OF li(1) assms(2,3)]
  show ?thesis using assms(4) l li(1,2) re by (auto simp: refresh_paths_def Let_def split: sum.splits if_splits)
qed

lemma ensure_started_inv:
  assumes "controller_inv cfg c" "config_ok cfg" "cfg = rt_config rt" "ensure_started rt c = (r, c')"
  shows "controller_inv cfg c' \<and> (\<forall>gw. r = Inr gw \<longrightarrow> c_gateway c' = Some gw \<and> c_live c' \<noteq> [])"
proof -
  obtain q c1 where l: "refresh_paths rt c = (q, c1)" by fastforce
  note re = refresh_paths_inv [OF assms(1-3) l]
  have new: "controller_inv cfg (c1\<lparr>c_gateway := Some gw\<rparr>)"
    if "c_ids c1 = Some (ctl, ws)" "mk_gateway ws ctl (gateway_operations (rt_config rt)) age t = Inr gw" for ctl ws gw age t
    using re that assms(3)
    by (auto simp: controller_inv_def live_ok_def pooled_ok_def gateway_ok_def registered_def mk_gateway_def split: if_splits)
  show ?thesis
  proof (cases "q = Inr () \<and> c_gateway c1 = None")
    case False
    then show ?thesis using assms(4) l re by (auto simp: ensure_started_def split: sum.splits option.splits)
  next
    case True
    then obtain ctl ws where ids: "c_ids c1 = Some (ctl, ws)" using re by auto
    obtain m where m: "mk_gateway ws ctl (gateway_operations (rt_config rt)) (cc_max_path_age_ms (rt_config rt))
        (cc_request_timeout_s (rt_config rt)) = m" by blast
    show ?thesis using assms(4) l re True ids m new [OF ids] by (cases m) (auto simp: ensure_started_def)
  qed
qed

lemma via_gateway_inv:
  assumes "controller_inv cfg c" "c_gateway c = Some gw" "''operation'' \<notin> fst ` set body" "via_gateway rt gw op body c = (r, c')"
  shows "controller_inv cfg c'"
proof -
  obtain s where g: "gateway_call (rt_net rt) (c_pool c) gw op body (c_net c) = (r, s)" "c' = c\<lparr>c_net := s\<rparr>"
    using assms(4) by (auto simp: via_gateway_def split: prod.splits)
  have "pool_reach (c_pool c)" "gw_allowed gw \<subseteq> gateway_operations cfg"
    using assms(1,2) by (simp_all add: controller_inv_def gateway_ok_def)
  moreover have "probed (ns_log (c_net c)) k (session_id (binding se))"
    if "pool_entry (c_pool c) (gw_workstation gw, gw_controller gw) k = Some se" for k se
    using controller_inv_pool [OF assms(1) that] by (simp add: pooled_ok_def)
  ultimately have "extended cfg (ns_log (c_net c)) (ns_log s)"
    using gateway_call_extended [OF g(1) _ _ assms(3)] by blast
  then show ?thesis using g(2) controller_inv_net [OF assms(1)] by simp
qed

lemma via_router_inv:
  assumes "controller_inv cfg c" "via_router f rt c = (r, c')"
    and "\<And>age live q rr s. f age live (c_router c) (c_net c) = (q, rr, s) \<Longrightarrow> grew (ns_log (c_net c)) (ns_log s) \<and> router_inv rr (ns_log s)"
  shows "controller_inv cfg c'"
proof -
  obtain rr s where g: "f (cc_max_path_age_ms (rt_config rt)) (map snd (c_live c)) (c_router c) (c_net c) = (r, rr, s)"
      "c' = c\<lparr>c_router := rr, c_net := s\<rparr>"
    using assms(2) by (auto simp: via_router_def split: prod.splits)
  have e: "extended cfg (ns_log (c_net c)) (ns_log s)" using assms(3) [OF g(1)] by (blast intro: extended_grew)
  have "controller_inv cfg (c\<lparr>c_net := s\<rparr>)" by (rule controller_inv_net [OF assms(1) e])
  then show ?thesis using g(2) assms(3) [OF g(1)]
    by (simp add: controller_inv_def live_ok_def pooled_ok_def gateway_ok_def registered_def)
qed

section \<open>Runs of the controller\<close>

lemma started_inv:
  assumes "controller_inv cfg c" "config_ok cfg" "cfg = rt_config rt" "started rt k c = (r, c')"
    and "\<And>gw c1 q c2. controller_inv cfg c1 \<Longrightarrow> c_gateway c1 = Some gw \<Longrightarrow> k gw c1 = (q, c2) \<Longrightarrow> controller_inv cfg c2"
  shows "controller_inv cfg c'"
proof -
  obtain q c1 where e: "ensure_started rt c = (q, c1)" by fastforce
  note st = ensure_started_inv [OF assms(1-3) e]
  show ?thesis using assms(4) e st assms(5) [of c1] by (cases q) (auto simp: started_def)
qed

lemma controller_close_inv: "controller_inv cfg c \<Longrightarrow> controller_inv cfg (controller_close rt c)"
proof -
  have "controller_inv cfg c \<Longrightarrow> controller_inv cfg (fold (\<lambda>e. close_channel rt (le_id e) (le_session e)) es c)" for es
    by (induction es arbitrary: c) (auto simp: close_channel_inv)
  then show "controller_inv cfg c \<Longrightarrow> controller_inv cfg (controller_close rt c)"
    unfolding controller_close_def
    by (fastforce simp: controller_inv_def pooled_ok_def gateway_ok_def)
qed

inductive controller_reach :: "pyenv \<Rightarrow> ('w, 'sk, 'pk) runtime \<Rightarrow> 'w controller \<Rightarrow> bool" for env rt where
  ctl_new: "controller_new rt epoch w = Inr c \<Longrightarrow> controller_reach env rt c"
| ctl_refresh: "controller_reach env rt c \<Longrightarrow> refresh_paths rt c = (u, c') \<Longrightarrow> controller_reach env rt c'"
| ctl_close: "controller_reach env rt c \<Longrightarrow> controller_reach env rt (controller_close rt c)"
| ctl_list: "controller_reach env rt c \<Longrightarrow> rt_list_lanes rt c = (r, c') \<Longrightarrow> controller_reach env rt c'"
| ctl_open: "controller_reach env rt c \<Longrightarrow> rt_open_lane env rt lid task caps claims ttl c = (r, c') \<Longrightarrow> controller_reach env rt c'"
| ctl_renew: "controller_reach env rt c \<Longrightarrow> rt_renew_lane env rt lid tok ttl c = (r, c') \<Longrightarrow> controller_reach env rt c'"
| ctl_close_lane: "controller_reach env rt c \<Longrightarrow> rt_close_lane rt lid tok c = (r, c') \<Longrightarrow> controller_reach env rt c'"
| ctl_read_text: "controller_reach env rt c \<Longrightarrow> rt_read_text rt lid tok fname enc c = (r, c') \<Longrightarrow> controller_reach env rt c'"
| ctl_read_bytes: "controller_reach env rt c \<Longrightarrow> rt_read_bytes rt lid tok fname off mx ver c = (r, c') \<Longrightarrow> controller_reach env rt c'"
| ctl_read_op: "controller_reach env rt c \<Longrightarrow> plain_body body \<Longrightarrow> rt_read_operation rt op lid tok body c = (r, c') \<Longrightarrow> controller_reach env rt c'"
| ctl_write: "controller_reach env rt c \<Longrightarrow> rt_write_text rt lid tok fname content enc c = (r, c') \<Longrightarrow> controller_reach env rt c'"
| ctl_call: "controller_reach env rt c \<Longrightarrow> ''operation'' \<notin> fst ` set body \<Longrightarrow> rt_call_operation rt op body c = (r, c') \<Longrightarrow> controller_reach env rt c'"
| ctl_info: "controller_reach env rt c \<Longrightarrow> machine_info rt c = (r, c') \<Longrightarrow> controller_reach env rt c'"
| ctl_world: "controller_reach env rt c \<Longrightarrow> controller_reach env rt (c\<lparr>c_net := (c_net c)\<lparr>ns_world := w\<rparr>\<rparr>)"

lemma controller_inv_router: "controller_inv cfg c \<Longrightarrow> router_inv (c_router c) (ns_log (c_net c))"
  by (simp add: controller_inv_def)

lemmas body_defs = open_lane_body_def renew_lane_body_def close_lane_body_def read_text_body_def read_bytes_body_def
  write_text_body_def

text \<open>The continuations of the operations, by the part of the runtime they end in.\<close>

lemma gateway_step:
  "via_gateway rt gw op body c = (r, c') \<Longrightarrow> controller_inv cfg c \<Longrightarrow> c_gateway c = Some gw \<Longrightarrow> ''operation'' \<notin> fst ` set body
   \<Longrightarrow> controller_inv cfg c'"
  by (rule via_gateway_inv)

lemma read_step:
  assumes "via_router (\<lambda>age live. router_read net age live pre op body lid tok) rt c = (r, c')" "controller_inv cfg c"
    and "op \<in> set LANE_BOUND" "plain_body body"
  shows "controller_inv cfg c'"
  by (rule via_router_inv [OF assms(2,1)]) (rule router_read_ok [OF _ controller_inv_router [OF assms(2)] assms(3,4)])

lemma call_read_step:
  assumes "via_router (\<lambda>age live. router_call_read net age live op lid tok body) rt c = (r, c')" "controller_inv cfg c"
    and "op \<in> set MIRRORED_OPERATIONS" "plain_body body"
  shows "controller_inv cfg c'"
proof (rule read_step [OF _ assms(2) _ assms(4)])
  show "via_router (\<lambda>age live. router_read net age live ''logical-read-op-'' op body lid tok) rt c = (r, c')"
    using assms(1,3) by (simp add: router_call_read_def [abs_def])
qed (use assms(3) in \<open>simp add: LANE_BOUND_def\<close>)

lemma open_step:
  assumes "via_router (\<lambda>age live. router_open env net age live lid task caps claims ttl) rt c = (r, c')" "controller_inv cfg c"
  shows "controller_inv cfg c'"
  by (rule via_router_inv [OF assms(2,1)]) (rule router_open_ok [OF _ controller_inv_router [OF assms(2)]])

lemma renew_step:
  assumes "via_router (\<lambda>age live. router_renew env net age live lid tok ttl) rt c = (r, c')" "controller_inv cfg c"
  shows "controller_inv cfg c'"
  by (rule via_router_inv [OF assms(2,1)]) (rule router_renew_ok [OF _ controller_inv_router [OF assms(2)]])

lemma close_step:
  assumes "via_router (\<lambda>age live. router_close net age live lid tok) rt c = (r, c')" "controller_inv cfg c"
  shows "controller_inv cfg c'"
  by (rule via_router_inv [OF assms(2,1)]) (rule router_close_ok [OF _ controller_inv_router [OF assms(2)]])

lemma info_step:
  assumes "(case route_decision rt c of (Inl x, c1) \<Rightarrow> (Inl x, c1) | (Inr d, c1) \<Rightarrow> (Inr (info_dict rt c1 d), c1)) = (r, c')"
    and "controller_inv cfg c"
  shows "controller_inv cfg c'"
proof -
  obtain now s where n: "now_ms (rt_net rt) (c_net c) = (now, s)" by fastforce
  have "c' = c\<lparr>c_net := s\<rparr>" using assms(1) n by (auto simp: route_decision_def split: sum.splits)
  then show ?thesis using controller_inv_net [OF assms(2)] now_ms_log [OF n] by (simp add: extended_refl)
qed

lemma plain_reads:
  "plain_body [(''path'', a), (''encoding'', b)]"
  "plain_body [(''path'', a), (''offset'', b), (''max_bytes'', x), (''expected_file_version'', d)]"
  "plain_body body \<Longrightarrow> ''operation'' \<notin> fst ` set body" "''fs.read_text'' \<in> set LANE_BOUND" "''fs.read_bytes'' \<in> set LANE_BOUND"
  by (auto simp: plain_body_def LANE_BOUND_def)

lemma controller_reach_inv:
  assumes "controller_reach env rt c" "config_ok (rt_config rt)"
  shows "controller_inv (rt_config rt) c"
  using assms(1)
proof (induction rule: controller_reach.induct)
  case (ctl_new epoch w c)
  then show ?case
    by (auto simp: controller_new_def router_new_def controller_inv_def router_inv_def pool_entry_def dict_get_def
        intro: pool_empty extended_refl split: sum.splits if_splits)
next
  case (ctl_refresh c u c')
  then show ?case using refresh_paths_inv [OF ctl_refresh.IH assms(2) refl] by blast
next
  case (ctl_list c r c')
  show ?case
    by (rule started_inv [OF ctl_list.IH assms(2) refl ctl_list.hyps(2) [unfolded rt_list_lanes_def]])
      (erule gateway_step; simp)
next
  case (ctl_open c lid task caps claims ttl r c')
  show ?case
    by (rule started_inv [OF ctl_open.IH assms(2) refl ctl_open.hyps(2) [unfolded rt_open_lane_def]])
      (auto simp: body_defs split: if_splits elim: open_step gateway_step)
next
  case (ctl_renew c lid tok ttl r c')
  show ?case
    by (rule started_inv [OF ctl_renew.IH assms(2) refl ctl_renew.hyps(2) [unfolded rt_renew_lane_def]])
      (auto simp: body_defs split: if_splits elim: renew_step gateway_step)
next
  case (ctl_close_lane c lid tok r c')
  show ?case
    by (rule started_inv [OF ctl_close_lane.IH assms(2) refl ctl_close_lane.hyps(2) [unfolded rt_close_lane_def]])
      (auto simp: body_defs split: if_splits elim: close_step gateway_step)
next
  case (ctl_read_text c lid tok fname enc r c')
  show ?case
    by (rule started_inv [OF ctl_read_text.IH assms(2) refl ctl_read_text.hyps(2) [unfolded rt_read_text_def router_read_text_def]])
      (auto simp: body_defs plain_reads split: if_splits elim: read_step gateway_step)
next
  case (ctl_read_bytes c lid tok fname off mx ver r c')
  show ?case
    by (rule started_inv [OF ctl_read_bytes.IH assms(2) refl ctl_read_bytes.hyps(2) [unfolded rt_read_bytes_def router_read_bytes_def]])
      (auto simp: body_defs plain_reads split: if_splits elim: read_step gateway_step)
next
  case (ctl_read_op c body op lid tok r c')
  have "''operation'' \<notin> fst ` set ([(''lane_id'', JStr lid), (''fencing_token'', JInt tok)] @ body)"
    using plain_reads(3) [OF ctl_read_op.hyps(2)] by auto
  note kept = gateway_step [OF _ _ _ this] call_read_step [OF _ _ _ ctl_read_op.hyps(2)]
  show ?case
    by (rule started_inv [OF ctl_read_op.IH assms(2) refl ctl_read_op.hyps(3) [unfolded rt_read_operation_def]])
      (auto simp del: append.simps split: if_splits elim: kept)
next
  case (ctl_write c lid tok fname content enc r c')
  show ?case
    by (rule started_inv [OF ctl_write.IH assms(2) refl ctl_write.hyps(2) [unfolded rt_write_text_def]])
      (erule gateway_step; simp add: body_defs)
next
  case (ctl_info c r c')
  show ?case
    by (rule started_inv [OF ctl_info.IH assms(2) refl ctl_info.hyps(2) [unfolded machine_info_def]]) (erule info_step)
next
  case (ctl_call c body op r c')
  show ?case
    by (rule started_inv [OF ctl_call.IH assms(2) refl ctl_call.hyps(3) [unfolded rt_call_operation_def]])
      (erule gateway_step; simp add: ctl_call.hyps(2))
qed (simp_all add: controller_close_inv controller_inv_world)


section \<open>A concrete controller\<close>

definition demo_json :: dict where
  "demo_json =
     [(''schema'', JStr ''VERAPORT_CONTROLLER_MCP_CONFIG_V1''), (''controller_key'', JStr ''k''), (''tls_ca'', JStr ''a''),
      (''workstation_public_key'', JStr ''p''), (''requested_capabilities'', JList [JStr ''fs.read'']),
      (''gateway_operations'', JList [JStr ''fs.stat'']),
      (''endpoints'', JList [JObj [(''endpoint_id'', JStr ''d''), (''mode'', JStr ''DIRECT_STREAM''), (''host'', JStr ''h''),
         (''port'', JInt 1), (''server_hostname'', JStr ''n''), (''durable_idempotency'', JBool True)]])]"

definition demo_config :: controller_config where
  "demo_config = \<lparr>controller_key = ''k'', tls_ca = ''a'', workstation_public_key = ''p'', requested_capabilities = {''fs.read''},
     gateway_operations = {''fs.stat''}, endpoints = [le_config demo_live], cc_max_path_age_ms = 5000,
     connect_timeout_s = Fin 5, cc_request_timeout_s = Fin 5\<rparr>"

lemma demo_text_not_blank: "\<not> is_blank ''k''" "\<not> is_blank ''a''" "\<not> is_blank ''p''"
  by (rule not_blankI, simp add: py_whitespace_def)+

lemma demo_strip: "py_strip ''d'' = ''d''" "py_strip ''h'' = ''h''" "py_strip ''n'' = ''n''" "py_strip ''DIRECT_STREAM'' = ''DIRECT_STREAM''"
  by (simp_all add: py_strip_def lstrip.simps rstrip.simps py_whitespace_def suffix_def)


definition demo_loader :: pyenv where
  "demo_loader = posix_env\<lparr>json_loads := (\<lambda>_. Inr (JObj demo_json))\<rparr>"

lemma demo_config_loads: "config_load demo_loader (\<lambda>s. s) (Inr []) = Inr demo_config"
  by (simp add: config_load_def demo_loader_def config_from_dict_def demo_json_def config_path_def demo_text_not_blank config_policy_def
      config_names_def ALL_OPERATIONS_def READ_OPERATIONS_def missing_caps_def required_caps_def config_endpoints_def
      endpoint_from_dict_def stripped_def dict_get_def demo_strip mode_of_name_def Let_def config_limits_def outside_def flt_def)
    (simp add: demo_config_def demo_live_def)

definition demo_bound :: session_binding where
  "demo_bound = \<lparr>session_id = ''s'', controller_principal = ''controller:x'', workstation_principal = ''workstation:x'',
     granted_capabilities = {''fs.read''}, expires_at_ms = 1000\<rparr>"

definition echo_net :: "unit net" where
  "echo_net = \<lparr>n_answer = (\<lambda>_ _ _ req. Inr [(''request_id'', dict_get req ''request_id'' JNull), (''ok'', JBool True),
       (''result'', JObj [(''fencing_token'', JInt 7)])]),
     n_after = (\<lambda>_ _ w. w), n_now = (\<lambda>w. (10, w)), n_fresh = (\<lambda>w. (''x'', w))\<rparr>"

definition demo_rt :: "(unit, unit, unit) runtime" where
  "demo_rt = \<lparr>rt_config = demo_config, rt_net = echo_net,
     rt_conn = \<lparr>k_open = (\<lambda>_ _ w. (Inr demo_bound, w)), k_close = (\<lambda>_ _ w. w), k_rtt_ms = (\<lambda>_. Fin 1)\<rparr>,
     rt_crypto = \<lparr>p256_private = (\<lambda>_. True), p256_public = (\<lambda>_. True), public_of = (\<lambda>k. k), spki_sha256_hex = (\<lambda>_. ''x''),
       ecdsa_sign = (\<lambda>_ _. (0, 0)), ecdsa_verify = (\<lambda>_ _ _. True)\<rparr>,
     rt_private = Inr (), rt_public = Inr ()\<rparr>"

definition demo_seen :: path_observation where
  "demo_seen = \<lparr>path_id = ''d'', path_mode = DIRECT_STREAM, authenticated = True, healthy = True, observed_at_ms = 10, rtt_ms = Some (Fin 1)\<rparr>"

definition served :: live_endpoint where
  "served = \<lparr>le_config = le_config demo_live, le_binding = demo_bound, le_path = demo_seen\<rparr>"

definition demo_probe :: sent where
  "demo_probe = \<lparr>s_endpoint = ''d'', s_session = ''s'', s_request = probe_request ''probe-x'',
     s_answer = Inr [(''request_id'', JStr ''probe-x''), (''ok'', JBool True), (''result'', JObj [(''fencing_token'', JInt 7)])]\<rparr>"

definition demo_gw :: gateway where
  "demo_gw = \<lparr>gw_workstation = ''workstation:x'', gw_controller = ''controller:x'', gw_allowed = {''fs.stat''},
     gw_max_path_age_ms = 5000, gw_request_timeout_s = Fin 5\<rparr>"

definition demo_c :: "sent list \<Rightarrow> read_router \<Rightarrow> unit controller" where
  "demo_c L rr = \<lparr>c_live = [(''d'', served)], c_pool = [((''workstation:x'', ''controller:x''), [(''d'', session_of served)])],
     c_ids = Some (''controller:x'', ''workstation:x''), c_gateway = Some demo_gw, c_router = rr, c_channels = [(''d'', ''s'')],
     c_net = \<lparr>ns_world = (), ns_log = L\<rparr>\<rparr>"

definition demo_c0 :: "unit controller" where
  "demo_c0 = \<lparr>c_live = [], c_pool = [], c_ids = None, c_gateway = None, c_router = demo_router, c_channels = [],
     c_net = \<lparr>ns_world = (), ns_log = []\<rparr>\<rparr>"

lemma demo_rt_simps [simp]:
  "rt_config demo_rt = demo_config" "rt_net demo_rt = echo_net" "k_open (rt_conn demo_rt) = (\<lambda>_ _ w. (Inr demo_bound, w))"
  "k_close (rt_conn demo_rt) = (\<lambda>_ _ w. w)" "k_rtt_ms (rt_conn demo_rt) w = Fin 1" "rt_private demo_rt = Inr ()" "rt_public demo_rt = Inr ()"
  "principal_id (rt_crypto demo_rt) pk pre = Inr (pre @ '':x'')" "p256_private (rt_crypto demo_rt) sk" "p256_public (rt_crypto demo_rt) pk"
  by (simp_all add: demo_rt_def principal_id_def)

lemma echo_net_simps [simp]:
  "fresh_id echo_net s = (''x'', s)" "now_ms echo_net s = (10, s)"
  "transmit echo_net eid sid req s =
     (Inr [(''request_id'', dict_get req ''request_id'' JNull), (''ok'', JBool True), (''result'', JObj [(''fencing_token'', JInt 7)])],
      s\<lparr>ns_log := ns_log s @ [\<lparr>s_endpoint = eid, s_session = sid, s_request = req,
        s_answer = Inr [(''request_id'', dict_get req ''request_id'' JNull), (''ok'', JBool True), (''result'', JObj [(''fencing_token'', JInt 7)])]\<rparr>]\<rparr>)"
  by (simp_all add: fresh_id_def now_ms_def transmit_def echo_net_def Let_def)

lemma demo_config_simps [simp]:
  "endpoints demo_config = [le_config demo_live]" "gateway_operations demo_config = {''fs.stat''}"
  "cc_max_path_age_ms demo_config = 5000" "cc_request_timeout_s demo_config = Fin 5" "ec_id (le_config demo_live) = ''d''"
  by (simp_all add: demo_config_def demo_live_def)

lemma demo_bound_simps [simp]:
  "session_id demo_bound = ''s''" "controller_principal demo_bound = ''controller:x''"
  "workstation_principal demo_bound = ''workstation:x''" "expires_at_ms demo_bound = 1000"
  by (simp_all add: demo_bound_def)

lemma served_simps [simp]:
  "le_config served = le_config demo_live" "le_binding served = demo_bound" "le_path served = demo_seen"
  by (simp_all add: served_def)

lemma demo_probe_ok [simp]:
  "probe demo_rt (le_config demo_live) demo_bound s = (Inr demo_seen, s\<lparr>ns_log := ns_log s @ [demo_probe]\<rparr>)"
  by (simp add: probe_def Let_def probe_request_def dict_get_def is_ok_def mk_path_observation_def flt_def)
    (simp add: demo_seen_def demo_live_def demo_probe_def probe_request_def)

lemma demo_register [simp]:
  "register_live served c = (Inr (), c\<lparr>c_pool := pool_register (c_pool c) (session_of served)\<rparr>)"
  by (simp add: register_live_def mk_session_endpoint_def session_of_def demo_seen_def)

lemma demo_started: "ensure_started demo_rt demo_c0 = (Inr demo_gw, demo_c [demo_probe] demo_router)"
proof -
  have e: "\<lparr>le_config = le_config demo_live, le_binding = demo_bound, le_path = demo_seen\<rparr> = served" by (simp add: served_def)
  have "refresh_paths demo_rt demo_c0 = (Inr (), (demo_c [demo_probe] demo_router)\<lparr>c_gateway := None\<rparr>)"
    by (simp add: refresh_paths_def load_identities_def demo_c0_def refresh_def refresh_endpoint_def connect_def Let_def e set_live_def)
      (simp add: demo_c_def pool_register_def Let_def session_of_def route_key_def dict_get_def)
  then show ?thesis
    by (simp add: ensure_started_def demo_c_def mk_gateway_def ALL_OPERATIONS_def READ_OPERATIONS_def demo_gw_def)
qed

lemma demo_again: "ensure_started demo_rt (demo_c L rr) = (Inr demo_gw, demo_c (L @ [demo_probe]) rr)"
proof -
  have e: "served\<lparr>le_path := demo_seen\<rparr> = served" by (simp add: served_def)
  show ?thesis
    by (simp add: ensure_started_def refresh_paths_def load_identities_def demo_c_def refresh_def refresh_endpoint_def e set_live_def)
      (simp add: pool_register_def Let_def session_of_def route_key_def dict_get_def)
qed


lemma demo_c0_new: "controller_new demo_rt 1 () = Inr demo_c0"
  by (simp add: controller_new_def router_new_def demo_c0_def demo_router_def)

lemma demo_c0_reach: "controller_reach posix_env demo_rt demo_c0"
  by (rule ctl_new [OF demo_c0_new])

lemma demo_order [simp]: "order_endpoints 10 5000 [served] = Inr [served]"
  by (simp add: order_endpoints.simps select_path_def reject_def demo_seen_def)

abbreviation demo_claims :: "json list" where
  "demo_claims \<equiv> [JObj [(''key'', JStr ''fs:/a''), (''mode'', JStr ''read'')]]"

lemma demo_supports: "supports_open [''fs.read''] demo_claims"
  by (simp add: supports_open_def read_claim_def startswith_def)

definition read_open :: sent where
  "read_open = \<lparr>s_endpoint = ''d'', s_session = ''s'', s_request = mirror_open_request ''x'' demo_lane 1000,
     s_answer = Inr [(''request_id'', JStr ''logical-open-x''), (''ok'', JBool True), (''result'', JObj [(''fencing_token'', JInt 7)])]\<rparr>"

lemma demo_open_lane:
  "rt_open_lane posix_env demo_rt ''L'' ''T'' [''fs.read''] demo_claims (Fin 1) demo_c0 =
     (Inr (lane_result [(''lane_id'', JStr ''L''), (''fencing_token'', JInt (rl_fence demo_lane))]),
      demo_c [demo_probe, read_open] demo_mirrored)"
  by (simp add: rt_open_lane_def started_def demo_started demo_supports via_router_def demo_c_def router_open_def Let_def
      router_next_fence_def trunc_def put_lane_def ordered_current_endpoints_def ensure_mirror_def open_mirror_def lane_request_def
      mirror_fence_of_def is_ok_def demo_router_def)
    (simp add: demo_mirrored_def demo_lane_def read_open_def mirror_open_request_def dict_get_def)

text \<open>
  The ceiling of the controller does not bind text reads: under a configuration that permits \<^verbatim>\<open>fs.stat\<close>
  alone, a lane opened for reading still reads a file as text through the runtime, although the same
  runtime refuses to read it as bytes.
\<close>
theorem logical_read_ignores_ceiling:
  "config_load demo_loader (\<lambda>s. s) (Inr []) = Inr (rt_config demo_rt) \<and> gateway_operations (rt_config demo_rt) = {''fs.stat''}
   \<and> (let (r, c) = rt_open_lane posix_env demo_rt ''L'' ''T'' [''fs.read''] demo_claims (Fin 1) demo_c0;
          (r1, c1) = rt_read_text demo_rt ''L'' (rl_fence demo_lane) ''/a'' ''utf-8'' c;
          (r2, c2) = rt_read_bytes demo_rt ''L'' (rl_fence demo_lane) ''/a'' (JInt 0) JNull JNull c
      in isl r1 = False \<and> map_of (s_request (last (ns_log (c_net c1)))) ''operation'' = Some (JStr ''fs.read_text'')
         \<and> r2 = Inl (Gateway GatewayOperationDenied))"
proof -
  have "fst (rt_read_bytes demo_rt ''L'' (rl_fence demo_lane) ''/a'' (JInt 0) JNull JNull (demo_c [demo_probe, read_open] demo_mirrored))
      = Inl (Gateway GatewayOperationDenied)"
    by (simp add: rt_read_bytes_def started_def demo_again)
  moreover have "isl (fst (rt_read_text demo_rt ''L'' (rl_fence demo_lane) ''/a'' ''utf-8'' (demo_c [demo_probe, read_open] demo_mirrored))) = False
    \<and> map_of (s_request (last (ns_log (c_net (snd (rt_read_text demo_rt ''L'' (rl_fence demo_lane) ''/a'' ''utf-8''
        (demo_c [demo_probe, read_open] demo_mirrored))))))) ''operation'' = Some (JStr ''fs.read_text'')"
    by (simp only: rt_read_text_def started_def demo_again prod.case sum.case)
      (simp add: router_owns_def via_router_def demo_c_def router_read_text_def router_read_def require_twice_def require_read_lane_def
        ordered_current_endpoints_def ensure_mirror_def lane_request_def demo_mirrored_def demo_lane_def mirrored_request_def)
  ultimately show ?thesis by (simp add: demo_open_lane demo_config_loads case_prod_unfold)
qed


section \<open>Channels\<close>

text \<open>
  A new session whose probe fails is not closed: its channel stays open while no table of the runtime
  knows it. And closing the runtime leaves the endpoints in the pool.
\<close>

lemma failed_probe_leaks_channel:
  assumes "c_ids c = Some (controller_principal b, workstation_principal b)"
    and "k_open (rt_conn rt) spec (requested_capabilities (rt_config rt)) (ns_world (c_net c)) = (Inr b, w)"
    and "probe rt spec b ((c_net c)\<lparr>ns_world := w\<rparr>) = (Inl x, s)"
  shows "fst (connect rt spec c) = Inl x" "c_live (snd (connect rt spec c)) = c_live c"
    "c_channels (snd (connect rt spec c)) = (ec_id spec, session_id b) # c_channels c"
  using assms by (simp_all add: connect_def Let_def)

lemma close_keeps_pool: "c_pool (controller_close rt c) = c_pool c" "c_live (controller_close rt c) = []"
proof -
  have "c_pool (fold (\<lambda>e. close_channel rt (le_id e) (le_session e)) es c) = c_pool c" for es
    by (induction es arbitrary: c) simp_all
  then show "c_pool (controller_close rt c) = c_pool c" "c_live (controller_close rt c) = []"
    by (simp_all add: controller_close_def)
qed

end
