(* ===== verification/Remote_Path.thy ===== *)
theory Remote_Path
  imports Controller_Config
begin

text \<open>
  The paths of the public gateway: \<^verbatim>\<open>canonical_remote_path\<close> of \<^verbatim>\<open>public_gateway.py\<close> over \<^verbatim>\<open>posixpath.normpath\<close>,
  \<^verbatim>\<open>ntpath.normpath\<close> and \<^verbatim>\<open>ntpath.splitroot\<close> of the standard library. The key of a claim is such a path.
\<close>

section \<open>Components\<close>

text \<open>\<^verbatim>\<open>s.split(c)\<close> and \<^verbatim>\<open>s.replace(c, d)\<close> for single characters.\<close>

fun split_char :: "char \<Rightarrow> string \<Rightarrow> string list" where
  "split_char c [] = [[]]"
| "split_char c (x # xs) =
     (if x = c then [] # split_char c xs
      else case split_char c xs of [] \<Rightarrow> [[x]] | p # ps \<Rightarrow> (x # p) # ps)"

definition replace_char :: "char \<Rightarrow> char \<Rightarrow> string \<Rightarrow> string" where
  "replace_char c d s = map (\<lambda>x. if x = c then d else x) s"

text \<open>One component after those kept so far, in reverse; \<open>rooted\<close> where the path has a root.\<close>

definition push_component :: "bool \<Rightarrow> string list \<Rightarrow> string \<Rightarrow> string list" where
  "push_component rooted acc c =
     (if c = [] \<or> c = ''.'' then acc
      else if c = ''..'' then
        (case acc of
           [] \<Rightarrow> if rooted then [] else [c]
         | p # ps \<Rightarrow> if p = ''..'' then c # acc else ps)
      else c # acc)"

definition collapse :: "bool \<Rightarrow> string list \<Rightarrow> string list" where
  "collapse rooted cs = rev (foldl (push_component rooted) [] cs)"

section \<open>POSIX paths\<close>

definition posix_normpath :: "string \<Rightarrow> string" where
  "posix_normpath p =
     (if p = [] then ''.''
      else let initial = (if prefix ''//'' p \<and> \<not> prefix ''///'' p then 2 else if prefix ''/'' p then 1 else 0 :: nat);
               body = replicate initial (CHR ''/'') @ join ''/'' (collapse (0 < initial) (split_char (CHR ''/'') p))
           in if body = [] then ''.'' else body)"

section \<open>Windows paths\<close>

text \<open>\<^verbatim>\<open>s.find(c, start)\<close>, as the position from the start of the string.\<close>

fun find_char :: "char \<Rightarrow> nat \<Rightarrow> string \<Rightarrow> nat option" where
  "find_char c n s =
     (let rest = takeWhile (\<lambda>x. x \<noteq> c) (drop n s) in
      if n + length rest < length s then Some (n + length rest) else None)"

text \<open>The text after the first code point.\<close>

definition after_first :: "string \<Rightarrow> string" where
  "after_first s = dropWhile (\<lambda>c. 128 \<le> byte_val c \<and> byte_val c < 192) (tl s)"

text \<open>Upper case of ASCII letters; the prefix compared with it holds nothing else.\<close>

definition ascii_upper :: "string \<Rightarrow> string" where
  "ascii_upper s = map (\<lambda>c. if 97 \<le> byte_val c \<and> byte_val c \<le> 122 then byte_of (byte_val c - 32) else c) s"

definition backslash :: char where
  "backslash = CHR 0x5C"

definition splitroot :: "string \<Rightarrow> string \<times> string \<times> string" where
  "splitroot p =
     (let normp = replace_char (CHR ''/'') backslash p; rest = after_first normp; k = length normp - length rest in
      if take 1 normp = [backslash] then
        (if take 1 (drop 1 normp) = [backslash] then
           let start = (if ascii_upper (take 8 normp) = [backslash, backslash, CHR ''?'', backslash] @ ''UNC'' @ [backslash] then 8 else 2) in
           (case find_char backslash start normp of
              None \<Rightarrow> (p, [], [])
            | Some i \<Rightarrow>
                (case find_char backslash (i + 1) normp of
                   None \<Rightarrow> (p, [], [])
                 | Some j \<Rightarrow> (take j p, take 1 (drop j p), drop (j + 1) p)))
         else ([], take 1 p, drop 1 p))
      else if take 1 rest = '':'' then
        (if take 1 (drop 1 rest) = [backslash] then (take (k + 1) p, take 1 (drop (k + 1) p), drop (k + 2) p)
         else (take (k + 1) p, [], drop (k + 1) p))
      else ([], [], p))"

definition nt_normpath :: "string \<Rightarrow> string" where
  "nt_normpath p =
     (let q = replace_char (CHR ''/'') backslash p; (drive, rt, tail) = splitroot q;
          comps = collapse (rt \<noteq> []) (split_char backslash tail); pre = drive @ rt
      in if pre = [] \<and> comps = [] then ''.'' else pre @ join [backslash] comps)"

definition nt_isabs :: "string \<Rightarrow> bool" where
  "nt_isabs p \<longleftrightarrow>
     (let q = replace_char (CHR ''/'') backslash p in
      prefix ('':'' @ [backslash]) (after_first q) \<or> prefix [backslash, backslash] q)"

section \<open>The canonical path\<close>

definition windows_path :: "string \<Rightarrow> bool" where
  "windows_path raw \<longleftrightarrow> prefix ('':'' @ [backslash]) (after_first raw) \<or> prefix '':/'' (after_first raw) \<or> prefix [backslash, backslash] raw"

definition canonical_remote_path :: "string \<Rightarrow> string result" where
  "canonical_remote_path value =
     (if is_blank value then Inl (Py ValueError)
      else let raw = py_strip value in
        if windows_path raw then
          (if \<not> nt_isabs raw then Inl (Py ValueError)
           else Inr (replace_char backslash (CHR ''/'') (nt_normpath raw)))
        else let normalized = posix_normpath raw in
          if \<not> prefix ''/'' normalized then Inl (Py ValueError) else Inr normalized)"


section \<open>Canonical paths are normal\<close>

definition plain_component :: "string \<Rightarrow> bool" where
  "plain_component c \<longleftrightarrow> c \<noteq> [] \<and> c \<noteq> ''.'' \<and> c \<noteq> ''..'' \<and> CHR ''/'' \<notin> set c"

definition absolute_root :: "string \<Rightarrow> bool" where
  "absolute_root r \<longleftrightarrow> r = ''/'' \<or> prefix ''//'' r \<or> suffix '':/'' r"

lemma split_char_no: "p \<in> set (split_char c s) \<Longrightarrow> c \<notin> set p \<and> set p \<subseteq> set s"
proof (induction s arbitrary: p)
  case (Cons x xs)
  then show ?case by (cases "split_char c xs") (auto split: if_splits, blast+)
qed simp

lemma split_char_ne: "split_char c s \<noteq> []"
  by (induction s) (auto split: list.splits)

lemma split_char_single: "c \<notin> set s \<Longrightarrow> split_char c s = [s]"
  by (induction s) auto

lemma split_char_append: "c \<notin> set p \<Longrightarrow> split_char c (p @ c # s) = p # split_char c s"
  by (induction p) auto

lemma split_char_join:
  "cs \<noteq> [] \<Longrightarrow> \<forall>p \<in> set cs. c \<notin> set p \<Longrightarrow> split_char c (join [c] cs) = cs"
  by (induction "[c]" cs rule: join.induct) (auto simp: split_char_append split_char_single)

lemma replace_char_join: "replace_char c d (join [c] cs) = join [d] (map (replace_char c d) cs)"
  by (induction "[c]" cs rule: join.induct) (auto simp: replace_char_def)

lemma replace_char_other: "c \<notin> set s \<Longrightarrow> replace_char c d s = s"
  by (induction s) (auto simp: replace_char_def)

text \<open>Below a root, the components that are kept are named ones of the input, and none of them is removed again.\<close>

lemma foldl_all:
  "(\<And>acc x. x \<in> set xs \<Longrightarrow> \<forall>c \<in> set acc. P c \<Longrightarrow> \<forall>c \<in> set (f acc x). P c) \<Longrightarrow> \<forall>c \<in> set acc. P c
   \<Longrightarrow> \<forall>c \<in> set (foldl f acc xs). P c"
proof (induction xs arbitrary: acc)
  case (Cons x xs)
  have "\<forall>c \<in> set (f acc x). P c" using Cons.prems(1) [of x acc] Cons.prems(2) by simp
  then have "\<forall>c \<in> set (foldl f (f acc x) xs). P c"
    by (rule Cons.IH [rotated]) (rule Cons.prems(1), auto)
  then show ?case by simp
qed simp

lemma push_component_kept:
  "c \<in> set (push_component rooted acc x) \<Longrightarrow> c \<in> set acc \<or> c = x \<and> c \<noteq> [] \<and> c \<noteq> ''.''"
  by (cases acc) (auto simp: push_component_def split: if_splits)

lemma push_component_rooted:
  "\<forall>c \<in> set acc. c \<noteq> ''..'' \<Longrightarrow> c \<in> set (push_component True acc x) \<Longrightarrow> c \<noteq> ''..''"
  by (cases acc) (auto simp: push_component_def split: if_splits)

lemma collapse_kept: "c \<in> set (collapse rooted cs) \<Longrightarrow> c \<in> set cs \<and> c \<noteq> [] \<and> c \<noteq> ''.''"
proof -
  have "\<forall>c \<in> set (foldl (push_component rooted) [] cs). c \<in> set cs \<and> c \<noteq> [] \<and> c \<noteq> ''.''"
    by (rule foldl_all) (use push_component_kept in blast, simp)
  then show "c \<in> set (collapse rooted cs) \<Longrightarrow> ?thesis" by (simp add: collapse_def)
qed

lemma collapse_rooted: "c \<in> set (collapse True cs) \<Longrightarrow> c \<noteq> ''..''"
proof -
  have "\<forall>c \<in> set (foldl (push_component True) [] cs). c \<noteq> ''..''"
    by (rule foldl_all) (use push_component_rooted in blast, simp)
  then show "c \<in> set (collapse True cs) \<Longrightarrow> ?thesis" by (simp add: collapse_def)
qed

lemma collapse_plain:
  assumes "\<forall>c \<in> set cs. c \<noteq> [] \<and> c \<noteq> ''.'' \<and> c \<noteq> ''..''"
  shows "collapse rooted cs = cs"
proof -
  have "foldl (push_component rooted) acc cs = rev cs @ acc" for acc
    using assms by (induction cs arbitrary: acc) (auto simp: push_component_def)
  then show ?thesis by (simp add: collapse_def)
qed

lemma posix_normpath_rooted:
  assumes "prefix ''/'' (posix_normpath p)"
  obtains r cs where "posix_normpath p = r @ join ''/'' cs" "r = ''/'' \<or> r = ''//''" "\<forall>c \<in> set cs. plain_component c"
    and "r = ''//'' \<longleftrightarrow> prefix ''//'' p \<and> \<not> prefix ''///'' p"
proof -
  let ?cs = "collapse True (split_char (CHR ''/'') p)"
  have plain: "\<forall>c \<in> set ?cs. plain_component c"
    using collapse_kept [of _ True] collapse_rooted split_char_no [of _ "CHR ''/''" p] by (auto simp: plain_component_def)
  show ?thesis
  proof (cases "prefix ''/'' p")
    case True
    then obtain t where p: "p = CHR ''/'' # t" by (auto simp: prefix_def)
    show ?thesis
      by (rule that [OF _ _ plain, of "if prefix ''//'' p \<and> \<not> prefix ''///'' p then ''//'' else ''/''"])
        (auto simp: posix_normpath_def p Let_def numeral_2_eq_2)
  next
    case False
    have rel: "posix_normpath p = (if p = [] \<or> join ''/'' (collapse False (split_char (CHR ''/'') p)) = [] then ''.''
        else join ''/'' (collapse False (split_char (CHR ''/'') p)))"
      using False prefix_order.trans [of "''/''" "''//''" p] by (auto simp: posix_normpath_def Let_def)
    have "\<not> prefix ''/'' (join ''/'' xs)" if "\<forall>c \<in> set xs. c \<noteq> [] \<and> CHR ''/'' \<notin> set c" for xs
      using that by (cases xs rule: remdups_adj.cases) (auto simp: prefix_def Cons_eq_append_conv neq_Nil_conv)
    moreover have "c \<noteq> [] \<and> CHR ''/'' \<notin> set c" if "c \<in> set (collapse False (split_char (CHR ''/'') p))" for c
      using collapse_kept [OF that] split_char_no [of c "CHR ''/''" p] by blast
    ultimately show ?thesis using assms rel by (auto split: if_splits)
  qed
qed

text \<open>Normalizing an absolute POSIX path again changes nothing.\<close>

lemma posix_normpath_idem:
  assumes "prefix ''/'' (posix_normpath p)"
  shows "posix_normpath (posix_normpath p) = posix_normpath p"
proof -
  obtain r cs where n: "posix_normpath p = r @ join ''/'' cs" and r: "r = ''/'' \<or> r = ''//''"
    and cs: "\<forall>c \<in> set cs. plain_component c"
    using posix_normpath_rooted [OF assms] by metis
  have plain: "\<forall>c \<in> set cs. c \<noteq> [] \<and> c \<noteq> ''.'' \<and> c \<noteq> ''..''" "\<forall>c \<in> set cs. CHR ''/'' \<notin> set c"
    using cs by (auto simp: plain_component_def)
  have "split_char (CHR ''/'') (join ''/'' cs) = (if cs = [] then [[]] else cs)" using split_char_join plain(2) by simp
  then have "collapse True (split_char (CHR ''/'') (r @ join ''/'' cs)) = cs"
    using r collapse_plain [OF plain(1)] by (auto simp: collapse_def push_component_def)
  moreover have "\<not> prefix ''/'' (join ''/'' cs)"
    using plain by (cases cs rule: remdups_adj.cases) (auto simp: prefix_def neq_Nil_conv)
  ultimately show ?thesis unfolding n using r by (auto simp: posix_normpath_def Let_def numeral_2_eq_2)
qed

text \<open>A Windows path that passes the checks splits into a root and components below it.\<close>

lemma find_char_ge: "find_char c n s = Some i \<Longrightarrow> n \<le> i"
  by (auto simp: Let_def split: if_splits)

lemma replace_char_char: "c \<noteq> d \<Longrightarrow> c \<notin> set (replace_char c d s)"
  by (auto simp: replace_char_def)

lemma splitroot_absolute:
  assumes "nt_isabs p" "splitroot (replace_char (CHR ''/'') backslash p) = (drive, rt, tail)"
  shows "drive @ rt = [backslash] \<and> rt \<noteq> [] \<or> prefix [backslash, backslash] (drive @ rt) \<and> (rt = [] \<longrightarrow> tail = [])
    \<or> suffix [CHR '':'', backslash] (drive @ rt) \<and> rt \<noteq> []"
proof -
  define q where "q = replace_char (CHR ''/'') backslash p"
  have idem: "replace_char (CHR ''/'') backslash q = q"
    unfolding q_def by (rule replace_char_other) (rule replace_char_char, simp add: backslash_def)
  have abs: "prefix ('':'' @ [backslash]) (after_first q) \<or> prefix [backslash, backslash] q"
    using assms(1) by (simp add: nt_isabs_def q_def Let_def)
  have sp: "splitroot q = (drive, rt, tail)" using assms(2) by (simp add: q_def)
  consider (unc) "prefix [backslash, backslash] q" | (root) "take 1 q = [backslash]" "take 1 (drop 1 q) \<noteq> [backslash]"
    | (drive) "take 1 q \<noteq> [backslash]" "prefix ('':'' @ [backslash]) (after_first q)"
    using abs by (cases q rule: remdups_adj.cases) (auto simp: prefix_def)
  then show ?thesis
  proof cases
    case unc
    then obtain t where q: "q = backslash # backslash # t" by (auto simp: prefix_def)
    define start :: nat where "start = (if ascii_upper (take 8 q) = [backslash, backslash, CHR ''?'', backslash] @ ''UNC'' @ [backslash] then 8 else 2)"
    have start: "2 \<le> start" by (simp add: start_def)
    show ?thesis
    proof (cases "\<exists>i j. find_char backslash start q = Some i \<and> find_char backslash (i + 1) q = Some j")
      case True
      then obtain i j where ij: "find_char backslash start q = Some i" "find_char backslash (i + 1) q = Some j" by blast
      have j: "j = Suc (Suc (j - 2))" using find_char_ge [OF ij(1)] find_char_ge [OF ij(2)] start by linarith
      have "j < length q" using ij(2) by (simp add: Let_def split: if_splits)
      moreover have "drive = take j q" "rt = take 1 (drop j q)"
        using sp ij idem by (simp_all add: splitroot_def Let_def start_def q del: find_char.simps)
      ultimately show ?thesis using q by (subst (asm) j) auto
    next
      case False
      then have "(drive, rt, tail) = (q, [], [])"
        using sp idem by (auto simp: splitroot_def Let_def start_def q simp del: find_char.simps split: option.splits)
      then show ?thesis using unc by simp
    qed
  next
    case root
    then have "(drive, rt, tail) = ([], take 1 q, drop 1 q)" using sp idem by (simp add: splitroot_def Let_def)
    then show ?thesis using root by simp
  next
    case drive
    then obtain t where t: "after_first q = CHR '':'' # backslash # t" by (auto simp: prefix_def)
    define k where "k = length q - length (after_first q)"
    have "suffix (after_first q) q"
      unfolding after_first_def using suffix_dropWhile suffix_tl suffix_order.trans by blast
    then obtain u where u: "q = u @ after_first q" by (auto simp: suffix_def)
    then have "length q = length u + length (after_first q)" by (metis length_append)
    then have k: "k = length u" by (simp add: k_def)
    have "(drive, rt, tail) = (take (k + 1) q, take 1 (drop (k + 1) q), drop (k + 2) q)"
      using sp idem drive(1) t by (simp add: splitroot_def Let_def k_def)
    moreover have "take (k + 1) q = u @ '':''" "take 1 (drop (k + 1) q) = [backslash]"
      by (subst u, simp add: t k)+
    ultimately show ?thesis by (simp add: suffix_def)
  qed
qed

lemma splitroot_parts: "splitroot p = (drive, rt, tail) \<Longrightarrow> drive @ rt @ tail = p"
  by (auto simp: splitroot_def Let_def take_Suc_conv_app_nth simp del: find_char.simps split: if_splits option.splits)
    (metis append_take_drop_id drop_drop add.commute One_nat_def plus_1_eq_Suc append.assoc)+

lemma absolute_root_replaced:
  "pre = [backslash] \<or> prefix [backslash, backslash] pre \<or> suffix [CHR '':'', backslash] pre
   \<Longrightarrow> absolute_root (replace_char backslash (CHR ''/'') pre)"
  by (auto simp: absolute_root_def replace_char_def prefix_def suffix_def backslash_def)

text \<open>
  A claim names a normal path. Every path that the facade accepts is turned into an absolute root followed by
  components none of which is empty, a dot or a double dot, so that the resource key of its claim is
  not left by a parent component.
\<close>
theorem canonical_path_is_normal:
  assumes "canonical_remote_path v = Inr p"
  shows "\<exists>r cs. p = r @ join ''/'' cs \<and> absolute_root r \<and> (\<forall>c \<in> set cs. plain_component c)"
proof (cases "windows_path (py_strip v)")
  case False
  then have "p = posix_normpath (py_strip v)" "prefix ''/'' p"
    using assms by (auto simp: canonical_remote_path_def Let_def split: if_splits)
  then show ?thesis using posix_normpath_rooted [of "py_strip v"] by (metis absolute_root_def prefix_order.refl)
next
  case True
  define raw where "raw = py_strip v"
  obtain drive rt tail where sp: "splitroot (replace_char (CHR ''/'') backslash raw) = (drive, rt, tail)" by (metis prod_cases3)
  have abs: "nt_isabs raw" and p: "p = replace_char backslash (CHR ''/'') (nt_normpath raw)"
    using assms True by (auto simp: canonical_remote_path_def Let_def raw_def split: if_splits)
  let ?cs = "collapse (rt \<noteq> []) (split_char backslash tail)"
  have root: "absolute_root (replace_char backslash (CHR ''/'') (drive @ rt))" and ne: "drive @ rt \<noteq> []"
    using splitroot_absolute [OF abs sp] by (auto intro: absolute_root_replaced )
  have cs: "\<forall>c \<in> set ?cs. c \<noteq> [] \<and> c \<noteq> ''.'' \<and> c \<noteq> ''..'' \<and> backslash \<notin> set c \<and> set c \<subseteq> set tail"
  proof (cases "rt = []")
    case True
    then have "tail = [] \<or> rt \<noteq> []" using splitroot_absolute [OF abs sp] by auto
    then show ?thesis using True by (simp add: collapse_def push_component_def)
  next
    case False
    then show ?thesis using collapse_kept [of _ True] collapse_rooted split_char_no [of _ backslash tail] by auto
  qed
  have "p = replace_char backslash (CHR ''/'') (drive @ rt) @ join ''/'' (map (replace_char backslash (CHR ''/'')) ?cs)"
  proof -
    have "nt_normpath raw = (drive @ rt) @ join [backslash] ?cs" using ne sp by (auto simp: nt_normpath_def Let_def)
    then show ?thesis unfolding p by (simp add: replace_char_def flip: replace_char_join)
  qed
  moreover have "plain_component c" if c: "c \<in> set (map (replace_char backslash (CHR ''/'')) ?cs)" for c
  proof -
    obtain d where d: "d \<in> set ?cs" "c = replace_char backslash (CHR ''/'') d" using c by auto
    have "c = d" using d cs replace_char_other by blast
    moreover have "set tail \<subseteq> set (replace_char (CHR ''/'') backslash raw)"
      using arg_cong [OF splitroot_parts [OF sp], of set] by auto
    then have "CHR ''/'' \<notin> set tail" using replace_char_char [of "CHR ''/''" backslash raw] by (auto simp: backslash_def)
    ultimately show ?thesis using cs d(1) by (auto simp: plain_component_def)
  qed
  ultimately show ?thesis using root by blast
qed

lemma demo_path: "canonical_remote_path ''/a/../b//c/.'' = Inr ''/b/c''"
proof -
  have "py_strip ''/a/../b//c/.'' = ''/a/../b//c/.''"
    by (simp add: py_strip_def lstrip.simps [of "''/a/../b//c/.''"] rstrip.simps [of "''/a/../b//c/.''"] py_whitespace_def suffix_def
        suffix_to_prefix)
  moreover have "\<not> is_blank ''/a/../b//c/.''" by (rule not_blankI) (simp add: py_whitespace_def)
  ultimately show ?thesis
    by (simp add: canonical_remote_path_def windows_path_def after_first_def byte_val_def backslash_def posix_normpath_def
        collapse_def push_component_def Let_def)
qed

theorem canonical_path_is_normal_witness:
  "canonical_remote_path ''/a/../b//c/.'' = Inr ''/b/c''
   \<and> (\<exists>r cs. ''/b/c'' = r @ join ''/'' cs \<and> absolute_root r \<and> (\<forall>c \<in> set cs. plain_component c))"
  using canonical_path_is_normal [OF demo_path] demo_path by blast
end
