(* ===== verification/Public_Gateway.thy ===== *)
theory Public_Gateway
  imports Controller_Runtime Remote_Path
begin

text \<open>
  \<^verbatim>\<open>public_gateway.py\<close>: the facade that the public tools call. It opens a lane of its own for every call and
  closes it afterwards, and keeps the lane of a started process as a lease under a handle of its own, so
  that a caller never names a lane, a fencing token or a handle of the workstation.

  The actor and the controller runtime are the record \<open>facade_env\<close>, with \<^verbatim>\<open>id_factory\<close>, the class names and the
  texts of exceptions. A call is one step: the calls of one facade share nothing but the table of leases,
  which is read and written without an \<^verbatim>\<open>await\<close> in between.
\<close>

section \<open>Errors and evidence\<close>

fun stream_code :: "stream_error \<Rightarrow> string" where
  "stream_code StreamProtocolError = ''STREAM_PROTOCOL_ERROR''"
| "stream_code FrameTooLarge = ''FRAME_TOO_LARGE''"
| "stream_code StreamClosed = ''STREAM_CLOSED''"

fun routing_code :: "routing_error \<Rightarrow> string" where
  "routing_code NoCurrentPath = ''NO_CURRENT_PATH''"
| "routing_code AmbiguousDelivery = ''AMBIGUOUS_DELIVERY''"

fun read_lane_code :: "read_lane_error \<Rightarrow> string" where
  "read_lane_code LogicalReadLaneError = ''LOGICAL_READ_LANE_ERROR''"
| "read_lane_code LogicalReadLaneNotFound = ''LOGICAL_READ_LANE_NOT_FOUND''"
| "read_lane_code LogicalReadLaneStaleFence = ''LOGICAL_READ_LANE_STALE_FENCE''"
| "read_lane_code LogicalReadLaneExpired = ''LOGICAL_READ_LANE_EXPIRED''"
| "read_lane_code LogicalReadLaneCloseIncomplete = ''LOGICAL_READ_LANE_CLOSE_INCOMPLETE''"

fun gateway_code :: "gateway_error \<Rightarrow> string" where
  "gateway_code GatewayOperationDenied = ''GATEWAY_OPERATION_DENIED''"
| "gateway_code ControllerBootstrapError = ''CONTROLLER_BOOTSTRAP_ERROR''"
| "gateway_code ControllerIdentityMismatch = ''CONTROLLER_IDENTITY_MISMATCH''"
| "gateway_code WorkstationIdentityMismatch = ''WORKSTATION_IDENTITY_MISMATCH''"
| "gateway_code PublicGatewayError = ''PUBLIC_GATEWAY_ERROR''"
| "gateway_code (PublicGatewayRemoteError c) = ''PUBLIC_GATEWAY_REMOTE_ERROR''"
| "gateway_code PublicProcessNotFound = ''PUBLIC_PROCESS_NOT_FOUND''"

text \<open>\<^verbatim>\<open>getattr(exc, "code", exc.__class__.__name__)\<close>; the classes without a code are named by the argument.\<close>

fun public_code :: "(exn \<Rightarrow> string) \<Rightarrow> exn \<Rightarrow> string" where
  "public_code cls (Stream e) = stream_code e"
| "public_code cls (Routing e) = routing_code e"
| "public_code cls (ReadLane e) = read_lane_code e"
| "public_code cls (Gateway e) = gateway_code e"
| "public_code cls e = cls e"

section \<open>The facade\<close>

record process_lease =
  public_handle :: string
  internal_handle :: string
  pl_lane_id :: string
  pl_fencing_token :: int
  pl_cwd :: string

record ('w, 'sk, 'pk) facade_env =
  fe_py :: pyenv
  fe_rt :: "('w, 'sk, 'pk) runtime"
  fe_actor :: string
  fe_id_factory :: "'w \<Rightarrow> string \<times> 'w"
  fe_class :: "exn \<Rightarrow> string"
  fe_text :: "exn \<Rightarrow> string"

record 'w facade =
  f_runtime :: "'w controller"
  f_processes :: "(string \<times> process_lease) list"

definition PROCESS_LEASE_GRACE_S :: pyfloat where
  "PROCESS_LEASE_GRACE_S = Fin 300"

definition facade_new :: "('w, 'sk, 'pk) facade_env \<Rightarrow> 'w controller \<Rightarrow> 'w facade result" where
  "facade_new fe c =
     (if is_blank (fe_actor fe) then Inl (Py ValueError) else Inr \<lparr>f_runtime = c, f_processes = []\<rparr>)"

definition actor_tag :: "('w, 'sk, 'pk) facade_env \<Rightarrow> string" where
  "actor_tag fe = take 16 (sha256_hex (fe_py fe) (fe_actor fe))"

definition new_id :: "('w, 'sk, 'pk) facade_env \<Rightarrow> string \<Rightarrow> 'w facade \<Rightarrow> string result \<times> 'w facade" where
  "new_id fe pre f =
     (let c = f_runtime f; (i, w) = fe_id_factory fe (ns_world (c_net c));
          f1 = f\<lparr>f_runtime := c\<lparr>c_net := (c_net c)\<lparr>ns_world := w\<rparr>\<rparr>\<rparr> in
      if i = [] then (Inl (Py ValueError), f1) else (Inr (pre @ '':'' @ actor_tag fe @ '':'' @ i), f1))"

definition claim :: "string \<Rightarrow> string \<Rightarrow> string \<Rightarrow> json result" where
  "claim scheme file mode =
     (case canonical_remote_path file of
        Inl x \<Rightarrow> Inl x
      | Inr p \<Rightarrow> Inr (JObj [(''key'', JStr (scheme @ p)), (''mode'', JStr mode)]))"

definition fs_claim :: "string \<Rightarrow> string \<Rightarrow> json result" where
  "fs_claim file mode = claim ''fs:'' file mode"

definition cwd_claim :: "string \<Rightarrow> string \<Rightarrow> json result" where
  "cwd_claim file mode = claim ''cwd:'' file mode"

definition unwrap :: "pyenv \<Rightarrow> dict \<Rightarrow> dict result" where
  "unwrap env response =
     (if \<not> is_ok response then
        (case map_of response ''error'' of
           Some (JObj err) \<Rightarrow> Inl (Gateway (PublicGatewayRemoteError (py_str env (dict_get err ''code'' (JStr ''REMOTE_ERROR'')))))
         | _ \<Rightarrow> Inl (Gateway (PublicGatewayRemoteError ''REMOTE_ERROR'')))
      else (case map_of response ''result'' of
           Some (JObj d) \<Rightarrow> Inr d
         | _ \<Rightarrow> Inl (Gateway PublicGatewayError)))"

text \<open>A call of the runtime, and a call followed by \<^verbatim>\<open>_unwrap\<close>.\<close>

definition on_runtime :: "('w controller \<Rightarrow> 'a \<times> 'w controller) \<Rightarrow> 'w facade \<Rightarrow> 'a \<times> 'w facade" where
  "on_runtime g f = (case g (f_runtime f) of (r, c) \<Rightarrow> (r, f\<lparr>f_runtime := c\<rparr>))"

definition unwrapped ::
  "pyenv \<Rightarrow> ('w controller \<Rightarrow> dict result \<times> 'w controller) \<Rightarrow> 'w facade \<Rightarrow> dict result \<times> 'w facade" where
  "unwrapped env g f =
     (case on_runtime g f of
        (Inl x, f1) \<Rightarrow> (Inl x, f1)
      | (Inr response, f1) \<Rightarrow> (unwrap env response, f1))"

section \<open>Lanes\<close>

definition fence_of :: "dict \<Rightarrow> int result" where
  "fence_of d =
     (case map_of d ''fencing_token'' of
        Some (JInt n) \<Rightarrow> if n < 1 then Inl (Gateway PublicGatewayError) else Inr n
      | _ \<Rightarrow> Inl (Gateway PublicGatewayError))"

definition public_open_lane ::
  "('w, 'sk, 'pk) facade_env \<Rightarrow> string list \<Rightarrow> json list \<Rightarrow> pyfloat \<Rightarrow> string \<Rightarrow> 'w facade
   \<Rightarrow> (string \<times> int) result \<times> 'w facade" where
  "public_open_lane fe caps claims ttl task f =
     (case new_id fe ''public-lane'' f of
        (Inl x, f1) \<Rightarrow> (Inl x, f1)
      | (Inr lane_id, f1) \<Rightarrow>
          (case new_id fe task f1 of
             (Inl x, f2) \<Rightarrow> (Inl x, f2)
           | (Inr task_id, f2) \<Rightarrow>
               (case unwrapped (fe_py fe) (rt_open_lane (fe_py fe) (fe_rt fe) lane_id task_id caps claims ttl) f2 of
                  (Inl x, f3) \<Rightarrow> (Inl x, f3)
                | (Inr result, f3) \<Rightarrow>
                    (case fence_of result of
                       Inl x \<Rightarrow> (Inl x, f3)
                     | Inr fence \<Rightarrow> (Inr (lane_id, fence), f3)))))"

text \<open>\<^verbatim>\<open>response.get("error")\<close> is null where the key is absent.\<close>

definition close_lane_evidence ::
  "('w, 'sk, 'pk) facade_env \<Rightarrow> string \<Rightarrow> int \<Rightarrow> 'w facade \<Rightarrow> dict \<times> 'w facade" where
  "close_lane_evidence fe lane_id fence f =
     (case on_runtime (rt_close_lane (fe_rt fe) lane_id fence) f of
        (Inl x, f1) \<Rightarrow>
          ([(''closed'', JBool False),
            (''error'', JObj [(''code'', JStr (public_code (fe_class fe) x)), (''message'', JStr (fe_text fe x))])], f1)
      | (Inr response, f1) \<Rightarrow>
          (if is_ok response then ([(''closed'', JBool True)], f1)
           else ([(''closed'', JBool False), (''error'', dict_get response ''error'' JNull)], f1)))"

definition is_closed :: "dict \<Rightarrow> bool" where
  "is_closed cleanup \<longleftrightarrow> map_of cleanup ''closed'' = Some (JBool True)"

definition attach_cleanup :: "dict \<Rightarrow> dict \<Rightarrow> dict" where
  "attach_cleanup result cleanup =
     (if is_closed cleanup then result else AList.update ''_veramesh_cleanup'' (JObj cleanup) result)"

text \<open>
  The call inside \<^verbatim>\<open>_ephemeral\<close>, by operation. The keyword arguments of the two text operations and of
  \<^verbatim>\<open>read_bytes\<close> are the entries of the body.
\<close>

definition str_arg :: "dict \<Rightarrow> string \<Rightarrow> string" where
  "str_arg d k = (case map_of d k of Some (JStr s) \<Rightarrow> s | _ \<Rightarrow> [])"

definition ephemeral_call ::
  "('w, 'sk, 'pk) runtime \<Rightarrow> string \<Rightarrow> string \<Rightarrow> int \<Rightarrow> dict \<Rightarrow> 'w controller \<Rightarrow> dict result \<times> 'w controller" where
  "ephemeral_call rt operation lane_id fence body =
     (if operation = ''fs.read_text'' then rt_read_text rt lane_id fence (str_arg body ''path'') (str_arg body ''encoding'')
      else if operation = ''fs.read_bytes'' then
        rt_read_bytes rt lane_id fence (str_arg body ''path'') (dict_get body ''offset'' JNull) (dict_get body ''max_bytes'' JNull)
          (dict_get body ''expected_file_version'' JNull)
      else if operation \<in> {''fs.stat'', ''fs.list_dir'', ''fs.search'', ''fs.search_content''} then
        rt_read_operation rt operation lane_id fence body
      else if operation = ''fs.write_text'' then
        rt_write_text rt lane_id fence (str_arg body ''path'') (str_arg body ''content'') (str_arg body ''encoding'')
      else rt_call_operation rt operation ([(''lane_id'', JStr lane_id), (''fencing_token'', JInt fence)] @ body))"

definition ephemeral ::
  "('w, 'sk, 'pk) facade_env \<Rightarrow> string \<Rightarrow> string list \<Rightarrow> json list \<Rightarrow> dict \<Rightarrow> string \<Rightarrow> 'w facade \<Rightarrow> dict result \<times> 'w facade" where
  "ephemeral fe operation caps claims body task f =
     (case public_open_lane fe caps claims (Fin 300) task f of
        (Inl x, f1) \<Rightarrow> (Inl x, f1)
      | (Inr (lane_id, fence), f1) \<Rightarrow>
          (case unwrapped (fe_py fe) (ephemeral_call (fe_rt fe) operation lane_id fence body) f1 of
             (r, f2) \<Rightarrow>
               (case close_lane_evidence fe lane_id fence f2 of
                  (cleanup, f3) \<Rightarrow> (map_sum id (\<lambda>result. attach_cleanup result cleanup) r, f3))))"

text \<open>The claims are built before anything is sent.\<close>

definition with_claims :: "json result list \<Rightarrow> (json list \<Rightarrow> 'w facade \<Rightarrow> 'a result \<times> 'w facade) \<Rightarrow> 'w facade \<Rightarrow> 'a result \<times> 'w facade" where
  "with_claims rs k f =
     (case [x. Inl x \<leftarrow> rs] of x # _ \<Rightarrow> (Inl x, f) | [] \<Rightarrow> k [v. Inr v \<leftarrow> rs] f)"

section \<open>The public calls\<close>

definition computer_info :: "('w, 'sk, 'pk) facade_env \<Rightarrow> 'w facade \<Rightarrow> dict result \<times> 'w facade" where
  "computer_info fe = on_runtime (machine_info (fe_rt fe))"

definition read_file :: "('w, 'sk, 'pk) facade_env \<Rightarrow> string \<Rightarrow> string \<Rightarrow> 'w facade \<Rightarrow> dict result \<times> 'w facade" where
  "read_file fe file encoding = with_claims [fs_claim file ''read''] (\<lambda>cs.
     ephemeral fe ''fs.read_text'' [''fs.read''] cs [(''path'', JStr file), (''encoding'', JStr encoding)] ''read-file'')"

definition public_read_bytes ::
  "('w, 'sk, 'pk) facade_env \<Rightarrow> string \<Rightarrow> json \<Rightarrow> json \<Rightarrow> json \<Rightarrow> 'w facade \<Rightarrow> dict result \<times> 'w facade" where
  "public_read_bytes fe file offset max_bytes expected = with_claims [fs_claim file ''read''] (\<lambda>cs.
     ephemeral fe ''fs.read_bytes'' [''fs.read''] cs
       [(''path'', JStr file), (''offset'', offset), (''max_bytes'', max_bytes), (''expected_file_version'', expected)] ''read-bytes'')"

definition stat_path :: "('w, 'sk, 'pk) facade_env \<Rightarrow> string \<Rightarrow> 'w facade \<Rightarrow> dict result \<times> 'w facade" where
  "stat_path fe file = with_claims [fs_claim file ''read''] (\<lambda>cs.
     ephemeral fe ''fs.stat'' [''fs.read''] cs [(''path'', JStr file)] ''stat'')"

definition list_directory :: "('w, 'sk, 'pk) facade_env \<Rightarrow> string \<Rightarrow> json \<Rightarrow> json \<Rightarrow> 'w facade \<Rightarrow> dict result \<times> 'w facade" where
  "list_directory fe file offset max_entries = with_claims [fs_claim file ''read''] (\<lambda>cs.
     ephemeral fe ''fs.list_dir'' [''fs.read''] cs [(''path'', JStr file), (''offset'', offset), (''max_entries'', max_entries)] ''list-directory'')"

definition search_files ::
  "('w, 'sk, 'pk) facade_env \<Rightarrow> string \<Rightarrow> string \<Rightarrow> json \<Rightarrow> json \<Rightarrow> json \<Rightarrow> json \<Rightarrow> bool \<Rightarrow> 'w facade \<Rightarrow> dict result \<times> 'w facade" where
  "search_files fe base query offset max_results max_entries max_depth case_sensitive = with_claims [fs_claim base ''read''] (\<lambda>cs.
     ephemeral fe ''fs.search'' [''fs.read''] cs
       [(''root'', JStr base), (''query'', JStr query), (''offset'', offset), (''max_results'', max_results),
        (''max_entries'', max_entries), (''max_depth'', max_depth), (''case_sensitive'', JBool case_sensitive)] ''search-files'')"

definition public_search_content ::
  "('w, 'sk, 'pk) facade_env \<Rightarrow> string \<Rightarrow> string \<Rightarrow> string \<Rightarrow> json \<Rightarrow> json \<Rightarrow> json \<Rightarrow> json \<Rightarrow> json \<Rightarrow> bool \<Rightarrow> 'w facade
   \<Rightarrow> dict result \<times> 'w facade" where
  "public_search_content fe base query file_pattern offset max_results max_entries max_depth max_total_bytes case_sensitive =
     with_claims [fs_claim base ''read''] (\<lambda>cs.
       ephemeral fe ''fs.search_content'' [''fs.read''] cs
         [(''root'', JStr base), (''query'', JStr query), (''file_pattern'', JStr file_pattern), (''offset'', offset),
          (''max_results'', max_results), (''max_entries'', max_entries), (''max_depth'', max_depth),
          (''max_total_bytes'', max_total_bytes), (''case_sensitive'', JBool case_sensitive)] ''search-content'')"

definition write_file :: "('w, 'sk, 'pk) facade_env \<Rightarrow> string \<Rightarrow> string \<Rightarrow> string \<Rightarrow> 'w facade \<Rightarrow> dict result \<times> 'w facade" where
  "write_file fe file content encoding = with_claims [fs_claim file ''write''] (\<lambda>cs.
     ephemeral fe ''fs.write_text'' [''fs.write''] cs
       [(''path'', JStr file), (''content'', JStr content), (''encoding'', JStr encoding)] ''write-file'')"

definition append_file :: "('w, 'sk, 'pk) facade_env \<Rightarrow> string \<Rightarrow> string \<Rightarrow> string \<Rightarrow> 'w facade \<Rightarrow> dict result \<times> 'w facade" where
  "append_file fe file content encoding = with_claims [fs_claim file ''write''] (\<lambda>cs.
     ephemeral fe ''fs.append_text'' [''fs.write''] cs
       [(''path'', JStr file), (''content'', JStr content), (''encoding'', JStr encoding)] ''append-file'')"

definition public_make_directory :: "('w, 'sk, 'pk) facade_env \<Rightarrow> string \<Rightarrow> bool \<Rightarrow> 'w facade \<Rightarrow> dict result \<times> 'w facade" where
  "public_make_directory fe file parents = with_claims [fs_claim file ''write''] (\<lambda>cs.
     ephemeral fe ''fs.mkdir'' [''fs.write''] cs [(''path'', JStr file), (''parents'', JBool parents)] ''mkdir'')"

definition public_move_path :: "('w, 'sk, 'pk) facade_env \<Rightarrow> string \<Rightarrow> string \<Rightarrow> 'w facade \<Rightarrow> dict result \<times> 'w facade" where
  "public_move_path fe source destination = with_claims [fs_claim source ''write'', fs_claim destination ''write''] (\<lambda>cs.
     ephemeral fe ''fs.move'' [''fs.write''] cs [(''source'', JStr source), (''destination'', JStr destination)] ''move'')"

definition public_replace_text ::
  "('w, 'sk, 'pk) facade_env \<Rightarrow> string \<Rightarrow> string \<Rightarrow> string \<Rightarrow> json \<Rightarrow> string \<Rightarrow> 'w facade \<Rightarrow> dict result \<times> 'w facade" where
  "public_replace_text fe file old_string new_string expected_count encoding = with_claims [fs_claim file ''write''] (\<lambda>cs.
     ephemeral fe ''fs.replace_text'' [''fs.read'', ''fs.write''] cs
       [(''path'', JStr file), (''old_string'', JStr old_string), (''new_string'', JStr new_string),
        (''expected_count'', expected_count), (''encoding'', JStr encoding)] ''replace-text'')"

definition public_run_process ::
  "('w, 'sk, 'pk) facade_env \<Rightarrow> string list \<Rightarrow> string \<Rightarrow> json \<Rightarrow> 'w facade \<Rightarrow> dict result \<times> 'w facade" where
  "public_run_process fe argv cwd timeout = with_claims [cwd_claim cwd ''write''] (\<lambda>cs.
     ephemeral fe ''process.exec'' [''process.exec''] cs
       [(''argv'', JList (map JStr argv)), (''cwd'', JStr cwd), (''timeout_s'', timeout)] ''run-process'')"

section \<open>Processes\<close>

text \<open>\<^verbatim>\<open>min(3600.0, max_runtime_s + PROCESS_LEASE_GRACE_S)\<close>: the second argument only where it is smaller.\<close>

definition lease_ttl :: "pyfloat \<Rightarrow> pyfloat" where
  "lease_ttl runtime = (let t = fadd runtime PROCESS_LEASE_GRACE_S in if flt t (Fin 3600) then t else Fin 3600)"

definition process_lane_capabilities :: "string list" where
  "process_lane_capabilities = [''process.exec'', ''process.inspect'', ''process.interact'', ''process.control'']"

text \<open>After the lane is open; a failure to start closes it and is raised.\<close>

definition start_in_lane ::
  "('w, 'sk, 'pk) facade_env \<Rightarrow> string list \<Rightarrow> string \<Rightarrow> pyfloat \<Rightarrow> string \<Rightarrow> int \<Rightarrow> 'w facade \<Rightarrow> dict result \<times> 'w facade" where
  "start_in_lane fe argv cwd runtime lane_id fence f =
     (case unwrapped (fe_py fe) (rt_call_operation (fe_rt fe) ''process.start''
             [(''lane_id'', JStr lane_id), (''fencing_token'', JInt fence), (''argv'', JList (map JStr argv)), (''cwd'', JStr cwd),
              (''max_runtime_s'', JFloat runtime)]) f of
        (Inl x, f1) \<Rightarrow> (Inl x, snd (close_lane_evidence fe lane_id fence f1))
      | (Inr result, f1) \<Rightarrow>
          if \<not> is_nonempty_str (map_of result ''process_handle'')
          then (Inl (Gateway PublicGatewayError), snd (close_lane_evidence fe lane_id fence f1))
          else (case new_id fe ''job'' f1 of
             (Inl x, f2) \<Rightarrow> (Inl x, f2)
           | (Inr handle, f2) \<Rightarrow>
               (case canonical_remote_path cwd of
                  Inl x \<Rightarrow> (Inl x, f2)
                | Inr where_run \<Rightarrow>
                    (Inr (AList.update ''process_handle'' (JStr handle) result),
                     f2\<lparr>f_processes := AList.update handle
                          \<lparr>public_handle = handle, internal_handle = str_arg result ''process_handle'', pl_lane_id = lane_id,
                           pl_fencing_token = fence, pl_cwd = where_run\<rparr> (f_processes f2)\<rparr>))))"

definition public_start_process ::
  "('w, 'sk, 'pk) facade_env \<Rightarrow> string list \<Rightarrow> string \<Rightarrow> json \<Rightarrow> 'w facade \<Rightarrow> dict result \<times> 'w facade" where
  "public_start_process fe argv cwd max_runtime_s f =
     (case py_float (fe_py fe) max_runtime_s of
        Inl x \<Rightarrow> (Inl x, f)
      | Inr runtime \<Rightarrow>
          with_claims [cwd_claim cwd ''write''] (\<lambda>cs f0.
            case public_open_lane fe process_lane_capabilities cs (lease_ttl runtime) ''start-process'' f0 of
              (Inl x, f1) \<Rightarrow> (Inl x, f1)
            | (Inr (lane_id, fence), f1) \<Rightarrow> start_in_lane fe argv cwd runtime lane_id fence f1) f)"

definition lease :: "'w facade \<Rightarrow> string \<Rightarrow> process_lease result" where
  "lease f handle = (case map_of (f_processes f) handle of None \<Rightarrow> Inl (Gateway PublicProcessNotFound) | Some l \<Rightarrow> Inr l)"

definition public_process_result :: "process_lease \<Rightarrow> dict \<Rightarrow> dict" where
  "public_process_result l result = AList.update ''process_handle'' (JStr (public_handle l)) result"

definition lease_request :: "process_lease \<Rightarrow> dict \<Rightarrow> dict" where
  "lease_request l body =
     [(''lane_id'', JStr (pl_lane_id l)), (''fencing_token'', JInt (pl_fencing_token l)), (''process_handle'', JStr (internal_handle l))] @ body"

definition process_operation ::
  "('w, 'sk, 'pk) facade_env \<Rightarrow> string \<Rightarrow> string \<Rightarrow> dict \<Rightarrow> 'w facade \<Rightarrow> dict result \<times> 'w facade" where
  "process_operation fe operation handle body f =
     (case lease f handle of
        Inl x \<Rightarrow> (Inl x, f)
      | Inr l \<Rightarrow>
          (case unwrapped (fe_py fe) (rt_call_operation (fe_rt fe) operation (lease_request l body)) f of
             (r, f1) \<Rightarrow> (map_sum id (public_process_result l) r, f1)))"

definition public_process_status :: "('w, 'sk, 'pk) facade_env \<Rightarrow> string \<Rightarrow> 'w facade \<Rightarrow> dict result \<times> 'w facade" where
  "public_process_status fe handle = process_operation fe ''process.status'' handle []"

definition public_process_output ::
  "('w, 'sk, 'pk) facade_env \<Rightarrow> string \<Rightarrow> json \<Rightarrow> json \<Rightarrow> json \<Rightarrow> 'w facade \<Rightarrow> dict result \<times> 'w facade" where
  "public_process_output fe handle stdout_offset stderr_offset max_bytes =
     process_operation fe ''process.output'' handle
       [(''stdout_offset'', stdout_offset), (''stderr_offset'', stderr_offset), (''max_bytes'', max_bytes)]"

definition public_process_input ::
  "('w, 'sk, 'pk) facade_env \<Rightarrow> string \<Rightarrow> string \<Rightarrow> bool \<Rightarrow> 'w facade \<Rightarrow> dict result \<times> 'w facade" where
  "public_process_input fe handle input_text append_newline =
     process_operation fe ''process.input'' handle [(''input_text'', JStr input_text), (''append_newline'', JBool append_newline)]"

definition terminate_process :: "('w, 'sk, 'pk) facade_env \<Rightarrow> string \<Rightarrow> json \<Rightarrow> 'w facade \<Rightarrow> dict result \<times> 'w facade" where
  "terminate_process fe handle grace = process_operation fe ''process.terminate'' handle [(''grace_s'', grace)]"

definition release_process :: "('w, 'sk, 'pk) facade_env \<Rightarrow> string \<Rightarrow> 'w facade \<Rightarrow> dict result \<times> 'w facade" where
  "release_process fe handle f =
     (case lease f handle of
        Inl x \<Rightarrow> (Inl x, f)
      | Inr l \<Rightarrow>
          (case close_lane_evidence fe (pl_lane_id l) (pl_fencing_token l) f of
             (cleanup, f1) \<Rightarrow>
               (Inr [(''process_handle'', JStr handle), (''released'', JBool (is_closed cleanup)), (''cleanup'', JObj cleanup)],
                if is_closed cleanup then f1\<lparr>f_processes := AList.delete handle (f_processes f1)\<rparr> else f1)))"

text \<open>\<^verbatim>\<open>tuple(sorted(self._processes))\<close>\<close>

definition handles :: "'w facade \<Rightarrow> string list" where
  "handles f = sort (map fst (f_processes f))"

fun status_each :: "('w, 'sk, 'pk) facade_env \<Rightarrow> string list \<Rightarrow> 'w facade \<Rightarrow> json list \<times> 'w facade" where
  "status_each fe [] f = ([], f)"
| "status_each fe (h # hs) f =
     (case public_process_status fe h f of
        (r, f1) \<Rightarrow>
          let item = (case r of
                Inr d \<Rightarrow> JObj d
              | Inl x \<Rightarrow> JObj [(''process_handle'', JStr h),
                  (''status_error'', JObj [(''code'', JStr (public_code (fe_class fe) x)), (''message'', JStr (fe_text fe x))])])
          in (case status_each fe hs f1 of (items, f2) \<Rightarrow> (item # items, f2)))"

definition list_processes :: "('w, 'sk, 'pk) facade_env \<Rightarrow> 'w facade \<Rightarrow> dict \<times> 'w facade" where
  "list_processes fe f = (case status_each fe (handles f) f of (items, f1) \<Rightarrow> ([(''processes'', JList items)], f1))"

text \<open>
  \<^verbatim>\<open>close\<close>: a handle that is no longer in the table ends the loop with the exception of \<^verbatim>\<open>_lease\<close>.
\<close>

fun release_each :: "('w, 'sk, 'pk) facade_env \<Rightarrow> string list \<Rightarrow> 'w facade \<Rightarrow> dict list result \<times> 'w facade" where
  "release_each fe [] f = (Inr [], f)"
| "release_each fe (h # hs) f =
     (case release_process fe h f of
        (Inl x, f1) \<Rightarrow> (Inl x, f1)
      | (Inr item, f1) \<Rightarrow>
          (case release_each fe hs f1 of
             (Inl x, f2) \<Rightarrow> (Inl x, f2)
           | (Inr items, f2) \<Rightarrow> (Inr (item # items), f2)))"

definition facade_close :: "('w, 'sk, 'pk) facade_env \<Rightarrow> 'w facade \<Rightarrow> dict result \<times> 'w facade" where
  "facade_close fe f =
     (case release_each fe (handles f) f of
        (Inl x, f1) \<Rightarrow> (Inl x, f1)
      | (Inr items, f1) \<Rightarrow>
          (Inr [(''released_processes'', JList (map JObj items)),
                (''drained'', JBool (list_all (\<lambda>d. map_of d ''released'' = Some (JBool True)) items))], f1))"

end
