(* ===== verification/Public_Calls.thy ===== *)
theory Public_Calls
  imports Public_Gateway
begin

text \<open>
  What the calls of the public facade do: which requests they put on the log, that they keep the table of leases
  backed by the processes the workstation started, and that a lane is closed or its caller told so.
\<close>

section \<open>What a call adds to the log\<close>

text \<open>
  For the operations in a set \<open>D\<close> that the runtime never sends on its own account, a call is calm when none of
  the requests it sends is one of them. The runtime's own requests are probes and those of the read lane
  router; the calmness of every other call is proved once for all such sets.
\<close>

definition SERVICE_OPERATIONS :: "string list" where
  "SERVICE_OPERATIONS = [''lane.list'', ''lane.open''] @ LANE_BOUND"

definition free_of :: "string set \<Rightarrow> dict \<Rightarrow> bool" where
  "free_of D req \<longleftrightarrow> (\<forall>op \<in> D. map_of req ''operation'' \<noteq> Some (JStr op))"

abbreviation log :: "'w controller \<Rightarrow> sent list" where
  "log c \<equiv> ns_log (c_net c)"

definition adds :: "(sent \<Rightarrow> bool) \<Rightarrow> sent list \<Rightarrow> sent list \<Rightarrow> bool" where
  "adds P L M \<longleftrightarrow> (\<exists>d. M = L @ d \<and> (\<forall>x \<in> set d. P x))"

abbreviation calm :: "string set \<Rightarrow> 'w controller \<Rightarrow> 'w controller \<Rightarrow> bool" where
  "calm D c c' \<equiv> adds (\<lambda>x. free_of D (s_request x)) (log c) (log c')"

lemma adds_refl [simp, intro]: "adds P L L"
  by (simp add: adds_def)

lemma adds_trans: "adds P L M \<Longrightarrow> adds P M N \<Longrightarrow> adds P L N"
  by (force simp: adds_def)

lemma adds_mono: "adds P L M \<Longrightarrow> (\<And>x. P x \<Longrightarrow> Q x) \<Longrightarrow> adds Q L M"
  by (auto simp: adds_def)

lemma adds_snoc: "P x \<Longrightarrow> adds P L (L @ [x])"
  by (simp add: adds_def)

lemma register_live_log [simp]: "log (snd (register_live e c)) = log c" "log (set_live e c) = log c"
  by (auto simp: register_live_def set_live_def split: sum.splits)

lemma close_channel_log [simp]: "log (close_channel rt eid sid c) = log c"
  by (simp add: close_channel_def)

lemma drop_endpoint_log [simp]: "log (drop_endpoint rt spec cur c) = log c"
  by (simp add: drop_endpoint_def Let_def)

lemma free_of_operation: "map_of req ''operation'' = Some (JStr op) \<Longrightarrow> op \<notin> D \<Longrightarrow> free_of D req"
  by (auto simp: free_of_def)

lemma request_loop_answer:
  assumes "request_loop now max_age send mutating candidates [] None None = (Inr resp, es)"
  shows "\<exists>e \<in> set es. send e = Inr resp"
proof (cases "0 \<le> now \<and> 0 \<le> max_age")
  case True
  then have "es \<noteq> [] \<and> send (last es) = Inr resp"
    using request_loop_good [of now max_age send mutating candidates "[]" None None] assms by (auto simp: good_run_def)
  then show ?thesis using last_in_set by metis
next
  case False
  then show ?thesis
    using assms by (subst (asm) request_loop.simps) (auto simp: select_path_def Let_def split: if_splits)
qed

lemma gateway_call_log:
  assumes "gateway_call net p gw op body s = (r, s')"
  shows "adds (\<lambda>x. \<exists>rid. s_request x = gateway_request rid op body) (ns_log s) (ns_log s')"
    and "r = Inr resp \<Longrightarrow> \<exists>x \<in> set (ns_log s'). (\<exists>rid. s_request x = gateway_request rid op body) \<and> s_answer x = Inr resp"
proof -
  obtain rid s1 where i: "fresh_id net s = (rid, s1)" by fastforce
  obtain now s2 where n: "now_ms net s1 = (now, s2)" by fastforce
  define req where "req = gateway_request rid op body"
  let ?send = "\<lambda>e req. n_answer net (ns_world s2) (endpoint_id e) (session_id (binding e)) req"
  obtain q es where pr: "pool_request ?send p (gw_workstation gw) (gw_controller gw) req now (gw_max_path_age_ms gw)
      (gw_request_timeout_s gw) = (q, es)" by fastforce
  have same: "ns_log s1 = ns_log s" "ns_log s2 = ns_log s" using fresh_id_log [OF i] now_ms_log [OF n] by simp_all
  have run: "(\<exists>x. r = Inl x) \<and> ns_log s' = ns_log s \<or> r = q \<and> ns_log s' = ns_log s @ map (sent_to net (ns_world s2) req) es"
    using assms i n pr same by (auto simp: gateway_call_def req_def Let_def split: if_splits)
  then show "adds (\<lambda>x. \<exists>rid. s_request x = gateway_request rid op body) (ns_log s) (ns_log s')"
    by (auto simp: adds_def sent_to_def req_def)
  assume r: "r = Inr resp"
  then have "\<exists>e \<in> set es. ?send e req = Inr resp"
    using run pr request_loop_answer [of now _ "\<lambda>e. ?send e req"] by (fastforce simp: pool_request_def split: if_splits)
  then obtain e where e: "e \<in> set es" "?send e req = Inr resp" by blast
  have "sent_to net (ns_world s2) req e \<in> set (ns_log s')" using run r e(1) by auto
  moreover have "s_request (sent_to net (ns_world s2) req e) = gateway_request rid op body"
    "s_answer (sent_to net (ns_world s2) req e) = Inr resp"
    using e(2) by (simp_all add: sent_to_def req_def)
  ultimately show "\<exists>x \<in> set (ns_log s'). (\<exists>rid. s_request x = gateway_request rid op body) \<and> s_answer x = Inr resp"
    by blast
qed

lemma bound_body_operation: "plain_body body \<Longrightarrow> ''operation'' \<notin> fst ` set ([(''lane_id'', a), (''fencing_token'', b)] @ body)"
  by (auto simp: plain_body_def)

text \<open>A call of the runtime that keeps its reachable states and sends nothing in the set.\<close>

definition calm_call :: "string set \<Rightarrow> ('w, 'sk, 'pk) facade_env \<Rightarrow> ('w controller \<Rightarrow> 'a \<times> 'w controller) \<Rightarrow> bool" where
  "calm_call D fe g \<longleftrightarrow> (\<forall>c r c'. config_ok (rt_config (fe_rt fe)) \<longrightarrow> controller_reach (fe_py fe) (fe_rt fe) c \<longrightarrow> g c = (r, c')
     \<longrightarrow> controller_reach (fe_py fe) (fe_rt fe) c' \<and> calm D c c')"

abbreviation runs :: "('w, 'sk, 'pk) facade_env \<Rightarrow> 'w facade \<Rightarrow> bool" where
  "runs fe f \<equiv> config_ok (rt_config (fe_rt fe)) \<and> controller_reach (fe_py fe) (fe_rt fe) (f_runtime f)"

abbreviation flog :: "'w facade \<Rightarrow> sent list" where
  "flog f \<equiv> log (f_runtime f)"

definition calm_step :: "string set \<Rightarrow> ('w, 'sk, 'pk) facade_env \<Rightarrow> 'w facade \<Rightarrow> 'w facade \<Rightarrow> bool" where
  "calm_step D fe f f' \<longleftrightarrow> f_processes f' = f_processes f
     \<and> (runs fe f \<longrightarrow> runs fe f' \<and> adds (\<lambda>x. free_of D (s_request x)) (flog f) (flog f'))"

lemma calm_step_refl [simp, intro]: "calm_step D fe f f"
  by (simp add: calm_step_def)

lemma calm_step_trans [trans]: "calm_step D fe f f1 \<Longrightarrow> calm_step D fe f1 f2 \<Longrightarrow> calm_step D fe f f2"
  by (auto simp: calm_step_def intro: adds_trans)

lemma unwrap_Inr: "unwrap env resp = Inr d \<Longrightarrow> is_ok resp \<and> map_of resp ''result'' = Some (JObj d)"
  by (auto simp: unwrap_def split: if_splits option.splits json.splits)

lemma unwrapped_Inr:
  assumes "unwrapped env g f = (Inr d, f')"
  obtains resp where "g (f_runtime f) = (Inr resp, f_runtime f')" "is_ok resp" "map_of resp ''result'' = Some (JObj d)"
  using assms by (auto simp: unwrapped_def on_runtime_def split: prod.splits sum.splits dest!: unwrap_Inr)

lemma new_id_Inr: "new_id fe pre f = (Inr i, f') \<Longrightarrow> prefix (pre @ '':'' @ actor_tag fe @ '':'') i"
  by (auto simp: new_id_def Let_def case_prod_unfold split: if_splits)

lemma public_open_Inr:
  assumes "public_open_lane fe caps claims ttl task f = (Inr (lid, tok), f')"
  shows "prefix (''public-lane:'' @ actor_tag fe @ '':'') lid \<and> 1 \<le> tok"
  using assms new_id_Inr [of fe "''public-lane''" f lid]
  by (auto simp: public_open_lane_def fence_of_def split: prod.splits sum.splits option.splits json.splits if_splits)

text \<open>What is not sent, where the probes of a controller are not among it, and where nothing a read needs is among it.\<close>

locale unprobed =
  fixes D :: "string set"
  assumes unprobed: "''lane.list'' \<notin> D"
begin

lemma free_probe: "free_of D (probe_request rid)"
  by (rule free_of_operation [of _ "''lane.list''"]) (simp_all add: probe_request_def unprobed)

lemma probe_calm: "probe rt spec b s = (r, s') \<Longrightarrow> adds (\<lambda>x. free_of D (s_request x)) (ns_log s) (ns_log s')"
  by (auto simp: probe_def transmit_def fresh_id_def now_ms_def Let_def adds_def free_probe case_prod_unfold
      split: sum.splits if_splits)

lemma connect_calm: "calm D c (snd (connect rt spec c))"
  using probe_calm
  by (fastforce simp: connect_def Let_def split: option.split prod.split sum.split if_split)

lemma refresh_endpoint_calm: "calm D c (refresh_endpoint rt now spec c)"
proof -
  have conn: "calm D c (snd (connect rt spec d))" if "calm D c d" for d
    using adds_trans [OF that connect_calm] .
  have drop: "calm D c (snd (connect rt spec (drop_endpoint rt spec cur d)))" if "calm D c d" for cur d
    using conn that by simp
  show ?thesis
  proof (cases "map_of (c_live c) (ec_id spec)")
    case None
    then show ?thesis by (simp add: refresh_endpoint_def connect_calm)
  next
    case (Some cur)
    obtain r s where p: "probe rt spec (le_binding cur) (c_net c) = (r, s)" by fastforce
    note pc = probe_calm [OF p]
    have reg: "log (snd (register_live e (set_live e (c\<lparr>c_net := s\<rparr>)))) = ns_log s" for e by simp
    show ?thesis
    proof (cases r)
      case (Inl x)
      then show ?thesis using Some p drop [of "c\<lparr>c_net := s\<rparr>" cur] drop [of c cur] pc by (simp add: refresh_endpoint_def)
    next
      case (Inr q)
      let ?e = "cur\<lparr>le_path := q\<rparr>"
      obtain u c2 where u: "register_live ?e (set_live ?e (c\<lparr>c_net := s\<rparr>)) = (u, c2)" by fastforce
      have c2: "calm D c c2" using reg [of ?e] u pc by simp
      then show ?thesis using Some p Inr u drop [OF c2, of ?e] drop [of c cur]
        by (cases u) (simp_all add: refresh_endpoint_def Let_def)
    qed
  qed
qed

lemma refresh_paths_calm: "calm D c (snd (refresh_paths rt c))"
proof -
  have fold: "calm D c (fold (refresh_endpoint rt now) specs c)" for specs now and c :: "'a controller"
    by (induction specs arbitrary: c) (auto intro: adds_trans [OF refresh_endpoint_calm])
  have "log (snd (load_identities rt c)) = log c" for c :: "'a controller"
    by (auto simp: load_identities_def split: option.split sum.split)
  then show ?thesis
    using fold [of "snd (load_identities rt c)\<lparr>c_net := snd (now_ms (rt_net rt) (c_net (snd (load_identities rt c))))\<rparr>"]
    by (auto simp: refresh_paths_def refresh_def Let_def case_prod_unfold now_ms_def split: prod.split sum.split)
qed

lemma ensure_started_calm: "ensure_started rt c = (r, c') \<Longrightarrow> calm D c c'"
  using refresh_paths_calm [of c rt]
  by (auto simp: ensure_started_def split: prod.splits sum.splits option.splits)

lemma via_gateway_calm:
  assumes "via_gateway rt gw op body c = (r, c')" "op \<notin> D" "''operation'' \<notin> fst ` set body"
  shows "calm D c c'"
proof -
  obtain s where g: "gateway_call (rt_net rt) (c_pool c) gw op body (c_net c) = (r, s)" "c' = c\<lparr>c_net := s\<rparr>"
    using assms(1) by (auto simp: via_gateway_def split: prod.splits)
  have "free_of D (gateway_request rid op body)" for rid
    by (rule free_of_operation [OF gateway_request_operation [OF assms(3)] assms(2)])
  then have "adds (\<lambda>x. free_of D (s_request x)) (ns_log (c_net c)) (ns_log s)"
    by (intro adds_mono [OF gateway_call_log(1) [OF g(1)]]) auto
  then show ?thesis using g(2) by simp
qed

lemma started_calm:
  assumes "started rt k c = (r, c')" "controller_inv (rt_config rt) c" "config_ok (rt_config rt)"
    and "\<And>gw c1 q c2. k gw c1 = (q, c2) \<Longrightarrow> controller_inv (rt_config rt) c1 \<Longrightarrow> calm D c1 c2"
  shows "calm D c c'"
proof -
  obtain q c1 where e: "ensure_started rt c = (q, c1)" by fastforce
  note st = ensure_started_inv [OF assms(2,3) refl e] ensure_started_calm [OF e]
  show ?thesis using assms(1) e st assms(4) [of _ c1] by (cases q) (auto simp: started_def intro: adds_trans)
qed

end

locale unsent =
  fixes D :: "string set"
  assumes unsent: "D \<inter> set SERVICE_OPERATIONS = {}"
begin

lemma service_free: "op \<in> set SERVICE_OPERATIONS \<Longrightarrow> op \<notin> D"
  using unsent by auto

lemma service_ops [simp]:
  "''lane.open'' \<notin> D" "''lane.close'' \<notin> D" "''lane.list'' \<notin> D" "''fs.read_text'' \<notin> D" "''fs.read_bytes'' \<notin> D"
  "''fs.stat'' \<notin> D" "''fs.list_dir'' \<notin> D" "''fs.search'' \<notin> D" "''fs.search_content'' \<notin> D"
  by (rule service_free, simp add: SERVICE_OPERATIONS_def LANE_BOUND_def MIRRORED_OPERATIONS_def)+

end

sublocale unsent \<subseteq> unprobed D
  by unfold_locales simp

context unsent
begin

lemma grew_calm: "grew L M \<Longrightarrow> adds (\<lambda>x. free_of D (s_request x)) L M"
proof (induction rule: grew.induct)
  case (grew_snoc L M x)
  have "\<exists>op \<in> set SERVICE_OPERATIONS. map_of (s_request x) ''operation'' = Some (JStr op)"
    using grew_snoc.hyps(2) by (auto simp: in_order_def opens_for_reading_def SERVICE_OPERATIONS_def)
  then have "free_of D (s_request x)" using free_of_operation service_free by blast
  then show ?case using grew_snoc.IH adds_trans adds_snoc by metis
qed simp

lemma via_router_calm:
  assumes "via_router g rt c = (r, c')"
    and "\<And>age live q rr s. g age live (c_router c) (c_net c) = (q, rr, s) \<Longrightarrow> grew (log c) (ns_log s) \<and> router_inv rr (ns_log s)"
  shows "calm D c c'"
  using assms grew_calm by (auto simp: via_router_def split: prod.splits)

lemma calm_callI:
  assumes "\<And>c r c'. g c = (r, c') \<Longrightarrow> controller_reach (fe_py fe) (fe_rt fe) c \<Longrightarrow> controller_reach (fe_py fe) (fe_rt fe) c'"
    and "\<And>c r c'. g c = (r, c') \<Longrightarrow> controller_inv (rt_config (fe_rt fe)) c \<Longrightarrow> config_ok (rt_config (fe_rt fe)) \<Longrightarrow> calm D c c'"
  shows "calm_call D fe g"
  using assms controller_reach_inv by (fastforce simp: calm_call_def)

lemma router_open_calm:
  "via_router (\<lambda>age live. router_open env net age live lid task caps claims ttl) rt c = (r, c') \<Longrightarrow> controller_inv cfg c \<Longrightarrow> calm D c c'"
  by (erule via_router_calm) (rule router_open_ok [OF _ controller_inv_router])

lemma router_close_calm:
  "via_router (\<lambda>age live. router_close net age live lid tok) rt c = (r, c') \<Longrightarrow> controller_inv cfg c \<Longrightarrow> calm D c c'"
  by (erule via_router_calm) (rule router_close_ok [OF _ controller_inv_router])

lemma router_read_calm:
  "via_router (\<lambda>age live. router_read net age live pre op body lid tok) rt c = (r, c') \<Longrightarrow> controller_inv cfg c
   \<Longrightarrow> op \<in> set LANE_BOUND \<Longrightarrow> plain_body body \<Longrightarrow> calm D c c'"
  by (erule via_router_calm) (rule router_read_ok [OF _ controller_inv_router])

lemma calm_open: "calm_call D fe (rt_open_lane (fe_py fe) (fe_rt fe) lid task caps claims ttl)"
proof (rule calm_callI)
  fix c r and c' :: "'a controller"
  assume "rt_open_lane (fe_py fe) (fe_rt fe) lid task caps claims ttl c = (r, c')" "controller_inv (rt_config (fe_rt fe)) c"
    "config_ok (rt_config (fe_rt fe))"
  then show "calm D c c'" unfolding rt_open_lane_def
    by (rule started_calm)
      (auto simp: open_lane_body_def split: if_splits elim!: router_open_calm via_gateway_calm)
qed (rule ctl_open)

lemma calm_close: "calm_call D fe (rt_close_lane (fe_rt fe) lid tok)"
proof (rule calm_callI)
  fix c r and c' :: "'a controller"
  assume "rt_close_lane (fe_rt fe) lid tok c = (r, c')" "controller_inv (rt_config (fe_rt fe)) c"
    "config_ok (rt_config (fe_rt fe))"
  then show "calm D c c'" unfolding rt_close_lane_def
    by (rule started_calm)
      (auto simp: close_lane_body_def split: if_splits elim!: router_close_calm via_gateway_calm)
qed (rule ctl_close_lane)

lemma calm_read_text: "calm_call D fe (rt_read_text (fe_rt fe) lid tok fname enc)"
proof (rule calm_callI)
  fix c r and c' :: "'a controller"
  assume "rt_read_text (fe_rt fe) lid tok fname enc c = (r, c')" "controller_inv (rt_config (fe_rt fe)) c"
    "config_ok (rt_config (fe_rt fe))"
  then show "calm D c c'" unfolding rt_read_text_def router_read_text_def
    by (rule started_calm)
      (auto simp: read_text_body_def plain_reads split: if_splits elim!: router_read_calm via_gateway_calm)
qed (rule ctl_read_text)

lemma calm_read_bytes: "calm_call D fe (rt_read_bytes (fe_rt fe) lid tok fname off mx ver)"
proof (rule calm_callI)
  fix c r and c' :: "'a controller"
  assume "rt_read_bytes (fe_rt fe) lid tok fname off mx ver c = (r, c')" "controller_inv (rt_config (fe_rt fe)) c"
    "config_ok (rt_config (fe_rt fe))"
  then show "calm D c c'" unfolding rt_read_bytes_def router_read_bytes_def
    by (rule started_calm)
      (auto simp: read_bytes_body_def plain_reads split: if_splits elim!: router_read_calm via_gateway_calm)
qed (rule ctl_read_bytes)

lemma mirrored_service: "op \<in> set MIRRORED_OPERATIONS \<Longrightarrow> op \<in> set LANE_BOUND \<and> op \<notin> D"
  using service_free by (auto simp: LANE_BOUND_def SERVICE_OPERATIONS_def)

lemma calm_read_operation:
  assumes "plain_body body"
  shows "calm_call D fe (rt_read_operation (fe_rt fe) op lid tok body)"
proof (rule calm_callI)
  fix c r and c' :: "'a controller"
  assume "rt_read_operation (fe_rt fe) op lid tok body c = (r, c')" "controller_inv (rt_config (fe_rt fe)) c"
    "config_ok (rt_config (fe_rt fe))"
  then show "calm D c c'" unfolding rt_read_operation_def
  proof (rule started_calm)
    fix gw q and c1 c2 :: "'a controller"
    assume run: "(if op \<notin> set MIRRORED_OPERATIONS then (Inl (Gateway GatewayOperationDenied), c1)
        else if op \<notin> gateway_operations (rt_config (fe_rt fe)) then (Inl (Gateway GatewayOperationDenied), c1)
        else if router_owns (c_router c1) lid tok
        then via_router (\<lambda>age live. router_call_read (rt_net (fe_rt fe)) age live op lid tok body) (fe_rt fe) c1
        else via_gateway (fe_rt fe) gw op ([(''lane_id'', JStr lid), (''fencing_token'', JInt tok)] @ body) c1) = (q, c2)"
      and inv: "controller_inv (rt_config (fe_rt fe)) c1"
    show "calm D c1 c2"
    proof (cases "op \<in> set MIRRORED_OPERATIONS")
      case True
      note op = mirrored_service [OF True]
      have rd: "router_call_read net age live op lid tok body = router_read net age live ''logical-read-op-'' op body lid tok" for net age live
        using True by (simp add: router_call_read_def [abs_def])
      have "calm D c1 c2" if "via_gateway (fe_rt fe) gw op ([(''lane_id'', JStr lid), (''fencing_token'', JInt tok)] @ body) c1 = (q, c2)"
        by (rule via_gateway_calm [OF that _ bound_body_operation [OF assms]]) (use op in simp)
      moreover have "calm D c1 c2" if "via_router (\<lambda>age live. router_call_read (rt_net (fe_rt fe)) age live op lid tok body) (fe_rt fe) c1 = (q, c2)"
        by (rule router_read_calm [OF that [unfolded rd] inv]) (use op assms in simp_all)
      ultimately show ?thesis using run by (auto split: if_splits)
    qed (use run in simp)
  qed
qed (rule ctl_read_op [OF _ assms])

lemma calm_write: "''fs.write_text'' \<notin> D \<Longrightarrow> calm_call D fe (rt_write_text (fe_rt fe) lid tok fname content enc)"
proof (rule calm_callI)
  assume w: "''fs.write_text'' \<notin> D"
  fix c r and c' :: "'a controller"
  assume "rt_write_text (fe_rt fe) lid tok fname content enc c = (r, c')" "controller_inv (rt_config (fe_rt fe)) c"
    "config_ok (rt_config (fe_rt fe))"
  then show "calm D c c'" unfolding rt_write_text_def
    by (rule started_calm) (erule via_gateway_calm; simp add: write_text_body_def w)
qed (rule ctl_write)

lemma calm_operation:
  assumes "op \<notin> D" "''operation'' \<notin> fst ` set body"
  shows "calm_call D fe (rt_call_operation (fe_rt fe) op body)"
proof (rule calm_callI)
  fix c r and c' :: "'a controller"
  assume "rt_call_operation (fe_rt fe) op body c = (r, c')" "controller_inv (rt_config (fe_rt fe)) c"
    "config_ok (rt_config (fe_rt fe))"
  then show "calm D c c'" unfolding rt_call_operation_def
    by (rule started_calm) (erule via_gateway_calm [OF _ assms])
qed (rule ctl_call, assumption, rule assms(2), assumption)

lemma calm_info: "calm_call D fe (machine_info (fe_rt fe))"
proof (rule calm_callI)
  fix c r and c' :: "'a controller"
  assume "machine_info (fe_rt fe) c = (r, c')" "controller_inv (rt_config (fe_rt fe)) c" "config_ok (rt_config (fe_rt fe))"
  then show "calm D c c'" unfolding machine_info_def
    by (rule started_calm) (auto simp: route_decision_def now_ms_def Let_def case_prod_unfold split: sum.splits)
qed (rule ctl_info)

lemma calm_if: "(b \<Longrightarrow> calm_call D fe g) \<Longrightarrow> (\<not> b \<Longrightarrow> calm_call D fe h) \<Longrightarrow> calm_call D fe (if b then g else h)"
  by simp

lemma calm_ephemeral:
  assumes "op \<notin> D" "plain_body body"
  shows "calm_call D fe (ephemeral_call (fe_rt fe) op lid tok body)"
  unfolding ephemeral_call_def
  by (intro calm_if calm_read_text calm_read_bytes calm_read_operation [OF assms(2)] calm_write
      calm_operation [OF assms(1) bound_body_operation [OF assms(2)]]) (use assms(1) in simp)

text \<open>An operation of the workstation: its requests, and the one that was answered.\<close>

lemma call_operation_log:
  assumes "rt_call_operation rt op body c = (r, c')"
  shows "adds (\<lambda>x. free_of D (s_request x) \<or> (\<exists>rid. s_request x = gateway_request rid op body)) (log c) (log c')"
    and "r = Inr resp \<Longrightarrow> \<exists>x \<in> set (log c'). (\<exists>rid. s_request x = gateway_request rid op body) \<and> s_answer x = Inr resp"
proof -
  obtain q c1 where e: "ensure_started rt c = (q, c1)" by fastforce
  let ?P = "\<lambda>x. free_of D (s_request x) \<or> (\<exists>rid. s_request x = gateway_request rid op body)"
  have st: "adds ?P (log c) (log c1)" by (rule adds_mono [OF ensure_started_calm [OF e]]) simp
  have cases: "(\<exists>x. r = Inl x) \<and> c' = c1 \<or> (\<exists>gw. via_gateway rt gw op body c1 = (r, c'))"
    using assms unfolding rt_call_operation_def started_def e by (cases q) auto
  have gw: "adds ?P (log c1) (log c') \<and> (r = Inr resp \<longrightarrow>
      (\<exists>x \<in> set (log c'). (\<exists>rid. s_request x = gateway_request rid op body) \<and> s_answer x = Inr resp))"
    if via: "via_gateway rt gw op body c1 = (r, c')" for gw
  proof -
    obtain s where g: "gateway_call (rt_net rt) (c_pool c1) gw op body (c_net c1) = (r, s)" "c' = c1\<lparr>c_net := s\<rparr>"
      using via by (auto simp: via_gateway_def split: prod.splits)
    have "adds ?P (log c1) (ns_log s)" by (rule adds_mono [OF gateway_call_log(1) [OF g(1)]]) simp
    then show ?thesis using gateway_call_log(2) [OF g(1), of resp] g(2) by simp
  qed
  show "adds ?P (log c) (log c')" using cases gw st adds_trans [OF st] by auto
  show "r = Inr resp \<Longrightarrow> \<exists>x \<in> set (log c'). (\<exists>rid. s_request x = gateway_request rid op body) \<and> s_answer x = Inr resp"
    using cases gw by auto
qed

section \<open>Calls that do not touch the leases\<close>

lemma calm_on_runtime: "calm_call D fe g \<Longrightarrow> on_runtime g f = (r, f') \<Longrightarrow> calm_step D fe f f'"
  by (auto simp: calm_step_def calm_call_def on_runtime_def split: prod.splits)

lemma calm_unwrapped: "calm_call D fe g \<Longrightarrow> unwrapped env g f = (r, f') \<Longrightarrow> calm_step D fe f f'"
  using calm_on_runtime by (fastforce simp: unwrapped_def split: prod.splits sum.splits)

lemma new_id_calm: "new_id fe pre f = (r, f') \<Longrightarrow> calm_step D fe f f'"
  by (auto simp: new_id_def calm_step_def Let_def case_prod_unfold intro: ctl_world split: if_splits)

lemma open_calm:
  assumes "public_open_lane fe caps claims ttl task f = (r, f')"
  shows "calm_step D fe f f'"
proof -
  obtain q1 f1 where n1: "new_id fe ''public-lane'' f = (q1, f1)" by fastforce
  obtain q2 f2 where n2: "new_id fe task f1 = (q2, f2)" by fastforce
  obtain q3 f3 where o: "unwrapped (fe_py fe) (rt_open_lane (fe_py fe) (fe_rt fe) (projr q1) (projr q2) caps claims ttl) f2 = (q3, f3)" by fastforce
  note steps = new_id_calm [OF n1] new_id_calm [OF n2] calm_unwrapped [OF calm_open o]
  have "calm_step D fe f f2" using steps(1,2) by (rule calm_step_trans)
  moreover have "calm_step D fe f f3" using \<open>calm_step D fe f f2\<close> steps(3) by (rule calm_step_trans)
  moreover have "f' \<in> {f1, f2, f3}"
    using assms n1 n2 o by (cases q1; cases q2; cases q3) (auto simp: public_open_lane_def split: sum.splits)
  ultimately show "calm_step D fe f f'" using steps(1) by blast
qed

lemma evidence_calm: "close_lane_evidence fe lid tok f = (d, f') \<Longrightarrow> calm_step D fe f f'"
  using calm_on_runtime [OF calm_close] by (fastforce simp: close_lane_evidence_def split: prod.splits sum.splits if_splits)

lemma ephemeral_calm:
  assumes "ephemeral fe op caps claims body task f = (r, f')" "op \<notin> D" "plain_body body"
  shows "calm_step D fe f f'"
proof -
  obtain q f1 where o: "public_open_lane fe caps claims (Fin 300) task f = (q, f1)" by fastforce
  show ?thesis
  proof (cases q)
    case (Inl x)
    then show ?thesis using assms(1) o open_calm [OF o] by (simp add: ephemeral_def)
  next
    case (Inr a)
    obtain lid tok where a: "a = (lid, tok)" by fastforce
    obtain r1 f2 where u: "unwrapped (fe_py fe) (ephemeral_call (fe_rt fe) op lid tok body) f1 = (r1, f2)" by fastforce
    obtain d f3 where e: "close_lane_evidence fe lid tok f2 = (d, f3)" by fastforce
    have "calm_step D fe f f3"
      using open_calm [OF o] calm_unwrapped [OF calm_ephemeral [OF assms(2,3)] u] evidence_calm [OF e] calm_step_trans by blast
    then show ?thesis using assms(1) o Inr a u e by (simp add: ephemeral_def)
  qed
qed

lemma with_claims_calm:
  assumes "with_claims rs k f = (r, f')" "\<And>cs. k cs f = (r, f') \<Longrightarrow> calm_step D fe f f'"
  shows "calm_step D fe f f'"
  using assms by (auto simp: with_claims_def split: list.splits)

lemmas calm_call_defs = read_file_def public_read_bytes_def stat_path_def list_directory_def search_files_def
  public_search_content_def write_file_def append_file_def public_make_directory_def public_move_path_def
  public_replace_text_def public_run_process_def

lemma read_calls_calm:
  "read_file fe fname enc f = (r, f') \<Longrightarrow> calm_step D fe f f'"
  "public_read_bytes fe fname j1 j2 j3 f = (r, f') \<Longrightarrow> calm_step D fe f f'"
  "stat_path fe fname f = (r, f') \<Longrightarrow> calm_step D fe f f'"
  "list_directory fe fname j1 j2 f = (r, f') \<Longrightarrow> calm_step D fe f f'"
  "search_files fe fname q j1 j2 j3 j4 b f = (r, f') \<Longrightarrow> calm_step D fe f f'"
  "public_search_content fe fname q pat j1 j2 j3 j4 j5 b f = (r, f') \<Longrightarrow> calm_step D fe f f'"
  unfolding calm_call_defs
  by (erule with_claims_calm, erule ephemeral_calm; simp add: plain_body_def)+

lemma write_calls_calm:
  "write_file fe fname content enc f = (r, f') \<Longrightarrow> ''fs.write_text'' \<notin> D \<Longrightarrow> calm_step D fe f f'"
  "append_file fe fname content enc f = (r, f') \<Longrightarrow> ''fs.append_text'' \<notin> D \<Longrightarrow> calm_step D fe f f'"
  "public_make_directory fe fname b f = (r, f') \<Longrightarrow> ''fs.mkdir'' \<notin> D \<Longrightarrow> calm_step D fe f f'"
  "public_move_path fe fname dest f = (r, f') \<Longrightarrow> ''fs.move'' \<notin> D \<Longrightarrow> calm_step D fe f f'"
  "public_replace_text fe fname old new j1 enc f = (r, f') \<Longrightarrow> ''fs.replace_text'' \<notin> D \<Longrightarrow> calm_step D fe f f'"
  "public_run_process fe argv cwd t f = (r, f') \<Longrightarrow> ''process.exec'' \<notin> D \<Longrightarrow> calm_step D fe f f'"
  unfolding calm_call_defs
  by (erule with_claims_calm, erule ephemeral_calm; simp add: plain_body_def)+

lemma info_calm: "computer_info fe f = (r, f') \<Longrightarrow> calm_step D fe f f'"
  by (simp add: computer_info_def calm_on_runtime [OF calm_info])

lemma process_operation_calm:
  assumes "process_operation fe op h body f = (r, f')" "op \<notin> D" "plain_body body"
  shows "calm_step D fe f f'"
proof (cases "map_of (f_processes f) h")
  case None
  then show ?thesis using assms(1) by (simp add: process_operation_def lease_def)
next
  case (Some l)
  obtain q f1 where u: "unwrapped (fe_py fe) (rt_call_operation (fe_rt fe) op (lease_request l body)) f = (q, f1)" by fastforce
  have "''operation'' \<notin> fst ` set (lease_request l body)" using assms(3) by (auto simp: lease_request_def plain_body_def)
  then have "calm_step D fe f f1" by (rule calm_unwrapped [OF calm_operation [OF assms(2)] u])
  then show ?thesis using assms(1) Some u by (simp add: process_operation_def lease_def)
qed

end

section \<open>Leases\<close>

text \<open>
  \<open>started_with\<close>: the log holds a start of a process in this lane with this token, answered with this
  handle. A lease is backed by such a start, and so is every request that names a process.
\<close>

definition HANDLE_OPERATIONS :: "string list" where
  "HANDLE_OPERATIONS = [''process.status'', ''process.output'', ''process.input'', ''process.terminate'']"

interpretation handles: unsent "set HANDLE_OPERATIONS"
  by unfold_locales (simp add: HANDLE_OPERATIONS_def SERVICE_OPERATIONS_def LANE_BOUND_def MIRRORED_OPERATIONS_def)

interpretation any_call: unsent "{}"
  by unfold_locales simp

definition started_with :: "sent list \<Rightarrow> string \<Rightarrow> int \<Rightarrow> string \<Rightarrow> bool" where
  "started_with L lid tok h \<longleftrightarrow> (\<exists>x \<in> set L. map_of (s_request x) ''operation'' = Some (JStr ''process.start'')
     \<and> map_of (s_request x) ''lane_id'' = Some (JStr lid) \<and> map_of (s_request x) ''fencing_token'' = Some (JInt tok)
     \<and> (\<exists>resp d. s_answer x = Inr resp \<and> is_ok resp \<and> map_of resp ''result'' = Some (JObj d)
          \<and> map_of d ''process_handle'' = Some (JStr h)))"

definition backed :: "string \<Rightarrow> sent list \<Rightarrow> dict \<Rightarrow> bool" where
  "backed tag L req \<longleftrightarrow> free_of (set HANDLE_OPERATIONS) req
     \<or> (\<exists>lid tok h. prefix (''public-lane:'' @ tag @ '':'') lid \<and> map_of req ''lane_id'' = Some (JStr lid) \<and> map_of req ''fencing_token'' = Some (JInt tok)
     \<and> map_of req ''process_handle'' = Some (JStr h) \<and> started_with L lid tok h)"

definition lease_ok :: "string \<Rightarrow> sent list \<Rightarrow> string \<Rightarrow> process_lease \<Rightarrow> bool" where
  "lease_ok tag L k l \<longleftrightarrow> public_handle l = k \<and> prefix (''job:'' @ tag @ '':'') k
     \<and> prefix (''public-lane:'' @ tag @ '':'') (pl_lane_id l) \<and> 1 \<le> pl_fencing_token l
     \<and> started_with L (pl_lane_id l) (pl_fencing_token l) (internal_handle l)"

definition leases_ok :: "string \<Rightarrow> sent list \<Rightarrow> (string \<times> process_lease) list \<Rightarrow> bool" where
  "leases_ok tag L ps \<longleftrightarrow> distinct (map fst ps) \<and> (\<forall>k l. map_of ps k = Some l \<longrightarrow> lease_ok tag L k l)"

definition grows :: "string \<Rightarrow> sent list \<Rightarrow> sent list \<Rightarrow> bool" where
  "grows tag L M \<longleftrightarrow> (\<exists>d. M = L @ d \<and> (\<forall>pre x post. d = pre @ x # post \<longrightarrow> backed tag (L @ pre) (s_request x)))"

lemma started_with_append: "started_with L lid tok h \<Longrightarrow> started_with (L @ d) lid tok h"
  by (auto simp: started_with_def)

lemma backed_append: "backed tag L req \<Longrightarrow> backed tag (L @ d) req"
  using started_with_append by (fastforce simp: backed_def)

lemma leases_ok_append: "leases_ok tag L ps \<Longrightarrow> leases_ok tag (L @ d) ps"
  using started_with_append by (fastforce simp: leases_ok_def lease_ok_def)

lemma leases_okD: "leases_ok tag L ps \<Longrightarrow> map_of ps k = Some l \<Longrightarrow> lease_ok tag L k l"
  by (simp add: leases_ok_def)

lemma leases_ok_update: "leases_ok tag L ps \<Longrightarrow> lease_ok tag L k l \<Longrightarrow> leases_ok tag L (AList.update k l ps)"
  by (simp add: leases_ok_def dict_simps distinct_update)

lemma leases_ok_delete: "leases_ok tag L ps \<Longrightarrow> leases_ok tag L (AList.delete k ps)"
  by (simp add: leases_ok_def dict_simps distinct_delete)

lemma grows_refl [simp, intro]: "grows tag L L"
  by (simp add: grows_def)

lemma grows_trans:
  assumes "grows tag L M" "grows tag M N"
  shows "grows tag L N"
proof -
  obtain d e where d: "M = L @ d" "\<And>pre x post. d = pre @ x # post \<Longrightarrow> backed tag (L @ pre) (s_request x)"
    and e: "N = M @ e" "\<And>pre x post. e = pre @ x # post \<Longrightarrow> backed tag (M @ pre) (s_request x)"
    using assms unfolding grows_def by blast
  have "backed tag (L @ pre) (s_request x)" if de: "d @ e = pre @ x # post" for pre x post
  proof -
    consider us where "d = pre @ x # us" | us where "pre = d @ us" "e = us @ x # post"
      using de by (auto simp: append_eq_append_conv2 append_eq_Cons_conv)
    then show ?thesis
    proof cases
      case 2
      then show ?thesis using e(2) [OF 2(2)] d(1) by simp
    qed (rule d(2))
  qed
  then show ?thesis using d(1) e(1) by (auto simp: grows_def)
qed

lemma adds_grows:
  assumes "adds P L M" "\<And>x. P x \<Longrightarrow> backed tag L (s_request x)"
  shows "grows tag L M"
  using assms backed_append by (fastforce simp: adds_def grows_def)

text \<open>What a call does to the facade of its actor.\<close>

definition facade_step :: "('w, 'sk, 'pk) facade_env \<Rightarrow> 'w facade \<Rightarrow> 'w facade \<Rightarrow> bool" where
  "facade_step fe f f' \<longleftrightarrow> (runs fe f \<longrightarrow> leases_ok (actor_tag fe) (flog f) (f_processes f) \<longrightarrow>
     runs fe f' \<and> leases_ok (actor_tag fe) (flog f') (f_processes f') \<and> grows (actor_tag fe) (flog f) (flog f'))"

lemma facade_step_refl [simp, intro]: "facade_step fe f f"
  by (simp add: facade_step_def)

lemma facade_step_trans: "facade_step fe f f1 \<Longrightarrow> facade_step fe f1 f2 \<Longrightarrow> facade_step fe f f2"
  using grows_trans by (fastforce simp: facade_step_def)

lemma calm_facade_step:
  assumes "calm_step (set HANDLE_OPERATIONS) fe f f'"
  shows "facade_step fe f f'"
proof -
  have "grows (actor_tag fe) (flog f) (flog f')" if "adds (\<lambda>x. free_of (set HANDLE_OPERATIONS) (s_request x)) (flog f) (flog f')"
    by (rule adds_grows [OF that]) (simp add: backed_def)
  moreover have "leases_ok tag (flog f') ps" if "adds P (flog f) (flog f')" "leases_ok tag (flog f) ps" for P tag ps
    using that leases_ok_append by (auto simp: adds_def)
  ultimately show ?thesis using assms by (auto simp: calm_step_def facade_step_def)
qed

lemma lease_request_keys:
  assumes "plain_body body" "''process_handle'' \<notin> fst ` set body"
  shows "map_of (gateway_request rid op (lease_request l body)) ''lane_id'' = Some (JStr (pl_lane_id l))"
    and "map_of (gateway_request rid op (lease_request l body)) ''fencing_token'' = Some (JInt (pl_fencing_token l))"
    and "map_of (gateway_request rid op (lease_request l body)) ''process_handle'' = Some (JStr (internal_handle l))"
  using assms by (simp_all add: gateway_request_def lease_request_def plain_body_def map_of_update_all dict_simps)

lemma process_operation_step:
  assumes "process_operation fe op h body f = (r, f')" "plain_body body" "''process_handle'' \<notin> fst ` set body"
  shows "facade_step fe f f' \<and> f_processes f' = f_processes f"
proof (cases "map_of (f_processes f) h")
  case None
  then show ?thesis using assms(1) by (simp add: process_operation_def lease_def)
next
  case (Some l)
  let ?body = "lease_request l body"
  obtain q f1 where u: "unwrapped (fe_py fe) (rt_call_operation (fe_rt fe) op ?body) f = (q, f1)" by fastforce
  have f': "f' = f1" using assms(1) Some u by (simp add: process_operation_def lease_def)
  obtain rr c where c: "rt_call_operation (fe_rt fe) op ?body (f_runtime f) = (rr, c)" "f1 = f\<lparr>f_runtime := c\<rparr>"
    using u by (auto simp: unwrapped_def on_runtime_def split: prod.splits sum.splits)
  have "''operation'' \<notin> fst ` set ?body" using assms(2) by (auto simp: lease_request_def plain_body_def)
  then have reach: "runs fe f \<Longrightarrow> runs fe f1" using c ctl_call by fastforce
  have "grows (actor_tag fe) (flog f) (log c)" if "leases_ok (actor_tag fe) (flog f) (f_processes f)"
  proof (rule adds_grows [OF handles.call_operation_log(1) [OF c(1)]])
    fix x assume "free_of (set HANDLE_OPERATIONS) (s_request x) \<or> (\<exists>rid. s_request x = gateway_request rid op ?body)"
    then show "backed (actor_tag fe) (flog f) (s_request x)"
      using leases_okD [OF that Some] lease_request_keys [OF assms(2,3), of _ op l] by (auto simp: backed_def lease_ok_def)
  qed
  moreover have "leases_ok tag (log c) ps" if "leases_ok tag (flog f) ps" "grows tag' (flog f) (log c)" for tag tag' ps
    using that leases_ok_append by (auto simp: grows_def)
  ultimately show ?thesis using f' c(2) reach by (auto simp: facade_step_def)
qed

lemma process_calls_step:
  "public_process_status fe h f = (r, f') \<Longrightarrow> facade_step fe f f' \<and> f_processes f' = f_processes f"
  "public_process_output fe h j1 j2 j3 f = (r, f') \<Longrightarrow> facade_step fe f f' \<and> f_processes f' = f_processes f"
  "public_process_input fe h t b f = (r, f') \<Longrightarrow> facade_step fe f f' \<and> f_processes f' = f_processes f"
  "terminate_process fe h g f = (r, f') \<Longrightarrow> facade_step fe f f' \<and> f_processes f' = f_processes f"
  unfolding public_process_status_def public_process_output_def public_process_input_def terminate_process_def
  by (erule process_operation_step; simp add: plain_body_def)+

lemma status_each_step: "status_each fe hs f = (items, f') \<Longrightarrow> facade_step fe f f' \<and> f_processes f' = f_processes f"
proof (induction hs arbitrary: f items)
  case (Cons h hs)
  obtain r f1 where s: "public_process_status fe h f = (r, f1)" by fastforce
  obtain rest f2 where e: "status_each fe hs f1 = (rest, f2)" by fastforce
  have "f2 = f'" using Cons.prems s e by (auto simp: Let_def)
  then show ?case using process_calls_step(1) [OF s] Cons.IH [of f1 rest] e facade_step_trans by auto
qed simp

lemma release_step:
  assumes "release_process fe h f = (r, f')"
  shows "facade_step fe f f'"
    and "map_of (f_processes f) h = Some l \<Longrightarrow> \<exists>d. r = Inr d \<and> (if map_of d ''released'' = Some (JBool True)
           then f_processes f' = AList.delete h (f_processes f) else f_processes f' = f_processes f)"
proof -
  have "facade_step fe f f' \<and> (\<exists>d. r = Inr d \<and> (if map_of d ''released'' = Some (JBool True)
           then f_processes f' = AList.delete h (f_processes f) else f_processes f' = f_processes f))"
    if l: "map_of (f_processes f) h = Some l" for l
  proof -
    obtain d f1 where e: "close_lane_evidence fe (pl_lane_id l) (pl_fencing_token l) f = (d, f1)" by fastforce
    have "facade_step fe f1 (f1\<lparr>f_processes := AList.delete h (f_processes f1)\<rparr>)"
      by (simp add: facade_step_def leases_ok_delete)
    then show ?thesis
      using assms l e calm_facade_step [OF handles.evidence_calm [OF e]] handles.evidence_calm [OF e] facade_step_trans
      by (auto simp: release_process_def lease_def calm_step_def)
  qed
  then show "facade_step fe f f'" "map_of (f_processes f) h = Some l \<Longrightarrow> \<exists>d. r = Inr d \<and> (if map_of d ''released'' = Some (JBool True)
           then f_processes f' = AList.delete h (f_processes f) else f_processes f' = f_processes f)"
    using assms by (cases "map_of (f_processes f) h"; auto simp: release_process_def lease_def)+
qed

lemma start_in_lane_step:
  assumes "start_in_lane fe argv cwd runtime lid tok f = (r, f')" "prefix (''public-lane:'' @ actor_tag fe @ '':'') lid" "1 \<le> tok"
  shows "facade_step fe f f'"
proof -
  let ?body = "[(''lane_id'', JStr lid), (''fencing_token'', JInt tok), (''argv'', JList (map JStr argv)), (''cwd'', JStr cwd),
              (''max_runtime_s'', JFloat runtime)]"
  obtain q f1 where u: "unwrapped (fe_py fe) (rt_call_operation (fe_rt fe) ''process.start'' ?body) f = (q, f1)" by fastforce
  have c1: "calm_step (set HANDLE_OPERATIONS) fe f f1"
    by (rule handles.calm_unwrapped [OF handles.calm_operation u]) (simp_all add: HANDLE_OPERATIONS_def)
  have c2: "calm_step (set HANDLE_OPERATIONS) fe f (snd (close_lane_evidence fe lid tok f1))"
    using c1 handles.evidence_calm [OF surjective_pairing] calm_step_trans by blast
  show ?thesis
  proof (cases "\<exists>d s. q = Inr d \<and> map_of d ''process_handle'' = Some (JStr s) \<and> s \<noteq> []")
    case False
    then have "f' = snd (close_lane_evidence fe lid tok f1)"
      using assms(1) u by (auto simp: start_in_lane_def is_nonempty_str_def split: sum.splits if_splits option.splits json.splits)
    then show ?thesis using calm_facade_step [OF c2] by simp
  next
    case True
    then obtain d s where d: "q = Inr d" "map_of d ''process_handle'' = Some (JStr s)" "s \<noteq> []" by blast
    obtain i f2 where n: "new_id fe ''job'' f1 = (i, f2)" by fastforce
    note c3 = calm_step_trans [OF c1 handles.new_id_calm [OF n]]
    obtain resp where resp: "rt_call_operation (fe_rt fe) ''process.start'' ?body (f_runtime f) = (Inr resp, f_runtime f1)"
        "is_ok resp" "map_of resp ''result'' = Some (JObj d)"
      using u d(1) by (auto elim: unwrapped_Inr)
    obtain x rid where x: "x \<in> set (flog f1)" "s_request x = gateway_request rid ''process.start'' ?body" "s_answer x = Inr resp"
      using handles.call_operation_log(2) [OF resp(1) refl] by blast
    have "started_with (flog f1) lid tok s"
      unfolding started_with_def by (rule bexI [OF _ x(1)]) (simp add: x(2,3) resp(2,3) d(2) gateway_request_def)
    moreover have "flog f2 = flog f1" using n by (auto simp: new_id_def Let_def case_prod_unfold split: if_splits)
    ultimately have ok: "started_with (flog f2) lid tok s" by simp
    show ?thesis
    proof (cases "\<exists>h p. i = Inr h \<and> canonical_remote_path cwd = Inr p")
      case False
      then have "f' = f2" using assms(1) u d n by (auto simp: start_in_lane_def is_nonempty_str_def split: sum.splits)
      then show ?thesis using calm_facade_step [OF c3] by simp
    next
      case True
      then obtain h p where h: "i = Inr h" "canonical_remote_path cwd = Inr p" by blast
      let ?l = "\<lparr>public_handle = h, internal_handle = s, pl_lane_id = lid, pl_fencing_token = tok, pl_cwd = p\<rparr>"
      have f': "f' = f2\<lparr>f_processes := AList.update h ?l (f_processes f2)\<rparr>"
        using assms(1) u d n h by (simp add: start_in_lane_def is_nonempty_str_def str_arg_def)
      have "lease_ok (actor_tag fe) (flog f2) h ?l"
        using ok assms(2,3) new_id_Inr [of fe "''job''" f1 h f2] n h(1) by (simp add: lease_ok_def)
      then have "facade_step fe f2 f'" unfolding f' by (simp add: facade_step_def leases_ok_update)
      then show ?thesis using calm_facade_step [OF c3] facade_step_trans by blast
    qed
  qed
qed

lemma start_step:
  assumes "public_start_process fe argv cwd rtm f = (r, f')"
  shows "facade_step fe f f'"
proof (cases "\<exists>t cs. py_float (fe_py fe) rtm = Inr t \<and> cwd_claim cwd ''write'' = Inr cs")
  case False
  then have "f' = f" using assms by (auto simp: public_start_process_def with_claims_def split: sum.splits)
  then show ?thesis by simp
next
  case True
  then obtain t cs where t: "py_float (fe_py fe) rtm = Inr t" "cwd_claim cwd ''write'' = Inr cs" by blast
  obtain q f1 where o: "public_open_lane fe process_lane_capabilities [cs] (lease_ttl t) ''start-process'' f = (q, f1)" by fastforce
  note oc = calm_facade_step [OF handles.open_calm [OF o]]
  show ?thesis
  proof (cases q)
    case (Inl x)
    then show ?thesis using assms t o oc by (simp add: public_start_process_def with_claims_def)
  next
    case (Inr a)
    obtain lid tok where a: "a = (lid, tok)" by fastforce
    have "start_in_lane fe argv cwd t lid tok f1 = (r, f')"
      using assms t o Inr a by (simp add: public_start_process_def with_claims_def)
    then have "facade_step fe f1 f'" by (rule start_in_lane_step) (use public_open_Inr [of fe _ _ _ _ _ lid tok] o Inr a in blast)+
    then show ?thesis using oc facade_step_trans by blast
  qed
qed

section \<open>Closing\<close>

lemma keys_delete: "fst ` set (AList.delete k d) = fst ` set d - {k}"
  by (metis delete_keys list.set_map set_removeAll)

lemma release_each_spec:
  assumes "release_each fe hs f = (r, f')" "distinct hs" "distinct (map fst (f_processes f))" "set hs \<subseteq> fst ` set (f_processes f)"
  shows "\<exists>items. r = Inr items \<and> length items = length hs \<and> fst ` set (f_processes f') = fst ` set (f_processes f)
    - {h. \<exists>i < length hs. h = hs ! i \<and> map_of (items ! i) ''released'' = Some (JBool True)}"
  using assms
proof (induction hs arbitrary: f r)
  case Nil
  then show ?case by auto
next
  case (Cons h hs)
  obtain l where l: "map_of (f_processes f) h = Some l" using Cons.prems(3,4) by (auto simp: weak_map_of_SomeI image_iff map_of_eq_None_iff)
  obtain q f1 where s: "release_process fe h f = (q, f1)" by fastforce
  from release_step(2) [OF s l] obtain d where d: "q = Inr d"
    "if map_of d ''released'' = Some (JBool True) then f_processes f1 = AList.delete h (f_processes f) else f_processes f1 = f_processes f"
    by blast
  obtain q2 where e: "release_each fe hs f1 = (q2, f')"
    using Cons.prems(1) s d(1) by (auto split: prod.splits sum.splits)
  have keys: "fst ` set (f_processes f1) = fst ` set (f_processes f) - (if map_of d ''released'' = Some (JBool True) then {h} else {})"
    "distinct (map fst (f_processes f1))"
    using d(2) Cons.prems(3) by (auto simp: keys_delete distinct_delete split: if_splits)
  have "set hs \<subseteq> fst ` set (f_processes f1)" using Cons.prems(2,4) keys(1) by auto
  then obtain items where it: "q2 = Inr items" "length items = length hs"
    "fst ` set (f_processes f') = fst ` set (f_processes f1) - {h. \<exists>i < length hs. h = hs ! i \<and> map_of (items ! i) ''released'' = Some (JBool True)}"
    using Cons.IH [OF e] Cons.prems(2) keys(2) by auto
  show ?case
  proof (intro exI conjI)
    show "r = Inr (d # items)" using Cons.prems(1) s d(1) e it(1) by simp
    have "{x. \<exists>i < length (h # hs). x = (h # hs) ! i \<and> map_of ((d # items) ! i) ''released'' = Some (JBool True)}
        = (if map_of d ''released'' = Some (JBool True) then {h} else {})
          \<union> {x. \<exists>i < length hs. x = hs ! i \<and> map_of (items ! i) ''released'' = Some (JBool True)}"
      by (auto simp: less_Suc_eq_0_disj)
    then show "fst ` set (f_processes f') = fst ` set (f_processes f)
        - {x. \<exists>i < length (h # hs). x = (h # hs) ! i \<and> map_of ((d # items) ! i) ''released'' = Some (JBool True)}"
      using it(3) keys(1) by auto
  qed (use it in simp)
qed

lemma close_drains:
  assumes "facade_close fe f = (r, f')" "distinct (map fst (f_processes f))"
  shows "\<exists>d. r = Inr d \<and> (map_of d ''drained'' = Some (JBool True) \<longleftrightarrow> f_processes f' = [])"
proof -
  obtain q f1 where e: "release_each fe (handles f) f = (q, f1)" by fastforce
  have h: "distinct (handles f)" "set (handles f) = fst ` set (f_processes f)" using assms(2) by (simp_all add: handles_def)
  have sub: "set (handles f) \<subseteq> fst ` set (f_processes f)" using h(2) by simp
  obtain items where it: "q = Inr items" "length items = length (handles f)"
    "fst ` set (f_processes f1) = set (handles f) - {h. \<exists>i < length (handles f). h = handles f ! i \<and> map_of (items ! i) ''released'' = Some (JBool True)}"
    using release_each_spec [OF e h(1) assms(2) sub] unfolding h(2) by blast
  have "f_processes f1 = [] \<longleftrightarrow> list_all (\<lambda>d. map_of d ''released'' = Some (JBool True)) items"
  proof -
    have "f_processes f1 = [] \<longleftrightarrow> fst ` set (f_processes f1) = {}" by simp
    also have "\<dots> \<longleftrightarrow> (\<forall>i < length (handles f). map_of (items ! i) ''released'' = Some (JBool True))"
    proof -
      define R where "R = {h. \<exists>i < length (handles f). h = handles f ! i \<and> map_of (items ! i) ''released'' = Some (JBool True)}"
      have "handles f ! i \<in> R \<longleftrightarrow> map_of (items ! i) ''released'' = Some (JBool True)" if "i < length (handles f)" for i
        using h(1) that by (auto simp: R_def nth_eq_iff_index_eq)
      moreover have "set (handles f) - R = {} \<longleftrightarrow> (\<forall>i < length (handles f). handles f ! i \<in> R)"
        by (simp only: Diff_eq_empty_iff subset_eq all_set_conv_all_nth)
      ultimately show ?thesis unfolding it(3) R_def [symmetric] by auto
    qed
    finally show ?thesis using it(2) by (simp add: list_all_length)
  qed
  then show ?thesis using assms(1) e it(1) by (auto simp: facade_close_def)
qed

lemma release_each_step: "release_each fe hs f = (r, f') \<Longrightarrow> facade_step fe f f'"
proof (induction hs arbitrary: f r)
  case (Cons h hs)
  obtain q f1 where s: "release_process fe h f = (q, f1)" by fastforce
  obtain q2 f2 where e: "release_each fe hs f1 = (q2, f2)" by fastforce
  have "f' = f1 \<or> f' = f2" using Cons.prems s e by (cases q; cases q2) auto
  then show ?case using release_step(1) [OF s] Cons.IH [of f1 q2] e facade_step_trans by auto
qed simp

lemma facade_close_step: "facade_close fe f = (r, f') \<Longrightarrow> facade_step fe f f'"
  using release_each_step by (fastforce simp: facade_close_def split: prod.splits sum.splits)

lemma list_processes_step: "list_processes fe f = (r, f') \<Longrightarrow> facade_step fe f f'"
  using status_each_step by (fastforce simp: list_processes_def split: prod.splits)


section \<open>The lane of a call is closed, or the caller is told\<close>

definition closed_for :: "sent list \<Rightarrow> read_router \<Rightarrow> read_router \<Rightarrow> string \<Rightarrow> int \<Rightarrow> bool" where
  "closed_for L rr rr' lid tok \<longleftrightarrow> (\<exists>eid sid. closed_mirror L eid sid lid tok)
     \<or> (\<exists>l. map_of (rr_lanes rr) lid = Some l \<and> rl_fence l = tok \<and> map_of (rr_lanes rr') lid = None
          \<and> (\<forall>eid sid g. map_of (rl_mirrors l) eid = Some (sid, g) \<longrightarrow> closed_mirror L eid sid lid g))"

lemma connect_router: "c_router (snd (connect rt spec c)) = c_router c"
  by (auto simp: connect_def register_live_def set_live_def close_channel_def Let_def split: option.split prod.split sum.split)

lemma refresh_endpoint_router: "c_router (refresh_endpoint rt now spec c) = c_router c"
  by (simp add: refresh_endpoint_def register_live_def set_live_def drop_endpoint_def close_channel_def Let_def connect_router
      split: option.split prod.split sum.split)

lemma ensure_started_router: "ensure_started rt c = (r, c') \<Longrightarrow> c_router c' = c_router c"
proof -
  have "c_router (fold (refresh_endpoint rt now) specs c) = c_router c" for specs now and c :: "'a controller"
    by (induction specs arbitrary: c) (simp_all add: refresh_endpoint_router)
  moreover have "c_router (snd (load_identities rt c)) = c_router c"
    by (auto simp: load_identities_def split: option.split sum.split)
  ultimately have "c_router (snd (refresh_paths rt c)) = c_router c"
    by (auto simp: refresh_paths_def refresh_def Let_def case_prod_unfold split: sum.split)
  then show "ensure_started rt c = (r, c') \<Longrightarrow> ?thesis"
    by (auto simp: ensure_started_def split: prod.splits sum.splits option.splits)
qed

lemma close_lane_closes:
  assumes "rt_close_lane rt lid tok c = (Inr resp, c')" "is_ok resp" "controller_inv (rt_config rt) c" "config_ok (rt_config rt)"
  shows "closed_for (log c') (c_router c) (c_router c') lid tok"
proof -
  obtain gw c1 where e: "ensure_started rt c = (Inr gw, c1)"
    and k: "(if router_owns (c_router c1) lid tok
       then via_router (\<lambda>age live. router_close (rt_net rt) age live lid tok) rt c1
       else via_gateway rt gw ''lane.close'' (close_lane_body lid tok) c1) = (Inr resp, c')"
    using assms(1) by (auto simp: rt_close_lane_def started_def split: prod.splits sum.splits)
  have inv: "controller_inv (rt_config rt) c1" using ensure_started_inv [OF assms(3,4) refl e] by simp
  note rr = ensure_started_router [OF e]
  show ?thesis
  proof (cases "router_owns (c_router c1) lid tok")
    case True
    then obtain l where l: "map_of (rr_lanes (c_router c1)) lid = Some l" "rl_fence l = tok"
      by (auto simp: router_owns_def split: option.splits)
    obtain q s where q: "router_close (rt_net rt) (cc_max_path_age_ms (rt_config rt)) (map snd (c_live c1)) lid tok
        (c_router c1) (c_net c1) = (Inr resp, q, s)" "c' = c1\<lparr>c_router := q, c_net := s\<rparr>"
      using k True by (auto simp: via_router_def split: prod.splits)
    have "map_of (rr_lanes q) lid = None"
      using q(1) by (auto simp: router_close_def drop_lane_def dict_simps split: prod.splits sum.splits if_splits)
    moreover have "closed_mirror (ns_log s) eid sid lid g" if "map_of (rl_mirrors l) eid = Some (sid, g)" for eid sid g
      using router_close_result [OF controller_inv_router [OF inv] q(1) l(1) that] by simp
    ultimately show ?thesis using l q(2) rr by (auto simp: closed_for_def)
  next
    case False
    then obtain s where g: "gateway_call (rt_net rt) (c_pool c1) gw ''lane.close'' (close_lane_body lid tok) (c_net c1) = (Inr resp, s)"
        "c' = c1\<lparr>c_net := s\<rparr>"
      using k by (auto simp: via_gateway_def split: prod.splits)
    obtain x rid where x: "x \<in> set (ns_log s)" "s_request x = gateway_request rid ''lane.close'' (close_lane_body lid tok)" "s_answer x = Inr resp"
      using gateway_call_log(2) [OF g(1) refl] by blast
    have "closed_mirror (ns_log s) (s_endpoint x) (s_session x) lid tok"
      unfolding closed_mirror_def by (rule bexI [OF _ x(1)]) (simp add: x(2,3) assms(2) gateway_request_def close_lane_body_def)
    then show ?thesis using g(2) by (auto simp: closed_for_def)
  qed
qed


section \<open>A concrete facade\<close>

definition demo_fe :: "(unit, unit, unit) facade_env" where
  "demo_fe = \<lparr>fe_py = posix_env, fe_rt = demo_rt, fe_actor = ''a'', fe_id_factory = (\<lambda>w. (''1'', w)), fe_class = (\<lambda>_. ''E''), fe_text = (\<lambda>_. [])\<rparr>"

definition demo_f :: "unit facade" where
  "demo_f = \<lparr>f_runtime = demo_c0, f_processes = []\<rparr>"

lemma demo_fe_simps [simp]:
  "fe_py demo_fe = posix_env" "fe_rt demo_fe = demo_rt" "fe_id_factory demo_fe = (\<lambda>w. (''1'', w))" "actor_tag demo_fe = ''a''"
  by (simp_all add: demo_fe_def actor_tag_def posix_env_def)

definition public_lane :: logical_read_lane where
  "public_lane = \<lparr>rl_lane_id = ''public-lane:a:1'', rl_task_id = ''read-file:a:1'', rl_claims = demo_claims, rl_fence = 4294967297,
     rl_expires_at_ms = 300010, rl_mirrors = []\<rparr>"

definition public_router :: read_router where
  "public_router = \<lparr>rr_lanes = [(''public-lane:a:1'', public_lane\<lparr>rl_mirrors := [(''d'', ''s'', 7)]\<rparr>)], rr_epoch = 1, rr_last = 1\<rparr>"

lemma demo_public_open:
  "\<exists>L. rt_open_lane posix_env demo_rt ''public-lane:a:1'' ''read-file:a:1'' [''fs.read''] demo_claims (Fin 300) demo_c0 =
     (Inr (lane_result [(''lane_id'', JStr ''public-lane:a:1''), (''fencing_token'', JInt 4294967297)]), demo_c L public_router)"
  by (simp add: rt_open_lane_def started_def demo_started demo_supports via_router_def demo_c_def router_open_def Let_def
      router_next_fence_def trunc_def put_lane_def ordered_current_endpoints_def ensure_mirror_def open_mirror_def lane_request_def
      mirror_fence_of_def is_ok_def demo_router_def)
    (simp add: public_router_def public_lane_def mirror_open_request_def dict_get_def)

lemma demo_public_read:
  "\<exists>M resp. rt_read_text demo_rt ''public-lane:a:1'' 4294967297 ''/a'' ''utf-8'' (demo_c L public_router) = (Inr resp, demo_c M public_router)
     \<and> unwrap posix_env resp = Inr [(''fencing_token'', JInt 7)]"
  by (simp only: rt_read_text_def started_def demo_again prod.case sum.case)
    (simp add: router_owns_def via_router_def demo_c_def router_read_text_def router_read_def require_twice_def require_read_lane_def
        ordered_current_endpoints_def ensure_mirror_def lane_request_def public_router_def public_lane_def mirrored_request_def unwrap_def is_ok_def
        put_lane_def)

lemma demo_public_close:
  "\<exists>M resp rr. rt_close_lane demo_rt ''public-lane:a:1'' 4294967297 (demo_c L public_router) = (Inr resp, demo_c M rr) \<and> is_ok resp"
  by (simp only: rt_close_lane_def started_def demo_again prod.case sum.case)
    (simp add: router_owns_def via_router_def demo_c_def router_close_def require_twice_def require_read_lane_def Let_def
        ordered_current_endpoints_def endpoint_table_def lane_request_def public_router_def public_lane_def is_ok_def lane_result_def)

lemma demo_ephemeral:
  "\<exists>M rr. ephemeral demo_fe ''fs.read_text'' [''fs.read''] demo_claims [(''path'', JStr ''/a''), (''encoding'', JStr ''utf-8'')]
      ''read-file'' demo_f = (Inr [(''fencing_token'', JInt 7)], \<lparr>f_runtime = demo_c M rr, f_processes = []\<rparr>)"
proof -
  have id: "new_id demo_fe pre \<lparr>f_runtime = c, f_processes = ps\<rparr> = (Inr (pre @ '':a:1''), \<lparr>f_runtime = c, f_processes = ps\<rparr>)" for pre c ps
    by (simp add: new_id_def Let_def)
  obtain L where L: "rt_open_lane posix_env demo_rt ''public-lane:a:1'' ''read-file:a:1'' [''fs.read''] demo_claims (Fin 300) demo_c0 =
     (Inr (lane_result [(''lane_id'', JStr ''public-lane:a:1''), (''fencing_token'', JInt 4294967297)]), demo_c L public_router)"
    using demo_public_open by blast
  obtain M resp where M: "rt_read_text demo_rt ''public-lane:a:1'' 4294967297 ''/a'' ''utf-8'' (demo_c L public_router) = (Inr resp, demo_c M public_router)"
      "unwrap posix_env resp = Inr [(''fencing_token'', JInt 7)]"
    using demo_public_read by blast
  obtain N r2 rr where N: "rt_close_lane demo_rt ''public-lane:a:1'' 4294967297 (demo_c M public_router) = (Inr r2, demo_c N rr)" "is_ok r2"
    using demo_public_close by blast
  have "public_open_lane demo_fe [''fs.read''] demo_claims (Fin 300) ''read-file'' demo_f
      = (Inr (''public-lane:a:1'', 4294967297), \<lparr>f_runtime = demo_c L public_router, f_processes = []\<rparr>)"
    by (simp add: public_open_lane_def demo_f_def id unwrapped_def on_runtime_def L unwrap_def is_ok_def lane_result_def fence_of_def)
  then show ?thesis
    by (simp add: ephemeral_def unwrapped_def on_runtime_def ephemeral_call_def str_arg_def M close_lane_evidence_def N attach_cleanup_def is_closed_def) blast
qed


end
