(* ===== verification/Urls.thy ===== *)
theory Urls
  imports Remote_Path
begin

text \<open>
  URLs and addresses: \<^verbatim>\<open>urllib.parse.urlsplit\<close> and the attributes of its result, and the literal addresses of
  \<^verbatim>\<open>ipaddress\<close>, as far as the program uses them.
\<close>

section \<open>URLs\<close>

record split_url =
  su_scheme :: string
  su_netloc :: string
  su_path :: string
  su_query :: string
  su_fragment :: string

text \<open>
  What the standard library decides and this text does not spell out: the checks of \<^verbatim>\<open>urlsplit\<close> on bracketed hosts and on
  the normalization of a host name, and whether a text is an IPv6 literal, then \<^verbatim>\<open>is_loopback\<close> of it.
\<close>

record url_env =
  netloc_ok :: "string \<Rightarrow> bool"
  ipv6_loopback :: "string \<Rightarrow> bool option"

definition ascii_alpha :: "char \<Rightarrow> bool" where
  "ascii_alpha c \<longleftrightarrow> 65 \<le> byte_val c \<and> byte_val c \<le> 90 \<or> 97 \<le> byte_val c \<and> byte_val c \<le> 122"

definition scheme_char :: "char \<Rightarrow> bool" where
  "scheme_char c \<longleftrightarrow> ascii_alpha c \<or> 48 \<le> byte_val c \<and> byte_val c \<le> 57 \<or> c \<in> set ''+-.''"

definition ascii_lower :: "string \<Rightarrow> string" where
  "ascii_lower s = map (\<lambda>c. if 65 \<le> byte_val c \<and> byte_val c \<le> 90 then byte_of (byte_val c + 32) else c) s"

text \<open>\<^verbatim>\<open>s.split(c, 1)\<close> where the text holds \<open>c\<close>, and the text with nothing after it otherwise.\<close>

definition cut_at :: "char \<Rightarrow> string \<Rightarrow> string \<times> string" where
  "cut_at c s = (case split1 c s of None \<Rightarrow> (s, []) | Some p \<Rightarrow> p)"

text \<open>\<^verbatim>\<open>s.rpartition(c)\<close>, with \<^const>\<open>None\<close> for the head where the text holds no \<open>c\<close>.\<close>

definition rcut_at :: "char \<Rightarrow> string \<Rightarrow> string option \<times> string" where
  "rcut_at c s = (case split1 c (rev s) of None \<Rightarrow> (None, s) | Some (b, a) \<Rightarrow> (Some (rev a), rev b))"

definition split_scheme :: "string \<Rightarrow> string \<times> string" where
  "split_scheme url =
     (case split1 (CHR '':'') url of
        None \<Rightarrow> ([], url)
      | Some (s, r) \<Rightarrow>
          if s \<noteq> [] \<and> ascii_alpha (hd s) \<and> list_all scheme_char s then (ascii_lower s, r) else ([], url))"

definition url_split :: "'a url_env_scheme \<Rightarrow> string \<Rightarrow> split_url result" where
  "url_split ue text0 =
     (let url = filter (\<lambda>c. byte_val c \<notin> {9, 10, 13}) (dropWhile (\<lambda>c. byte_val c \<le> 32) text0);
          (scheme, u1) = split_scheme url;
          (netloc, u2) = (if prefix ''//'' u1
             then (takeWhile (\<lambda>c. c \<notin> set ''/?#'') (drop 2 u1), dropWhile (\<lambda>c. c \<notin> set ''/?#'') (drop 2 u1)) else ([], u1))
      in if \<not> netloc_ok ue netloc then Inl (Py ValueError)
         else let (u3, fragment) = cut_at (CHR ''#'') u2; (p, query) = cut_at (CHR ''?'') u3
           in Inr \<lparr>su_scheme = scheme, su_netloc = netloc, su_path = p, su_query = query, su_fragment = fragment\<rparr>)"

text \<open>\<^verbatim>\<open>.hostname\<close>, as text without the lower case that no test looks at, \<^verbatim>\<open>.username\<close> and \<^verbatim>\<open>.password\<close>.\<close>

definition host_name :: "split_url \<Rightarrow> string" where
  "host_name u =
     (let info = snd (rcut_at (CHR ''@'') (su_netloc u)) in
      if CHR ''['' \<in> set info then fst (cut_at (CHR '']'') (snd (cut_at (CHR ''['') info))) else fst (cut_at (CHR '':'') info))"

definition user_name :: "split_url \<Rightarrow> string" where
  "user_name u = (case fst (rcut_at (CHR ''@'') (su_netloc u)) of None \<Rightarrow> [] | Some info \<Rightarrow> fst (cut_at (CHR '':'') info))"

definition pass_word :: "split_url \<Rightarrow> string" where
  "pass_word u = (case fst (rcut_at (CHR ''@'') (su_netloc u)) of None \<Rightarrow> [] | Some info \<Rightarrow> snd (cut_at (CHR '':'') info))"

text \<open>\<^verbatim>\<open>.port\<close>: the digits after the host, which raise where they are no port number.\<close>

definition ascii_digits :: "string \<Rightarrow> bool" where
  "ascii_digits s \<longleftrightarrow> s \<noteq> [] \<and> list_all (\<lambda>c. 48 \<le> byte_val c \<and> byte_val c \<le> 57) s"

definition number_of :: "string \<Rightarrow> nat" where
  "number_of s = foldl (\<lambda>acc c. acc * 10 + digit_val c) 0 s"

definition port_text :: "split_url \<Rightarrow> string" where
  "port_text u =
     (let info = snd (rcut_at (CHR ''@'') (su_netloc u)) in
      if CHR ''['' \<in> set info then snd (cut_at (CHR '':'') (snd (cut_at (CHR '']'') (snd (cut_at (CHR ''['') info)))))
      else snd (cut_at (CHR '':'') info))"

definition url_port :: "split_url \<Rightarrow> nat option result" where
  "url_port u =
     (let s = port_text u in
      if s = [] then Inr None
      else if \<not> ascii_digits s then Inl (Py ValueError)
      else if number_of s > 65535 then Inl (Py ValueError)
      else Inr (Some (number_of s)))"

section \<open>Addresses\<close>

text \<open>\<^verbatim>\<open>ipaddress.ip_address(s).is_loopback\<close>, \<^const>\<open>None\<close> where \<open>s\<close> is no literal address.\<close>

definition octet :: "string \<Rightarrow> nat option" where
  "octet s =
     (if \<not> ascii_digits s \<or> length s > 3 \<or> (s \<noteq> ''0'' \<and> hd s = CHR ''0'') \<or> number_of s > 255 then None
      else Some (number_of s))"

definition ipv4 :: "string \<Rightarrow> nat list option" where
  "ipv4 s =
     (let ps = map octet (split_char (CHR ''.'') s) in
      if length ps = 4 \<and> None \<notin> set ps then Some (map the ps) else None)"

definition ip_loopback :: "'a url_env_scheme \<Rightarrow> string \<Rightarrow> bool option" where
  "ip_loopback ue s = (case ipv4 s of Some ns \<Rightarrow> Some (hd ns = 127) | None \<Rightarrow> ipv6_loopback ue s)"

end
