(* ===== verification/OAuth_Verifier.thy ===== *)
theory OAuth_Verifier
  imports Urls
begin

text \<open>
  \<^verbatim>\<open>oauth_verifier.py\<close> and \<^verbatim>\<open>oauth_qualification.py\<close>: which access tokens the public gateway accepts, and which
  metadata of an authorization server passes qualification, over \<^verbatim>\<open>urlsplit\<close> of the standard library.

  The record \<open>oauth_env\<close> holds what the platform decides: that of \<open>url_env\<close>, \<open>is_alnum\<close> (\<^verbatim>\<open>str.isalnum\<close>), the
  environment and the clock.
  The answer of the introspection endpoint, an HTTP client's business, is the argument \<open>post\<close>.
\<close>

record oauth_env = url_env +
  oe_py :: pyenv
  is_alnum :: "string \<Rightarrow> bool"
  environ :: "string \<Rightarrow> string option"
  now_s :: int

section \<open>URLs of the configuration\<close>

text \<open>\<^verbatim>\<open>_https\<close> of the verifier and \<^verbatim>\<open>_https_url\<close> of the qualification differ in the error they raise.\<close>

definition https_url :: "exn \<Rightarrow> oauth_env \<Rightarrow> json option \<Rightarrow> string result" where
  "https_url err oe v =
     (case v of
        Some (JStr s) \<Rightarrow>
          if s = [] then Inl err
          else (case url_split oe s of
             Inl x \<Rightarrow> Inl x
           | Inr u \<Rightarrow>
               if su_scheme u \<noteq> ''https'' \<or> host_name u = [] \<or> user_name u \<noteq> [] \<or> pass_word u \<noteq> [] \<or> su_fragment u \<noteq> []
               then Inl err else Inr (rstrip_char (CHR ''/'') s))
      | _ \<Rightarrow> Inl err)"

section \<open>Configuration of the verifier\<close>

record introspection_config =
  introspection_endpoint :: string
  ic_client_id :: string
  client_secret_env :: string
  expected_issuer :: string
  expected_resource :: string
  client_auth_method :: string
  ic_timeout_s :: pyfloat

abbreviation oauth_config_error :: exn where
  "oauth_config_error \<equiv> Config OAuthVerifierConfigError"

text \<open>The part of \<^verbatim>\<open>from_dict\<close> after the three URLs.\<close>

definition introspection_client :: "oauth_env \<Rightarrow> dict \<Rightarrow> (string \<times> string \<times> string \<times> pyfloat) result" where
  "introspection_client oe d =
     (let client = stripped (oe_py oe) d ''client_id''; secret = stripped (oe_py oe) d ''client_secret_env'' in
      if client = [] then Inl oauth_config_error
      else if secret = [] \<or> \<not> is_alnum oe (filter (\<lambda>c. c \<noteq> CHR ''_'') secret) then Inl oauth_config_error
      else let method = py_str (oe_py oe) (dict_get d ''client_auth_method'' (JStr ''client_secret_basic'')) in
      if method \<notin> {''client_secret_basic'', ''client_secret_post''} then Inl oauth_config_error
      else (case py_float (oe_py oe) (dict_get d ''timeout_s'' (JFloat (Fin 5))) of
         Inl x \<Rightarrow> Inl x
       | Inr t \<Rightarrow> if \<not> (fle (Fin (1 / 10)) t \<and> fle t (Fin 30)) then Inl oauth_config_error else Inr (client, secret, method, t)))"

definition introspection_from_dict :: "oauth_env \<Rightarrow> json \<Rightarrow> introspection_config result" where
  "introspection_from_dict oe v =
     (case v of
        JObj d \<Rightarrow>
          if map_of d ''schema'' \<noteq> Some (JStr ''VERAMESH_OAUTH_INTROSPECTION_V1'') then Inl oauth_config_error
          else (case https_url oauth_config_error oe (map_of d ''introspection_endpoint'') of
             Inl x \<Rightarrow> Inl x
           | Inr endpoint \<Rightarrow>
               (case https_url oauth_config_error oe (map_of d ''expected_issuer'') of
                  Inl x \<Rightarrow> Inl x
                | Inr issuer \<Rightarrow>
                    (case https_url oauth_config_error oe (map_of d ''expected_resource'') of
                       Inl x \<Rightarrow> Inl x
                     | Inr resource \<Rightarrow>
                         (case introspection_client oe d of
                            Inl x \<Rightarrow> Inl x
                          | Inr (client, secret, method, t) \<Rightarrow>
                              Inr \<lparr>introspection_endpoint = endpoint, ic_client_id = client, client_secret_env = secret,
                                   expected_issuer = issuer, expected_resource = resource, client_auth_method = method, ic_timeout_s = t\<rparr>))))
      | _ \<Rightarrow> Inl oauth_config_error)"

section \<open>Verification of a token\<close>

record access_token =
  at_token :: string
  at_client_id :: string
  at_scopes :: "string list"
  at_expires_at :: int
  at_resource :: string
  at_subject :: string
  at_claims :: dict

definition resource_matches :: "introspection_config \<Rightarrow> dict \<Rightarrow> bool" where
  "resource_matches cfg d =
     (if map_of d ''resource'' = Some (JStr (expected_resource cfg)) then True
      else (case map_of d ''aud'' of
        Some (JStr a) \<Rightarrow> a = expected_resource cfg
      | Some (JList xs) \<Rightarrow> list_all (\<lambda>x. case x of JStr s \<Rightarrow> True | _ \<Rightarrow> False) xs \<and> JStr (expected_resource cfg) \<in> set xs
      | _ \<Rightarrow> False))"

text \<open>\<^verbatim>\<open>s.split()\<close>: the words between white space, none of them empty.\<close>

function words_from :: "string \<Rightarrow> string \<Rightarrow> string list" where
  "words_from w s =
     (case s of
        [] \<Rightarrow> if w = [] then [] else [rev w]
      | c # r \<Rightarrow>
          (case find (\<lambda>x. prefix x s) py_whitespace of
             Some x \<Rightarrow> (if w = [] then words_from [] (drop (length x) s) else rev w # words_from [] (drop (length x) s))
           | None \<Rightarrow> words_from (c # w) r))"
  by pat_completeness auto
termination
proof -
  have shorter: "length s - length x < length s" if "find (\<lambda>x. prefix x s) py_whitespace = Some x" for x s
  proof -
    have "x \<in> set py_whitespace" "prefix x s" using that by (auto simp: find_Some_iff)
    then show ?thesis using py_whitespace_nonempty by (auto simp: prefix_def)
  qed
  show ?thesis by (relation "measure (length \<circ> snd)") (auto dest: shorter)
qed

declare words_from.simps [simp del]

definition token_scopes :: "json option \<Rightarrow> string list option" where
  "token_scopes v =
     (case v of
        Some (JStr s) \<Rightarrow> Some (words_from [] s)
      | Some (JList xs) \<Rightarrow>
          if list_all (\<lambda>x. case x of JStr s \<Rightarrow> s \<noteq> [] | _ \<Rightarrow> False) xs
          then Some (rev (remdups (rev [s. JStr s \<leftarrow> xs]))) else None
      | _ \<Rightarrow> None)"

text \<open>The checks on the answer of the endpoint.\<close>

definition introspected :: "oauth_env \<Rightarrow> introspection_config \<Rightarrow> string \<Rightarrow> dict \<Rightarrow> access_token option" where
  "introspected oe cfg token d =
     (if map_of d ''active'' \<noteq> Some (JBool True) then None
      else if map_of d ''iss'' \<noteq> Some (JStr (expected_issuer cfg)) then None
      else (case map_of d ''sub'' of
        Some (JStr subject) \<Rightarrow>
          if subject = [] then None
          else (case map_of d ''client_id'' of
             Some (JStr client) \<Rightarrow>
               if client = [] then None
               else (case map_of d ''exp'' of
                  Some (JInt expires) \<Rightarrow>
                    if expires \<le> now_s oe then None
                    else if \<not> resource_matches cfg d then None
                    else (case token_scopes (map_of d ''scope'') of
                       None \<Rightarrow> None
                     | Some scopes \<Rightarrow>
                         Some \<lparr>at_token = token, at_client_id = client, at_scopes = scopes, at_expires_at = expires,
                               at_resource = expected_resource cfg, at_subject = subject, at_claims = d\<rparr>)
                | _ \<Rightarrow> None)
           | _ \<Rightarrow> None)
      | _ \<Rightarrow> None))"

text \<open>
  The request: the form data and the credentials of basic authentication. \<open>post\<close> gives \<^const>\<open>None\<close> where the client
  raises, and otherwise the status and the parsed body, \<^const>\<open>None\<close> again where it is not JSON.
\<close>

definition introspection_request :: "introspection_config \<Rightarrow> string \<Rightarrow> string \<Rightarrow> (string \<times> string) list \<times> (string \<times> string) option" where
  "introspection_request cfg token secret =
     (if client_auth_method cfg = ''client_secret_basic''
      then ([(''token'', token), (''token_type_hint'', ''access_token'')], Some (ic_client_id cfg, secret))
      else ([(''token'', token), (''token_type_hint'', ''access_token''), (''client_id'', ic_client_id cfg), (''client_secret'', secret)], None))"

definition verify_token ::
  "oauth_env \<Rightarrow> (string \<Rightarrow> (string \<times> string) list \<Rightarrow> (string \<times> string) option \<Rightarrow> (int \<times> json option) option)
   \<Rightarrow> introspection_config \<Rightarrow> string \<Rightarrow> access_token option result" where
  "verify_token oe post cfg token =
     (if token = [] then Inr None
      else (case environ oe (client_secret_env cfg) of
        None \<Rightarrow> Inl oauth_config_error
      | Some secret \<Rightarrow>
          if secret = [] then Inl oauth_config_error
          else let (form, basic) = introspection_request cfg token secret in
            (case post (introspection_endpoint cfg) form basic of
               None \<Rightarrow> Inr None
             | Some (status, body) \<Rightarrow>
                 if status \<noteq> 200 then Inr None
                 else (case body of Some (JObj d) \<Rightarrow> Inr (introspected oe cfg token d) | _ \<Rightarrow> Inr None))))"


section \<open>Qualification of the authorization server\<close>

record oauth_qualification =
  oq_issuer :: string
  oq_metadata_url :: string
  oq_authorization_endpoint :: string
  oq_token_endpoint :: string
  oq_registration_endpoint :: "string option"
  oq_cimd :: bool
  oq_auth_methods :: "string list"
  oq_pkce :: "string list"
  oq_modes :: "string list"

definition oauth_qualification_json :: "oauth_qualification \<Rightarrow> dict" where
  "oauth_qualification_json q =
     [(''schema'', JStr ''VERAMESH_OAUTH_QUALIFICATION_V1''), (''issuer'', JStr (oq_issuer q)),
      (''metadata_url'', JStr (oq_metadata_url q)), (''authorization_endpoint'', JStr (oq_authorization_endpoint q)),
      (''token_endpoint'', JStr (oq_token_endpoint q)),
      (''registration_endpoint'', case oq_registration_endpoint q of None \<Rightarrow> JNull | Some u \<Rightarrow> JStr u),
      (''client_id_metadata_document_supported'', JBool (oq_cimd q)),
      (''token_endpoint_auth_methods_supported'', JList (map JStr (oq_auth_methods q))),
      (''code_challenge_methods_supported'', JList (map JStr (oq_pkce q))),
      (''supported_client_modes'', JList (map JStr (oq_modes q))), (''static_metadata_pass'', JBool True),
      (''non_claims'', JList (map JStr
        [''does not prove authorization response issuer behavior'',
         ''does not prove resource parameter preservation'',
         ''does not prove token audience/resource binding'',
         ''does not prove token subject/scopes are suitable for VeraMesh'',
         ''does not register a client or mutate the authorization server'']))]"

abbreviation qualification_error :: exn where
  "qualification_error \<equiv> Config OAuthQualificationError"

definition metadata_url_for_issuer :: "oauth_env \<Rightarrow> string \<Rightarrow> string result" where
  "metadata_url_for_issuer oe issuer0 =
     (case https_url qualification_error oe (Some (JStr issuer0)) of
        Inl x \<Rightarrow> Inl x
      | Inr issuer \<Rightarrow>
          (case url_split oe issuer of
             Inl x \<Rightarrow> Inl x
           | Inr u \<Rightarrow> Inr (su_scheme u @ ''://'' @ su_netloc u @ ''/.well-known/oauth-authorization-server''
               @ rstrip_char (CHR ''/'') (su_path u))))"

definition string_list :: "json option \<Rightarrow> string list option" where
  "string_list v =
     (case v of
        Some (JList xs) \<Rightarrow> if list_all (\<lambda>x. case x of JStr s \<Rightarrow> True | _ \<Rightarrow> False) xs then Some [s. JStr s \<leftarrow> xs] else None
      | _ \<Rightarrow> None)"

definition client_modes :: "bool \<Rightarrow> string list \<Rightarrow> string option \<Rightarrow> string list" where
  "client_modes cimd auth_methods registration =
     (if cimd \<and> list_ex (\<lambda>m. m \<in> {''none'', ''private_key_jwt''}) auth_methods then [''CIMD''] else [])
     @ (if registration \<noteq> None then [''DCR''] else [])"

text \<open>\<^verbatim>\<open>qualify_metadata\<close>, in two parts: the three URLs that must be there, and the rest.\<close>

definition qualify_client ::
  "oauth_env \<Rightarrow> dict \<Rightarrow> (string list \<times> string list \<times> bool \<times> string option \<times> string list) result" where
  "qualify_client oe d =
     (case string_list (map_of d ''code_challenge_methods_supported'') of
        None \<Rightarrow> Inl qualification_error
      | Some pkce \<Rightarrow>
          if ''S256'' \<notin> set pkce then Inl qualification_error
          else (case string_list (Some (dict_get d ''token_endpoint_auth_methods_supported'' (JList []))) of
             None \<Rightarrow> Inl qualification_error
           | Some auth_methods \<Rightarrow>
               (case dict_get d ''client_id_metadata_document_supported'' (JBool False) of
                  JBool cimd \<Rightarrow>
                    (case (if dict_get d ''registration_endpoint'' JNull = JNull then Inr None
                        else map_sum id Some (https_url qualification_error oe (map_of d ''registration_endpoint''))) of
                       Inl x \<Rightarrow> Inl x
                     | Inr registration \<Rightarrow>
                         let modes = client_modes cimd auth_methods registration in
                         if modes = [] then Inl qualification_error else Inr (pkce, auth_methods, cimd, registration, modes))
                | _ \<Rightarrow> Inl qualification_error)))"

definition qualify_metadata :: "oauth_env \<Rightarrow> json \<Rightarrow> string \<Rightarrow> string option \<Rightarrow> oauth_qualification result" where
  "qualify_metadata oe v expected0 metadata_url =
     (case v of
        JObj d \<Rightarrow>
          (case https_url qualification_error oe (map_of d ''issuer'') of
             Inl x \<Rightarrow> Inl x
           | Inr issuer \<Rightarrow>
               (case https_url qualification_error oe (Some (JStr expected0)) of
                  Inl x \<Rightarrow> Inl x
                | Inr expected \<Rightarrow>
                    if issuer \<noteq> expected then Inl qualification_error
                    else (case https_url qualification_error oe (map_of d ''authorization_endpoint'') of
                       Inl x \<Rightarrow> Inl x
                     | Inr authorization \<Rightarrow>
                         (case https_url qualification_error oe (map_of d ''token_endpoint'') of
                            Inl x \<Rightarrow> Inl x
                          | Inr token \<Rightarrow>
                              (case qualify_client oe d of
                                 Inl x \<Rightarrow> Inl x
                               | Inr (pkce, auth_methods, cimd, registration, modes) \<Rightarrow>
                                   (case (case metadata_url of Some m \<Rightarrow> Inr m | None \<Rightarrow> metadata_url_for_issuer oe expected) of
                                      Inl x \<Rightarrow> Inl x
                                    | Inr url \<Rightarrow>
                                        Inr \<lparr>oq_issuer = issuer, oq_metadata_url = url, oq_authorization_endpoint = authorization,
                                             oq_token_endpoint = token, oq_registration_endpoint = registration, oq_cimd = cimd,
                                             oq_auth_methods = auth_methods, oq_pkce = pkce, oq_modes = modes\<rparr>))))))
      | _ \<Rightarrow> Inl qualification_error)"

text \<open>
  \<^verbatim>\<open>fetch_and_qualify\<close>: \<open>get\<close> gives the status and at most 262145 bytes of the body, or \<^const>\<open>None\<close> where opening
  the URL raises; decoding and parsing are \<open>json_loads\<close>, every failure of which is refused.
\<close>

definition fetch_and_qualify ::
  "oauth_env \<Rightarrow> (string \<Rightarrow> (int \<times> string) option) \<Rightarrow> string \<Rightarrow> oauth_qualification result" where
  "fetch_and_qualify oe get issuer =
     (case metadata_url_for_issuer oe issuer of
        Inl x \<Rightarrow> Inl x
      | Inr url \<Rightarrow>
          (case get url of
             None \<Rightarrow> Inl qualification_error
           | Some (status, payload) \<Rightarrow>
               if status \<noteq> 200 then Inl qualification_error
               else if length payload > 262144 then Inl qualification_error
               else (case json_loads (oe_py oe) payload of
                  Inl _ \<Rightarrow> Inl qualification_error
                | Inr v \<Rightarrow> qualify_metadata oe v issuer (Some url))))"

section \<open>What is accepted\<close>

lemma introspectedD:
  assumes "introspected oe cfg token d = Some acc"
  shows "map_of d ''active'' = Some (JBool True) \<and> map_of d ''iss'' = Some (JStr (expected_issuer cfg))
    \<and> map_of d ''sub'' = Some (JStr (at_subject acc)) \<and> at_subject acc \<noteq> [] \<and> map_of d ''exp'' = Some (JInt (at_expires_at acc))
    \<and> now_s oe < at_expires_at acc \<and> resource_matches cfg d \<and> token_scopes (map_of d ''scope'') = Some (at_scopes acc)
    \<and> at_token acc = token \<and> at_claims acc = d"
  using assms by (auto simp: introspected_def split: if_splits option.splits json.splits)

lemma resource_matches_iff:
  "resource_matches cfg d \<Longrightarrow> map_of d ''resource'' = Some (JStr (expected_resource cfg))
     \<or> map_of d ''aud'' = Some (JStr (expected_resource cfg))
     \<or> (\<exists>xs. map_of d ''aud'' = Some (JList xs) \<and> JStr (expected_resource cfg) \<in> set xs)"
  by (auto simp: resource_matches_def split: if_splits option.splits json.splits)

lemma verify_token_Some:
  assumes "verify_token oe post cfg token = Inr (Some acc)"
  obtains secret d where "environ oe (client_secret_env cfg) = Some secret" "secret \<noteq> []" "token \<noteq> []"
    "post (introspection_endpoint cfg) (fst (introspection_request cfg token secret)) (snd (introspection_request cfg token secret))
       = Some (200, Some (JObj d))"
    "introspected oe cfg token d = Some acc"
  using assms by (auto simp: verify_token_def case_prod_unfold Let_def split: if_splits option.splits json.splits)

text \<open>
  A token is accepted only on the word of the endpoint. When verification returns a token, the endpoint that
  the configuration names has answered this very token, with the credentials of the configuration, with
  status 200 and an object that says it is active, issued by the expected issuer, for the subject that is
  returned, meant for the expected resource and not expired; every other answer and every failure gives
  no token.
\<close>
theorem accepted_token_is_vouched:
  assumes "verify_token oe post cfg token = Inr (Some acc)"
  shows "\<exists>secret d. environ oe (client_secret_env cfg) = Some secret \<and> secret \<noteq> []
    \<and> post (introspection_endpoint cfg) (fst (introspection_request cfg token secret)) (snd (introspection_request cfg token secret))
        = Some (200, Some (JObj d))
    \<and> map_of d ''active'' = Some (JBool True) \<and> map_of d ''iss'' = Some (JStr (expected_issuer cfg))
    \<and> map_of d ''sub'' = Some (JStr (at_subject acc)) \<and> at_subject acc \<noteq> []
    \<and> map_of d ''exp'' = Some (JInt (at_expires_at acc)) \<and> now_s oe < at_expires_at acc
    \<and> (map_of d ''resource'' = Some (JStr (expected_resource cfg)) \<or> map_of d ''aud'' = Some (JStr (expected_resource cfg))
         \<or> (\<exists>xs. map_of d ''aud'' = Some (JList xs) \<and> JStr (expected_resource cfg) \<in> set xs))
    \<and> token_scopes (map_of d ''scope'') = Some (at_scopes acc)"
proof -
  obtain secret d where s: "environ oe (client_secret_env cfg) = Some secret" "secret \<noteq> []"
    "post (introspection_endpoint cfg) (fst (introspection_request cfg token secret)) (snd (introspection_request cfg token secret))
       = Some (200, Some (JObj d))"
    "introspected oe cfg token d = Some acc"
    by (rule verify_token_Some [OF assms])
  show ?thesis using s introspectedD [OF s(4)] resource_matches_iff [of cfg d] by blast
qed

lemma rstrip_char_not_suffix: "\<not> suffix [c] (rstrip_char c s)"
proof
  assume "suffix [c] (rstrip_char c s)"
  then obtain zs where "dropWhile (\<lambda>x. x = c) (rev s) = c # zs" by (auto simp: rstrip_char_def suffix_to_prefix prefix_def)
  then show False using hd_dropWhile [of "\<lambda>x. x = c" "rev s"] by simp
qed

lemma https_url_Inr: "https_url err oe v = Inr u \<Longrightarrow> \<exists>s. v = Some (JStr s) \<and> u = rstrip_char (CHR ''/'') s \<and> \<not> suffix ''/'' u"
  using rstrip_char_not_suffix by (auto simp: https_url_def split: option.splits json.splits if_splits sum.splits)

lemma introspection_from_dict_issuer:
  assumes "introspection_from_dict oe (JObj d) = Inr cfg"
  shows "https_url oauth_config_error oe (map_of d ''expected_issuer'') = Inr (expected_issuer cfg)"
  using assms by (auto simp: introspection_from_dict_def split: if_splits sum.splits)

text \<open>
  An issuer with a final slash is never matched. The configuration accepts an issuer that ends in a slash and stores it
  without; the answer of the endpoint is compared with the stored text. Under a configuration read from an
  object that names such an issuer, no token of exactly this issuer is ever accepted.
\<close>
theorem slash_issuer_never_accepted:
  assumes "introspection_from_dict oe (JObj d) = Inr cfg"
    and "map_of d ''expected_issuer'' = Some (JStr issuer)" "suffix ''/'' issuer"
    and "verify_token oe post cfg token = Inr (Some acc)"
  shows "map_of (at_claims acc) ''iss'' \<noteq> Some (JStr issuer)"
proof -
  have "\<not> suffix ''/'' (expected_issuer cfg)"
    using https_url_Inr [OF introspection_from_dict_issuer [OF assms(1)]] by blast
  then have "expected_issuer cfg \<noteq> issuer" using assms(3) by blast
  moreover obtain secret c where "introspected oe cfg token c = Some acc" by (rule verify_token_Some [OF assms(4)])
  ultimately show ?thesis using introspectedD by fastforce
qed

text \<open>Metadata passes qualification only with S256, matching issuers, and a way to get a client.\<close>

lemma qualified_metadata:
  assumes "qualify_metadata oe v expected m = Inr q"
  shows "''S256'' \<in> set (oq_pkce q) \<and> oq_modes q \<noteq> []
    \<and> https_url qualification_error oe (Some (JStr expected)) = Inr (oq_issuer q)
    \<and> oq_modes q = client_modes (oq_cimd q) (oq_auth_methods q) (oq_registration_endpoint q)
    \<and> (\<exists>d. v = JObj d \<and> https_url qualification_error oe (map_of d ''issuer'') = Inr (oq_issuer q)
          \<and> https_url qualification_error oe (map_of d ''authorization_endpoint'') = Inr (oq_authorization_endpoint q)
          \<and> https_url qualification_error oe (map_of d ''token_endpoint'') = Inr (oq_token_endpoint q))"
  using assms
  by (auto simp: qualify_metadata_def qualify_client_def Let_def split: json.splits sum.splits if_splits option.splits)

section \<open>A concrete verifier\<close>

definition demo_oauth :: oauth_env where
  "demo_oauth = \<lparr>netloc_ok = (\<lambda>_. True), ipv6_loopback = (\<lambda>_. None), oe_py = posix_env, is_alnum = (\<lambda>_. True), environ = (\<lambda>_. Some ''x''), now_s = 10\<rparr>"

definition demo_oauth_json :: dict where
  "demo_oauth_json =
     [(''schema'', JStr ''VERAMESH_OAUTH_INTROSPECTION_V1''), (''introspection_endpoint'', JStr ''https://i/x''),
      (''expected_issuer'', JStr ''https://i/''), (''expected_resource'', JStr ''https://r/mcp''), (''client_id'', JStr ''d''),
      (''client_secret_env'', JStr ''n'')]"

definition demo_introspection :: introspection_config where
  "demo_introspection = \<lparr>introspection_endpoint = ''https://i/x'', ic_client_id = ''d'', client_secret_env = ''n'',
     expected_issuer = ''https://i'', expected_resource = ''https://r/mcp'', client_auth_method = ''client_secret_basic'', ic_timeout_s = Fin 5\<rparr>"

definition demo_claims_of :: "string \<Rightarrow> dict" where
  "demo_claims_of issuer =
     [(''active'', JBool True), (''iss'', JStr issuer), (''sub'', JStr ''u''), (''client_id'', JStr ''k''), (''exp'', JInt 20),
      (''resource'', JStr ''https://r/mcp''), (''scope'', JList [JStr ''computer.profile''])]"

definition demo_post :: "string \<Rightarrow> (string \<times> string) list \<Rightarrow> (string \<times> string) option \<Rightarrow> (int \<times> json option) option" where
  "demo_post url form basic = Some (200, Some (JObj (demo_claims_of ''https://i'')))"

definition demo_token :: access_token where
  "demo_token = \<lparr>at_token = ''t'', at_client_id = ''k'', at_scopes = [''computer.profile''], at_expires_at = 20,
     at_resource = ''https://r/mcp'', at_subject = ''u'', at_claims = demo_claims_of ''https://i''\<rparr>"

lemma demo_verified: "verify_token demo_oauth demo_post demo_introspection ''t'' = Inr (Some demo_token)"
  by (simp add: verify_token_def demo_oauth_def demo_post_def demo_introspection_def introspection_request_def introspected_def
      demo_claims_of_def resource_matches_def token_scopes_def demo_token_def)

theorem accepted_token_is_vouched_witness:
  "verify_token demo_oauth demo_post demo_introspection ''t'' = Inr (Some demo_token) \<and> at_subject demo_token \<noteq> []
   \<and> now_s demo_oauth < at_expires_at demo_token"
  using accepted_token_is_vouched [OF demo_verified] demo_verified by blast

lemma demo_oauth_config: "introspection_from_dict demo_oauth (JObj demo_oauth_json) = Inr demo_introspection"
proof -
  have "py_strip ''d'' = ''d''" "py_strip ''n'' = ''n''"
    by (simp_all add: py_strip_def lstrip.simps rstrip.simps py_whitespace_def suffix_def)
  then show ?thesis
    by (simp add: introspection_from_dict_def demo_oauth_json_def https_url_def url_split_def split_scheme_def split1_def
        host_name_def user_name_def pass_word_def rcut_at_def cut_at_def byte_val_def byte_of_def ascii_alpha_def scheme_char_def
        ascii_lower_def demo_oauth_def rstrip_char_def introspection_client_def stripped_def dict_get_def Let_def)
      (simp add: demo_introspection_def)
qed

theorem slash_issuer_never_accepted_witness:
  "map_of (at_claims demo_token) ''iss'' \<noteq> Some (JStr ''https://i/'')"
  by (rule slash_issuer_never_accepted [OF demo_oauth_config _ _ demo_verified]) (simp_all add: demo_oauth_json_def suffix_def)

end
