(* ===== verification/Public_MCP.thy ===== *)
theory Public_MCP
  imports Public_Calls OAuth_Verifier
begin

text \<open>
  \<^verbatim>\<open>public_tool_policy.py\<close> and \<^verbatim>\<open>public_mcp.py\<close>: the catalogue of public tools with their scopes and capabilities,
  and the server that offers the tools a configuration can serve, checks the access token of every call
  and runs the call in the facade of its subject.

  The facades share the controller runtime. The schema check of the MCP library and the request's access
  token are arguments; a call is one step.
\<close>

section \<open>The catalogue\<close>

definition SCOPES :: "string list" where
  "SCOPES = [''computer.profile'', ''computer.read'', ''computer.write'', ''computer.process'']"

record public_tool_policy =
  pt_name :: string
  pt_operation :: string
  pt_scopes :: "string list"
  pt_capabilities :: "string list"
  pt_read_only :: bool
  pt_destructive :: bool
  pt_idempotent :: bool
  pt_open_world :: bool

definition policy :: "string \<Rightarrow> string \<Rightarrow> string list \<Rightarrow> string list \<Rightarrow> bool \<Rightarrow> bool \<Rightarrow> bool \<Rightarrow> bool \<Rightarrow> public_tool_policy" where
  "policy name operation scopes capabilities ro destr idem open_world =
     \<lparr>pt_name = name, pt_operation = operation, pt_scopes = scopes, pt_capabilities = capabilities, pt_read_only = ro,
      pt_destructive = destr, pt_idempotent = idem, pt_open_world = open_world\<rparr>"

definition PUBLIC_TOOLS :: "public_tool_policy list" where
  "PUBLIC_TOOLS =
     [policy ''computer_info'' ''machine.info'' [''computer.profile''] [] True False True False,
      policy ''read_file'' ''fs.read_text'' [''computer.read''] [''fs.read''] True False True False,
      policy ''read_bytes'' ''fs.read_bytes'' [''computer.read''] [''fs.read''] True False True False,
      policy ''stat_path'' ''fs.stat'' [''computer.read''] [''fs.read''] True False True False,
      policy ''list_directory'' ''fs.list_dir'' [''computer.read''] [''fs.read''] True False True False,
      policy ''search_files'' ''fs.search'' [''computer.read''] [''fs.read''] True False True False,
      policy ''search_content'' ''fs.search_content'' [''computer.read''] [''fs.read''] True False True False,
      policy ''write_file'' ''fs.write_text'' [''computer.write''] [''fs.write''] False True True False,
      policy ''append_file'' ''fs.append_text'' [''computer.write''] [''fs.write''] False False False False,
      policy ''make_directory'' ''fs.mkdir'' [''computer.write''] [''fs.write''] False False True False,
      policy ''move_path'' ''fs.move'' [''computer.write''] [''fs.write''] False True False False,
      policy ''replace_text'' ''fs.replace_text'' [''computer.read'', ''computer.write''] [''fs.read'', ''fs.write''] False True False False,
      policy ''run_process'' ''process.exec'' [''computer.process''] [''process.exec''] False True False True,
      policy ''start_process'' ''process.start'' [''computer.process'']
        [''process.exec'', ''process.inspect'', ''process.interact'', ''process.control''] False True False True,
      policy ''list_processes'' ''process.list'' [''computer.process''] [''process.inspect''] True False True False,
      policy ''process_status'' ''process.status'' [''computer.process''] [''process.inspect''] True False True False,
      policy ''process_output'' ''process.output'' [''computer.process''] [''process.inspect''] True False True False,
      policy ''process_input'' ''process.input'' [''computer.process''] [''process.interact''] False True False True,
      policy ''terminate_process'' ''process.terminate'' [''computer.process''] [''process.control'', ''process.inspect''] False True True False,
      policy ''release_process'' ''gateway.release_process'' [''computer.process''] [''process.control''] False True True False]"

definition public_tool_by_name :: "string \<Rightarrow> public_tool_policy option" where
  "public_tool_by_name name = find (\<lambda>p. pt_name p = name) PUBLIC_TOOLS"

text \<open>\<^verbatim>\<open>annotations\<close>, \<^verbatim>\<open>security_schemes\<close>, \<^verbatim>\<open>descriptor_extensions\<close> and \<^verbatim>\<open>oauth_challenge\<close>.\<close>

definition annotations :: "public_tool_policy \<Rightarrow> (string \<times> bool) list" where
  "annotations p =
     [(''readOnlyHint'', pt_read_only p), (''destructiveHint'', pt_destructive p), (''idempotentHint'', pt_idempotent p),
      (''openWorldHint'', pt_open_world p)]"

definition security_schemes :: "public_tool_policy \<Rightarrow> json" where
  "security_schemes p = JList [JObj [(''type'', JStr ''oauth2''), (''scopes'', JList (map JStr (pt_scopes p)))]]"

definition hints :: "public_tool_policy \<Rightarrow> json" where
  "hints p = JObj (map (\<lambda>(k, b). (k, JBool b)) (annotations p))"

definition descriptor_extensions :: "public_tool_policy \<Rightarrow> dict" where
  "descriptor_extensions p =
     [(''securitySchemes'', security_schemes p), (''_meta'', JObj [(''securitySchemes'', security_schemes p)]),
      (''annotations'', hints p)]"

definition safe_challenge_text :: "string \<Rightarrow> bool" where
  "safe_challenge_text s \<longleftrightarrow> s \<noteq> [] \<and> set s \<inter> {CHR 0x22, CHR 0x0D, CHR 0x0A} = {}"

definition oauth_challenge :: "string \<Rightarrow> string \<Rightarrow> string \<Rightarrow> string result" where
  "oauth_challenge url error description =
     (if list_all safe_challenge_text [url, error, description]
      then Inr (''Bearer resource_metadata='' @ [CHR 0x22] @ url @ [CHR 0x22] @ '', error='' @ [CHR 0x22] @ error @ [CHR 0x22]
        @ '', error_description='' @ [CHR 0x22] @ description @ [CHR 0x22])
      else Inl (Py ValueError))"

text \<open>\<^verbatim>\<open>public_policy_document\<close>: the catalogue as published, with the prose of its invariants.\<close>

definition SCOPE_TEXTS :: dict where
  "SCOPE_TEXTS = zip SCOPES (map JStr
     [''Read authenticated workstation identity and path health.'',
      ''Read/search filesystem content inside workstation-allowed roots.'',
      ''Modify filesystem content inside workstation-allowed roots.'',
      ''Start, inspect, interact with, and terminate VeraPort-managed processes.''])"

definition POLICY_INVARIANTS :: "string list" where
  "POLICY_INVARIANTS =
     [''lane_id and fencing_token are internal gateway state and are not public tool parameters'',
      ''OAuth scope checks narrow but never replace VeraPort controller/session/lane/workstation policy'',
      ''a public filesystem call claims only the requested path or search root'',
      ''a public managed-process handle is mapped to one hidden VeraPort lane/fence owned by one authenticated actor'',
      ''successful mutations remain successful even if later lane cleanup fails; cleanup evidence is reported separately'',
      ''public tool metadata must be generated from this catalog rather than maintained independently'',
      ''release_process closes the hidden process lane and terminates the managed child if it is still running'']"

definition policy_entry :: "public_tool_policy \<Rightarrow> json" where
  "policy_entry p =
     JObj [(''name'', JStr (pt_name p)), (''operation'', JStr (pt_operation p)), (''scopes'', JList (map JStr (pt_scopes p))),
       (''capabilities'', JList (map JStr (pt_capabilities p))), (''annotations'', hints p)]"

definition public_policy_document :: dict where
  "public_policy_document =
     [(''schema'', JStr ''VERAMESH_PUBLIC_TOOL_POLICY_V1''),
      (''principle'', JStr ''public_tools_are_ergonomic_facades_over_veraport_authority''),
      (''oauth_scopes'', JObj SCOPE_TEXTS), (''tools'', JList (map policy_entry PUBLIC_TOOLS)),
      (''invariants'', JList (map JStr POLICY_INVARIANTS))]"

section \<open>Which tools are offered\<close>

definition supported :: "controller_config \<Rightarrow> public_tool_policy \<Rightarrow> bool" where
  "supported cfg p =
     (let ops = gateway_operations cfg in
      if pt_name p = ''computer_info'' then True
      else if \<not> {''lane.open'', ''lane.close''} \<subseteq> ops then False
      else if \<not> set (pt_capabilities p) \<subseteq> requested_capabilities cfg then False
      else if pt_operation p = ''gateway.release_process'' then ''process.start'' \<in> ops \<and> ''process.terminate'' \<in> ops
      else if pt_name p \<in> {''list_processes'', ''process_status'', ''process_output'', ''process_input'', ''terminate_process''}
      then ''process.start'' \<in> ops \<and> pt_operation p \<in> ops
      else pt_operation p \<in> ops)"

definition offered :: "controller_config \<Rightarrow> public_tool_policy list" where
  "offered cfg = filter (supported cfg) PUBLIC_TOOLS"

section \<open>Calling a method with keyword arguments\<close>

text \<open>
  \<^verbatim>\<open>method(**arguments)\<close>: an argument the method does not have and a missing one raise \<^const>\<open>TypeError\<close>. The values have
  the types of the schema, which the library has checked; others are refused here as well.
\<close>

definition takes :: "string list \<Rightarrow> dict \<Rightarrow> (dict \<Rightarrow> 'a result) \<Rightarrow> 'a result" where
  "takes names args k = (if fst ` set args \<subseteq> set names then k args else Inl (Py TypeError))"

definition str_of :: "dict \<Rightarrow> string \<Rightarrow> json \<Rightarrow> string result" where
  "str_of args k dflt = (case dict_get args k dflt of JStr s \<Rightarrow> Inr s | _ \<Rightarrow> Inl (Py TypeError))"

definition bool_of :: "dict \<Rightarrow> string \<Rightarrow> bool \<Rightarrow> bool result" where
  "bool_of args k dflt = (case dict_get args k (JBool dflt) of JBool b \<Rightarrow> Inr b | _ \<Rightarrow> Inl (Py TypeError))"

definition strs_of :: "dict \<Rightarrow> string \<Rightarrow> string list result" where
  "strs_of args k = (case string_list (map_of args k) of None \<Rightarrow> Inl (Py TypeError) | Some xs \<Rightarrow> Inr xs)"

definition and_then :: "'a result \<Rightarrow> ('a \<Rightarrow> 'b result) \<Rightarrow> 'b result" where
  "and_then r k = (case r of Inl x \<Rightarrow> Inl x | Inr v \<Rightarrow> k v)"

abbreviation required :: json where
  "required \<equiv> JNull"

text \<open>The bound method as a function of the facade, by the tool's name.\<close>

type_synonym 'w call = "'w facade \<Rightarrow> dict result \<times> 'w facade"

definition file_method :: "('w, 'sk, 'pk) facade_env \<Rightarrow> string \<Rightarrow> dict \<Rightarrow> 'w call result" where
  "file_method fe name args0 =
     (if name = ''read_file'' then takes [''path'', ''encoding''] args0 (\<lambda>args.
        and_then (str_of args ''path'' required) (\<lambda>p. and_then (str_of args ''encoding'' (JStr ''utf-8'')) (\<lambda>e. Inr (read_file fe p e))))
      else if name = ''read_bytes'' then takes [''path'', ''offset'', ''max_bytes'', ''expected_file_version''] args0 (\<lambda>args.
        and_then (str_of args ''path'' required) (\<lambda>p. Inr (public_read_bytes fe p (dict_get args ''offset'' (JInt 0))
          (dict_get args ''max_bytes'' JNull) (dict_get args ''expected_file_version'' JNull))))
      else if name = ''stat_path'' then takes [''path''] args0 (\<lambda>args.
        and_then (str_of args ''path'' required) (\<lambda>p. Inr (stat_path fe p)))
      else if name = ''list_directory'' then takes [''path'', ''offset'', ''max_entries''] args0 (\<lambda>args.
        and_then (str_of args ''path'' required) (\<lambda>p. Inr (list_directory fe p (dict_get args ''offset'' (JInt 0))
          (dict_get args ''max_entries'' (JInt 200)))))
      else if name = ''search_files'' then
        takes [''root'', ''query'', ''offset'', ''max_results'', ''max_entries'', ''max_depth'', ''case_sensitive''] args0 (\<lambda>args.
        and_then (str_of args ''root'' required) (\<lambda>p. and_then (str_of args ''query'' required) (\<lambda>q.
          and_then (bool_of args ''case_sensitive'' False) (\<lambda>b. Inr (search_files fe p q (dict_get args ''offset'' (JInt 0))
            (dict_get args ''max_results'' (JInt 100)) (dict_get args ''max_entries'' (JInt 10000)) (dict_get args ''max_depth'' (JInt 12)) b)))))
      else if name = ''search_content'' then
        takes [''root'', ''query'', ''file_pattern'', ''offset'', ''max_results'', ''max_entries'', ''max_depth'', ''max_total_bytes'',
          ''case_sensitive''] args0 (\<lambda>args.
        and_then (str_of args ''root'' required) (\<lambda>p. and_then (str_of args ''query'' required) (\<lambda>q.
          and_then (str_of args ''file_pattern'' (JStr ''*'')) (\<lambda>pat. and_then (bool_of args ''case_sensitive'' False) (\<lambda>b.
            Inr (public_search_content fe p q pat (dict_get args ''offset'' (JInt 0)) (dict_get args ''max_results'' (JInt 100))
              (dict_get args ''max_entries'' (JInt 10000)) (dict_get args ''max_depth'' (JInt 12))
              (dict_get args ''max_total_bytes'' (JInt (8 * 1024 * 1024))) b))))))
      else if name = ''write_file'' then takes [''path'', ''content'', ''encoding''] args0 (\<lambda>args.
        and_then (str_of args ''path'' required) (\<lambda>p. and_then (str_of args ''content'' required) (\<lambda>c.
          and_then (str_of args ''encoding'' (JStr ''utf-8'')) (\<lambda>e. Inr (write_file fe p c e)))))
      else if name = ''append_file'' then takes [''path'', ''content'', ''encoding''] args0 (\<lambda>args.
        and_then (str_of args ''path'' required) (\<lambda>p. and_then (str_of args ''content'' required) (\<lambda>c.
          and_then (str_of args ''encoding'' (JStr ''utf-8'')) (\<lambda>e. Inr (append_file fe p c e)))))
      else if name = ''make_directory'' then takes [''path'', ''parents''] args0 (\<lambda>args.
        and_then (str_of args ''path'' required) (\<lambda>p. and_then (bool_of args ''parents'' True) (\<lambda>b. Inr (public_make_directory fe p b))))
      else if name = ''move_path'' then takes [''source'', ''destination''] args0 (\<lambda>args.
        and_then (str_of args ''source'' required) (\<lambda>s. and_then (str_of args ''destination'' required) (\<lambda>d. Inr (public_move_path fe s d))))
      else if name = ''replace_text'' then takes [''path'', ''old_string'', ''new_string'', ''expected_count'', ''encoding''] args0 (\<lambda>args.
        and_then (str_of args ''path'' required) (\<lambda>p. and_then (str_of args ''old_string'' required) (\<lambda>old_string.
          and_then (str_of args ''new_string'' required) (\<lambda>new_string. and_then (str_of args ''encoding'' (JStr ''utf-8'')) (\<lambda>e.
            Inr (public_replace_text fe p old_string new_string (dict_get args ''expected_count'' (JInt 1)) e))))))
      else Inl (Py TypeError))"

definition process_method :: "('w, 'sk, 'pk) facade_env \<Rightarrow> string \<Rightarrow> dict \<Rightarrow> 'w call result" where
  "process_method fe name args0 =
     (if name = ''run_process'' then takes [''argv'', ''cwd'', ''timeout_s''] args0 (\<lambda>args.
        and_then (strs_of args ''argv'') (\<lambda>argv. and_then (str_of args ''cwd'' required) (\<lambda>cwd.
          Inr (public_run_process fe argv cwd (dict_get args ''timeout_s'' (JFloat (Fin 60)))))))
      else if name = ''start_process'' then takes [''argv'', ''cwd'', ''max_runtime_s''] args0 (\<lambda>args.
        and_then (strs_of args ''argv'') (\<lambda>argv. and_then (str_of args ''cwd'' required) (\<lambda>cwd.
          Inr (public_start_process fe argv cwd (dict_get args ''max_runtime_s'' (JFloat (Fin 900)))))))
      else if name = ''list_processes'' then takes [] args0 (\<lambda>args. Inr (\<lambda>f. case list_processes fe f of (d, f1) \<Rightarrow> (Inr d, f1)))
      else if name = ''process_status'' then takes [''process_handle''] args0 (\<lambda>args.
        and_then (str_of args ''process_handle'' required) (\<lambda>h. Inr (public_process_status fe h)))
      else if name = ''process_output'' then takes [''process_handle'', ''stdout_offset'', ''stderr_offset'', ''max_bytes''] args0 (\<lambda>args.
        and_then (str_of args ''process_handle'' required) (\<lambda>h. Inr (public_process_output fe h (dict_get args ''stdout_offset'' (JInt 0))
          (dict_get args ''stderr_offset'' (JInt 0)) (dict_get args ''max_bytes'' (JInt 16384)))))
      else if name = ''process_input'' then takes [''process_handle'', ''input_text'', ''append_newline''] args0 (\<lambda>args.
        and_then (str_of args ''process_handle'' required) (\<lambda>h. and_then (str_of args ''input_text'' required) (\<lambda>t.
          and_then (bool_of args ''append_newline'' True) (\<lambda>b. Inr (public_process_input fe h t b)))))
      else if name = ''terminate_process'' then takes [''process_handle'', ''grace_s''] args0 (\<lambda>args.
        and_then (str_of args ''process_handle'' required) (\<lambda>h. Inr (terminate_process fe h (dict_get args ''grace_s'' (JFloat (Fin 2))))))
      else if name = ''release_process'' then takes [''process_handle''] args0 (\<lambda>args.
        and_then (str_of args ''process_handle'' required) (\<lambda>h. Inr (release_process fe h)))
      else Inl (Py TypeError))"

definition facade_method :: "('w, 'sk, 'pk) facade_env \<Rightarrow> string \<Rightarrow> dict \<Rightarrow> 'w call result" where
  "facade_method fe name args =
     (if name = ''computer_info'' then takes [] args (\<lambda>_. Inr (computer_info fe))
      else case file_method fe name args of Inr m \<Rightarrow> Inr m | Inl _ \<Rightarrow> process_method fe name args)"

section \<open>The server\<close>

record mcp_token =
  mt_subject :: "string option"
  mt_scopes :: "string list"

definition mcp_token_of :: "access_token \<Rightarrow> mcp_token" where
  "mcp_token_of t = \<lparr>mt_subject = Some (at_subject t), mt_scopes = at_scopes t\<rparr>"

record ('w, 'sk, 'pk) mcp_env =
  me_facade :: "('w, 'sk, 'pk) facade_env"
  me_issuer :: string
  me_metadata_url :: string
  me_schema_ok :: "string \<Rightarrow> dict \<Rightarrow> bool"

record 'w mcp =
  m_runtime :: "'w controller"
  m_facades :: "(string \<times> (string \<times> process_lease) list) list"

definition mcp_new :: "('w, 'sk, 'pk) mcp_env \<Rightarrow> 'w controller \<Rightarrow> 'w mcp result" where
  "mcp_new me c =
     (if \<not> startswith (me_metadata_url me) ''https://'' then Inl (Py ValueError)
      else if \<not> startswith (me_issuer me) ''https://'' then Inl (Py ValueError)
      else Inr \<lparr>m_runtime = c, m_facades = []\<rparr>)"

datatype tool_result =
  Unavailable | Invalid_Arguments | Challenge string string | Tool_Error string string | Tool_Result dict

definition actor_of :: "('w, 'sk, 'pk) mcp_env \<Rightarrow> string \<Rightarrow> string" where
  "actor_of me subject = rstrip_char (CHR ''/'') (me_issuer me) @ ''|'' @ subject"

definition acting :: "('w, 'sk, 'pk) mcp_env \<Rightarrow> string \<Rightarrow> ('w, 'sk, 'pk) facade_env" where
  "acting me actor = (me_facade me)\<lparr>fe_actor := actor\<rparr>"

text \<open>The scopes a call lacks, and the challenge that answers it.\<close>

definition missing_scopes :: "public_tool_policy \<Rightarrow> mcp_token option \<Rightarrow> string set" where
  "missing_scopes p token = set (pt_scopes p) - (case token of None \<Rightarrow> {} | Some t \<Rightarrow> set (mt_scopes t))"

definition challenge :: "('w, 'sk, 'pk) mcp_env \<Rightarrow> public_tool_policy \<Rightarrow> mcp_token option \<Rightarrow> tool_result result" where
  "challenge me p token =
     (let (error, description) =
        (if (case token of None \<Rightarrow> True | Some t \<Rightarrow> mt_subject t \<in> {None, Some []})
         then (''invalid_token'', ''Link your VeraMesh account to continue.'')
         else (''insufficient_scope'', ''Additional VeraMesh permission required: ''
                 @ join '', '' (sorted_list_of_set (missing_scopes p token))))
      in map_sum id (Challenge description) (oauth_challenge (me_metadata_url me) error description))"

text \<open>\<^verbatim>\<open>message[:4096] + "..."\<close> counts code points: a byte that continues one is dropped or kept with it.\<close>

definition starts_point :: "char \<Rightarrow> bool" where
  "starts_point c \<longleftrightarrow> byte_val c < 128 \<or> 192 \<le> byte_val c"

fun take_points :: "nat \<Rightarrow> string \<Rightarrow> string" where
  "take_points n [] = []"
| "take_points n (c # s) =
     (if starts_point c then (case n of 0 \<Rightarrow> [] | Suc m \<Rightarrow> c # take_points m s) else c # take_points n s)"

definition shortened :: "string \<Rightarrow> string" where
  "shortened s = (if length (filter starts_point s) > 4096 then take_points 4096 s @ ''...'' else s)"

definition tool_error :: "('w, 'sk, 'pk) mcp_env \<Rightarrow> exn \<Rightarrow> tool_result" where
  "tool_error me x = Tool_Error (public_code (fe_class (me_facade me)) x) (shortened (fe_text (me_facade me) x))"

definition run_method ::
  "('w, 'sk, 'pk) mcp_env \<Rightarrow> string \<Rightarrow> string \<Rightarrow> dict \<Rightarrow> 'w mcp \<Rightarrow> tool_result \<times> 'w mcp" where
  "run_method me actor name args m =
     (case facade_method (acting me actor) name args of
        Inl x \<Rightarrow> (tool_error me x, m)
      | Inr g \<Rightarrow>
          (case g \<lparr>f_runtime = m_runtime m, f_processes = dict_get (m_facades m) actor []\<rparr> of
             (r, f) \<Rightarrow>
               (case r of Inl x \<Rightarrow> tool_error me x | Inr d \<Rightarrow> Tool_Result d,
                \<lparr>m_runtime = f_runtime f, m_facades = AList.update actor (f_processes f) (m_facades m)\<rparr>)))"

text \<open>
  \<^verbatim>\<open>call_tool\<close>. The library refuses arguments that do not fit the schema of an offered tool before the
  handler runs. The facade of an actor is made on its first call; a blank actor cannot occur, since the
  identifier holds the issuer.
\<close>

definition call_tool ::
  "('w, 'sk, 'pk) mcp_env \<Rightarrow> mcp_token option \<Rightarrow> string \<Rightarrow> dict \<Rightarrow> 'w mcp \<Rightarrow> tool_result result \<times> 'w mcp" where
  "call_tool me token name args m =
     (case find (\<lambda>p. pt_name p = name) (offered (rt_config (fe_rt (me_facade me)))) of
        None \<Rightarrow> (Inr Unavailable, m)
      | Some p \<Rightarrow>
          if \<not> me_schema_ok me name args then (Inr Invalid_Arguments, m)
          else (case token of
             None \<Rightarrow> (challenge me p token, m)
           | Some t \<Rightarrow>
               (case mt_subject t of
                  None \<Rightarrow> (challenge me p token, m)
                | Some subject \<Rightarrow>
                    if subject = [] \<or> missing_scopes p token \<noteq> {} then (challenge me p token, m)
                    else let actor = actor_of me subject;
                             m1 = m\<lparr>m_facades := (if map_of (m_facades m) actor = None then AList.update actor [] (m_facades m)
                                                  else m_facades m)\<rparr>
                      in (case run_method me actor name args m1 of (r, m2) \<Rightarrow> (Inr r, m2)))))"

text \<open>\<^verbatim>\<open>PublicMCPBundle.close\<close>: the facades one after the other; an exception ends it.\<close>

fun close_facades ::
  "('w, 'sk, 'pk) mcp_env \<Rightarrow> (string \<times> (string \<times> process_lease) list) list \<Rightarrow> 'w mcp \<Rightarrow> dict result \<times> 'w mcp" where
  "close_facades me [] m = (Inr [], m)"
| "close_facades me ((actor, ps) # rest) m =
     (case facade_close (acting me actor) \<lparr>f_runtime = m_runtime m, f_processes = dict_get (m_facades m) actor []\<rparr> of
        (r, f) \<Rightarrow>
          let m1 = \<lparr>m_runtime = f_runtime f, m_facades = AList.update actor (f_processes f) (m_facades m)\<rparr> in
          (case r of
             Inl x \<Rightarrow> (Inl x, m1)
           | Inr d \<Rightarrow>
               (case close_facades me rest m1 of
                  (Inl x, m2) \<Rightarrow> (Inl x, m2)
                | (Inr ds, m2) \<Rightarrow> (Inr ((actor, JObj d) # ds), m2))))"

definition bundle_close :: "('w, 'sk, 'pk) mcp_env \<Rightarrow> 'w mcp \<Rightarrow> dict result \<times> 'w mcp" where
  "bundle_close me m = close_facades me (m_facades m) m"


section \<open>Every method is a step of its facade\<close>

lemma takes_Inr: "takes names args k = Inr g \<Longrightarrow> k args = Inr g"
  by (simp add: takes_def split: if_splits)

lemma and_then_Inr: "and_then r k = Inr g \<Longrightarrow> \<exists>v. r = Inr v \<and> k v = Inr g"
  by (auto simp: and_then_def split: sum.splits)

lemmas call_steps = calm_facade_step [OF handles.read_calls_calm(1)] calm_facade_step [OF handles.read_calls_calm(2)]
  calm_facade_step [OF handles.read_calls_calm(3)] calm_facade_step [OF handles.read_calls_calm(4)]
  calm_facade_step [OF handles.read_calls_calm(5)] calm_facade_step [OF handles.read_calls_calm(6)]
  calm_facade_step [OF handles.write_calls_calm(1)] calm_facade_step [OF handles.write_calls_calm(2)]
  calm_facade_step [OF handles.write_calls_calm(3)] calm_facade_step [OF handles.write_calls_calm(4)]
  calm_facade_step [OF handles.write_calls_calm(5)] calm_facade_step [OF handles.write_calls_calm(6)]
  calm_facade_step [OF handles.info_calm] start_step release_step(1) process_calls_step [THEN conjunct1]

lemma file_method_cases:
  assumes "file_method fe name args = Inr g"
  obtains (read) "name \<in> {''read_file'', ''read_bytes'', ''stat_path'', ''list_directory'', ''search_files'', ''search_content''}"
      "\<And>D f r f'. unsent D \<Longrightarrow> g f = (r, f') \<Longrightarrow> calm_step D fe f f'"
  | (change) op where "(name, op) \<in> {(''write_file'', ''fs.write_text''), (''append_file'', ''fs.append_text''),
        (''make_directory'', ''fs.mkdir''), (''move_path'', ''fs.move''), (''replace_text'', ''fs.replace_text'')}"
      "\<And>D f r f'. unsent D \<Longrightarrow> op \<notin> D \<Longrightarrow> g f = (r, f') \<Longrightarrow> calm_step D fe f f'"
  using assms unfolding file_method_def
  by (auto split: if_splits dest!: takes_Inr and_then_Inr intro: unsent.read_calls_calm unsent.write_calls_calm)

lemma process_method_step:
  assumes "process_method fe name args = Inr g" "g f = (r, f')"
  shows "facade_step fe f f'"
proof -
  have run: "facade_step fe f f'" if "public_run_process fe argv cwd t f = (r, f')" for argv cwd t
    by (rule calm_facade_step [OF handles.write_calls_calm(6) [OF that]]) (simp add: HANDLE_OPERATIONS_def)
  show ?thesis using assms unfolding process_method_def
    by (auto split: if_splits prod.splits dest!: takes_Inr and_then_Inr
        intro: run start_step release_step(1) list_processes_step process_calls_step [THEN conjunct1])
qed

lemma method_step:
  assumes "facade_method fe name args = Inr g" "g f = (r, f')"
  shows "facade_step fe f f'"
proof (cases "name = ''computer_info''")
  case True
  then have "g = computer_info fe" using assms(1) by (auto simp: facade_method_def dest: takes_Inr)
  then show ?thesis using assms(2) calm_facade_step [OF handles.info_calm] by blast
next
  case False
  note other = this
  show ?thesis
  proof (cases "file_method fe name args")
    case (Inl x)
    then show ?thesis using assms other process_method_step by (auto simp: facade_method_def)
  next
    case (Inr h)
    then have h: "file_method fe name args = Inr g" using assms(1) other by (simp add: facade_method_def)
    from h show ?thesis
    proof (cases rule: file_method_cases)
      case read
      show ?thesis by (rule calm_facade_step [OF read(2) [OF handles.unsent_axioms assms(2)]])
    next
      case (change op)
      have "op \<notin> set HANDLE_OPERATIONS" using change(1) by (auto simp: HANDLE_OPERATIONS_def)
      then show ?thesis by (rule calm_facade_step [OF change(2) [OF handles.unsent_axioms _ assms(2)]])
    qed
  qed
qed

section \<open>Runs of the server\<close>

inductive mcp_reach :: "('w, 'sk, 'pk) mcp_env \<Rightarrow> 'w mcp \<Rightarrow> bool" for me where
  mcp_start: "controller_new (fe_rt (me_facade me)) epoch w = Inr c \<Longrightarrow> mcp_new me c = Inr m \<Longrightarrow> mcp_reach me m"
| mcp_call: "mcp_reach me m \<Longrightarrow> call_tool me token name args m = (r, m') \<Longrightarrow> mcp_reach me m'"
| mcp_bundle_close: "mcp_reach me m \<Longrightarrow> bundle_close me m = (r, m') \<Longrightarrow> mcp_reach me m'"
| mcp_runtime_close: "mcp_reach me m \<Longrightarrow> mcp_reach me (m\<lparr>m_runtime := controller_close (fe_rt (me_facade me)) (m_runtime m)\<rparr>)"
| mcp_world: "mcp_reach me m \<Longrightarrow> mcp_reach me (m\<lparr>m_runtime := (m_runtime m)\<lparr>c_net := (c_net (m_runtime m))\<lparr>ns_world := w\<rparr>\<rparr>\<rparr>)"

abbreviation mlog :: "'w mcp \<Rightarrow> sent list" where
  "mlog m \<equiv> log (m_runtime m)"

abbreviation tag_of :: "('w, 'sk, 'pk) mcp_env \<Rightarrow> string \<Rightarrow> string" where
  "tag_of me actor \<equiv> actor_tag (acting me actor)"

definition mcp_inv :: "('w, 'sk, 'pk) mcp_env \<Rightarrow> 'w mcp \<Rightarrow> bool" where
  "mcp_inv me m \<longleftrightarrow> controller_reach (fe_py (me_facade me)) (fe_rt (me_facade me)) (m_runtime m)
     \<and> (\<forall>actor ps. map_of (m_facades m) actor = Some ps \<longrightarrow> leases_ok (tag_of me actor) (mlog m) ps)"

definition facade_of :: "'w mcp \<Rightarrow> string \<Rightarrow> 'w facade" where
  "facade_of m actor = \<lparr>f_runtime = m_runtime m, f_processes = dict_get (m_facades m) actor []\<rparr>"

definition put_facade :: "'w mcp \<Rightarrow> string \<Rightarrow> 'w facade \<Rightarrow> 'w mcp" where
  "put_facade m actor f = \<lparr>m_runtime = f_runtime f, m_facades = AList.update actor (f_processes f) (m_facades m)\<rparr>"

lemma leases_ok_Nil: "leases_ok tag L []"
  by (simp add: leases_ok_def)

lemma facade_of_ok: "mcp_inv me m \<Longrightarrow> leases_ok (tag_of me actor) (mlog m) (f_processes (facade_of m actor))"
  by (auto simp: facade_of_def mcp_inv_def dict_get_def leases_ok_Nil split: option.split)

lemma facade_of_simps [simp]: "f_runtime (facade_of m actor) = m_runtime m"
  by (simp add: facade_of_def)

lemma acting_simps [simp]: "fe_rt (acting me actor) = fe_rt (me_facade me)" "fe_py (acting me actor) = fe_py (me_facade me)"
  by (simp_all add: acting_def)

text \<open>A step of one facade is a step of the server: its log grows by backed requests, other tables stay.\<close>

lemma put_facade_inv:
  assumes "facade_step (acting me actor) (facade_of m actor) f" "mcp_inv me m" "config_ok (rt_config (fe_rt (me_facade me)))"
  shows "mcp_inv me (put_facade m actor f) \<and> grows (tag_of me actor) (mlog m) (mlog (put_facade m actor f))"
proof -
  have st: "controller_reach (fe_py (me_facade me)) (fe_rt (me_facade me)) (f_runtime f)"
    "leases_ok (tag_of me actor) (flog f) (f_processes f)" "grows (tag_of me actor) (mlog m) (flog f)"
    using assms facade_of_ok [OF assms(2)] by (auto simp: facade_step_def mcp_inv_def)
  have "leases_ok (tag_of me a) (flog f) ps" if "map_of (m_facades m) a = Some ps" for a ps
    using that assms(2) st(3) leases_ok_append by (auto simp: mcp_inv_def grows_def)
  then show ?thesis using st by (auto simp: mcp_inv_def put_facade_def dict_simps)
qed

lemma run_method_eq:
  "run_method me actor name args m =
     (case facade_method (acting me actor) name args of
        Inl x \<Rightarrow> (tool_error me x, m)
      | Inr g \<Rightarrow> (case g (facade_of m actor) of (r, f) \<Rightarrow> (case r of Inl x \<Rightarrow> tool_error me x | Inr d \<Rightarrow> Tool_Result d, put_facade m actor f)))"
  unfolding run_method_def facade_of_def put_facade_def by (rule refl)

definition with_facade :: "'w mcp \<Rightarrow> string \<Rightarrow> 'w mcp" where
  "with_facade m actor = m\<lparr>m_facades := (if map_of (m_facades m) actor = None then AList.update actor [] (m_facades m) else m_facades m)\<rparr>"

lemma with_facade_inv: "mcp_inv me m \<Longrightarrow> mcp_inv me (with_facade m actor)"
  by (auto simp: mcp_inv_def with_facade_def dict_simps leases_ok_Nil)

text \<open>A call either changes nothing, or an authorized call of one actor.\<close>

lemma call_tool_cases:
  assumes "call_tool me token name args m = (r, m')"
  obtains (refused) "m' = m" "\<And>d. r \<noteq> Inr (Tool_Result d)"
  | (run) t p subject q where "token = Some t" "mt_subject t = Some subject" "subject \<noteq> []"
      "find (\<lambda>p. pt_name p = name) (offered (rt_config (fe_rt (me_facade me)))) = Some p" "missing_scopes p token = {}"
      "run_method me (actor_of me subject) name args (with_facade m (actor_of me subject)) = (q, m')" "r = Inr q"
proof -
  have ch: "challenge me p token \<noteq> Inr (Tool_Result d)" for p d
    by (auto simp: challenge_def oauth_challenge_def Let_def split: if_splits)
  show ?thesis
    using assms ch
    by (auto simp: call_tool_def with_facade_def Let_def split: option.splits if_splits prod.splits intro: refused run)
qed

lemma run_method_step:
  assumes "run_method me actor name args m = (q, m')" "mcp_inv me m" "config_ok (rt_config (fe_rt (me_facade me)))"
  shows "mcp_inv me m' \<and> grows (tag_of me actor) (mlog m) (mlog m')
    \<and> (\<forall>a. a \<noteq> actor \<longrightarrow> map_of (m_facades m') a = map_of (m_facades m) a)"
proof (cases "facade_method (acting me actor) name args")
  case (Inl x)
  then show ?thesis using assms by (simp add: run_method_eq)
next
  case (Inr g)
  obtain r f where g: "g (facade_of m actor) = (r, f)" by fastforce
  have m': "m' = put_facade m actor f" using assms(1) Inr g by (simp add: run_method_eq)
  show ?thesis
    using put_facade_inv [OF method_step [OF Inr g] assms(2,3)] unfolding m' by (simp add: put_facade_def dict_simps)
qed

lemma call_tool_step:
  assumes "call_tool me token name args m = (r, m')" "mcp_inv me m" "config_ok (rt_config (fe_rt (me_facade me)))"
    and "token = Some t" "mt_subject t = Some subject"
  shows "mcp_inv me m' \<and> grows (tag_of me (actor_of me subject)) (mlog m) (mlog m')
    \<and> (\<forall>a. a \<noteq> actor_of me subject \<longrightarrow> map_of (m_facades m') a = map_of (m_facades m) a)"
  using assms(1)
proof (cases rule: call_tool_cases)
  case refused
  then show ?thesis using assms(2) by simp
next
  case (run t' p subject' q)
  then have "subject' = subject" using assms(4,5) by simp
  then show ?thesis
    using run_method_step [OF run(6) with_facade_inv [OF assms(2)] assms(3)] by (auto simp: with_facade_def dict_simps)
qed

lemma close_facades_inv:
  "close_facades me fs m = (r, m') \<Longrightarrow> mcp_inv me m \<Longrightarrow> config_ok (rt_config (fe_rt (me_facade me))) \<Longrightarrow> mcp_inv me m'"
proof (induction fs arbitrary: m r)
  case (Cons a fs)
  obtain actor ps where a: "a = (actor, ps)" by fastforce
  obtain q f where c: "facade_close (acting me actor) (facade_of m actor) = (q, f)" by fastforce
  have inv: "mcp_inv me (put_facade m actor f)"
    using put_facade_inv [OF facade_close_step [OF c] Cons.prems(2,3)] by simp
  obtain ds m2 where rest: "close_facades me fs (put_facade m actor f) = (ds, m2)" by fastforce
  have "m' = put_facade m actor f \<or> m' = m2"
    using Cons.prems(1) c rest by (cases q; cases ds) (auto simp: a facade_of_def put_facade_def)
  then show ?case using inv Cons.IH [OF _ inv Cons.prems(3)] rest by auto
qed simp

lemma controller_close_log: "log (controller_close rt c) = log c"
proof -
  have "log (fold (\<lambda>e. close_channel rt (le_id e) (le_session e)) es c) = log c" for es
    by (induction es arbitrary: c) simp_all
  then show ?thesis by (simp add: controller_close_def)
qed

lemma mcp_reach_inv:
  assumes "mcp_reach me m" "config_ok (rt_config (fe_rt (me_facade me)))"
  shows "mcp_inv me m"
  using assms(1)
proof (induction rule: mcp_reach.induct)
  case (mcp_start epoch w c m)
  then show ?case by (auto simp: mcp_new_def mcp_inv_def intro: ctl_new split: if_splits)
next
  case (mcp_call m token name args r m')
  from mcp_call.hyps(2) show ?case
  proof (cases rule: call_tool_cases)
    case (run t p subject q)
    then show ?thesis using call_tool_step [OF mcp_call.hyps(2) mcp_call.IH assms(2)] by blast
  qed (use mcp_call.IH in simp)
next
  case (mcp_bundle_close m r m')
  then show ?case using close_facades_inv assms(2) by (auto simp: bundle_close_def)
next
  case (mcp_runtime_close m)
  then show ?case by (auto simp: mcp_inv_def controller_close_log intro: ctl_close)
qed (auto simp: mcp_inv_def intro: ctl_world)

text \<open>
  (C16) Actors are isolated. In every run of the public server over an accepted configuration, a call with the
  token of one subject leaves the process tables of all other actors as they are, and every request of it
  that names a process of the workstation names one that was started before in the very lane, a lane
  opened for this actor, with the token and the handle of that start: whatever handle a caller passes, it reaches
  no process of another actor.
\<close>
theorem actors_are_isolated:
  assumes "config_load env resolve content = Inr (rt_config (fe_rt (me_facade me)))" "mcp_reach me m"
    and "mt_subject t = Some subject" "call_tool me (Some t) name args m = (r, m')"
  shows "(\<forall>a. a \<noteq> actor_of me subject \<longrightarrow> map_of (m_facades m') a = map_of (m_facades m) a)
    \<and> (\<exists>d. mlog m' = mlog m @ d \<and> (\<forall>pre x post. d = pre @ x # post \<longrightarrow>
        (\<exists>op \<in> set HANDLE_OPERATIONS. map_of (s_request x) ''operation'' = Some (JStr op)) \<longrightarrow>
        (\<exists>lid tok h. prefix (''public-lane:'' @ tag_of me (actor_of me subject) @ '':'') lid
           \<and> map_of (s_request x) ''lane_id'' = Some (JStr lid) \<and> map_of (s_request x) ''fencing_token'' = Some (JInt tok)
           \<and> map_of (s_request x) ''process_handle'' = Some (JStr h) \<and> started_with (mlog m @ pre) lid tok h)))"
proof -
  note cfg = accepted_config_ok [OF assms(1)]
  have st: "grows (tag_of me (actor_of me subject)) (mlog m) (mlog m')"
    "\<forall>a. a \<noteq> actor_of me subject \<longrightarrow> map_of (m_facades m') a = map_of (m_facades m) a"
    using call_tool_step [OF assms(4) mcp_reach_inv [OF assms(2) cfg] cfg refl assms(3)] by simp_all
  then show ?thesis by (auto simp: grows_def backed_def free_of_def)
qed

section \<open>Who may call what\<close>

lemma offered_tool:
  assumes "find (\<lambda>p. pt_name p = name) (offered cfg) = Some p"
  shows "p \<in> set PUBLIC_TOOLS" "pt_name p = name" "set (pt_capabilities p) \<subseteq> requested_capabilities cfg" "supported cfg p"
proof -
  have p: "p \<in> set (offered cfg)" "pt_name p = name" using assms by (auto simp: find_Some_iff)
  then show tool: "p \<in> set PUBLIC_TOOLS" and "pt_name p = name" and sup: "supported cfg p" by (simp_all add: offered_def)
  have "pt_name p = ''computer_info'' \<Longrightarrow> pt_capabilities p = []"
    using tool by (auto simp: PUBLIC_TOOLS_def policy_def)
  then show "set (pt_capabilities p) \<subseteq> requested_capabilities cfg"
    using sup by (cases "pt_name p = ''computer_info''") (auto simp: supported_def Let_def split: if_splits)
qed

text \<open>
  (C17) Nothing happens without a vouched token. When a public call with the token that verification returned has a
  result or changes anything, then the tool is one of the catalogue that the configuration supports and
  whose capabilities it requests, and the introspection endpoint has called this bearer token active, issued
  by the expected issuer to the subject, with every scope of the tool.
\<close>
theorem tools_need_a_vouched_token:
  assumes "verify_token oe post ocfg bearer = Inr tok"
    and "call_tool me (map_option mcp_token_of tok) name args m = (r, m')"
    and "(\<exists>d. r = Inr (Tool_Result d)) \<or> m' \<noteq> m"
  shows "\<exists>p acc secret d scopes. p \<in> set PUBLIC_TOOLS \<and> pt_name p = name \<and> supported (rt_config (fe_rt (me_facade me))) p
    \<and> set (pt_capabilities p) \<subseteq> requested_capabilities (rt_config (fe_rt (me_facade me)))
    \<and> tok = Some acc
    \<and> post (introspection_endpoint ocfg) (fst (introspection_request ocfg bearer secret)) (snd (introspection_request ocfg bearer secret))
        = Some (200, Some (JObj d))
    \<and> map_of d ''active'' = Some (JBool True) \<and> map_of d ''iss'' = Some (JStr (expected_issuer ocfg))
    \<and> map_of d ''sub'' = Some (JStr (at_subject acc)) \<and> token_scopes (map_of d ''scope'') = Some scopes
    \<and> set (pt_scopes p) \<subseteq> set scopes"
  using assms(2)
proof (cases rule: call_tool_cases)
  case refused
  then show ?thesis using assms(3) by blast
next
  case (run t p subject q)
  then obtain acc where acc: "tok = Some acc" "t = mcp_token_of acc" by auto
  have scopes: "set (pt_scopes p) \<subseteq> set (at_scopes acc)"
    using run(5) unfolding run(1) by (simp add: missing_scopes_def acc(2) mcp_token_of_def)
  obtain secret d where v: "post (introspection_endpoint ocfg) (fst (introspection_request ocfg bearer secret))
      (snd (introspection_request ocfg bearer secret)) = Some (200, Some (JObj d))" "introspected oe ocfg bearer d = Some acc"
    using assms(1) acc(1) verify_token_Some by metis
  show ?thesis
    using offered_tool [OF run(4)] acc(1) scopes v(1) introspectedD [OF v(2)] by blast
qed

section \<open>Read-only tools\<close>

definition CHANGING_OPERATIONS :: "string list" where
  "CHANGING_OPERATIONS =
     [''fs.write_text'', ''fs.append_text'', ''fs.mkdir'', ''fs.move'', ''fs.replace_text'', ''process.exec'', ''process.start'',
      ''process.input'', ''process.terminate'']"

interpretation changes: unsent "set CHANGING_OPERATIONS"
  by unfold_locales (simp add: CHANGING_OPERATIONS_def SERVICE_OPERATIONS_def LANE_BOUND_def MIRRORED_OPERATIONS_def)

lemma status_each_calm: "status_each fe hs f = (items, f') \<Longrightarrow> calm_step (set CHANGING_OPERATIONS) fe f f'"
proof (induction hs arbitrary: f items)
  case (Cons h hs)
  obtain r f1 where s: "public_process_status fe h f = (r, f1)" by fastforce
  obtain rest f2 where e: "status_each fe hs f1 = (rest, f2)" by fastforce
  have "calm_step (set CHANGING_OPERATIONS) fe f f1"
    by (rule changes.process_operation_calm [OF s [unfolded public_process_status_def]])
      (simp_all add: CHANGING_OPERATIONS_def plain_body_def)
  moreover have "f2 = f'" using Cons.prems s e by (auto simp: Let_def)
  ultimately show ?case using Cons.IH [of f1 rest] e calm_step_trans by auto
qed simp

lemma read_only_names:
  "p \<in> set PUBLIC_TOOLS \<Longrightarrow> pt_read_only p \<Longrightarrow> pt_name p \<in> {''computer_info'', ''read_file'', ''read_bytes'', ''stat_path'',
     ''list_directory'', ''search_files'', ''search_content'', ''list_processes'', ''process_status'', ''process_output''}"
  by (auto simp: PUBLIC_TOOLS_def policy_def)

lemma read_only_method:
  assumes "p \<in> set PUBLIC_TOOLS" "pt_read_only p" "pt_name p = name" "facade_method fe name args = Inr g" "g f = (r, f')"
  shows "calm_step (set CHANGING_OPERATIONS) fe f f'"
proof (cases "name = ''computer_info''")
  case True
  then have "g = computer_info fe" using assms(4) by (auto simp: facade_method_def dest: takes_Inr)
  then show ?thesis using assms(5) changes.info_calm by blast
next
  case False
  note other = this
  show ?thesis
  proof (cases "file_method fe name args")
    case (Inr h)
    then have "file_method fe name args = Inr g" using assms(4) other by (simp add: facade_method_def)
    then show ?thesis
    proof (cases rule: file_method_cases)
      case read
      then show ?thesis using changes.unsent_axioms assms(5) by blast
    next
      case (change op)
      then show ?thesis using read_only_names [OF assms(1,2)] assms(3) by auto
    qed
  next
    case (Inl x)
    have status: "public_process_status fe h f = (r, f') \<Longrightarrow> calm_step (set CHANGING_OPERATIONS) fe f f'"
      and out: "public_process_output fe h j1 j2 j3 f = (r, f') \<Longrightarrow> calm_step (set CHANGING_OPERATIONS) fe f f'" for h j1 j2 j3
      unfolding public_process_status_def public_process_output_def
      by (erule changes.process_operation_calm; simp add: CHANGING_OPERATIONS_def plain_body_def)+
    have "process_method fe name args = Inr g" using Inl assms(4) other by (simp add: facade_method_def)
    then show ?thesis
      using read_only_names [OF assms(1,2)] assms(3,5) other
      by (auto simp: process_method_def list_processes_def split: prod.splits if_splits
          dest!: takes_Inr and_then_Inr dest: status_each_calm status out)
  qed
qed

text \<open>
  (C18) Read-only tools change nothing. In every run over an accepted configuration, a call of a tool that the catalogue
  marks as read-only sends no request that writes, moves or creates a file or that runs, starts, feeds or ends
  a process, and leaves every lease as it was.
\<close>
theorem read_only_tools_change_nothing:
  assumes "config_load env resolve content = Inr (rt_config (fe_rt (me_facade me)))" "mcp_reach me m"
    and "public_tool_by_name name = Some p" "pt_read_only p" "call_tool me token name args m = (r, m')"
  shows "(\<exists>d. mlog m' = mlog m @ d \<and> (\<forall>x \<in> set d. \<forall>op \<in> set CHANGING_OPERATIONS. map_of (s_request x) ''operation'' \<noteq> Some (JStr op)))
    \<and> (\<forall>a. dict_get (m_facades m') a [] = dict_get (m_facades m) a [])"
  using assms(5)
proof (cases rule: call_tool_cases)
  case refused
  then show ?thesis by simp
next
  case (run t p' subject q)
  let ?actor = "actor_of me subject" and ?m1 = "with_facade m (actor_of me subject)"
  have p: "p \<in> set PUBLIC_TOOLS" "pt_name p = name" using assms(3) by (auto simp: public_tool_by_name_def find_Some_iff)
  have same: "dict_get (m_facades ?m1) a [] = dict_get (m_facades m) a []" "mlog ?m1 = mlog m" for a
    by (auto simp: with_facade_def dict_get_def dict_simps)
  note inv = with_facade_inv [OF mcp_reach_inv [OF assms(2) accepted_config_ok [OF assms(1)]]]
  show ?thesis
  proof (cases "facade_method (acting me ?actor) name args")
    case (Inl x)
    then have "m' = ?m1" using run(6) by (simp add: run_method_eq)
    then show ?thesis using same by simp
  next
    case (Inr g)
    obtain s f where g: "g (facade_of ?m1 ?actor) = (s, f)" by fastforce
    have m': "m' = put_facade ?m1 ?actor f" using run(6) Inr g by (simp add: run_method_eq)
    have "calm_step (set CHANGING_OPERATIONS) (acting me ?actor) (facade_of ?m1 ?actor) f"
      by (rule read_only_method [OF p(1) assms(4) p(2) Inr g])
    then have "f_processes f = dict_get (m_facades ?m1) ?actor []"
      "adds (\<lambda>x. free_of (set CHANGING_OPERATIONS) (s_request x)) (mlog m) (mlog m')"
      using inv accepted_config_ok [OF assms(1)] same(2)
      by (auto simp: calm_step_def mcp_inv_def m' put_facade_def facade_of_def)
    moreover have "dict_get (m_facades m') a [] = dict_get (m_facades m) a []" for a
      using same(1) [of a] calculation(1) by (auto simp: m' put_facade_def dict_get_def dict_simps)
    ultimately show ?thesis by (auto simp: adds_def free_of_def)
  qed
qed

section \<open>A concrete server\<close>

definition demo_me :: "(unit, unit, unit) mcp_env" where
  "demo_me = \<lparr>me_facade = demo_fe, me_issuer = ''https://i'', me_metadata_url = ''https://m'', me_schema_ok = (\<lambda>_ _. True)\<rparr>"

definition demo_m :: "unit mcp" where
  "demo_m = \<lparr>m_runtime = demo_c0, m_facades = []\<rparr>"

lemma demo_me_simps [simp]: "me_facade demo_me = demo_fe" "me_schema_ok demo_me name args"
  by (simp_all add: demo_me_def)

lemma demo_m_reach: "mcp_reach demo_me demo_m"
proof (rule mcp_start)
  show "controller_new (fe_rt (me_facade demo_me)) 1 () = Inr demo_c0" by (simp add: demo_c0_new)
  show "mcp_new demo_me demo_c0 = Inr demo_m" by (simp add: mcp_new_def demo_me_def demo_m_def startswith_def)
qed

lemma demo_me_config: "config_load demo_loader (\<lambda>s. s) (Inr []) = Inr (rt_config (fe_rt (me_facade demo_me)))"
  by (simp add: demo_config_loads)

lemma demo_offered:
  "find (\<lambda>p. pt_name p = ''computer_info'') (offered demo_config)
     = Some (policy ''computer_info'' ''machine.info'' [''computer.profile''] [] True False True False)"
  by (simp add: offered_def PUBLIC_TOOLS_def policy_def supported_def)

abbreviation demo_result :: "tool_result result \<times> unit mcp" where
  "demo_result \<equiv> call_tool demo_me (Some (mcp_token_of demo_token)) ''computer_info'' [] demo_m"

lemma demo_call: "demo_result = (fst demo_result, snd demo_result)"
  by simp

lemma demo_subject: "mt_subject (mcp_token_of demo_token) = Some ''u''"
  by (simp add: mcp_token_of_def demo_token_def)

lemma demo_changed: "snd demo_result \<noteq> demo_m"
proof -
  have m: "missing_scopes (policy ''computer_info'' ''machine.info'' [''computer.profile''] [] True False True False) (Some (mcp_token_of demo_token)) = {}"
    by (simp add: missing_scopes_def policy_def mcp_token_of_def demo_token_def)
  have "map_of (m_facades (put_facade k a f)) a \<noteq> None" for k :: "unit mcp" and a f by (simp add: put_facade_def dict_simps)
  then have "m_facades (put_facade k a f) \<noteq> []" for k :: "unit mcp" and a f by (metis map_of.simps(1))
  then have "m_facades (snd demo_result) \<noteq> []"
    by (simp add: call_tool_def demo_offered demo_subject m Let_def run_method_eq facade_method_def takes_def case_prod_unfold)
  then show ?thesis by (auto simp: demo_m_def)
qed

theorem actors_are_isolated_witness:
  "map_of (m_facades (snd demo_result)) ''other'' = None \<and> mcp_reach demo_me demo_m"
proof -
  have "''other'' \<noteq> actor_of demo_me ''u''" by (simp add: actor_of_def demo_me_def rstrip_char_def)
  then show ?thesis
    using actors_are_isolated [OF demo_me_config demo_m_reach demo_subject demo_call] demo_m_reach by (simp add: demo_m_def)
qed

theorem tools_need_a_vouched_token_witness:
  "verify_token demo_oauth demo_post demo_introspection ''t'' = Inr (Some demo_token)
   \<and> (\<exists>p. p \<in> set PUBLIC_TOOLS \<and> pt_name p = ''computer_info'' \<and> supported demo_config p)"
proof -
  have call: "call_tool demo_me (map_option mcp_token_of (Some demo_token)) ''computer_info'' [] demo_m = (fst demo_result, snd demo_result)"
    by simp
  have "(\<exists>d. fst demo_result = Inr (Tool_Result d)) \<or> snd demo_result \<noteq> demo_m" using demo_changed by blast
  from tools_need_a_vouched_token [OF demo_verified call this] demo_verified show ?thesis by auto
qed

theorem read_only_tools_change_nothing_witness:
  "dict_get (m_facades (snd demo_result)) ''other'' [] = [] \<and> mcp_reach demo_me demo_m
   \<and> (\<exists>d. mlog (snd demo_result) = mlog demo_m @ d)"
proof -
  have p: "public_tool_by_name ''computer_info'' = Some (policy ''computer_info'' ''machine.info'' [''computer.profile''] [] True False True False)"
    by (simp add: public_tool_by_name_def PUBLIC_TOOLS_def policy_def)
  show ?thesis
    using read_only_tools_change_nothing [OF demo_me_config demo_m_reach p _ demo_call] demo_m_reach
    by (auto simp: policy_def demo_m_def dict_get_def)
qed

end
