(* ===== verification/Public_Process.thy ===== *)
theory Public_Process
  imports Public_MCP
begin

text \<open>
  \<^verbatim>\<open>public_http.py\<close> and \<^verbatim>\<open>public_gateway_runtime.py\<close>: how the public gateway is put together from its three configuration files,
  what a request over HTTP with a bearer token does, and how the process is shut down.

  The HTTP server, its middleware and the metadata route are those of the MCP library: they hand the token of the
  request to the verifier and the call to the server of \<^verbatim>\<open>Public_MCP\<close>, or a call without a token.
\<close>

section \<open>Configuration of the HTTP server\<close>

record http_config =
  hc_public_mcp_url :: string
  hc_issuer_url :: string
  hc_allowed_hosts :: "string list"
  hc_allowed_origins :: "string list"
  hc_bind_host :: string
  hc_bind_port :: int
  hc_resource_name :: string

abbreviation http_error :: exn where
  "http_error \<equiv> Config PublicGatewayConfigError"

abbreviation gateway_runtime_error :: exn where
  "gateway_runtime_error \<equiv> Config PublicGatewayRuntimeError"

definition http_https_url :: "oauth_env \<Rightarrow> string \<Rightarrow> split_url result" where
  "http_https_url oe s =
     (if s = [] then Inl http_error
      else and_then (url_split oe s) (\<lambda>u.
        if su_scheme u \<noteq> ''https'' \<or> host_name u = [] then Inl http_error
        else if user_name u \<noteq> [] \<or> pass_word u \<noteq> [] then Inl http_error
        else Inr u))"

definition bad_host :: "string \<Rightarrow> bool" where
  "bad_host h \<longleftrightarrow> h = [] \<or> CHR ''/'' \<in> set h \<or> list_ex (\<lambda>w. sublist w h) py_whitespace"

fun check_origins :: "oauth_env \<Rightarrow> string list \<Rightarrow> unit result" where
  "check_origins oe [] = Inr ()"
| "check_origins oe (origin # rest) =
     and_then (http_https_url oe origin) (\<lambda>u.
       if su_path u \<notin> {[], ''/''} \<or> su_query u \<noteq> [] \<or> su_fragment u \<noteq> [] then Inl http_error else check_origins oe rest)"

definition check_listener :: "oauth_env \<Rightarrow> http_config \<Rightarrow> unit result" where
  "check_listener oe c =
     (case ip_loopback oe (py_strip (hc_bind_host c)) of
        None \<Rightarrow> Inl http_error
      | Some loopback \<Rightarrow>
          if \<not> loopback then Inl http_error
          else if \<not> (1 \<le> hc_bind_port c \<and> hc_bind_port c \<le> 65535) then Inl http_error
          else if py_strip (hc_resource_name c) = [] then Inl http_error
          else Inr ())"

text \<open>\<^verbatim>\<open>__post_init__\<close>\<close>

definition http_config_check :: "oauth_env \<Rightarrow> http_config \<Rightarrow> unit result" where
  "http_config_check oe c =
     and_then (http_https_url oe (hc_public_mcp_url c)) (\<lambda>public.
     and_then (http_https_url oe (hc_issuer_url c)) (\<lambda>issuer.
       if su_query public \<noteq> [] \<or> su_fragment public \<noteq> [] then Inl http_error
       else if su_query issuer \<noteq> [] \<or> su_fragment issuer \<noteq> [] then Inl http_error
       else if rstrip_char (CHR ''/'') (su_path public) \<noteq> ''/mcp'' then Inl http_error
       else if hc_allowed_hosts c = [] then Inl http_error
       else if su_netloc public \<notin> set (hc_allowed_hosts c) then Inl http_error
       else if list_ex bad_host (hc_allowed_hosts c) then Inl http_error
       else and_then (check_origins oe (hc_allowed_origins c)) (\<lambda>_. check_listener oe c)))"

definition http_config_of :: "oauth_env \<Rightarrow> dict \<Rightarrow> http_config result" where
  "http_config_of oe d =
     (let env = oe_py oe; text_at = \<lambda>k dflt. py_str env (dict_get d k (JStr dflt)) in
      if map_of d ''schema'' \<noteq> Some (JStr ''VERAMESH_PUBLIC_GATEWAY_HTTP_V1'') then Inl http_error
      else (case (map_of d ''allowed_hosts'', dict_get d ''allowed_origins'' (JList [])) of
        (Some (JList (h # hs)), JList origins) \<Rightarrow>
          and_then (py_int env (dict_get d ''bind_port'' (JInt 17446))) (\<lambda>port.
            let c = \<lparr>hc_public_mcp_url = text_at ''public_mcp_url'' [], hc_issuer_url = text_at ''issuer_url'' [],
                     hc_allowed_hosts = map (py_str env) (h # hs), hc_allowed_origins = map (py_str env) origins,
                     hc_bind_host = text_at ''bind_host'' ''127.0.0.1'', hc_bind_port = port,
                     hc_resource_name = text_at ''resource_name'' ''VeraMesh Workstation''\<rparr>
            in and_then (http_config_check oe c) (\<lambda>_. Inr c))
      | _ \<Rightarrow> Inl http_error))"

definition resource_metadata_url :: "oauth_env \<Rightarrow> http_config \<Rightarrow> string result" where
  "resource_metadata_url oe c =
     and_then (url_split oe (hc_public_mcp_url c)) (\<lambda>u.
       Inr (su_scheme u @ ''://'' @ su_netloc u @ ''/.well-known/oauth-protected-resource/mcp''))"

section \<open>Building the gateway\<close>

text \<open>
  The platform: the facade environment holds the keys, the network and the clock, \<open>ge_any_url\<close> is what the URL type of the web
  framework accepts, \<open>ge_schema_ok\<close> the argument schemas of the tools.
\<close>

record ('w, 'sk, 'pk) gateway_env =
  ge_oauth :: oauth_env
  ge_facade :: "('w, 'sk, 'pk) facade_env"
  ge_any_url :: "string \<Rightarrow> bool"
  ge_schema_ok :: "string \<Rightarrow> dict \<Rightarrow> bool"

record ('w, 'sk, 'pk) public_runtime =
  pr_http :: http_config
  pr_oauth :: introspection_config
  pr_env :: "('w, 'sk, 'pk) mcp_env"

definition with_config :: "controller_config \<Rightarrow> ('w, 'sk, 'pk) facade_env \<Rightarrow> ('w, 'sk, 'pk) facade_env" where
  "with_config cfg fe = fe\<lparr>fe_rt := (fe_rt fe)\<lparr>rt_config := cfg\<rparr>\<rparr>"

text \<open>\<^verbatim>\<open>_load_json\<close>, on the result of reading and parsing the file.\<close>

definition load_json_config :: "json result \<Rightarrow> dict result" where
  "load_json_config r = (case r of Inr (JObj d) \<Rightarrow> Inr d | _ \<Rightarrow> Inl gateway_runtime_error)"

definition build_public_gateway_http_app ::
  "('w, 'sk, 'pk) gateway_env \<Rightarrow> ('w, 'sk, 'pk) facade_env \<Rightarrow> http_config \<Rightarrow> 'w controller \<Rightarrow> (('w, 'sk, 'pk) mcp_env \<times> 'w mcp) result" where
  "build_public_gateway_http_app ge fe hc c =
     and_then (resource_metadata_url (ge_oauth ge) hc) (\<lambda>url.
       let me = \<lparr>me_facade = fe, me_issuer = hc_issuer_url hc, me_metadata_url = url, me_schema_ok = ge_schema_ok ge\<rparr> in
       and_then (mcp_new me c) (\<lambda>m.
         if \<not> (ge_any_url ge (hc_public_mcp_url hc) \<and> ge_any_url ge (hc_issuer_url hc)) then Inl (Py ValueError) else Inr (me, m)))"

definition build_runtime ::
  "('w, 'sk, 'pk) gateway_env \<Rightarrow> controller_config result \<Rightarrow> json result \<Rightarrow> json result \<Rightarrow> int \<Rightarrow> 'w
   \<Rightarrow> (('w, 'sk, 'pk) public_runtime \<times> 'w mcp) result" where
  "build_runtime ge controller http oauth epoch w =
     and_then controller (\<lambda>cfg.
     and_then (load_json_config http) (\<lambda>h. and_then (http_config_of (ge_oauth ge) h) (\<lambda>hc.
     and_then (load_json_config oauth) (\<lambda>d. and_then (introspection_from_dict (ge_oauth ge) (JObj d)) (\<lambda>ic.
       if expected_issuer ic \<noteq> rstrip_char (CHR ''/'') (hc_issuer_url hc) then Inl gateway_runtime_error
       else if expected_resource ic \<noteq> rstrip_char (CHR ''/'') (hc_public_mcp_url hc) then Inl gateway_runtime_error
       else let fe = with_config cfg (ge_facade ge) in
         and_then (controller_new (fe_rt fe) epoch w) (\<lambda>c.
         and_then (build_public_gateway_http_app ge fe hc c) (\<lambda>(me, m).
           Inr (\<lparr>pr_http = hc, pr_oauth = ic, pr_env = me\<rparr>, m))))))))"

section \<open>Requests and shutdown\<close>

text \<open>A call over HTTP: the token of the request, if it has one, is verified first; the clock is that of the request.\<close>

definition public_request ::
  "('w, 'sk, 'pk) public_runtime \<Rightarrow> oauth_env
   \<Rightarrow> (string \<Rightarrow> (string \<times> string) list \<Rightarrow> (string \<times> string) option \<Rightarrow> (int \<times> json option) option)
   \<Rightarrow> string option \<Rightarrow> string \<Rightarrow> dict \<Rightarrow> 'w mcp \<Rightarrow> tool_result result \<times> 'w mcp" where
  "public_request pr oe post bearer name args m =
     (case bearer of
        None \<Rightarrow> call_tool (pr_env pr) None name args m
      | Some token \<Rightarrow>
          (case verify_token oe post (pr_oauth pr) token of
             Inl x \<Rightarrow> (Inl x, m)
           | Inr tok \<Rightarrow> call_tool (pr_env pr) (map_option mcp_token_of tok) name args m))"

text \<open>The end of \<^verbatim>\<open>lifespan\<close>: the runtime is closed whether or not closing the facades raises.\<close>

definition public_shutdown :: "('w, 'sk, 'pk) public_runtime \<Rightarrow> 'w mcp \<Rightarrow> dict result \<times> 'w mcp" where
  "public_shutdown pr m =
     (case bundle_close (pr_env pr) m of
        (r, m1) \<Rightarrow> (r, m1\<lparr>m_runtime := controller_close (fe_rt (me_facade (pr_env pr))) (m_runtime m1)\<rparr>))"

section \<open>What a built gateway has checked\<close>

lemma check_listenerD:
  "check_listener oe c = Inr () \<Longrightarrow> ip_loopback oe (py_strip (hc_bind_host c)) = Some True \<and> 1 \<le> hc_bind_port c \<and> hc_bind_port c \<le> 65535"
  by (auto simp: check_listener_def split: option.splits if_splits)

lemma http_config_checkD:
  assumes "http_config_check oe c = Inr ()"
  obtains public issuer where "http_https_url oe (hc_public_mcp_url c) = Inr public" "http_https_url oe (hc_issuer_url c) = Inr issuer"
    "su_query public = []" "su_fragment public = []" "rstrip_char (CHR ''/'') (su_path public) = ''/mcp''"
    "su_netloc public \<in> set (hc_allowed_hosts c)" "\<forall>h \<in> set (hc_allowed_hosts c). \<not> bad_host h" "check_listener oe c = Inr ()"
  using assms by (auto simp: http_config_check_def list_ex_iff split: if_splits dest!: and_then_Inr)

lemma http_config_ofD: "http_config_of oe d = Inr c \<Longrightarrow> http_config_check oe c = Inr ()"
  by (auto simp: http_config_of_def Let_def split: if_splits option.splits json.splits list.splits dest!: and_then_Inr)

lemma build_runtimeD:
  assumes "build_runtime ge controller http oauth epoch w = Inr (pr, m)"
  obtains cfg c d where "controller = Inr cfg" "http_config_check (ge_oauth ge) (pr_http pr) = Inr ()"
    "introspection_from_dict (ge_oauth ge) (JObj d) = Inr (pr_oauth pr)"
    "expected_issuer (pr_oauth pr) = rstrip_char (CHR ''/'') (hc_issuer_url (pr_http pr))"
    "expected_resource (pr_oauth pr) = rstrip_char (CHR ''/'') (hc_public_mcp_url (pr_http pr))"
    "me_facade (pr_env pr) = with_config cfg (ge_facade ge)" "me_issuer (pr_env pr) = hc_issuer_url (pr_http pr)"
    "controller_new (fe_rt (me_facade (pr_env pr))) epoch w = Inr c" "mcp_new (pr_env pr) c = Inr m"
  using assms
  by (auto simp: build_runtime_def build_public_gateway_http_app_def Let_def split: if_splits dest!: and_then_Inr) (blast dest: http_config_ofD)

text \<open>The process over time: requests, the machines behind it, and the shutdown.\<close>

inductive public_run :: "('w, 'sk, 'pk) public_runtime \<Rightarrow> 'w mcp \<Rightarrow> 'w mcp \<Rightarrow> bool" for pr m0 where
  run_start: "public_run pr m0 m0"
| run_request: "public_run pr m0 m \<Longrightarrow> public_request pr oe post bearer name args m = (r, m') \<Longrightarrow> public_run pr m0 m'"
| run_world: "public_run pr m0 m
    \<Longrightarrow> public_run pr m0 (m\<lparr>m_runtime := (m_runtime m)\<lparr>c_net := (c_net (m_runtime m))\<lparr>ns_world := v\<rparr>\<rparr>\<rparr>)"
| run_shutdown: "public_run pr m0 m \<Longrightarrow> public_shutdown pr m = (r, m') \<Longrightarrow> public_run pr m0 m'"

lemma public_request_cases:
  assumes "public_request pr oe post bearer name args m = (r, m')"
  obtains (refused) "m' = m" "\<And>d. r \<noteq> Inr (Tool_Result d)"
  | (called) tok where "call_tool (pr_env pr) (map_option mcp_token_of tok) name args m = (r, m')"
      "\<And>acc. tok = Some acc \<Longrightarrow> \<exists>token. bearer = Some token \<and> verify_token oe post (pr_oauth pr) token = Inr (Some acc)"
proof (cases bearer)
  case None
  then show ?thesis using assms called [of None] by (simp add: public_request_def)
next
  case (Some token)
  show ?thesis
  proof (cases "verify_token oe post (pr_oauth pr) token")
    case (Inl x)
    then show ?thesis using assms Some refused by (auto simp: public_request_def)
  next
    case (Inr tok)
    then show ?thesis using assms Some called [of tok] by (simp add: public_request_def)
  qed
qed

lemma public_run_reach:
  assumes "public_run pr m0 m" "mcp_reach (pr_env pr) m0"
  shows "mcp_reach (pr_env pr) m"
  using assms(1)
proof (induction rule: public_run.induct)
  case (run_request m oe post bearer name args r m')
  from run_request.hyps(2) show ?case
  proof (cases rule: public_request_cases)
    case (called tok)
    then show ?thesis using run_request.IH mcp_call by metis
  qed (use run_request.IH in simp)
next
  case (run_shutdown m r m')
  obtain m1 where m1: "bundle_close (pr_env pr) m = (r, m1)"
    "m' = m1\<lparr>m_runtime := controller_close (fe_rt (me_facade (pr_env pr))) (m_runtime m1)\<rparr>"
    using run_shutdown.hyps(2) by (auto simp: public_shutdown_def split: prod.splits)
  then show ?case using mcp_bundle_close [OF run_shutdown.IH m1(1)] mcp_runtime_close by metis
qed (auto intro: assms(2) mcp_world)

text \<open>The resources an answer of the introspection endpoint names.\<close>

definition named_resources :: "dict \<Rightarrow> json list" where
  "named_resources d =
     (case map_of d ''resource'' of None \<Rightarrow> [] | Some v \<Rightarrow> [v])
     @ (case map_of d ''aud'' of None \<Rightarrow> [] | Some (JList xs) \<Rightarrow> xs | Some v \<Rightarrow> [v])"

lemma matching_resource: "resource_matches cfg d \<Longrightarrow> JStr (expected_resource cfg) \<in> set (named_resources d)"
  using resource_matches_iff [of cfg d] by (auto simp: named_resources_def split: option.split json.split)


section \<open>A concrete gateway\<close>

definition demo_http_json :: dict where
  "demo_http_json =
     [(''schema'', JStr ''VERAMESH_PUBLIC_GATEWAY_HTTP_V1''), (''public_mcp_url'', JStr ''https://r/mcp''), (''issuer_url'', JStr ''https://i/''),
      (''allowed_hosts'', JList [JStr ''r''])]"

definition demo_http :: http_config where
  "demo_http = \<lparr>hc_public_mcp_url = ''https://r/mcp'', hc_issuer_url = ''https://i/'', hc_allowed_hosts = [''r''], hc_allowed_origins = [],
     hc_bind_host = ''127.0.0.1'', hc_bind_port = 17446, hc_resource_name = ''VeraMesh Workstation''\<rparr>"

definition demo_ge :: "(unit, unit, unit) gateway_env" where
  "demo_ge = \<lparr>ge_oauth = demo_oauth, ge_facade = demo_fe, ge_any_url = (\<lambda>_. True), ge_schema_ok = (\<lambda>_ _. True)\<rparr>"

definition public_me :: "(unit, unit, unit) mcp_env" where
  "public_me = \<lparr>me_facade = demo_fe, me_issuer = ''https://i/'',
     me_metadata_url = ''https://r/.well-known/oauth-protected-resource/mcp'', me_schema_ok = (\<lambda>_ _. True)\<rparr>"

definition demo_pr :: "(unit, unit, unit) public_runtime" where
  "demo_pr = \<lparr>pr_http = demo_http, pr_oauth = demo_introspection, pr_env = public_me\<rparr>"

lemma demo_http_check: "http_config_check demo_oauth demo_http = Inr ()" "resource_metadata_url demo_oauth demo_http = Inr (me_metadata_url public_me)"
  by code_simp+

lemma demo_http_loads: "http_config_of demo_oauth demo_http_json = Inr demo_http"
  using demo_http_check(1)
  by (simp add: http_config_of_def demo_http_json_def dict_get_def and_then_def demo_http_def Let_def)

lemma demo_build: "build_runtime demo_ge (Inr demo_config) (Inr (JObj demo_http_json)) (Inr (JObj demo_oauth_json)) 1 () = Inr (demo_pr, demo_m)"
proof -
  have "rstrip_char (CHR ''/'') ''https://i/'' = ''https://i''" "rstrip_char (CHR ''/'') ''https://r/mcp'' = ''https://r/mcp''" by code_simp+
  moreover have "with_config demo_config demo_fe = demo_fe"
    by (simp add: with_config_def demo_fe_def demo_rt_def)
  ultimately show ?thesis
    using demo_c0_new
    by (simp add: build_runtime_def and_then_def load_json_config_def demo_http_loads demo_oauth_config demo_ge_def
        build_public_gateway_http_app_def demo_http_check(2) Let_def)
      (simp add: demo_introspection_def demo_http_def mcp_new_def startswith_def demo_pr_def public_me_def demo_m_def)
qed

abbreviation demo_answered :: "tool_result result \<times> unit mcp" where
  "demo_answered \<equiv> public_request demo_pr demo_oauth demo_post (Some ''t'') ''computer_info'' [] demo_m"

lemma demo_answered_changes: "snd demo_answered \<noteq> demo_m"
proof -
  have "missing_scopes (policy ''computer_info'' ''machine.info'' [''computer.profile''] [] True False True False) (Some (mcp_token_of demo_token)) = {}"
    by (simp add: missing_scopes_def policy_def mcp_token_of_def demo_token_def)
  moreover have "map_of (m_facades (put_facade k a f)) a \<noteq> None" for k :: "unit mcp" and a f by (simp add: put_facade_def dict_simps)
  then have "m_facades (put_facade k a f) \<noteq> []" for k :: "unit mcp" and a f by (metis map_of.simps(1))
  ultimately have "m_facades (snd demo_answered) \<noteq> []"
    using demo_verified demo_offered demo_subject
    by (simp add: public_request_def demo_pr_def call_tool_def public_me_def Let_def run_method_eq facade_method_def takes_def case_prod_unfold)
  then show ?thesis by (auto simp: demo_m_def)
qed


end
