(* ===== verification/Local_MCP.thy ===== *)
theory Local_MCP
  imports Public_MCP
begin

text \<open>
  \<^verbatim>\<open>mcp_server.py\<close>: the server on the controller's own machine that gives each operation of a workstation as a tool. It passes
  lanes and tokens through to its caller, checks the capabilities of a new lane against the ceiling of the controller, and listens
  on a loopback address only.

  FastMCP validates the arguments of a call against the signature of the tool and fills in the defaults; its result is the
  field \<open>le_arguments\<close>, \<^const>\<open>None\<close> where it refuses. A call is one step.
\<close>

section \<open>The facade\<close>

record ('w, 'sk, 'pk) local_env =
  le_py :: pyenv
  le_rt :: "('w, 'sk, 'pk) runtime"
  le_arguments :: "string \<Rightarrow> dict \<Rightarrow> dict option"

type_synonym 'w local_call = "'w controller \<Rightarrow> dict result \<times> 'w controller"

definition local_lane_open ::
  "('w, 'sk, 'pk) local_env \<Rightarrow> string \<Rightarrow> string \<Rightarrow> string list \<Rightarrow> json list \<Rightarrow> pyfloat \<Rightarrow> 'w local_call" where
  "local_lane_open le lid task caps claims ttl c =
     (if set caps - requested_capabilities (rt_config (le_rt le)) \<noteq> {} then (Inl (Py PermissionError), c)
      else rt_open_lane (le_py le) (le_rt le) lid task caps claims ttl c)"

definition local_read :: "('w, 'sk, 'pk) local_env \<Rightarrow> string \<Rightarrow> string \<Rightarrow> int \<Rightarrow> dict \<Rightarrow> 'w local_call" where
  "local_read le operation lid tok body = rt_read_operation (le_rt le) operation lid tok body"

definition local_operation :: "('w, 'sk, 'pk) local_env \<Rightarrow> string \<Rightarrow> string \<Rightarrow> int \<Rightarrow> dict \<Rightarrow> 'w local_call" where
  "local_operation le operation lid tok body =
     rt_call_operation (le_rt le) operation ([(''lane_id'', JStr lid), (''fencing_token'', JInt tok)] @ body)"

section \<open>Tools\<close>

text \<open>The parameters of a tool, which the library has checked; a value of another type is refused here as well.\<close>

definition int_of :: "dict \<Rightarrow> string \<Rightarrow> int result" where
  "int_of a k = (case map_of a k of Some (JInt i) \<Rightarrow> Inr i | _ \<Rightarrow> Inl (Py TypeError))"

definition flt_of :: "dict \<Rightarrow> string \<Rightarrow> pyfloat \<Rightarrow> pyfloat result" where
  "flt_of a k dflt =
     (case dict_get a k (JFloat dflt) of JFloat x \<Rightarrow> Inr x | JInt i \<Rightarrow> Inr (Fin (of_int i)) | _ \<Rightarrow> Inl (Py TypeError))"

definition list_of :: "dict \<Rightarrow> string \<Rightarrow> json list result" where
  "list_of a k = (case map_of a k of Some (JList vs) \<Rightarrow> Inr vs | _ \<Rightarrow> Inl (Py TypeError))"

text \<open>The two parameters that every tool on a lane has.\<close>

definition on_lane :: "dict \<Rightarrow> (string \<Rightarrow> int \<Rightarrow> 'a result) \<Rightarrow> 'a result" where
  "on_lane a k = and_then (str_of a ''lane_id'' required) (\<lambda>lid. and_then (int_of a ''fencing_token'') (\<lambda>tok. k lid tok))"

definition lane_tool :: "('w, 'sk, 'pk) local_env \<Rightarrow> string \<Rightarrow> dict \<Rightarrow> 'w local_call result" where
  "lane_tool le name a =
     (if name = ''machine_info'' then Inr (machine_info (le_rt le))
      else if name = ''lane_list'' then Inr (rt_list_lanes (le_rt le))
      else if name = ''lane_open'' then
        and_then (str_of a ''lane_id'' required) (\<lambda>lid. and_then (str_of a ''task_id'' required) (\<lambda>task.
        and_then (strs_of a ''capabilities'') (\<lambda>caps. and_then (list_of a ''claims'') (\<lambda>claims.
        and_then (flt_of a ''ttl_s'' (Fin 300)) (\<lambda>ttl. Inr (local_lane_open le lid task caps claims ttl))))))
      else if name = ''lane_renew'' then
        on_lane a (\<lambda>lid tok. and_then (flt_of a ''ttl_s'' (Fin 300)) (\<lambda>ttl. Inr (rt_renew_lane (le_py le) (le_rt le) lid tok ttl)))
      else if name = ''lane_close'' then on_lane a (\<lambda>lid tok. Inr (rt_close_lane (le_rt le) lid tok))
      else Inl (Py TypeError))"

definition read_tool :: "('w, 'sk, 'pk) local_env \<Rightarrow> string \<Rightarrow> dict \<Rightarrow> 'w local_call result" where
  "read_tool le name a =
     (let v = dict_get a; offset = v ''offset'' (JInt 0); mr = v ''max_results'' (JInt 100); me = v ''max_entries'' (JInt 10000);
          md = v ''max_depth'' (JInt 12); cs = v ''case_sensitive'' (JBool False) in
      if name = ''fs_read_text'' then
        on_lane a (\<lambda>lid tok. and_then (str_of a ''path'' required) (\<lambda>p. and_then (str_of a ''encoding'' (JStr ''utf-8'')) (\<lambda>e.
          Inr (rt_read_text (le_rt le) lid tok p e))))
      else if name = ''fs_read_bytes'' then
        on_lane a (\<lambda>lid tok. and_then (str_of a ''path'' required) (\<lambda>p.
          Inr (rt_read_bytes (le_rt le) lid tok p offset (v ''max_bytes'' JNull) (v ''expected_file_version'' JNull))))
      else if name = ''fs_stat'' then
        on_lane a (\<lambda>lid tok. and_then (str_of a ''path'' required) (\<lambda>p. Inr (local_read le ''fs.stat'' lid tok [(''path'', JStr p)])))
      else if name = ''fs_list_dir'' then
        on_lane a (\<lambda>lid tok. and_then (str_of a ''path'' required) (\<lambda>p.
          Inr (local_read le ''fs.list_dir'' lid tok [(''path'', JStr p), (''offset'', offset), (''max_entries'', v ''max_entries'' (JInt 200))])))
      else if name = ''fs_search'' then
        on_lane a (\<lambda>lid tok. and_then (str_of a ''root'' required) (\<lambda>p. and_then (str_of a ''query'' required) (\<lambda>q.
          Inr (local_read le ''fs.search'' lid tok
            [(''root'', JStr p), (''query'', JStr q), (''offset'', offset), (''max_results'', mr), (''max_entries'', me),
             (''max_depth'', md), (''case_sensitive'', cs)]))))
      else if name = ''fs_search_content'' then
        on_lane a (\<lambda>lid tok. and_then (str_of a ''root'' required) (\<lambda>p. and_then (str_of a ''query'' required) (\<lambda>q.
          and_then (str_of a ''file_pattern'' (JStr ''*'')) (\<lambda>pat. Inr (local_read le ''fs.search_content'' lid tok
            [(''root'', JStr p), (''query'', JStr q), (''file_pattern'', JStr pat), (''offset'', offset), (''max_results'', mr),
             (''max_entries'', me), (''max_depth'', md), (''max_total_bytes'', v ''max_total_bytes'' (JInt (8 * 1024 * 1024))),
             (''case_sensitive'', cs)])))))
      else Inl (Py TypeError))"

definition write_tool :: "('w, 'sk, 'pk) local_env \<Rightarrow> string \<Rightarrow> dict \<Rightarrow> 'w local_call result" where
  "write_tool le name a =
     (let v = dict_get a; encoding = str_of a ''encoding'' (JStr ''utf-8'') in
      if name = ''fs_write_text'' then
        on_lane a (\<lambda>lid tok. and_then (str_of a ''path'' required) (\<lambda>p. and_then (str_of a ''content'' required) (\<lambda>s.
          and_then encoding (\<lambda>e. Inr (rt_write_text (le_rt le) lid tok p s e)))))
      else if name = ''fs_append_text'' then
        on_lane a (\<lambda>lid tok. and_then (str_of a ''path'' required) (\<lambda>p. and_then (str_of a ''content'' required) (\<lambda>s.
          and_then encoding (\<lambda>e. Inr (local_operation le ''fs.append_text'' lid tok
            [(''path'', JStr p), (''content'', JStr s), (''encoding'', JStr e)])))))
      else if name = ''fs_mkdir'' then
        on_lane a (\<lambda>lid tok. and_then (str_of a ''path'' required) (\<lambda>p.
          Inr (local_operation le ''fs.mkdir'' lid tok [(''path'', JStr p), (''parents'', v ''parents'' (JBool True))])))
      else if name = ''fs_move'' then
        on_lane a (\<lambda>lid tok. and_then (str_of a ''source'' required) (\<lambda>s. and_then (str_of a ''destination'' required) (\<lambda>d.
          Inr (local_operation le ''fs.move'' lid tok [(''source'', JStr s), (''destination'', JStr d)]))))
      else if name = ''fs_replace_text'' then
        on_lane a (\<lambda>lid tok. and_then (str_of a ''path'' required) (\<lambda>p. and_then (str_of a ''old_string'' required) (\<lambda>s.
          and_then (str_of a ''new_string'' required) (\<lambda>t. and_then encoding (\<lambda>e.
            Inr (local_operation le ''fs.replace_text'' lid tok
              [(''path'', JStr p), (''old_string'', JStr s), (''new_string'', JStr t),
               (''expected_count'', v ''expected_count'' (JInt 1)), (''encoding'', JStr e)]))))))
      else Inl (Py TypeError))"

definition process_tool :: "('w, 'sk, 'pk) local_env \<Rightarrow> string \<Rightarrow> dict \<Rightarrow> 'w local_call result" where
  "process_tool le name a =
     (let v = dict_get a; handle = str_of a ''process_handle'' required in
      if name = ''process_exec'' then
        on_lane a (\<lambda>lid tok. and_then (strs_of a ''argv'') (\<lambda>argv. and_then (str_of a ''cwd'' required) (\<lambda>cwd.
          Inr (local_operation le ''process.exec'' lid tok
            [(''argv'', JList (map JStr argv)), (''cwd'', JStr cwd), (''timeout_s'', v ''timeout_s'' (JFloat (Fin 60)))]))))
      else if name = ''process_start'' then
        on_lane a (\<lambda>lid tok. and_then (strs_of a ''argv'') (\<lambda>argv. and_then (str_of a ''cwd'' required) (\<lambda>cwd.
          Inr (local_operation le ''process.start'' lid tok
            [(''argv'', JList (map JStr argv)), (''cwd'', JStr cwd), (''max_runtime_s'', v ''max_runtime_s'' (JFloat (Fin 900)))]))))
      else if name = ''process_list'' then on_lane a (\<lambda>lid tok. Inr (local_operation le ''process.list'' lid tok []))
      else if name = ''process_status'' then
        on_lane a (\<lambda>lid tok. and_then handle (\<lambda>h. Inr (local_operation le ''process.status'' lid tok [(''process_handle'', JStr h)])))
      else if name = ''process_output'' then
        on_lane a (\<lambda>lid tok. and_then handle (\<lambda>h. Inr (local_operation le ''process.output'' lid tok
          [(''process_handle'', JStr h), (''stdout_offset'', v ''stdout_offset'' (JInt 0)),
           (''stderr_offset'', v ''stderr_offset'' (JInt 0)), (''max_bytes'', v ''max_bytes'' (JInt 16384))])))
      else if name = ''process_input'' then
        on_lane a (\<lambda>lid tok. and_then handle (\<lambda>h. and_then (str_of a ''input_text'' required) (\<lambda>s.
          Inr (local_operation le ''process.input'' lid tok
            [(''process_handle'', JStr h), (''input_text'', JStr s), (''append_newline'', v ''append_newline'' (JBool True))]))))
      else if name = ''process_terminate'' then
        on_lane a (\<lambda>lid tok. and_then handle (\<lambda>h. Inr (local_operation le ''process.terminate'' lid tok
          [(''process_handle'', JStr h), (''grace_s'', v ''grace_s'' (JFloat (Fin 2)))])))
      else Inl (Py TypeError))"

section \<open>The server\<close>

text \<open>A tool with the operation that a configuration must permit for it, and whether it is announced as read-only.\<close>

record local_tool =
  lt_name :: string
  lt_needs :: "string option"
  lt_read_only :: bool

definition tools :: "bool \<Rightarrow> (string \<times> string option) list \<Rightarrow> local_tool list" where
  "tools ro = map (\<lambda>(n, op). \<lparr>lt_name = n, lt_needs = op, lt_read_only = ro\<rparr>)"

definition LANE_TOOLS :: "local_tool list" where
  "LANE_TOOLS = tools True [(''machine_info'', None), (''lane_list'', None)]
     @ tools False [(''lane_open'', None), (''lane_renew'', None), (''lane_close'', None)]"

definition READ_TOOLS :: "local_tool list" where
  "READ_TOOLS = tools True
     [(''fs_read_text'', None), (''fs_read_bytes'', Some ''fs.read_bytes''), (''fs_stat'', Some ''fs.stat''),
      (''fs_list_dir'', Some ''fs.list_dir''), (''fs_search'', Some ''fs.search''), (''fs_search_content'', Some ''fs.search_content'')]"

definition WRITE_TOOLS :: "local_tool list" where
  "WRITE_TOOLS = tools False
     [(''fs_write_text'', Some ''fs.write_text''), (''fs_append_text'', Some ''fs.append_text''), (''fs_mkdir'', Some ''fs.mkdir''),
      (''fs_move'', Some ''fs.move''), (''fs_replace_text'', Some ''fs.replace_text'')]"

definition PROCESS_TOOLS :: "local_tool list" where
  "PROCESS_TOOLS =
     tools False [(''process_exec'', Some ''process.exec''), (''process_start'', Some ''process.start'')]
     @ tools True [(''process_list'', Some ''process.list''), (''process_status'', Some ''process.status''), (''process_output'', Some ''process.output'')]
     @ tools False [(''process_input'', Some ''process.input''), (''process_terminate'', Some ''process.terminate'')]"

definition LOCAL_TOOLS :: "local_tool list" where
  "LOCAL_TOOLS = LANE_TOOLS @ READ_TOOLS @ WRITE_TOOLS @ PROCESS_TOOLS"

definition local_offered :: "controller_config \<Rightarrow> local_tool list" where
  "local_offered cfg = filter (\<lambda>t. case lt_needs t of None \<Rightarrow> True | Some op \<Rightarrow> op \<in> gateway_operations cfg) LOCAL_TOOLS"

datatype local_answer = No_Such_Tool | Bad_Arguments | Failed exn | Answered dict

definition local_tool_call :: "('w, 'sk, 'pk) local_env \<Rightarrow> string \<Rightarrow> dict \<Rightarrow> 'w local_call result" where
  "local_tool_call le name a =
     (case lane_tool le name a of Inr g \<Rightarrow> Inr g
      | Inl _ \<Rightarrow> (case read_tool le name a of Inr g \<Rightarrow> Inr g
      | Inl _ \<Rightarrow> (case write_tool le name a of Inr g \<Rightarrow> Inr g
      | Inl _ \<Rightarrow> process_tool le name a)))"

definition local_call :: "('w, 'sk, 'pk) local_env \<Rightarrow> string \<Rightarrow> dict \<Rightarrow> 'w controller \<Rightarrow> local_answer \<times> 'w controller" where
  "local_call le name args c =
     (case find (\<lambda>t. lt_name t = name) (local_offered (rt_config (le_rt le))) of
        None \<Rightarrow> (No_Such_Tool, c)
      | Some t \<Rightarrow>
     (case le_arguments le name args of
        None \<Rightarrow> (Bad_Arguments, c)
      | Some a \<Rightarrow>
     (case local_tool_call le name a of
        Inl x \<Rightarrow> (Failed x, c)
      | Inr g \<Rightarrow> (case g c of (Inl x, c1) \<Rightarrow> (Failed x, c1) | (Inr d, c1) \<Rightarrow> (Answered d, c1)))))"

section \<open>Start of the process\<close>

definition require_loopback_mcp_host :: "pyenv \<Rightarrow> 'a url_env_scheme \<Rightarrow> string \<Rightarrow> string result" where
  "require_loopback_mcp_host env ue host =
     (let h = py_strip host in
      if str_lower env h = ''localhost'' then Inr h
      else (case ip_loopback ue h of Some True \<Rightarrow> Inr h | _ \<Rightarrow> Inl (Py ValueError)))"

datatype launch = System_Exit | Raised exn | Run_Stdio controller_config | Run_Http controller_config string int

definition http_launch :: "pyenv \<Rightarrow> 'a url_env_scheme \<Rightarrow> string \<Rightarrow> string \<Rightarrow> controller_config \<Rightarrow> launch" where
  "http_launch env ue host port cfg =
     (case require_loopback_mcp_host env ue host of
        Inl x \<Rightarrow> Raised x
      | Inr h \<Rightarrow>
          (case py_int env (JStr port) of
             Inl x \<Rightarrow> Raised x
           | Inr n \<Rightarrow> if \<not> (1 \<le> n \<and> n \<le> 65535) then System_Exit else Run_Http cfg h n))"

text \<open>\<open>vars\<close> are the environment variables and \<open>load\<close> is \<^verbatim>\<open>ControllerConfig.load\<close> on a path.\<close>

definition local_main ::
  "pyenv \<Rightarrow> 'a url_env_scheme \<Rightarrow> (string \<Rightarrow> string option) \<Rightarrow> (string \<Rightarrow> controller_config result) \<Rightarrow> launch" where
  "local_main env ue vars load =
     (let get = \<lambda>k d. case vars k of None \<Rightarrow> d | Some s \<Rightarrow> s; p = get ''VERAPORT_CONTROLLER_CONFIG'' [] in
      if p = [] then System_Exit
      else (case load p of
         Inl x \<Rightarrow> Raised x
       | Inr cfg \<Rightarrow>
           let transport = str_lower env (py_strip (get ''VERAPORT_MCP_TRANSPORT'' ''streamable-http'')) in
           if transport \<noteq> ''stdio'' \<and> transport \<noteq> ''streamable-http'' then System_Exit
           else if transport = ''stdio'' then Run_Stdio cfg
           else http_launch env ue (get ''VERAPORT_MCP_HOST'' ''127.0.0.1'') (get ''VERAPORT_MCP_PORT'' ''17446'') cfg))"

definition local_stdio_main ::
  "pyenv \<Rightarrow> 'a url_env_scheme \<Rightarrow> (string \<Rightarrow> string option) \<Rightarrow> (string \<Rightarrow> controller_config result) \<Rightarrow> launch" where
  "local_stdio_main env ue vars = local_main env ue (vars(''VERAPORT_MCP_TRANSPORT'' \<mapsto> ''stdio''))"

lemmas tool_tables = LOCAL_TOOLS_def LANE_TOOLS_def READ_TOOLS_def WRITE_TOOLS_def PROCESS_TOOLS_def tools_def

section \<open>The ceiling of the controller\<close>

text \<open>A request to open a lane names only capabilities of the configuration.\<close>

definition capped :: "controller_config \<Rightarrow> dict \<Rightarrow> bool" where
  "capped cfg req \<longleftrightarrow> (map_of req ''operation'' = Some (JStr ''lane.open'') \<longrightarrow>
     (\<exists>caps. map_of req ''capabilities'' = Some (JList (map JStr caps)) \<and> set caps \<subseteq> requested_capabilities cfg))"

text \<open>The router holds lanes only where the configuration asks for reading.\<close>

definition may_route :: "controller_config \<Rightarrow> 'w controller \<Rightarrow> bool" where
  "may_route cfg c \<longleftrightarrow> rr_lanes (c_router c) = [] \<or> ''fs.read'' \<in> requested_capabilities cfg"

definition capped_run :: "controller_config \<Rightarrow> 'w controller \<Rightarrow> 'w controller \<Rightarrow> bool" where
  "capped_run cfg c c' \<longleftrightarrow> (may_route cfg c \<longrightarrow> may_route cfg c' \<and> adds (\<lambda>x. capped cfg (s_request x)) (log c) (log c'))"

interpretation no_open: unprobed "{''lane.open''}"
  by unfold_locales simp

lemma capped_refl [simp]: "capped_run cfg c c"
  by (simp add: capped_run_def)

lemma capped_calm: "calm {''lane.open''} c c' \<Longrightarrow> adds (\<lambda>x. capped cfg (s_request x)) (log c) (log c')"
  by (erule adds_mono) (simp add: free_of_def capped_def)

lemma capped_started:
  assumes "started rt k c = (r, c')" "controller_inv (rt_config rt) c" "config_ok (rt_config rt)"
    and "\<And>gw c1 q c2. k gw c1 = (q, c2) \<Longrightarrow> controller_inv (rt_config rt) c1 \<Longrightarrow> capped_run cfg c1 c2"
  shows "capped_run cfg c c'"
proof -
  obtain q c1 where e: "ensure_started rt c = (q, c1)" by fastforce
  note st = ensure_started_inv [OF assms(2,3) refl e] capped_calm [OF no_open.ensure_started_calm [OF e], of cfg] ensure_started_router [OF e]
  show ?thesis
  proof (cases q)
    case (Inl x)
    then show ?thesis using assms(1) e st by (auto simp: started_def capped_run_def may_route_def)
  next
    case (Inr gw)
    then have "capped_run cfg c1 c'" using assms(1) e st(1) assms(4) [of gw c1 r c'] by (simp add: started_def)
    then show ?thesis using st(2,3) by (auto simp: capped_run_def may_route_def intro: adds_trans)
  qed
qed

lemma via_gateway_router: "via_gateway rt gw op body c = (r, c') \<Longrightarrow> c_router c' = c_router c"
  by (auto simp: via_gateway_def split: prod.splits)

lemma capped_gateway:
  assumes "via_gateway rt gw op body c = (r, c')" "op \<noteq> ''lane.open''" "''operation'' \<notin> fst ` set body"
  shows "capped_run cfg c c'"
  using capped_calm [OF no_open.via_gateway_calm [OF assms(1) _ assms(3)]] assms(2) via_gateway_router [OF assms(1)]
  by (simp add: capped_run_def may_route_def)

lemma capped_gateway_open:
  assumes "via_gateway rt gw ''lane.open'' (open_lane_body lid task caps claims ttl) c = (r, c')" "set caps \<subseteq> requested_capabilities cfg"
  shows "capped_run cfg c c'"
proof -
  obtain s where g: "gateway_call (rt_net rt) (c_pool c) gw ''lane.open'' (open_lane_body lid task caps claims ttl) (c_net c) = (r, s)"
      "c' = c\<lparr>c_net := s\<rparr>"
    using assms(1) by (auto simp: via_gateway_def split: prod.splits)
  have "capped cfg (gateway_request rid ''lane.open'' (open_lane_body lid task caps claims ttl))" for rid
    using assms(2) by (auto simp: capped_def gateway_request_def map_of_update_all open_lane_body_def)
  then have "adds (\<lambda>x. capped cfg (s_request x)) (log c) (log c')"
    using g(2) by (auto intro!: adds_mono [OF gateway_call_log(1) [OF g(1)]])
  then show ?thesis using via_gateway_router [OF assms(1)] by (simp add: capped_run_def may_route_def)
qed

lemma grew_capped: "grew L M \<Longrightarrow> ''fs.read'' \<in> requested_capabilities cfg \<Longrightarrow> adds (\<lambda>x. capped cfg (s_request x)) L M"
proof (induction rule: grew.induct)
  case (grew_snoc L M x)
  have "capped cfg (s_request x)"
    using grew_snoc.hyps(2) grew_snoc.prems
    by (auto simp: in_order_def opens_for_reading_def capped_def LANE_BOUND_def MIRRORED_OPERATIONS_def intro!: exI [of _ "[''fs.read'']"])
  then show ?case using grew_snoc.IH [OF grew_snoc.prems] adds_trans adds_snoc by metis
qed simp

lemma capped_router:
  assumes "via_router g rt c = (r, c')" "rr_lanes (c_router c) \<noteq> [] \<or> ''fs.read'' \<in> requested_capabilities cfg"
    and "\<And>age live q rr s. g age live (c_router c) (c_net c) = (q, rr, s) \<Longrightarrow> grew (log c) (ns_log s) \<and> router_inv rr (ns_log s)"
  shows "capped_run cfg c c'"
  using assms grew_capped [of "log c" _ cfg] by (auto simp: via_router_def capped_run_def may_route_def split: prod.splits)

lemma owns_nonempty: "router_owns rr lid tok \<Longrightarrow> rr_lanes rr \<noteq> []"
  by (auto simp: router_owns_def)

text \<open>A call of the runtime that stays reachable and under the ceiling.\<close>

definition capped_call :: "('w, 'sk, 'pk) local_env \<Rightarrow> 'w local_call \<Rightarrow> bool" where
  "capped_call le g \<longleftrightarrow> (\<forall>c r c'. config_ok (rt_config (le_rt le)) \<longrightarrow> controller_reach (le_py le) (le_rt le) c \<longrightarrow> g c = (r, c')
     \<longrightarrow> controller_reach (le_py le) (le_rt le) c' \<and> capped_run (rt_config (le_rt le)) c c')"

lemma capped_callI:
  assumes "\<And>c r c'. g c = (r, c') \<Longrightarrow> controller_reach (le_py le) (le_rt le) c \<Longrightarrow> controller_reach (le_py le) (le_rt le) c'"
    and "\<And>c r c'. g c = (r, c') \<Longrightarrow> controller_inv (rt_config (le_rt le)) c \<Longrightarrow> config_ok (rt_config (le_rt le))
      \<Longrightarrow> capped_run (rt_config (le_rt le)) c c'"
  shows "capped_call le g"
  using assms controller_reach_inv by (fastforce simp: capped_call_def)

lemmas capped_reads = capped_router [OF _ disjI1 [OF owns_nonempty] router_read_ok [OF _ controller_inv_router]]

lemma capped_open: "capped_call le (local_lane_open le lid task caps claims ttl)"
proof (rule capped_callI)
  fix c r and c' :: "'a controller"
  assume run: "local_lane_open le lid task caps claims ttl c = (r, c')"
    and ok: "controller_inv (rt_config (le_rt le)) c" "config_ok (rt_config (le_rt le))"
  show "capped_run (rt_config (le_rt le)) c c'"
  proof (cases "set caps \<subseteq> requested_capabilities (rt_config (le_rt le))")
    case True
    then have "rt_open_lane (le_py le) (le_rt le) lid task caps claims ttl c = (r, c')" using run by (simp add: local_lane_open_def)
    then show ?thesis unfolding rt_open_lane_def
    proof (rule capped_started [OF _ ok], goal_cases)
      case (1 gw c1 q c2)
      have "supports_open caps claims \<Longrightarrow> ''fs.read'' \<in> requested_capabilities (rt_config (le_rt le))"
        using True by (auto simp: supports_open_def)
      then show ?case
        using 1 True capped_router [OF _ disjI2 router_open_ok [OF _ controller_inv_router]] capped_gateway_open
        by (fastforce split: if_splits)
    qed
  qed (use run in \<open>simp add: local_lane_open_def\<close>)
next
  show "local_lane_open le lid task caps claims ttl c = (r, c') \<Longrightarrow> controller_reach (le_py le) (le_rt le) c
      \<Longrightarrow> controller_reach (le_py le) (le_rt le) c'" for c r c'
    by (auto simp: local_lane_open_def split: if_splits intro: ctl_open)
qed

lemma capped_renew: "capped_call le (rt_renew_lane (le_py le) (le_rt le) lid tok ttl)"
proof (rule capped_callI)
  fix c r and c' :: "'a controller"
  assume "rt_renew_lane (le_py le) (le_rt le) lid tok ttl c = (r, c')" "controller_inv (rt_config (le_rt le)) c"
    "config_ok (rt_config (le_rt le))"
  then show "capped_run (rt_config (le_rt le)) c c'" unfolding rt_renew_lane_def
    by (rule capped_started)
      (auto simp: renew_lane_body_def split: if_splits elim!: capped_gateway
        capped_router [OF _ disjI1 [OF owns_nonempty] router_renew_ok [OF _ controller_inv_router]])
qed (rule ctl_renew)

lemma capped_close: "capped_call le (rt_close_lane (le_rt le) lid tok)"
proof (rule capped_callI)
  fix c r and c' :: "'a controller"
  assume "rt_close_lane (le_rt le) lid tok c = (r, c')" "controller_inv (rt_config (le_rt le)) c" "config_ok (rt_config (le_rt le))"
  then show "capped_run (rt_config (le_rt le)) c c'" unfolding rt_close_lane_def
    by (rule capped_started)
      (auto simp: close_lane_body_def split: if_splits elim!: capped_gateway
        capped_router [OF _ disjI1 [OF owns_nonempty] router_close_ok [OF _ controller_inv_router]])
qed (rule ctl_close_lane)

lemma capped_read_text: "capped_call le (rt_read_text (le_rt le) lid tok fname enc)"
proof (rule capped_callI)
  fix c r and c' :: "'a controller"
  assume "rt_read_text (le_rt le) lid tok fname enc c = (r, c')" "controller_inv (rt_config (le_rt le)) c" "config_ok (rt_config (le_rt le))"
  then show "capped_run (rt_config (le_rt le)) c c'" unfolding rt_read_text_def router_read_text_def
    by (rule capped_started)
      (auto simp: read_text_body_def plain_reads split: if_splits elim!: capped_gateway capped_reads)
qed (rule ctl_read_text)

lemma capped_read_bytes: "capped_call le (rt_read_bytes (le_rt le) lid tok fname off mx ver)"
proof (rule capped_callI)
  fix c r and c' :: "'a controller"
  assume "rt_read_bytes (le_rt le) lid tok fname off mx ver c = (r, c')" "controller_inv (rt_config (le_rt le)) c"
    "config_ok (rt_config (le_rt le))"
  then show "capped_run (rt_config (le_rt le)) c c'" unfolding rt_read_bytes_def router_read_bytes_def
    by (rule capped_started)
      (auto simp: read_bytes_body_def plain_reads split: if_splits elim!: capped_gateway capped_reads)
qed (rule ctl_read_bytes)

lemma capped_read:
  assumes "plain_body body"
  shows "capped_call le (local_read le op lid tok body)"
proof (rule capped_callI)
  fix c r and c' :: "'a controller"
  assume "local_read le op lid tok body c = (r, c')" "controller_inv (rt_config (le_rt le)) c" "config_ok (rt_config (le_rt le))"
  then show "capped_run (rt_config (le_rt le)) c c'" unfolding local_read_def rt_read_operation_def
  proof (rule capped_started, goal_cases)
    case (1 gw c1 q c2)
    show ?case
    proof (cases "op \<in> set MIRRORED_OPERATIONS")
      case True
      then have op: "op \<noteq> ''lane.open''" "op \<in> set LANE_BOUND" by (auto simp: MIRRORED_OPERATIONS_def LANE_BOUND_def)
      have rd: "router_call_read net age live op lid tok body = router_read net age live ''logical-read-op-'' op body lid tok" for net age live
        using True by (simp add: router_call_read_def [abs_def])
      show ?thesis
        using 1 op assms bound_body_operation [OF assms]
        by (auto simp: rd simp del: append.simps split: if_splits elim!: capped_gateway capped_reads)
    next
      case False
      then show ?thesis using 1 by simp
    qed
  qed
qed (auto simp: local_read_def intro: ctl_read_op [OF _ assms])

lemma capped_write: "capped_call le (rt_write_text (le_rt le) lid tok fname content enc)"
proof (rule capped_callI)
  fix c r and c' :: "'a controller"
  assume "rt_write_text (le_rt le) lid tok fname content enc c = (r, c')" "controller_inv (rt_config (le_rt le)) c"
    "config_ok (rt_config (le_rt le))"
  then show "capped_run (rt_config (le_rt le)) c c'" unfolding rt_write_text_def
    by (rule capped_started) (auto simp: write_text_body_def elim!: capped_gateway)
qed (rule ctl_write)

lemma capped_list: "capped_call le (rt_list_lanes (le_rt le))"
proof (rule capped_callI)
  fix c r and c' :: "'a controller"
  assume "rt_list_lanes (le_rt le) c = (r, c')" "controller_inv (rt_config (le_rt le)) c" "config_ok (rt_config (le_rt le))"
  then show "capped_run (rt_config (le_rt le)) c c'" unfolding rt_list_lanes_def
    by (rule capped_started) (auto elim!: capped_gateway)
qed (rule ctl_list)

lemma capped_info: "capped_call le (machine_info (le_rt le))"
proof (rule capped_callI)
  fix c r and c' :: "'a controller"
  assume "machine_info (le_rt le) c = (r, c')" "controller_inv (rt_config (le_rt le)) c" "config_ok (rt_config (le_rt le))"
  then show "capped_run (rt_config (le_rt le)) c c'" unfolding machine_info_def
    by (rule capped_started)
      (auto simp: route_decision_def now_ms_def Let_def case_prod_unfold capped_run_def may_route_def split: sum.splits)
qed (rule ctl_info)

lemma capped_operation:
  assumes "plain_body body" "op \<noteq> ''lane.open''"
  shows "capped_call le (local_operation le op lid tok body)"
proof (rule capped_callI)
  note b = bound_body_operation [OF assms(1), of "JStr lid" "JInt tok"]
  fix c r and c' :: "'a controller"
  { assume "local_operation le op lid tok body c = (r, c')" "controller_inv (rt_config (le_rt le)) c" "config_ok (rt_config (le_rt le))"
    then show "capped_run (rt_config (le_rt le)) c c'" unfolding local_operation_def rt_call_operation_def
      by (rule capped_started) (erule capped_gateway [OF _ assms(2) b]) }
  show "local_operation le op lid tok body c = (r, c') \<Longrightarrow> controller_reach (le_py le) (le_rt le) c \<Longrightarrow> controller_reach (le_py le) (le_rt le) c'"
    unfolding local_operation_def by (rule ctl_call [OF _ b])
qed

section \<open>Calls of tools\<close>

lemma on_lane_Inr: "on_lane a k = Inr g \<Longrightarrow> \<exists>lid tok. k lid tok = Inr g"
  by (auto simp: on_lane_def dest!: and_then_Inr)

lemma lane_tool_capped: "lane_tool le name a = Inr g \<Longrightarrow> capped_call le g"
  by (auto simp: lane_tool_def split: if_splits dest!: on_lane_Inr and_then_Inr
      intro: capped_info capped_list capped_open capped_renew capped_close)

lemma read_tool_capped: "read_tool le name a = Inr g \<Longrightarrow> capped_call le g"
  by (auto simp: read_tool_def Let_def split: if_splits dest!: on_lane_Inr and_then_Inr
      intro!: capped_read_text capped_read_bytes capped_read simp: plain_body_def)

lemma write_tool_capped: "write_tool le name a = Inr g \<Longrightarrow> capped_call le g"
  by (auto simp: write_tool_def Let_def split: if_splits dest!: on_lane_Inr and_then_Inr
      intro!: capped_write capped_operation simp: plain_body_def)

lemma process_tool_capped: "process_tool le name a = Inr g \<Longrightarrow> capped_call le g"
  by (auto simp: process_tool_def Let_def split: if_splits dest!: on_lane_Inr and_then_Inr
      intro!: capped_operation simp: plain_body_def)

lemma local_tool_found:
  "local_tool_call le name a = Inr g \<Longrightarrow> lane_tool le name a = Inr g \<or> read_tool le name a = Inr g \<or> write_tool le name a = Inr g
     \<or> process_tool le name a = Inr g"
  by (simp add: local_tool_call_def split: sum.splits)

lemma local_tool_capped: "local_tool_call le name a = Inr g \<Longrightarrow> capped_call le g"
  using local_tool_found lane_tool_capped read_tool_capped write_tool_capped process_tool_capped by metis

lemma local_call_cases:
  assumes "local_call le name args c = (r, c')"
  obtains (unsent) "c' = c" "\<forall>d. r \<noteq> Answered d"
  | (run) t a g q where "t \<in> set (local_offered (rt_config (le_rt le)))" "lt_name t = name" "le_arguments le name args = Some a"
      "local_tool_call le name a = Inr g" "g c = (q, c')" "r = (case q of Inl x \<Rightarrow> Failed x | Inr d \<Rightarrow> Answered d)"
proof -
  have "(c' = c \<and> (\<forall>d. r \<noteq> Answered d)) \<or> (\<exists>t a g q. t \<in> set (local_offered (rt_config (le_rt le))) \<and> lt_name t = name
      \<and> le_arguments le name args = Some a \<and> local_tool_call le name a = Inr g \<and> g c = (q, c')
      \<and> r = (case q of Inl x \<Rightarrow> Failed x | Inr d \<Rightarrow> Answered d))"
  proof (cases "find (\<lambda>t. lt_name t = name) (local_offered (rt_config (le_rt le)))")
    case None
    then show ?thesis using assms by (auto simp: local_call_def)
  next
    case (Some t)
    then have t: "t \<in> set (local_offered (rt_config (le_rt le)))" "lt_name t = name" by (auto simp: find_Some_iff)
    show ?thesis
    proof (cases "\<exists>a g. le_arguments le name args = Some a \<and> local_tool_call le name a = Inr g")
      case True
      then obtain a g where g: "le_arguments le name args = Some a" "local_tool_call le name a = Inr g" by blast
      obtain q c1 where q: "g c = (q, c1)" by fastforce
      have "c1 = c'" "r = (case q of Inl x \<Rightarrow> Failed x | Inr d \<Rightarrow> Answered d)"
        using assms Some g q by (auto simp: local_call_def split: sum.splits)
      then show ?thesis using t g q by blast
    next
      case False
      then show ?thesis using assms Some by (auto simp: local_call_def split: option.splits sum.splits)
    qed
  qed
  then show ?thesis using unsent run by blast
qed

text \<open>The server over time: calls in any order, while the machines behind it change.\<close>

inductive local_reach :: "('w, 'sk, 'pk) local_env \<Rightarrow> 'w controller \<Rightarrow> bool" for le where
  local_start: "controller_new (le_rt le) epoch w = Inr c \<Longrightarrow> local_reach le c"
| local_tool: "local_reach le c \<Longrightarrow> local_call le name args c = (r, c') \<Longrightarrow> local_reach le c'"
| local_world: "local_reach le c \<Longrightarrow> local_reach le (c\<lparr>c_net := (c_net c)\<lparr>ns_world := w\<rparr>\<rparr>)"

lemma local_reach_capped:
  assumes "local_reach le c" "config_ok (rt_config (le_rt le))"
  shows "controller_reach (le_py le) (le_rt le) c \<and> may_route (rt_config (le_rt le)) c
    \<and> (\<forall>x \<in> set (log c). capped (rt_config (le_rt le)) (s_request x))"
  using assms(1)
proof (induction rule: local_reach.induct)
  case (local_start epoch w c)
  then show ?case
    by (auto simp: controller_new_def router_new_def may_route_def intro: ctl_new split: sum.splits if_splits)
next
  case (local_tool c name args r c')
  from local_tool.hyps(2) show ?case
  proof (cases rule: local_call_cases)
    case unsent
    then show ?thesis using local_tool.IH by simp
  next
    case (run t a g q)
    then show ?thesis
      using local_tool_capped [OF run(4)] local_tool.IH assms(2) by (fastforce simp: capped_call_def capped_run_def adds_def)
  qed
qed (auto simp: may_route_def intro: ctl_world)


section \<open>Read-only tools\<close>

text \<open>The calls of the runtime under the lemmas of the public gateway, which speak of any facade over the same runtime.\<close>

definition calm_tool :: "('w, 'sk, 'pk) local_env \<Rightarrow> 'w local_call \<Rightarrow> bool" where
  "calm_tool le g \<longleftrightarrow> (\<forall>fe :: ('w, 'sk, 'pk) facade_env. fe_py fe = le_py le \<longrightarrow> fe_rt fe = le_rt le \<longrightarrow> calm_call (set CHANGING_OPERATIONS) fe g)"

lemma calm_tool_reads:
  "calm_tool le (machine_info (le_rt le))" "calm_tool le (rt_read_text (le_rt le) lid tok p e)"
  "calm_tool le (rt_read_bytes (le_rt le) lid tok p j1 j2 j3)"
  using changes.calm_info changes.calm_read_text changes.calm_read_bytes by (metis calm_tool_def)+

lemma calm_tool_list: "calm_tool le (rt_list_lanes (le_rt le))"
  unfolding calm_tool_def
proof (intro allI impI)
  fix fe :: "('a, 'b, 'c) facade_env"
  assume fe: "fe_py fe = le_py le" "fe_rt fe = le_rt le"
  show "calm_call (set CHANGING_OPERATIONS) fe (rt_list_lanes (le_rt le))"
  proof (rule changes.calm_callI)
    fix c r and c' :: "'a controller"
    assume "rt_list_lanes (le_rt le) c = (r, c')" "controller_inv (rt_config (fe_rt fe)) c" "config_ok (rt_config (fe_rt fe))"
    then show "calm (set CHANGING_OPERATIONS) c c'" unfolding rt_list_lanes_def fe(2) [symmetric]
      by (rule changes.started_calm) (auto elim!: changes.via_gateway_calm)
  qed (use fe in \<open>auto intro: ctl_list\<close>)
qed

lemma calm_tool_read: "plain_body body \<Longrightarrow> calm_tool le (local_read le op lid tok body)"
  unfolding calm_tool_def local_read_def using changes.calm_read_operation by metis

lemma calm_tool_operation:
  assumes "op \<notin> set CHANGING_OPERATIONS" "plain_body body"
  shows "calm_tool le (local_operation le op lid tok body)"
  unfolding calm_tool_def
proof (intro allI impI)
  fix fe :: "('a, 'b, 'c) facade_env"
  assume fe: "fe_py fe = le_py le" "fe_rt fe = le_rt le"
  note b = bound_body_operation [OF assms(2), of "JStr lid" "JInt tok"]
  show "calm_call (set CHANGING_OPERATIONS) fe (local_operation le op lid tok body)"
    unfolding local_operation_def fe(2) [symmetric] using changes.calm_operation [OF _ b] assms(1) by blast
qed

lemma quiet_lane_tool:
  "lane_tool le name a = Inr g \<Longrightarrow> name \<notin> {''lane_open'', ''lane_renew'', ''lane_close''} \<Longrightarrow> calm_tool le g"
  by (auto simp: lane_tool_def split: if_splits intro: calm_tool_reads calm_tool_list)

lemma quiet_read_tool: "read_tool le name a = Inr g \<Longrightarrow> calm_tool le g"
  by (auto simp: read_tool_def Let_def plain_body_def split: if_splits dest!: on_lane_Inr and_then_Inr
      intro!: calm_tool_reads calm_tool_read)

lemma quiet_process_tool:
  "process_tool le name a = Inr g \<Longrightarrow> name \<notin> {''process_exec'', ''process_start'', ''process_input'', ''process_terminate''} \<Longrightarrow> calm_tool le g"
  by (auto simp: process_tool_def Let_def plain_body_def CHANGING_OPERATIONS_def split: if_splits dest!: on_lane_Inr and_then_Inr
      intro!: calm_tool_operation)

lemma write_tool_names:
  "write_tool le name a = Inr g \<Longrightarrow> name \<in> {''fs_write_text'', ''fs_append_text'', ''fs_mkdir'', ''fs_move'', ''fs_replace_text''}"
  by (simp add: write_tool_def Let_def split: if_splits)

lemma read_only_tool:
  assumes "t \<in> set LOCAL_TOOLS" "lt_read_only t" "local_tool_call le (lt_name t) a = Inr g"
  shows "calm_tool le g"
proof -
  have "lt_name t \<notin> {''lane_open'', ''lane_renew'', ''lane_close''} \<union> {''fs_write_text'', ''fs_append_text'', ''fs_mkdir'', ''fs_move'',
      ''fs_replace_text''} \<union> {''process_exec'', ''process_start'', ''process_input'', ''process_terminate''}"
    using assms(1,2) by (auto simp: tool_tables)
  then show ?thesis
    using local_tool_found [OF assms(3)] quiet_lane_tool quiet_read_tool quiet_process_tool write_tool_names by blast
qed


section \<open>The listener\<close>

lemma http_launch_loopback:
  assumes "http_launch env ue h0 p0 cfg0 = Run_Http cfg host port"
  shows "cfg = cfg0" "str_lower env host = ''localhost'' \<or> ip_loopback ue host = Some True" "1 \<le> port" "port \<le> 65535"
  using assms
  by (auto simp: http_launch_def require_loopback_mcp_host_def Let_def split: sum.splits if_splits option.splits bool.splits)

lemma local_main_cases:
  assumes "local_main env ue vars load = r"
  obtains (stopped) "\<forall>cfg host port. r \<noteq> Run_Http cfg host port"
  | (http) p cfg h0 p0 where "load p = Inr cfg" "vars ''VERAPORT_CONTROLLER_CONFIG'' = Some p" "r = http_launch env ue h0 p0 cfg"
      "str_lower env (py_strip (case vars ''VERAPORT_MCP_TRANSPORT'' of None \<Rightarrow> ''streamable-http'' | Some s \<Rightarrow> s)) \<noteq> ''stdio''"
proof (cases "vars ''VERAPORT_CONTROLLER_CONFIG''")
  case None
  then have "r = System_Exit" using assms by (simp add: local_main_def)
  then show ?thesis using stopped by simp
next
  case (Some p)
  show ?thesis
  proof (cases "load p")
    case (Inl x)
    then have "r = (if p = [] then System_Exit else Raised x)" unfolding assms [symmetric] using Some by (simp add: local_main_def)
    then show ?thesis using stopped by simp
  next
    case (Inr cfg)
    define tr where "tr = str_lower env (py_strip (case vars ''VERAPORT_MCP_TRANSPORT'' of None \<Rightarrow> ''streamable-http'' | Some s \<Rightarrow> s))"
    define h0 p0 where "h0 = (case vars ''VERAPORT_MCP_HOST'' of None \<Rightarrow> ''127.0.0.1'' | Some s \<Rightarrow> s)"
      and "p0 = (case vars ''VERAPORT_MCP_PORT'' of None \<Rightarrow> ''17446'' | Some s \<Rightarrow> s)"
    have r: "r = (if p = [] then System_Exit else if tr \<noteq> ''stdio'' \<and> tr \<noteq> ''streamable-http'' then System_Exit
        else if tr = ''stdio'' then Run_Stdio cfg else http_launch env ue h0 p0 cfg)"
      using assms Some Inr by (simp only: local_main_def Let_def option.case sum.case tr_def h0_def p0_def)
    show ?thesis
    proof (cases "p = [] \<or> tr \<noteq> ''streamable-http''")
      case True
      then have "r = System_Exit \<or> r = Run_Stdio cfg" using r by auto
      then show ?thesis using stopped by blast
    next
      case False
      then have "r = http_launch env ue h0 p0 cfg" "tr \<noteq> ''stdio''" using r by simp_all
      then show ?thesis using http [OF Inr Some] by (simp add: tr_def)
    qed
  qed
qed

text \<open>
  (C38) The local server listens on a loopback address only. Whatever the environment says, a start over HTTP binds the
  name of the local host or a literal address that is a loopback address, on a port between 1 and 65535, under a
  configuration that was accepted; the entry point for standard streams never binds one.
\<close>
theorem local_server_stays_on_loopback:
  assumes "local_main env ue vars load = Run_Http cfg host port"
  shows "(str_lower env host = ''localhost'' \<or> ip_loopback ue host = Some True) \<and> 1 \<le> port \<and> port \<le> 65535
    \<and> (\<exists>p. vars ''VERAPORT_CONTROLLER_CONFIG'' = Some p \<and> load p = Inr cfg)
    \<and> (str_lower env (py_strip ''stdio'') = ''stdio'' \<longrightarrow> local_stdio_main env ue vars load = Run_Stdio cfg)"
  using assms
proof (cases rule: local_main_cases)
  case (http p cfg0 h0 p0)
  note l = http_launch_loopback [OF http(3) [symmetric]]
  have "p \<noteq> []" using assms http(2) by (auto simp: local_main_def)
  then show ?thesis using http(1,2) l by (simp add: local_stdio_main_def local_main_def)
qed simp

section \<open>A concrete server\<close>

definition demo_le :: "(unit, unit, unit) local_env" where
  "demo_le = \<lparr>le_py = posix_env, le_rt = demo_rt, le_arguments = (\<lambda>_ a. Some a)\<rparr>"

definition demo_args :: dict where
  "demo_args = [(''lane_id'', JStr ''L''), (''task_id'', JStr ''T''), (''capabilities'', JList [JStr ''fs.read'']), (''claims'', JList demo_claims),
     (''ttl_s'', JFloat (Fin 1))]"

lemma demo_le_simps [simp]: "le_py demo_le = posix_env" "le_rt demo_le = demo_rt" "le_arguments demo_le name a = Some a"
  by (simp_all add: demo_le_def)

lemma demo_local_start: "local_reach demo_le demo_c0"
  by (rule local_start [of _ 1 "()"]) (simp add: demo_c0_new)

lemma demo_local_open:
  "local_call demo_le ''lane_open'' demo_args demo_c0 =
     (Answered (lane_result [(''lane_id'', JStr ''L''), (''fencing_token'', JInt (rl_fence demo_lane))]), demo_c [demo_probe, read_open] demo_mirrored)"
proof -
  have "find (\<lambda>t. lt_name t = ''lane_open'') (local_offered demo_config) = Some \<lparr>lt_name = ''lane_open'', lt_needs = None, lt_read_only = False\<rparr>"
    by (simp add: local_offered_def tool_tables)
  moreover have "local_tool_call demo_le ''lane_open'' demo_args = Inr (local_lane_open demo_le ''L'' ''T'' [''fs.read''] demo_claims (Fin 1))"
    by (simp add: local_tool_call_def lane_tool_def demo_args_def str_of_def strs_of_def list_of_def flt_of_def and_then_def dict_get_def string_list_def)
  ultimately show ?thesis by (simp add: local_call_def local_lane_open_def demo_open_lane) (simp add: demo_config_def)
qed

lemma demo_local_offered: "local_call demo_le ''process_exec'' a c = (No_Such_Tool, c)"
  by (simp add: local_call_def local_offered_def tool_tables)



lemma local_server_stays_on_loopback_witness:
  "ip_loopback demo_oauth ''127.0.0.1'' = Some True
   \<and> local_main (posix_env\<lparr>parse_int := (\<lambda>_. Some 9)\<rparr>) demo_oauth [''VERAPORT_CONTROLLER_CONFIG'' \<mapsto> ''c''] (\<lambda>_. Inr demo_config) =
      Run_Http demo_config ''127.0.0.1'' 9"
proof -
  let ?m = "local_main (posix_env\<lparr>parse_int := (\<lambda>_. Some 9)\<rparr>) demo_oauth [''VERAPORT_CONTROLLER_CONFIG'' \<mapsto> ''c''] (\<lambda>_. Inr demo_config)"
  have "ip_loopback demo_oauth ''127.0.0.1'' = Some True" "py_strip ''127.0.0.1'' = ''127.0.0.1''" "py_strip ''streamable-http'' = ''streamable-http''"
    by code_simp+
  then have m: "?m = Run_Http demo_config ''127.0.0.1'' 9"
    by (simp add: local_main_def http_launch_def require_loopback_mcp_host_def posix_env_def)
  from local_server_stays_on_loopback [OF this] m show ?thesis by (simp add: posix_env_def)
qed

end
