(* ===== verification/WorkBridge.thy ===== *)
theory WorkBridge
  imports Lane_Isolation Urls
begin

text \<open>
  \<^verbatim>\<open>workbridge_local.py\<close>: the backend to which the dispatcher of the workstation hands reads below the roots of a local
  service. The service, an MCP server on the loopback interface, is the argument \<open>svc\<close>: from the time, the bearer
  token, the tool and its arguments to the error flag and the structured content of the answer.
\<close>

section \<open>Windows paths\<close>

text \<open>
  \<open>alpha_point\<close> and \<open>upper_point\<close> are \<^verbatim>\<open>str.isalpha\<close> and \<^verbatim>\<open>str.upper\<close> of a code point beyond ASCII; \<open>path_text\<close> is
  \<^verbatim>\<open>str(Path(s).expanduser())\<close>; \<open>file_there\<close> and \<open>file_text\<close> are \<^verbatim>\<open>is_file\<close> and \<^verbatim>\<open>read_text\<close> of a path.
\<close>

record bridge_env = url_env +
  be_py :: pyenv
  alpha_point :: "string \<Rightarrow> bool"
  upper_point :: "string \<Rightarrow> string"
  path_text :: "string \<Rightarrow> string"
  file_there :: "string \<Rightarrow> bool"
  file_text :: "string \<Rightarrow> string result"

abbreviation bridge_error :: exn where
  "bridge_error \<equiv> Bridge WorkBridgeLocalError"

abbreviation path_denied :: exn where
  "path_denied \<equiv> Bridge WorkBridgePathDenied"

definition first_point :: "string \<Rightarrow> string" where
  "first_point s = take (length s - length (after_first s)) s"

definition is_alpha :: "bridge_env \<Rightarrow> string \<Rightarrow> bool" where
  "is_alpha be p = (case p of [c] \<Rightarrow> ascii_alpha c | _ \<Rightarrow> alpha_point be p)"

definition to_upper :: "bridge_env \<Rightarrow> string \<Rightarrow> string" where
  "to_upper be p = (case p of [c] \<Rightarrow> ascii_upper p | _ \<Rightarrow> upper_point be p)"

definition canonical_windows_path :: "bridge_env \<Rightarrow> string \<Rightarrow> string result" where
  "canonical_windows_path be value =
     (if is_blank value then Inl path_denied
      else let raw = replace_char (CHR ''/'') backslash (py_strip value); (drive, rt, rest) = splitroot raw; d = first_point drive in
        if after_first drive \<noteq> '':'' \<or> \<not> is_alpha be d \<or> \<not> prefix [backslash] (rt @ rest) then Inl path_denied
        else let normalized = nt_normpath (to_upper be d @ '':'' @ rt @ rest) in
          if CHR '':'' \<in> set (after_first (after_first normalized)) then Inl path_denied else Inr normalized)"

definition bridge_key :: "bridge_env \<Rightarrow> string \<Rightarrow> string result" where
  "bridge_key be p = map_sum id (\<lambda>q. ''fs:'' @ replace_char backslash (CHR ''/'') q) (canonical_windows_path be p)"

text \<open>
  \<^verbatim>\<open>ntpath.commonpath\<close> of two paths: the components are compared in lower case and taken from the first
  path; \<^const>\<open>None\<close> where it raises \<^const>\<open>ValueError\<close>.
\<close>

definition named_parts :: "string \<Rightarrow> string list" where
  "named_parts p = filter (\<lambda>c. c \<noteq> [] \<and> c \<noteq> ''.'') (split_char backslash p)"

fun common_length :: "'a list \<Rightarrow> 'a list \<Rightarrow> nat" where
  "common_length (x # xs) (y # ys) = (if x = y then Suc (common_length xs ys) else 0)"
| "common_length xs ys = 0"

definition nt_commonpath :: "pyenv \<Rightarrow> string \<Rightarrow> string \<Rightarrow> string option" where
  "nt_commonpath env a b =
     (let a1 = replace_char (CHR ''/'') backslash a; b1 = replace_char (CHR ''/'') backslash b;
          (d1, r1, p1) = splitroot (str_lower env a1); (d2, r2, p2) = splitroot (str_lower env b1); (drive, rt, p) = splitroot a1
      in if r1 \<noteq> r2 \<or> d1 \<noteq> d2 then None
         else Some (drive @ rt @ join [backslash] (take (common_length (named_parts p1) (named_parts p2)) (named_parts p))))"

definition within_root :: "bridge_env \<Rightarrow> string \<Rightarrow> string \<Rightarrow> bool result" where
  "within_root be candidate base =
     rbind (canonical_windows_path be candidate) (\<lambda>c. rbind (canonical_windows_path be base) (\<lambda>r.
       let fold = str_casefold (be_py be) in
       Inr (case nt_commonpath (be_py be) (fold c) (fold r) of None \<Rightarrow> False | Some m \<Rightarrow> m = fold r)))"

fun within_any_root :: "bridge_env \<Rightarrow> string \<Rightarrow> string list \<Rightarrow> bool result" where
  "within_any_root be candidate [] = Inr False"
| "within_any_root be candidate (r # rs) = rbind (within_root be candidate r) (\<lambda>yes. if yes then Inr True else within_any_root be candidate rs)"

section \<open>Configuration\<close>

record bridge_config =
  bc_endpoint :: string
  bc_token_file :: string
  bc_read_roots :: "string list"
  bc_timeout_s :: pyfloat

definition bridge_validate :: "bridge_env \<Rightarrow> bridge_config \<Rightarrow> unit result" where
  "bridge_validate be cfg =
     rbind (url_split be (bc_endpoint cfg)) (\<lambda>u.
       if su_scheme u \<noteq> ''http'' \<or> fst (rcut_at (CHR ''@'') (su_netloc u)) \<noteq> None then Inl bridge_error
       else (case (ip_loopback be (host_name u), url_port u) of
         (Some loopback, Inr port) \<Rightarrow>
           if \<not> loopback \<or> port = None then Inl bridge_error
           else if su_query u \<noteq> [] \<or> su_fragment u \<noteq> [] \<or> \<not> prefix ''/'' (su_path u) \<or> su_path u = ''/'' \<or> suffix ''/'' (su_path u)
           then Inl bridge_error
           else if \<not> (flt (Fin 0) (bc_timeout_s cfg) \<and> fle (bc_timeout_s cfg) (Fin 60)) then Inl bridge_error
           else if \<not> distinct (map (str_casefold (be_py be)) (bc_read_roots cfg)) then Inl bridge_error
           else if bc_token_file cfg = [] then Inl bridge_error
           else Inr ()
       | _ \<Rightarrow> Inl bridge_error))"

definition BRIDGE_FIELDS :: "string list" where
  "BRIDGE_FIELDS = [''schema'', ''endpoint'', ''bearer_token_file'', ''read_roots'', ''timeout_seconds'']"

fun canonical_roots :: "bridge_env \<Rightarrow> json list \<Rightarrow> string list result" where
  "canonical_roots be [] = Inr []"
| "canonical_roots be (v # vs) =
     rbind (canonical_windows_path be (py_str (be_py be) v)) (\<lambda>r. rbind (canonical_roots be vs) (\<lambda>rs. Inr (r # rs)))"

definition bridge_config_of :: "bridge_env \<Rightarrow> json \<Rightarrow> bridge_config result" where
  "bridge_config_of be v =
     (case v of
        JObj d \<Rightarrow>
          if \<not> fst ` set d \<subseteq> set BRIDGE_FIELDS then Inl bridge_error
          else if map_of d ''schema'' \<noteq> Some (JStr ''VERAPORT_WORKBRIDGE_LOCAL_V1'') then Inl bridge_error
          else (case map_of d ''read_roots'' of
             Some (JList (r # rs)) \<Rightarrow>
               let text_of = (\<lambda>k. py_str (be_py be) (dict_get d k (JStr []))) in
               rbind (canonical_roots be (r # rs)) (\<lambda>roots.
                 rbind (py_float (be_py be) (dict_get d ''timeout_seconds'' (JFloat (Fin 10)))) (\<lambda>t.
                   let cfg = \<lparr>bc_endpoint = text_of ''endpoint'', bc_token_file = path_text be (text_of ''bearer_token_file''),
                              bc_read_roots = roots, bc_timeout_s = t\<rparr>
                   in map_sum id (\<lambda>_. cfg) (bridge_validate be cfg)))
           | _ \<Rightarrow> Inl bridge_error)
      | _ \<Rightarrow> Inl bridge_error)"

definition bridge_config_load :: "bridge_env \<Rightarrow> string \<Rightarrow> bridge_config result" where
  "bridge_config_load be path =
     (case file_text be path of
        Inl _ \<Rightarrow> Inl bridge_error
      | Inr s \<Rightarrow> (case json_loads (be_py be) s of Inl _ \<Rightarrow> Inl bridge_error | Inr v \<Rightarrow> bridge_config_of be v))"

definition bridge_runtime_files :: "bridge_env \<Rightarrow> bridge_config \<Rightarrow> unit result" where
  "bridge_runtime_files be cfg = (if file_there be (bc_token_file cfg) then Inr () else Inl bridge_error)"

text \<open>\<^verbatim>\<open>WorkBridgeLocalBackend.load\<close>, whose constructor checks the configuration again.\<close>

definition bridge_load :: "bridge_env \<Rightarrow> string \<Rightarrow> bridge_config result" where
  "bridge_load be path =
     rbind (bridge_config_load be path) (\<lambda>cfg. rbind (bridge_runtime_files be cfg) (\<lambda>_.
       rbind (bridge_validate be cfg) (\<lambda>_. Inr cfg)))"

section \<open>The backend\<close>

definition bridge_can_handle :: "bridge_env \<Rightarrow> bridge_config \<Rightarrow> string \<Rightarrow> bool result" where
  "bridge_can_handle be cfg path =
     (case canonical_windows_path be path of
        Inl x \<Rightarrow> if x = path_denied then Inr False else Inl x
      | Inr candidate \<Rightarrow> within_any_root be candidate (bc_read_roots cfg))"

definition bridge_authorize ::
  "bridge_env \<Rightarrow> bridge_config \<Rightarrow> string \<Rightarrow> int \<Rightarrow> string \<Rightarrow> pyfloat \<Rightarrow> registry \<Rightarrow> string result \<times> registry" where
  "bridge_authorize be cfg lid tok path now reg =
     (case rbind (canonical_windows_path be path) (\<lambda>candidate. rbind (within_any_root be candidate (bc_read_roots cfg)) (\<lambda>inside.
             if \<not> inside then Inl path_denied else rbind (bridge_key be candidate) (\<lambda>key. Inr (candidate, key)))) of
        Inl x \<Rightarrow> (Inl x, reg)
      | Inr (candidate, key) \<Rightarrow>
          (case authorize (be_py be) lid tok ''fs.read'' (Some key) (Some READ) now reg of
             (Inl x, reg1) \<Rightarrow> (Inl x, reg1)
           | (Inr _, reg1) \<Rightarrow> (Inr candidate, reg1)))"

type_synonym service = "pyfloat \<Rightarrow> string \<Rightarrow> string \<Rightarrow> dict \<Rightarrow> (bool \<times> json option) result"

definition bridge_token :: "bridge_env \<Rightarrow> bridge_config \<Rightarrow> string result" where
  "bridge_token be cfg =
     rbind (bridge_runtime_files be cfg) (\<lambda>_.
       (case file_text be (bc_token_file cfg) of
          Inl _ \<Rightarrow> Inl bridge_error
        | Inr s \<Rightarrow>
            let token = py_strip s in
            if cp_length token < 32 \<or> list_ex (\<lambda>w. sublist w token) py_whitespace then Inl bridge_error else Inr token))"

definition call_mcp :: "bridge_env \<Rightarrow> bridge_config \<Rightarrow> service \<Rightarrow> pyfloat \<Rightarrow> string \<Rightarrow> dict \<Rightarrow> dict result" where
  "call_mcp be cfg svc now toolname args =
     rbind (bridge_token be cfg) (\<lambda>token. rbind (svc now token toolname args) (\<lambda>(is_error, structured).
       if is_error then Inl bridge_error
       else (case structured of Some (JObj d) \<Rightarrow> Inr d | _ \<Rightarrow> Inl bridge_error)))"

text \<open>An authorized call: the answer of the tool about the canonical path, read by \<open>k\<close>.\<close>

definition bridge_call ::
  "bridge_env \<Rightarrow> bridge_config \<Rightarrow> service \<Rightarrow> string \<Rightarrow> string \<Rightarrow> int \<Rightarrow> string \<Rightarrow> pyfloat \<Rightarrow> registry
   \<Rightarrow> (string \<Rightarrow> dict \<Rightarrow> 'a result) \<Rightarrow> 'a result \<times> registry" where
  "bridge_call be cfg svc toolname lid tok path now reg k =
     (case bridge_authorize be cfg lid tok path now reg of
        (Inl x, reg1) \<Rightarrow> (Inl x, reg1)
      | (Inr candidate, reg1) \<Rightarrow> (rbind (call_mcp be cfg svc now toolname [(''path'', JStr candidate)]) (k candidate), reg1))"

definition bridge_read_text ::
  "bridge_env \<Rightarrow> bridge_config \<Rightarrow> service \<Rightarrow> string \<Rightarrow> int \<Rightarrow> string \<Rightarrow> string \<Rightarrow> pyfloat \<Rightarrow> registry \<Rightarrow> string result \<times> registry" where
  "bridge_read_text be cfg svc lid tok path encoding now reg =
     (if filter (\<lambda>c. c \<noteq> CHR ''-'') (str_casefold (be_py be) encoding) \<noteq> ''utf8'' then (Inl bridge_error, reg)
      else bridge_call be cfg svc ''workspace_read_text'' lid tok path now reg
        (\<lambda>_ out. case map_of out ''text'' of Some (JStr t) \<Rightarrow> Inr t | _ \<Rightarrow> Inl bridge_error))"

definition bridge_entry :: "bridge_env \<Rightarrow> json \<Rightarrow> dict result" where
  "bridge_entry be v =
     (case v of
        JObj d \<Rightarrow>
          let text_of = (\<lambda>k. py_str (be_py be) (dict_get d k (JStr []))) in
          rbind (canonical_windows_path be (text_of ''path'')) (\<lambda>p.
            if text_of ''type'' \<notin> set [''file'', ''directory'', ''symlink'', ''other''] then Inl bridge_error
            else rbind (py_int (be_py be) (dict_get d ''size_bytes'' (JInt 0))) (\<lambda>size.
              rbind (py_int (be_py be) (dict_get d ''mtime_ns'' (JInt 0))) (\<lambda>mtime.
                Inr [(''name'', JStr (text_of ''name'')), (''path'', JStr (replace_char backslash (CHR ''/'') p)),
                     (''type'', JStr (text_of ''type'')), (''is_symlink'', JBool (map_of d ''is_symlink'' = Some (JBool True))),
                     (''size_bytes'', JInt size), (''mtime_ns'', JInt mtime)])))
      | _ \<Rightarrow> Inl bridge_error)"

definition bridge_stat ::
  "bridge_env \<Rightarrow> bridge_config \<Rightarrow> service \<Rightarrow> string \<Rightarrow> int \<Rightarrow> string \<Rightarrow> pyfloat \<Rightarrow> registry \<Rightarrow> dict result \<times> registry" where
  "bridge_stat be cfg svc lid tok path now reg =
     bridge_call be cfg svc ''workspace_stat'' lid tok path now reg
       (\<lambda>_ out. map_sum id (\<lambda>e. e @ [(''backend'', JStr ''workbridge'')]) (bridge_entry be (dict_get out ''stat'' JNull)))"

fun bridge_entries :: "bridge_env \<Rightarrow> json list \<Rightarrow> json list result" where
  "bridge_entries be [] = Inr []"
| "bridge_entries be (v # vs) = rbind (bridge_entry be v) (\<lambda>e. rbind (bridge_entries be vs) (\<lambda>es. Inr (JObj e # es)))"

definition page_json :: "string \<Rightarrow> json list \<Rightarrow> int \<Rightarrow> int \<Rightarrow> dict" where
  "page_json candidate entries offset max_entries =
     (let selected = take (nat max_entries) (drop (nat offset) entries); total = int (length entries);
          next = offset + int (length selected)
      in [(''path'', JStr (replace_char backslash (CHR ''/'') candidate)), (''entries'', JList selected), (''offset'', JInt offset),
          (''next_offset'', if next < total then JInt next else JNull), (''total_entries'', JInt total),
          (''truncated'', JBool (next < total)), (''backend'', JStr ''workbridge'')])"

definition bridge_list_dir ::
  "bridge_env \<Rightarrow> bridge_config \<Rightarrow> service \<Rightarrow> string \<Rightarrow> int \<Rightarrow> string \<Rightarrow> json \<Rightarrow> json \<Rightarrow> pyfloat \<Rightarrow> registry \<Rightarrow> dict result \<times> registry" where
  "bridge_list_dir be cfg svc lid tok path off n now reg =
     (case (exact_int off, exact_int n) of
        (Some offset, Some max_entries) \<Rightarrow>
          if offset < 0 then (Inl (Py ValueError), reg)
          else if \<not> (1 \<le> max_entries \<and> max_entries \<le> 1000) then (Inl (Py ValueError), reg)
          else bridge_call be cfg svc ''workspace_list'' lid tok path now reg
            (\<lambda>candidate out. case map_of out ''entries'' of
               Some (JList vs) \<Rightarrow> rbind (bridge_entries be vs) (\<lambda>entries. Inr (page_json candidate entries offset max_entries))
             | _ \<Rightarrow> Inl bridge_error)
      | _ \<Rightarrow> (Inl (Py ValueError), reg))"

definition WorkBridgeLocalBackend :: "bridge_env \<Rightarrow> bridge_config \<Rightarrow> service \<Rightarrow> workbridge" where
  "WorkBridgeLocalBackend be cfg svc =
     \<lparr>can_handle = bridge_can_handle be cfg, wb_read_text = bridge_read_text be cfg svc, wb_stat = bridge_stat be cfg svc,
      wb_list_dir = bridge_list_dir be cfg svc\<rparr>"


section \<open>The backend reaches the registry only through authorize\<close>

lemma bridge_authorize_quiet: "quiet now reg (snd (bridge_authorize be cfg lid tok path now reg))"
  by (auto simp: bridge_authorize_def split: sum.split prod.split dest: authorize_quiet)

lemma bridge_call_quiet: "quiet now reg (snd (bridge_call be cfg svc tn lid tok path now reg k))"
  using bridge_authorize_quiet [of now reg be cfg lid tok path] by (auto simp: bridge_call_def split: prod.split sum.split)

lemma backend_authorizes:
  assumes "h_wb h = None \<or> (\<exists>be cfg svc. h_wb h = Some (WorkBridgeLocalBackend be cfg svc))"
  shows "bridge_authorizes h"
  using assms
  by (auto simp: bridge_authorizes_def WorkBridgeLocalBackend_def bridge_read_text_def bridge_stat_def bridge_list_dir_def
      intro!: bridge_call_quiet split: option.split)

section \<open>Canonical drive paths\<close>

lemma byte_val_byte_of: "n < 256 \<Longrightarrow> byte_val (byte_of n) = n"
  by (simp add: byte_val_def byte_of_def)

lemma byte_val_inj: "byte_val a = byte_val b \<Longrightarrow> a = b"
  by (metis byte_of_val)

lemma ascii_upper_letter:
  assumes "ascii_alpha c"
  obtains x where "ascii_upper [c] = [x]" "ascii_alpha x" "ascii_upper [x] = [x]"
proof -
  define x where "x = (if 97 \<le> byte_val c \<and> byte_val c \<le> 122 then byte_of (byte_val c - 32) else c)"
  have "65 \<le> byte_val x \<and> byte_val x \<le> 90"
    using assms by (auto simp: x_def ascii_alpha_def byte_val_byte_of)
  then show ?thesis by (intro that [of x]) (auto simp: ascii_upper_def x_def ascii_alpha_def)
qed

lemma letter_chars:
  "ascii_alpha c \<Longrightarrow> c \<noteq> backslash \<and> c \<noteq> CHR ''/'' \<and> c \<noteq> CHR '':'' \<and> (\<forall>w \<in> set py_whitespace. hd w \<noteq> c)"
  by (auto simp: ascii_alpha_def backslash_def byte_val_def py_whitespace_def)

definition plain_part :: "string \<Rightarrow> bool" where
  "plain_part c \<longleftrightarrow> c \<noteq> [] \<and> c \<noteq> ''.'' \<and> c \<noteq> ''..'' \<and> backslash \<notin> set c \<and> CHR ''/'' \<notin> set c"

definition drive_path :: "char \<Rightarrow> string list \<Rightarrow> string" where
  "drive_path x cs = x # CHR '':'' # backslash # join [backslash] cs"

lemma after_first_drive: "after_first (c # CHR '':'' # t) = CHR '':'' # t"
  by (simp add: after_first_def byte_val_def)

lemma splitroot_drive:
  assumes "c \<noteq> backslash" "CHR ''/'' \<notin> set (c # CHR '':'' # t)"
  shows "splitroot (c # CHR '':'' # t) =
    ([c, CHR '':''], if take 1 t = [backslash] then [backslash] else [], if take 1 t = [backslash] then drop 1 t else t)"
proof -
  have "replace_char (CHR ''/'') backslash (c # CHR '':'' # t) = c # CHR '':'' # t" by (rule replace_char_other [OF assms(2)])
  then show ?thesis using assms(1)
    by (cases t) (auto simp: splitroot_def Let_def after_first_drive Suc_diff_le)
qed

lemma canonical_drive:
  assumes "canonical_windows_path be s = Inr p" "py_strip s = c # CHR '':'' # t"
  obtains x cs where "ascii_upper [c] = [x]" "ascii_alpha x" "ascii_upper [x] = [x]" "p = drive_path x cs"
    "\<forall>c \<in> set cs. plain_part c"
proof -
  define t' where "t' = replace_char (CHR ''/'') backslash t"
  define c' where "c' = (if c = CHR ''/'' then backslash else c)"
  have raw: "replace_char (CHR ''/'') backslash (py_strip s) = c' # CHR '':'' # t'"
    by (simp add: assms(2) replace_char_def t'_def c'_def)
  have slash: "CHR ''/'' \<notin> set (c' # CHR '':'' # t')"
    using replace_char_char [of "CHR ''/''" backslash "py_strip s"] by (simp add: raw [symmetric] backslash_def)
  have c': "c' \<noteq> backslash"
  proof
    assume "c' = backslash"
    then have "splitroot (c' # CHR '':'' # t') = ([], [backslash], CHR '':'' # t')"
      using replace_char_other [OF slash] by (simp add: splitroot_def Let_def backslash_def)
    then show False using assms(1) unfolding canonical_windows_path_def raw
      by (simp add: Let_def after_first_def split: if_splits)
  qed
  then have c: "c' = c" by (simp add: c'_def split: if_splits)
  have t: "\<exists>u. t' = backslash # u"
    using assms(1) unfolding canonical_windows_path_def raw Let_def splitroot_drive [OF c' slash]
    by (cases t') (auto split: if_splits)
  then obtain u where u: "t' = backslash # u" ..
  have alpha: "ascii_alpha c"
    and p: "p = nt_normpath (ascii_upper [c] @ CHR '':'' # backslash # u)"
    using assms(1) unfolding canonical_windows_path_def raw Let_def splitroot_drive [OF c' slash]
    by (auto simp: u c after_first_def byte_val_def first_point_def is_alpha_def to_upper_def split: if_splits)
  obtain x where x: "ascii_upper [c] = [x]" "ascii_alpha x" "ascii_upper [x] = [x]" using ascii_upper_letter [OF alpha] .
  let ?cs = "collapse True (split_char backslash u)"
  have s2: "CHR ''/'' \<notin> set (x # CHR '':'' # backslash # u)" using slash letter_chars [OF x(2)] by (auto simp: u backslash_def)
  have "p = drive_path x ?cs"
    unfolding p x(1) nt_normpath_def Let_def append_Cons append_Nil replace_char_other [OF s2]
    using splitroot_drive [OF _ s2] letter_chars [OF x(2)] by (simp add: drive_path_def)
  moreover have "plain_part e" if "e \<in> set ?cs" for e
    using collapse_kept [OF that] collapse_rooted [OF that] split_char_no [of e backslash u] s2 by (auto simp: plain_part_def)
  ultimately show ?thesis using that x by blast
qed

text \<open>Stripping a drive path leaves its root.\<close>

lemma whitespace_no_backslash: "w \<in> set py_whitespace \<Longrightarrow> backslash \<notin> set w"
  by (auto simp: py_whitespace_def backslash_def)

lemma rstrip_keeps: "\<exists>b'. rstrip (a @ backslash # b) = a @ backslash # b'"
proof (induction "length b" arbitrary: b rule: less_induct)
  case less
  show ?case
  proof (cases "find (\<lambda>w. suffix w (a @ backslash # b)) py_whitespace")
    case None
    then show ?thesis by (auto simp: rstrip.simps [of "a @ backslash # b"])
  next
    case (Some w)
    then have w: "w \<in> set py_whitespace" "suffix w (a @ backslash # b)" by (auto simp: find_Some_iff)
    have "suffix w b"
    proof (rule ccontr)
      assume "\<not> suffix w b"
      then have "backslash \<in> set w" using w(2) by (auto simp: suffix_append suffix_Cons)
      then show False using whitespace_no_backslash [OF w(1)] by simp
    qed
    then obtain v where v: "b = v @ w" by (auto simp: suffix_def)
    have cut: "take (length (a @ backslash # b) - length w) (a @ backslash # b) = a @ backslash # v"
      using append_eq_conv_conj [of "a @ backslash # v" w "a @ backslash # b"] by (simp add: v)
    have "length v < length b" using v py_whitespace_nonempty [OF w(1)] by simp
    from less.hyps [OF this] show ?thesis using Some cut rstrip.simps [of "a @ backslash # b"] by (simp add: v)
  qed
qed

lemma strip_drive_path:
  assumes "ascii_alpha x"
  obtains t where "py_strip (drive_path x cs) = x # CHR '':'' # t"
proof -
  have "\<not> prefix w (x # u)" if "w \<in> set py_whitespace" for w u
    using letter_chars [OF assms] that py_whitespace_nonempty [OF that] by (cases w) auto
  then have "lstrip (x # u) = x # u" for u by (simp add: lstrip.simps [of "x # u"] find_None_iff [THEN iffD2])
  moreover obtain b where "rstrip ([x, CHR '':''] @ backslash # join [backslash] cs) = [x, CHR '':''] @ backslash # b"
    using rstrip_keeps by blast
  ultimately show ?thesis using that by (simp add: py_strip_def drive_path_def)
qed

section \<open>Reads stay below the configured roots\<close>

text \<open>
  What the theorem needs of the case folding: it folds code point by code point, so it keeps the separators and the
  ASCII letters, and no component folds to an empty or a dotted one.
\<close>

definition keeps_separators :: "(string \<Rightarrow> string) \<Rightarrow> bool" where
  "keeps_separators f \<longleftrightarrow> (\<forall>a b. \<forall>c \<in> {backslash, CHR '':''}. f (a @ c # b) = f a @ c # f b) \<and> f [] = []
     \<and> (\<forall>c. plain_part c \<longrightarrow> plain_part (f c)) \<and> (\<forall>x. ascii_alpha x \<longrightarrow> (\<exists>y. f [x] = [y] \<and> ascii_alpha y))"

text \<open>\<open>q\<close> is a drive, a root and named components, and \<open>r\<close> is, up to case, the path of the first of them.\<close>

definition lies_under :: "bridge_env \<Rightarrow> string \<Rightarrow> string \<Rightarrow> bool" where
  "lies_under be q r \<longleftrightarrow> (\<exists>x cs n. q = drive_path x cs \<and> (\<forall>c \<in> set cs. plain_part c)
     \<and> str_casefold (be_py be) r = str_casefold (be_py be) (drive_path x (take n cs)))"

lemma fold_join:
  assumes "keeps_separators f"
  shows "f (join [backslash] cs) = join [backslash] (map f cs)"
proof (induction "[backslash]" cs rule: join.induct)
  case 1
  then show ?case using assms by (simp add: keeps_separators_def)
next
  case (3 a b cs)
  have "f (a @ backslash # join [backslash] (b # cs)) = f a @ backslash # f (join [backslash] (b # cs))"
    using assms by (simp add: keeps_separators_def)
  then show ?case using 3 by simp
qed simp

lemma fold_drive:
  assumes "keeps_separators f" "ascii_alpha x"
  obtains y where "ascii_alpha y" "\<And>cs. f (drive_path x cs) = drive_path y (map f cs)"
proof -
  note f = assms(1) [unfolded keeps_separators_def]
  obtain y where y: "f [x] = [y]" "ascii_alpha y" using f assms(2) by blast
  have "f ([x] @ CHR '':'' # b) = [y] @ CHR '':'' # f b" "f ([] @ backslash # b) = [] @ backslash # f b" for b
    using f y(1) by (metis insertI1 insertI2)+
  then show ?thesis by (intro that [of y]) (use y(2) fold_join [OF assms(1)] in \<open>auto simp: drive_path_def\<close>)
qed

lemma split_drive_path:
  assumes "ascii_alpha y" "\<forall>c \<in> set cs. plain_part c"
  shows "replace_char (CHR ''/'') backslash (drive_path y cs) = drive_path y cs"
    "splitroot (drive_path y cs) = ([y, CHR '':''], [backslash], join [backslash] cs)"
    "named_parts (join [backslash] cs) = cs"
proof -
  have "CHR ''/'' \<notin> set (join [backslash] cs)"
    using assms(2) by (induction "[backslash]" cs rule: join.induct) (auto simp: plain_part_def backslash_def)
  then have slash: "CHR ''/'' \<notin> set (y # CHR '':'' # backslash # join [backslash] cs)"
    using letter_chars [OF assms(1)] by (auto simp: backslash_def)
  then show "replace_char (CHR ''/'') backslash (drive_path y cs) = drive_path y cs"
    unfolding drive_path_def by (rule replace_char_other)
  show "splitroot (drive_path y cs) = ([y, CHR '':''], [backslash], join [backslash] cs)"
    using splitroot_drive [OF _ slash] letter_chars [OF assms(1)] by (simp add: drive_path_def)
  show "named_parts (join [backslash] cs) = cs"
  proof (cases "cs = []")
    case False
    then show ?thesis using split_char_join [of cs backslash] assms(2)
      by (auto simp: named_parts_def plain_part_def intro!: filter_True)
  qed (simp add: named_parts_def)
qed

lemma within_root_under:
  assumes "keeps_separators (str_casefold (be_py be))" "canonical_windows_path be p = Inr q" "q = drive_path x cs" "ascii_alpha x"
    and "\<forall>c \<in> set cs. plain_part c" "within_root be p base = Inr True"
  obtains r where "canonical_windows_path be base = Inr r" "lies_under be q r"
proof -
  let ?f = "str_casefold (be_py be)"
  obtain r where r: "canonical_windows_path be base = Inr r" "nt_commonpath (be_py be) (?f q) (?f r) = Some (?f r)"
    using assms(2,6) by (auto simp: within_root_def rbind_Inr Let_def split: option.splits)
  obtain y where y: "ascii_alpha y" "\<And>cs. ?f (drive_path x cs) = drive_path y (map ?f cs)"
    using fold_drive [OF assms(1,4)] by blast
  have plain: "\<forall>c \<in> set (map ?f cs). plain_part c" using assms(1,5) by (auto simp: keeps_separators_def)
  have q: "?f q = drive_path y (map ?f cs)" using y(2) assms(3) by simp
  obtain d1 r1 p1 d2 r2 p2 where lower: "splitroot (str_lower (be_py be) (?f q)) = (d1, r1, p1)"
      "splitroot (str_lower (be_py be) (replace_char (CHR ''/'') backslash (?f r))) = (d2, r2, p2)"
    by (metis prod_cases3)
  have n: "[y, CHR '':''] @ [backslash] @ join [backslash]
      (take (common_length (named_parts p1) (named_parts p2)) (named_parts (join [backslash] (map ?f cs)))) = ?f r"
    using r(2) lower unfolding q nt_commonpath_def Let_def split_drive_path [OF y(1) plain]
    by (auto simp: split_drive_path(3) [OF y(1) plain] split: if_splits)
  define n where "n = common_length (named_parts p1) (named_parts p2)"
  have "?f r = drive_path y (take n (map ?f cs))"
    using n [symmetric] by (simp add: split_drive_path(3) [OF y(1) plain] drive_path_def n_def)
  then have "?f r = ?f (drive_path x (take n cs))" using y(2) by (simp add: take_map)
  then show ?thesis using that r(1) assms(3,5) by (auto simp: lies_under_def)
qed

lemma within_any_root_True: "within_any_root be p rs = Inr True \<Longrightarrow> \<exists>r \<in> set rs. within_root be p r = Inr True"
  by (induction rs) (auto simp: rbind_Inr split: if_splits)

lemma bridge_authorize_under:
  assumes "keeps_separators (str_casefold (be_py be))" "py_strip path = c # CHR '':'' # t"
    and "bridge_authorize be cfg lid tok path now reg = (Inr p, reg1)"
  obtains q base r l where "canonical_windows_path be path = Inr p" "canonical_windows_path be p = Inr q"
    "base \<in> set (bc_read_roots cfg)" "canonical_windows_path be base = Inr r" "lies_under be q r"
    "fst (authorize (be_py be) lid tok ''fs.read'' (Some (''fs:'' @ replace_char backslash (CHR ''/'') q)) (Some READ) now reg) = Inr l"
proof -
  obtain key l where p: "canonical_windows_path be path = Inr p" "within_any_root be p (bc_read_roots cfg) = Inr True"
    and k: "bridge_key be p = Inr key" "fst (authorize (be_py be) lid tok ''fs.read'' (Some key) (Some READ) now reg) = Inr l"
    using assms(3) by (auto simp: bridge_authorize_def rbind_Inr split: sum.splits prod.splits if_splits)
  obtain q where q: "canonical_windows_path be p = Inr q" "key = ''fs:'' @ replace_char backslash (CHR ''/'') q"
    using k(1) by (cases "canonical_windows_path be p") (auto simp: bridge_key_def)
  obtain x cs where x: "ascii_alpha x" "p = drive_path x cs" using canonical_drive [OF p(1) assms(2)] by blast
  obtain u where "py_strip p = x # CHR '':'' # u" using strip_drive_path [OF x(1)] x(2) by blast
  then obtain x' cs' where x': "ascii_alpha x'" "q = drive_path x' cs'" "\<forall>c \<in> set cs'. plain_part c"
    using canonical_drive [OF q(1)] by metis
  obtain base where base: "base \<in> set (bc_read_roots cfg)" "within_root be p base = Inr True"
    using within_any_root_True [OF p(2)] by blast
  obtain r where "canonical_windows_path be base = Inr r" "lies_under be q r"
    using within_root_under [OF assms(1) q(1) x'(2,1,3) base(2)] by blast
  then show ?thesis using that p(1) q base(1) k(2) by blast
qed

text \<open>
  The one question the backend can ask the service: about the canonical path, below a configured root, with the lane's
  authority to read it, under the bearer token of the configuration.
\<close>

definition asked ::
  "bridge_env \<Rightarrow> bridge_config \<Rightarrow> string \<Rightarrow> int \<Rightarrow> string \<Rightarrow> pyfloat \<Rightarrow> registry \<Rightarrow> string \<Rightarrow> service \<Rightarrow> service \<Rightarrow> bool" where
  "asked be cfg lid tok path now reg toolname svc svc' \<longleftrightarrow>
     (\<exists>p q base r l token. canonical_windows_path be path = Inr p \<and> canonical_windows_path be p = Inr q
        \<and> base \<in> set (bc_read_roots cfg) \<and> canonical_windows_path be base = Inr r \<and> lies_under be q r
        \<and> fst (authorize (be_py be) lid tok ''fs.read'' (Some (''fs:'' @ replace_char backslash (CHR ''/'') q)) (Some READ) now reg) = Inr l
        \<and> bridge_token be cfg = Inr token \<and> svc now token toolname [(''path'', JStr p)] \<noteq> svc' now token toolname [(''path'', JStr p)])"

lemma bridge_call_asked:
  assumes "keeps_separators (str_casefold (be_py be))" "py_strip path = c # CHR '':'' # t"
    and "bridge_call be cfg svc toolname lid tok path now reg k \<noteq> bridge_call be cfg svc' toolname lid tok path now reg k"
  shows "asked be cfg lid tok path now reg toolname svc svc'"
proof -
  obtain a reg1 where au: "bridge_authorize be cfg lid tok path now reg = (a, reg1)" by fastforce
  then obtain p where p: "a = Inr p" using assms(3) by (cases a) (simp_all add: bridge_call_def)
  have "call_mcp be cfg svc now toolname [(''path'', JStr p)] \<noteq> call_mcp be cfg svc' now toolname [(''path'', JStr p)]"
    using assms(3) au p by (auto simp: bridge_call_def)
  then obtain token where "bridge_token be cfg = Inr token"
      "svc now token toolname [(''path'', JStr p)] \<noteq> svc' now token toolname [(''path'', JStr p)]"
    by (cases "bridge_token be cfg") (simp_all add: call_mcp_def, metis)
  note token = this
  show ?thesis
    by (rule bridge_authorize_under [OF assms(1,2) au [unfolded p]]) (unfold asked_def, use token in blast)
qed


text \<open>A configuration that loads names a loopback endpoint with a port and a path of its own, and canonical roots.\<close>

lemma bridge_validate_ok:
  assumes "bridge_validate be cfg = Inr ()"
  shows "\<exists>u port. url_split be (bc_endpoint cfg) = Inr u \<and> su_scheme u = ''http'' \<and> ip_loopback be (host_name u) = Some True
    \<and> url_port u = Inr (Some port) \<and> port \<le> 65535 \<and> prefix ''/'' (su_path u) \<and> su_path u \<noteq> ''/'' \<and> su_query u = []"
proof -
  obtain u where u: "url_split be (bc_endpoint cfg) = Inr u" using assms by (auto simp: bridge_validate_def rbind_Inr)
  then have v: "su_scheme u = ''http''" "ip_loopback be (host_name u) = Some True" "\<exists>port. url_port u = Inr (Some port)"
    "prefix ''/'' (su_path u)" "su_path u \<noteq> ''/''" "su_query u = []"
    using assms by (auto simp: bridge_validate_def split: if_splits option.splits sum.splits)
  moreover have "port \<le> 65535" if "url_port u = Inr (Some port)" for port
    using that by (auto simp: url_port_def Let_def split: if_splits)
  ultimately show ?thesis using u by blast
qed

lemma bridge_load_ok: "bridge_load be path = Inr cfg \<Longrightarrow> bridge_validate be cfg = Inr ()"
  by (auto simp: bridge_load_def rbind_Inr)

section \<open>A concrete backend\<close>

definition demo_be :: bridge_env where
  "demo_be = \<lparr>netloc_ok = (\<lambda>_. True), ipv6_loopback = (\<lambda>_. None), be_py = posix_env, alpha_point = (\<lambda>_. False), upper_point = id,
     path_text = id, file_there = (\<lambda>_. True), file_text = (\<lambda>_. Inr (replicate 32 (CHR ''k'')))\<rparr>"

definition demo_bridge :: bridge_config where
  "demo_bridge = \<lparr>bc_endpoint = ''http://127.0.0.1:80/m'', bc_token_file = ''/t'', bc_read_roots = [drive_path (CHR ''C'') [''w'']],
     bc_timeout_s = Fin 10\<rparr>"

definition bridge_lane :: lane where
  "bridge_lane = \<lparr>lane_id = ''s::a'', task_id = ''t'', capabilities = {''fs.read''}, claims = [ResourceClaim ''fs:C:/w'' READ],
     fencing_token = 1, expires_at = Fin 100\<rparr>"

definition bridge_registry :: registry where
  "bridge_registry = \<lparr>session_capabilities = {''fs.read''}, max_lanes = 2, lanes = [(''s::a'', bridge_lane)], last_fence = 1\<rparr>"

definition says :: "string \<Rightarrow> service" where
  "says t = (\<lambda>_ _ _ _. Inr (False, Some (JObj [(''text'', JStr t)])))"

lemma id_keeps_separators: "keeps_separators (str_casefold (be_py demo_be))"
  by (simp add: keeps_separators_def demo_be_def posix_env_def)

lemma demo_canonical: "canonical_windows_path demo_be ''c:/w/x'' = Inr (drive_path (CHR ''C'') [''w'', ''x''])"
    "canonical_windows_path demo_be (drive_path (CHR ''C'') [''w'', ''x'']) = Inr (drive_path (CHR ''C'') [''w'', ''x''])"
    "canonical_windows_path demo_be (drive_path (CHR ''C'') [''w'']) = Inr (drive_path (CHR ''C'') [''w''])"
  by code_simp+

lemma demo_be_py: "be_py demo_be = posix_env" "str_casefold posix_env s = s"
  by (simp_all add: demo_be_def posix_env_def)

lemma bridge_strip: "py_strip ''c:/w/x'' = ''c:/w/x''"
  by code_simp

lemma demo_bridge_token: "bridge_token demo_be demo_bridge = Inr (replicate 32 (CHR ''k''))"
  by code_simp

lemma demo_bridge_inside: "within_any_root demo_be (drive_path (CHR ''C'') [''w'', ''x'']) (bc_read_roots demo_bridge) = Inr True"
  by code_simp

lemma demo_bridge_key: "bridge_key demo_be (drive_path (CHR ''C'') [''w'', ''x'']) = Inr ''fs:C:/w/x''"
  by code_simp

lemma demo_bridge_lane:
  "authorize posix_env ''s::a'' 1 ''fs.read'' (Some ''fs:C:/w/x'') (Some READ) (Fin 20) bridge_registry = (Inr bridge_lane, bridge_registry)"
proof -
  have "claim_covers posix_env (ResourceClaim ''fs:C:/w'' READ) ''fs:C:/w/x'' READ = Inr True" by code_simp
  then show ?thesis
    by (simp add: authorize_def require_lane_locked_def bridge_registry_def bridge_lane_def expired_def)
qed

lemma demo_bridge_read:
  "bridge_read_text demo_be demo_bridge (says t) ''s::a'' 1 ''c:/w/x'' ''utf-8'' (Fin 20) bridge_registry = (Inr t, bridge_registry)"
  using demo_bridge_lane
  by (simp add: bridge_read_text_def bridge_call_def bridge_authorize_def demo_canonical demo_bridge_inside demo_bridge_key
      call_mcp_def demo_bridge_token says_def demo_be_py)


end
