(* ===== verification/Agent_Host.thy ===== *)
theory Agent_Host
  imports Session_Runtime WorkBridge
begin

text \<open>
  \<^verbatim>\<open>service_config.py\<close>, \<^verbatim>\<open>identity_store.py\<close>, \<^verbatim>\<open>lappy_host.py\<close> and \<^verbatim>\<open>stdio.py\<close>: how the workstation reads its configuration and its
  trust store, builds the registry, the executor, the agent and the authenticator from them, and serves requests.
\<close>

section \<open>What the platform provides\<close>

text \<open>
  \<open>read_private\<close> and \<open>read_public\<close> parse a PEM text into an elliptic curve key, \<^const>\<open>None\<close> where the cryptography package
  raises or gives a key of another kind. \<open>db_rows\<close> is what opening the SQLite file finds in it, \<open>server_context\<close> the
  loading of the TLS certificate, \<open>listen\<close> the start of the listener.
\<close>

record ('sk, 'pk) host_env = url_env +
  he_py :: pyenv
  he_os :: osenv
  he_pe :: procenv
  he_crypto :: "('sk, 'pk) crypto"
  read_private :: "string \<Rightarrow> 'sk option"
  read_public :: "string \<Rightarrow> 'pk option"
  db_rows :: "rpath \<Rightarrow> (int option \<times> (string \<times> request_row) list) result"
  server_context :: "rpath \<Rightarrow> rpath \<Rightarrow> unit result"
  listen :: "string \<Rightarrow> int \<Rightarrow> unit result"
  he_bridge :: bridge_env
  he_service :: service
  he_class :: "py_error \<Rightarrow> string"
  he_text :: "exn \<Rightarrow> string"

section \<open>Configuration of the service\<close>

record service_config =
  wc_bind_host :: string
  wc_bind_port :: int
  wc_allowed_roots :: "rpath list"
  wc_state_db :: rpath
  wc_tls_cert :: rpath
  wc_tls_key :: rpath
  wc_workstation_key :: rpath
  wc_controller_trust :: rpath
  wc_allow_process_exec :: bool
  wc_allow_non_loopback :: bool
  wc_max_lanes :: int
  wc_max_inflight :: int
  wc_max_read_bytes :: int
  wc_workbridge_config :: "rpath option"

abbreviation service_error :: exn where
  "service_error \<equiv> Config ServiceConfigError"

text \<open>\<^verbatim>\<open>bool(v)\<close> of a JSON value.\<close>

fun truthy :: "json \<Rightarrow> bool" where
  "truthy JNull = False"
| "truthy (JBool b) = b"
| "truthy (JInt i) = (i \<noteq> 0)"
| "truthy (JFloat f) = (f \<noteq> Fin 0)"
| "truthy (JStr s) = (s \<noteq> [])"
| "truthy (JList vs) = (vs \<noteq> [])"
| "truthy (JObj kvs) = (kvs \<noteq> [])"

definition REQUIRED_FIELDS :: "string list" where
  "REQUIRED_FIELDS = [''bind_host'', ''bind_port'', ''allowed_roots'', ''state_db'', ''tls_cert'', ''tls_key'', ''workstation_key'',
     ''controller_trust'']"

text \<open>What \<^verbatim>\<open>==\<close> on paths compares: on Windows the case does not count.\<close>

definition path_identity :: "pyenv \<Rightarrow> rpath \<Rightarrow> string \<times> string list" where
  "path_identity env p = (norm_part env (anchor p), map (norm_part env) (parts p))"

definition service_validate :: "('sk, 'pk) host_env \<Rightarrow> service_config \<Rightarrow> unit result" where
  "service_validate he c =
     (case ip_loopback he (wc_bind_host c) of
        None \<Rightarrow> Inl service_error
      | Some loopback \<Rightarrow>
          if \<not> wc_allow_non_loopback c \<and> \<not> loopback then Inl service_error
          else if \<not> (1 \<le> wc_bind_port c \<and> wc_bind_port c \<le> 65535) then Inl service_error
          else if wc_max_lanes c < 1 \<or> wc_max_lanes c > 1024 then Inl service_error
          else if wc_max_inflight c < 1 \<or> wc_max_inflight c > 4096 then Inl service_error
          else if wc_max_read_bytes c < 1 \<or> wc_max_read_bytes c > 16777216 then Inl service_error
          else if \<not> distinct (map (path_identity (he_py he)) (wc_allowed_roots c)) then Inl service_error
          else Inr ())"

fun resolve_each :: "('sk, 'pk) host_env \<Rightarrow> fs \<Rightarrow> json list \<Rightarrow> rpath list result" where
  "resolve_each he f [] = Inr []"
| "resolve_each he f (v # vs) =
     rbind (resolve (he_os he) f (py_str (he_py he) v)) (\<lambda>p. rbind (resolve_each he f vs) (\<lambda>ps. Inr (p # ps)))"

definition path_field :: "('sk, 'pk) host_env \<Rightarrow> fs \<Rightarrow> dict \<Rightarrow> string \<Rightarrow> rpath result" where
  "path_field he f d k = resolve (he_os he) f (py_str (he_py he) (dict_get d k JNull))"

definition flag :: "dict \<Rightarrow> string \<Rightarrow> bool" where
  "flag d k \<longleftrightarrow> dict_get d k (JBool False) = JBool True"

definition service_config_of :: "('sk, 'pk) host_env \<Rightarrow> fs \<Rightarrow> json \<Rightarrow> service_config result" where
  "service_config_of he f v =
     (case v of
        JObj d \<Rightarrow>
          if list_ex (\<lambda>k. map_of d k = None) REQUIRED_FIELDS then Inl service_error
          else (case map_of d ''allowed_roots'' of
             Some (JList (r # rs)) \<Rightarrow>
               let env = he_py he in
               rbind (py_int env (dict_get d ''bind_port'' JNull)) (\<lambda>port.
               rbind (resolve_each he f (r # rs)) (\<lambda>roots.
               rbind (path_field he f d ''state_db'') (\<lambda>db.
               rbind (path_field he f d ''tls_cert'') (\<lambda>cert.
               rbind (path_field he f d ''tls_key'') (\<lambda>key.
               rbind (path_field he f d ''workstation_key'') (\<lambda>wkey.
               rbind (path_field he f d ''controller_trust'') (\<lambda>trust.
               rbind (py_int env (dict_get d ''max_lanes'' (JInt 32))) (\<lambda>ml.
               rbind (py_int env (dict_get d ''max_inflight'' (JInt 64))) (\<lambda>mi.
               rbind (py_int env (dict_get d ''max_read_bytes'' (JInt 1048576))) (\<lambda>mr.
               rbind (if truthy (dict_get d ''workbridge_config'' JNull)
                      then map_sum id Some (path_field he f d ''workbridge_config'') else Inr None) (\<lambda>wb.
                 let c = \<lparr>wc_bind_host = py_str env (dict_get d ''bind_host'' JNull), wc_bind_port = port, wc_allowed_roots = roots,
                          wc_state_db = db, wc_tls_cert = cert, wc_tls_key = key, wc_workstation_key = wkey,
                          wc_controller_trust = trust, wc_allow_process_exec = flag d ''allow_process_exec'',
                          wc_allow_non_loopback = flag d ''allow_non_loopback_listener'', wc_max_lanes = ml,
                          wc_max_inflight = mi, wc_max_read_bytes = mr, wc_workbridge_config = wb\<rparr>
                 in map_sum id (\<lambda>_. c) (service_validate he c))))))))))))
           | _ \<Rightarrow> Inl service_error)
      | _ \<Rightarrow> Inl service_error)"

text \<open>The bytes of a file, as \<^verbatim>\<open>read_bytes\<close> gives them, and its text in UTF-8.\<close>

definition file_bytes :: "fs \<Rightarrow> rpath \<Rightarrow> string result" where
  "file_bytes f p = map_sum id ndata (open_rb f p)"

definition file_utf8 :: "('sk, 'pk) host_env \<Rightarrow> fs \<Rightarrow> rpath \<Rightarrow> string result" where
  "file_utf8 he f p = rbind (file_bytes f p) (codec_decode (he_os he) ''utf-8'')"

definition service_config_load :: "('sk, 'pk) host_env \<Rightarrow> fs \<Rightarrow> rpath \<Rightarrow> service_config result" where
  "service_config_load he f p =
     (case rbind (file_utf8 he f p) (json_loads (he_py he)) of
        Inl _ \<Rightarrow> Inl service_error
      | Inr v \<Rightarrow> service_config_of he f v)"

definition is_file :: "fs \<Rightarrow> rpath \<Rightarrow> bool" where
  "is_file f p \<longleftrightarrow> fs_kind f p = Some KFile"

definition service_runtime_files :: "('sk, 'pk) host_env \<Rightarrow> service_config \<Rightarrow> fs \<Rightarrow> unit result \<times> fs" where
  "service_runtime_files he c f =
     (if \<not> list_all (is_file f) [wc_tls_cert c, wc_tls_key c, wc_workstation_key c, wc_controller_trust c]
      then (Inl service_error, f)
      else (case py_mkdir (he_os he) True f (parent (wc_state_db c)) of
         (Inl x, f1) \<Rightarrow> (Inl x, f1)
       | (Inr _, f1) \<Rightarrow>
           if \<not> list_all (is_dir f1) (wc_allowed_roots c) then (Inl service_error, f1)
           else (case wc_workbridge_config c of
              Some p \<Rightarrow> if is_file f1 p then (Inr (), f1) else (Inl service_error, f1)
            | None \<Rightarrow> (Inr (), f1))))"

section \<open>The trust store\<close>

record ('sk, 'pk) identity =
  id_private :: 'sk
  id_controllers :: "(string \<times> 'pk) list"
  id_policy :: "(string \<times> string set) list"

abbreviation identity_error :: exn where
  "identity_error \<equiv> Config IdentityStoreError"

definition load_public_pem :: "('sk, 'pk) host_env \<Rightarrow> string \<Rightarrow> 'pk result" where
  "load_public_pem he s =
     (if \<exists>c \<in> set s. 128 \<le> byte_val c then Inl identity_error
      else (case read_public he s of
         None \<Rightarrow> Inl identity_error
       | Some pk \<Rightarrow> if p256_public (he_crypto he) pk then Inr pk else Inl identity_error))"

fun load_trust ::
  "('sk, 'pk) host_env \<Rightarrow> json list \<Rightarrow> (string \<times> 'pk) list \<times> (string \<times> string set) list
   \<Rightarrow> ((string \<times> 'pk) list \<times> (string \<times> string set) list) result" where
  "load_trust he [] acc = Inr acc"
| "load_trust he (v # vs) (allowed, pol) =
     (case v of
        JObj d \<Rightarrow>
          rbind (load_public_pem he (py_str (he_py he) (dict_get d ''public_key_pem'' (JStr [])))) (\<lambda>pk.
          rbind (principal_id (he_crypto he) pk ''controller'') (\<lambda>derived.
          if map_of d ''principal'' \<noteq> Some (JStr derived) then Inl identity_error
          else rbind (key_id (he_crypto he) pk) (\<lambda>kid.
          if map_of d ''key_id'' \<noteq> Some (JStr kid) then Inl identity_error
          else (case map_of d ''capabilities'' of
             Some (JList cs) \<Rightarrow>
               if map_of allowed derived \<noteq> None then Inl identity_error
               else load_trust he vs (AList.update derived pk allowed,
                      AList.update derived (set (map (py_str (he_py he)) cs)) pol)
           | _ \<Rightarrow> Inl identity_error))))
      | _ \<Rightarrow> Inl identity_error)"

definition load_identity :: "('sk, 'pk) host_env \<Rightarrow> fs \<Rightarrow> rpath \<Rightarrow> rpath \<Rightarrow> ('sk, 'pk) identity result" where
  "load_identity he f key_path trust_path =
     (case file_bytes f key_path of
        Inl _ \<Rightarrow> Inl identity_error
      | Inr pem \<Rightarrow>
     (case read_private he pem of
        None \<Rightarrow> Inl identity_error
      | Some sk \<Rightarrow>
          if \<not> p256_private (he_crypto he) sk then Inl identity_error
          else (case rbind (file_utf8 he f trust_path) (json_loads (he_py he)) of
             Inr (JObj d) \<Rightarrow>
               if map_of d ''schema'' \<noteq> Some (JStr ''VERAPORT_CONTROLLER_TRUST_V1'') then Inl identity_error
               else (case map_of d ''controllers'' of
                  Some (JList (v # vs)) \<Rightarrow>
                    map_sum id (\<lambda>(allowed, pol). \<lparr>id_private = sk, id_controllers = allowed, id_policy = pol\<rparr>)
                      (load_trust he (v # vs) ([], []))
                | _ \<Rightarrow> Inl identity_error)
           | _ \<Rightarrow> Inl identity_error)))"

section \<open>Preparation of the host\<close>

record ('sk, 'pk) prepared_host =
  ph_config :: service_config
  ph_host :: host
  ph_agent :: agent
  ph_authenticator :: "('sk, 'pk) authenticator"

definition open_store :: "('sk, 'pk) host_env \<Rightarrow> rpath \<Rightarrow> state_store result" where
  "open_store he p =
     rbind (AgentStateStore 100000 None) (\<lambda>st. rbind (db_rows he p) (\<lambda>(fence, rows).
       Inr (st\<lparr>fence_counter := fence, requests := rows\<rparr>)))"

definition host_capabilities :: "bool \<Rightarrow> string set" where
  "host_capabilities exec =
     {''fs.read'', ''fs.write''} \<union>
     (if exec then {''process.exec'', ''process.inspect'', ''process.interact'', ''process.control''} else {})"

definition host_of :: "('sk, 'pk) host_env \<Rightarrow> executor \<Rightarrow> workbridge option \<Rightarrow> host" where
  "host_of he ex wb =
     \<lparr>h_env = he_py he, h_os = he_os he, h_pe = he_pe he, h_ex = ex, h_wb = wb, h_class = he_class he, h_text = he_text he\<rparr>"

definition load_bridge :: "('sk, 'pk) host_env \<Rightarrow> service_config \<Rightarrow> workbridge option result" where
  "load_bridge he c =
     (case wc_workbridge_config c of
        None \<Rightarrow> Inr None
      | Some p \<Rightarrow> map_sum id (\<lambda>bc. Some (WorkBridgeLocalBackend (he_bridge he) bc (he_service he))) (bridge_load (he_bridge he) (as_posix p)))"

text \<open>The part that a raise leaves through the clause that closes the store.\<close>

definition assemble :: "('sk, 'pk) host_env \<Rightarrow> service_config \<Rightarrow> ('sk, 'pk) identity \<Rightarrow> state_store \<Rightarrow> fs \<Rightarrow> ('sk, 'pk) prepared_host result" where
  "assemble he c ident st f =
     rbind (LaneRegistry (host_capabilities (wc_allow_process_exec c)) (wc_max_lanes c)) (\<lambda>reg.
     rbind (LocalExecutor (he_os he) f (map as_posix (wc_allowed_roots c)) 1048576 (wc_max_read_bytes c) None (wc_allow_process_exec c)) (\<lambda>ex.
     rbind (load_bridge he c) (\<lambda>wb.
     rbind (WorkstationAuthenticator (he_crypto he) (id_private ident) (id_controllers ident) (id_policy ident)) (\<lambda>au.
     rbind (server_context he (wc_tls_cert c) (wc_tls_key c)) (\<lambda>_.
       Inr \<lparr>ph_config = c, ph_host = host_of he ex wb,
            ph_agent = \<lparr>a_registry = reg, a_store = Some st, a_fs = f, a_procs = []\<rparr>, ph_authenticator = au\<rparr>)))))"

text \<open>The result, whether a connection to the database stays open, and the files.\<close>

definition prepare_host :: "('sk, 'pk) host_env \<Rightarrow> service_config \<Rightarrow> fs \<Rightarrow> ('sk, 'pk) prepared_host result \<times> bool \<times> fs" where
  "prepare_host he c f =
     (case service_validate he c of
        Inl x \<Rightarrow> (Inl x, False, f)
      | Inr _ \<Rightarrow>
     (case service_runtime_files he c f of
        (Inl x, f1) \<Rightarrow> (Inl x, False, f1)
      | (Inr _, f1) \<Rightarrow>
     (case load_identity he f1 (wc_workstation_key c) (wc_controller_trust c) of
        Inl x \<Rightarrow> (Inl x, False, f1)
      | Inr ident \<Rightarrow>
     (case open_store he (wc_state_db c) of
        Inl x \<Rightarrow> (Inl x, False, f1)
      | Inr st \<Rightarrow>
     (case assemble he c ident st f1 of
        Inl x \<Rightarrow> (Inl x, False, f1)
      | Inr ph \<Rightarrow> (Inr ph, True, f1))))))"

definition start_host :: "('sk, 'pk) host_env \<Rightarrow> service_config \<Rightarrow> fs \<Rightarrow> ('sk, 'pk) prepared_host result \<times> bool \<times> fs" where
  "start_host he c f =
     (case prepare_host he c f of
        (Inl x, opened, f1) \<Rightarrow> (Inl x, opened, f1)
      | (Inr ph, opened, f1) \<Rightarrow>
          (case listen he (wc_bind_host c) (wc_bind_port c) of
             Inl x \<Rightarrow> (Inl x, False, f1)
           | Inr _ \<Rightarrow> (Inr ph, opened, f1)))"

section \<open>The agent on standard input and output\<close>

definition build_agent ::
  "('sk, 'pk) host_env \<Rightarrow> string list \<Rightarrow> int \<Rightarrow> bool \<Rightarrow> rpath option \<Rightarrow> fs \<Rightarrow> (host \<times> agent) result" where
  "build_agent he roots n exec db f =
     rbind (case db of None \<Rightarrow> Inr None | Some p \<Rightarrow> map_sum id Some (open_store he p)) (\<lambda>st.
     rbind (LaneRegistry ({''fs.read'', ''fs.write''} \<union> (if exec then {''process.exec''} else {})) n) (\<lambda>reg.
     rbind (LocalExecutor (he_os he) f roots 1048576 1048576 None exec) (\<lambda>ex.
       Inr (host_of he ex None, \<lparr>a_registry = reg, a_store = st, a_fs = f, a_procs = []\<rparr>))))"

text \<open>One line, and the loop over the lines, in the order in which their tasks run; blank lines are skipped.\<close>

definition line_error :: "string \<Rightarrow> string \<Rightarrow> dict" where
  "line_error code message =
     [(''protocol_version'', JStr ''veraport-v1''), (''request_id'', JNull), (''ok'', JBool False),
      (''error'', JObj [(''code'', JStr code), (''message'', JStr message)])]"

definition handle_line :: "host \<Rightarrow> moment \<Rightarrow> string \<Rightarrow> agent \<Rightarrow> dict \<times> agent" where
  "handle_line h t raw ag =
     (case json_loads (h_env h) raw of
        Inl x \<Rightarrow> (line_error ''JSONDECODEERROR'' (h_text h x), ag)
      | Inr (JObj req) \<Rightarrow> handle_request h t req ag
      | Inr _ \<Rightarrow> (line_error (h_class h ValueError) (h_text h (Py ValueError)), ag))"

fun serve_lines :: "host \<Rightarrow> (moment \<times> string) list \<Rightarrow> agent \<Rightarrow> string list \<times> agent" where
  "serve_lines h [] ag = ([], ag)"
| "serve_lines h ((t, raw) # rest) ag =
     (if raw = [] then ([], ag)
      else if is_blank raw then serve_lines h rest ag
      else (case handle_line h t raw ag of (d, ag1) \<Rightarrow>
        (case serve_lines h rest ag1 of (out, ag2) \<Rightarrow> (json_dumps (h_env h) (JObj d) # out, ag2))))"

section \<open>What a preparation that succeeds has checked\<close>

definition trusted :: "('sk, 'pk) host_env \<Rightarrow> (string \<times> 'pk) list \<Rightarrow> bool" where
  "trusted he al \<longleftrightarrow> (\<forall>p pk. map_of al p = Some pk \<longrightarrow> p256_public (he_crypto he) pk \<and> principal_id (he_crypto he) pk ''controller'' = Inr p)"

lemma load_public_pemD: "load_public_pem he s = Inr pk \<Longrightarrow> p256_public (he_crypto he) pk"
  by (auto simp: load_public_pem_def split: if_splits option.splits)

lemma load_trust_trusted:
  "load_trust he vs (al, pol) = Inr (al', pol') \<Longrightarrow> trusted he al \<Longrightarrow> trusted he al'"
proof (induction vs arbitrary: al pol)
  case (Cons v vs)
  obtain d pk derived cs where l: "load_public_pem he (py_str (he_py he) (dict_get d ''public_key_pem'' (JStr []))) = Inr pk"
      "principal_id (he_crypto he) pk ''controller'' = Inr derived"
    and rest: "load_trust he vs (AList.update derived pk al, AList.update derived (set (map (py_str (he_py he)) cs)) pol) = Inr (al', pol')"
    using Cons.prems(1) by (auto simp: rbind_Inr split: json.splits if_splits option.splits)
  have "trusted he (AList.update derived pk al)"
    using Cons.prems(2) load_public_pemD [OF l(1)] l(2) by (simp add: trusted_def dict_simps)
  with Cons.IH rest show ?case by blast
qed simp

lemma trusted_Nil: "trusted he []"
  by (simp add: trusted_def)

lemma map_sum_Inr: "map_sum id k r = Inr y \<longleftrightarrow> (\<exists>x. r = Inr x \<and> y = k x)"
  by (cases r) auto

lemma load_identity_trusted: "load_identity he f k t = Inr ident \<Longrightarrow> trusted he (id_controllers ident)"
  by (auto simp: load_identity_def map_sum_Inr simp del: load_trust.simps
      split: sum.splits option.splits json.splits if_splits list.splits dest: load_trust_trusted [of _ _ "[]" "[]", OF _ trusted_Nil])

lemma service_validateD:
  assumes "service_validate he c = Inr ()"
  shows "(\<exists>lo. ip_loopback he (wc_bind_host c) = Some lo \<and> (lo \<or> wc_allow_non_loopback c)) \<and> 1 \<le> wc_bind_port c \<and> wc_bind_port c \<le> 65535
    \<and> 1 \<le> wc_max_lanes c \<and> wc_max_lanes c \<le> 1024"
  using assms by (auto simp: service_validate_def split: option.splits if_splits)

lemma service_runtime_filesD:
  assumes "service_runtime_files he c f = (Inr (), f1)"
  shows "\<forall>p \<in> set (wc_allowed_roots c). is_dir f1 p"
  using assms by (auto simp: service_runtime_files_def list_all_iff split: prod.splits sum.splits option.splits if_splits)

lemma assembleD:
  assumes "assemble he c ident st f = Inr ph"
  obtains reg ex wb au where "LaneRegistry (host_capabilities (wc_allow_process_exec c)) (wc_max_lanes c) = Inr reg"
    "LocalExecutor (he_os he) f (map as_posix (wc_allowed_roots c)) 1048576 (wc_max_read_bytes c) None (wc_allow_process_exec c) = Inr ex"
    "load_bridge he c = Inr wb"
    "WorkstationAuthenticator (he_crypto he) (id_private ident) (id_controllers ident) (id_policy ident) = Inr au"
    "ph = \<lparr>ph_config = c, ph_host = host_of he ex wb,
       ph_agent = \<lparr>a_registry = reg, a_store = Some st, a_fs = f, a_procs = []\<rparr>, ph_authenticator = au\<rparr>"
  using assms by (auto simp: assemble_def rbind_Inr)

lemma prepare_hostD:
  assumes "prepare_host he c f = (Inr ph, opened, f1)"
  obtains ident st where "service_validate he c = Inr ()" "service_runtime_files he c f = (Inr (), f1)"
    "load_identity he f1 (wc_workstation_key c) (wc_controller_trust c) = Inr ident"
    "open_store he (wc_state_db c) = Inr st" "assemble he c ident st f1 = Inr ph" "opened"
  using assms by (auto simp: prepare_host_def split: sum.splits prod.splits)

lemma authenticator_controllers:
  "WorkstationAuthenticator cr sk al pol = Inr au \<Longrightarrow> allowed_controllers au = al \<and> capability_policy au = pol"
  by (auto simp: WorkstationAuthenticator_def split: sum.splits)


section \<open>Runs of a started host\<close>

text \<open>
  Sessions that the authenticator accepted, with ids that do not collide, call into the agent and close in any order, while the files
  change and processes progress or leave the table.
\<close>

inductive host_run :: "('sk, 'pk) crypto \<Rightarrow> ('sk, 'pk) prepared_host \<Rightarrow> session_binding set \<Rightarrow> agent \<Rightarrow> bool" for cr ph where
  host_start: "host_run cr ph {} (ph_agent ph)"
| host_session: "host_run cr ph B ag \<Longrightarrow> accept cr (ph_authenticator ph) ch cl now_ms ttl random = Inr (ac, b)
    \<Longrightarrow> session_id b \<notin> session_id ` B \<Longrightarrow> host_run cr ph (insert b B) ag"
| host_call: "host_run cr ph B ag \<Longrightarrow> b \<in> B \<Longrightarrow> session_call (ph_host ph) b now_ms t req ag = (resp, ag') \<Longrightarrow> host_run cr ph B ag'"
| host_close: "host_run cr ph B ag \<Longrightarrow> b \<in> B \<Longrightarrow> session_close (ph_host ph) b now ag = (rep, ag') \<Longrightarrow> host_run cr ph B ag'"
| host_outside: "host_run cr ph B ag \<Longrightarrow> fst ` set pt \<subseteq> fst ` set (a_procs ag) \<Longrightarrow> host_run cr ph B (ag\<lparr>a_fs := f, a_procs := pt\<rparr>)"

lemma session_run_mono: "session_run h B ag \<Longrightarrow> B \<subseteq> C \<Longrightarrow> session_run h C ag"
  by (induction rule: session_run.induct) (auto intro: session_run.intros)

definition started_host :: "('sk, 'pk) host_env \<Rightarrow> ('sk, 'pk) prepared_host \<Rightarrow> bool" where
  "started_host he ph \<longleftrightarrow> (\<exists>c f f1. start_host he c f = (Inr ph, True, f1))"

lemma started_hostD:
  assumes "started_host he ph"
  obtains c reg ex wb where "ph_config ph = c" "LaneRegistry (host_capabilities (wc_allow_process_exec c)) (wc_max_lanes c) = Inr reg"
    "allow_process_exec ex = wc_allow_process_exec c" "ph_host ph = host_of he ex wb"
    "wb = None \<or> (\<exists>be bc svc. wb = Some (WorkBridgeLocalBackend be bc svc))"
    "a_registry (ph_agent ph) = reg" "a_procs (ph_agent ph) = []" "trusted he (allowed_controllers (ph_authenticator ph))"
proof -
  obtain c f f1 where "start_host he c f = (Inr ph, True, f1)" using assms by (auto simp: started_host_def)
  then have p: "prepare_host he c f = (Inr ph, True, f1)" by (auto simp: start_host_def split: prod.splits sum.splits)
  obtain ident st where q: "load_identity he f1 (wc_workstation_key c) (wc_controller_trust c) = Inr ident"
    "assemble he c ident st f1 = Inr ph" using prepare_hostD [OF p] by metis
  show ?thesis
  proof (rule assembleD [OF q(2)])
    fix reg ex wb au
    assume a: "LaneRegistry (host_capabilities (wc_allow_process_exec c)) (wc_max_lanes c) = Inr reg"
      "LocalExecutor (he_os he) f1 (map as_posix (wc_allowed_roots c)) 1048576 (wc_max_read_bytes c) None (wc_allow_process_exec c) = Inr ex"
      "load_bridge he c = Inr wb"
      "WorkstationAuthenticator (he_crypto he) (id_private ident) (id_controllers ident) (id_policy ident) = Inr au"
      "ph = \<lparr>ph_config = c, ph_host = host_of he ex wb,
         ph_agent = \<lparr>a_registry = reg, a_store = Some st, a_fs = f1, a_procs = []\<rparr>, ph_authenticator = au\<rparr>"
    have "allow_process_exec ex = wc_allow_process_exec c"
      using a(2) by (auto simp: LocalExecutor_def Let_def split: if_splits sum.splits)
    moreover have "wb = None \<or> (\<exists>be bc svc. wb = Some (WorkBridgeLocalBackend be bc svc))"
      using a(3) by (auto simp: load_bridge_def map_sum_Inr split: option.splits)
    ultimately show ?thesis
      using that a(1,5) load_identity_trusted [OF q(1)] authenticator_controllers [OF a(4)] by simp
  qed
qed

lemma started_bridge: "started_host he ph \<Longrightarrow> bridge_authorizes (ph_host ph)"
  by (erule started_hostD, rule backend_authorizes) (simp add: host_of_def)

text \<open>Where a session comes from.\<close>

definition accepted :: "('sk, 'pk) prepared_host \<Rightarrow> session_binding \<Rightarrow> bool" where
  "accepted ph b \<longleftrightarrow> (\<exists>pk caps. map_of (allowed_controllers (ph_authenticator ph)) (controller_principal b) = Some pk
     \<and> granted_capabilities b \<subseteq> caps \<and> dict_get (capability_policy (ph_authenticator ph)) (controller_principal b) {} = caps)
     \<and> CHR '':'' \<notin> set (session_id b)"

lemma accept_accepted: "accept cr (ph_authenticator ph) ch cl now ttl random = Inr (ac, b) \<Longrightarrow> accepted ph b"
  using acceptD [of cr "ph_authenticator ph" ch cl now ttl random ac b] accept_checksD [of cr "ph_authenticator ph" ch cl "()"] session_id_no_colon
  by (auto simp: accepted_def)

lemma session_call_caps:
  assumes "registry_inv (h_env h) (a_registry ag)" "bridge_authorizes h" "session_call h b now_ms t req ag = (resp, ag')"
  shows "session_capabilities (a_registry ag') = session_capabilities (a_registry ag)"
  using session_lane_effect [OF assms] by (auto simp: lane_effect_def)

lemma host_run_inv:
  assumes "host_run cr ph B ag" "started_host he ph"
  shows "session_run (ph_host ph) B ag \<and> (\<forall>b \<in> B. accepted ph b) \<and> inj_on session_id B
    \<and> session_capabilities (a_registry ag) = host_capabilities (wc_allow_process_exec (ph_config ph))"
  using assms
proof (induction rule: host_run.induct)
  case host_start
  show ?case
  proof (rule started_hostD [OF host_start])
    fix c reg ex wb
    assume c: "ph_config ph = c" "LaneRegistry (host_capabilities (wc_allow_process_exec c)) (wc_max_lanes c) = Inr reg"
      "a_registry (ph_agent ph) = reg" "a_procs (ph_agent ph) = []"
    have "session_capabilities reg = host_capabilities (wc_allow_process_exec c)" using c(2) by (auto simp: LaneRegistry_def split: if_splits)
    moreover have "session_run (ph_host ph) {} (ph_agent ph)" using c(2,3,4) by (auto intro: fresh_agent)
    ultimately show ?thesis using c(1,3) by simp
  qed
next
  case (host_session B ag ch cl now_ms ttl random ac b)
  then show ?case using session_run_mono [of _ B ag "insert b B"] accept_accepted by (auto simp: insert_absorb)
next
  case (host_call B ag b now_ms t req resp ag')
  then have run: "session_run (ph_host ph) B ag" by simp
  note inv = session_run_inv [OF run started_bridge [OF host_call.prems], THEN conjunct1]
  show ?case using host_call one_call [OF run] session_call_caps [OF inv started_bridge [OF host_call.prems]] by auto
next
  case (host_close B ag b now rep ag')
  then have run: "session_run (ph_host ph) B ag" by simp
  note inv = session_run_inv [OF run started_bridge [OF host_close.prems], THEN conjunct1]
  have "session_capabilities (a_registry ag') = session_capabilities (a_registry ag)"
    using session_close_shrinks [OF inv host_close.hyps(3)] by (simp add: lanes_shrink_def)
  then show ?case using host_close one_close [OF run] by auto
next
  case (host_outside B ag pt f)
  have "ag\<lparr>a_fs := f, a_procs := pt\<rparr> = ag\<lparr>a_procs := pt, a_fs := f\<rparr>" by simp
  then show ?case using host_outside processes by (metis agent.ext_inject agent.select_convs(1) agent.surjective agent.update_convs(3,4))
qed


section \<open>A host that may not execute\<close>

lemma no_exec_process:
  assumes "\<not> allow_process_exec (h_ex h)" "a_procs ag = []"
  shows "a_procs (snd (do_process h t op req ag)) = []" "a_fs (snd (do_process h t op req ag)) = a_fs ag"
    "a_fs (snd (do_process_exec h t req ag)) = a_fs ag"
proof -
  have A: "a_procs (snd (with_procs ag p)) = snd (snd p)" "a_fs (snd (with_procs ag p)) = a_fs ag"
    "a_procs (snd (with_reg ag q k)) = a_procs ag" "a_fs (snd (with_reg ag q k)) = a_fs ag" for p q k
    by (simp_all add: with_procs_def with_reg_def split: prod.split)
  have D: "snd (snd (process_start (h_env h) os pe (h_ex h) lid tok argv cwd mr now ns reg f [])) = []"
    "snd (snd (process_status (h_env h) (h_ex h) lid tok p now reg [])) = []"
    "snd (snd (process_output (h_env h) os (h_ex h) lid tok p so se mb now reg [])) = []"
    "snd (snd (process_input (h_env h) os pe (h_ex h) lid tok p s nl now reg [])) = []"
    "snd (snd (process_terminate (h_env h) pe (h_ex h) lid tok p g now reg [])) = []"
    for os pe lid tok argv cwd mr now ns reg f p so se mb s nl g
    using assms(1) by (simp_all add: process_start_def process_status_def process_output_def process_input_def process_terminate_def)
  show "a_procs (snd (do_process h t op req ag)) = []"
    using assms(2) by (simp add: do_process_def Let_def A D split: sum.split prod.split)
  show "a_fs (snd (do_process h t op req ag)) = a_fs ag"
    by (simp add: do_process_def Let_def A split: sum.split prod.split)
  show "a_fs (snd (do_process_exec h t req ag)) = a_fs ag"
    using assms(1) by (simp add: do_process_exec_def run_process_def with_fs_def split: sum.split prod.split)
qed

lemma close_none: "close_lane_processes pe lid tok [] = (Inr [], [])"
  by (simp add: close_lane_processes_def)

lemma no_exec_dispatch:
  assumes "\<not> allow_process_exec (h_ex h)" "a_procs ag = []"
  shows "a_procs (snd (dispatch h t op req ag)) = []"
    "prefix ''process.'' op \<Longrightarrow> a_fs (snd (dispatch h t op req ag)) = a_fs ag"
proof -
  have "a_procs (snd (do_lane_close h t req ag)) = []"
    using assms(2) by (simp add: do_lane_close_def close_none split: sum.split prod.split)
  then show "a_procs (snd (dispatch h t op req ag)) = []"
    unfolding dispatch_def using assms(2) no_exec_process(1) [OF assms] by (simp add: other_procs lane_open_procs reads_procs)
  assume "prefix ''process.'' op"
  then obtain rest where "op = ''process.'' @ rest" by (auto simp: prefix_def)
  then show "a_fs (snd (dispatch h t op req ag)) = a_fs ag"
    using no_exec_process(2,3) [OF assms] by (simp add: dispatch_def)
qed

lemma close_lanes_none:
  "a_procs ag = [] \<Longrightarrow> a_procs (snd (close_lanes h now ls ag rep)) = []"
  by (induction ls arbitrary: ag rep) (simp_all add: close_none Let_def split: prod.split sum.split)

lemma no_exec_handle:
  assumes "\<not> allow_process_exec (h_ex h)" "a_procs ag = []" "handle_request h t req ag = (resp, ag')"
  shows "a_procs ag' = []" "dict_get req ''operation'' JNull = JStr (''process.'' @ s) \<Longrightarrow> a_fs ag' = a_fs ag"
proof -
  have "a_procs ag' = [] \<and> (dict_get req ''operation'' JNull = JStr (''process.'' @ s) \<longrightarrow> a_fs ag' = a_fs ag)"
    using assms(3)
  proof (cases rule: handled_cases)
    case nothing
    then show ?thesis using assms(2) by simp
  next
    case (dispatched rid op ag0)
    have "dict_get req ''operation'' JNull = JStr op" using dispatched(1) by (auto simp: valid_request_def split: if_splits json.splits)
    then show ?thesis using dispatched no_exec_dispatch [OF assms(1), where ag = ag0 and t = t and op = op and req = req] assms(2) by auto
  qed
  then show "a_procs ag' = []" "dict_get req ''operation'' JNull = JStr (''process.'' @ s) \<Longrightarrow> a_fs ag' = a_fs ag" by simp_all
qed

lemma no_exec_call:
  assumes "\<not> allow_process_exec (h_ex h)" "a_procs ag = []" "session_call h b now_ms t req ag = (resp, ag')"
  shows "a_procs ag' = []" "dict_get req ''operation'' JNull = JStr (''process.'' @ s) \<Longrightarrow> a_fs ag' = a_fs ag"
proof -
  have "a_procs ag' = [] \<and> (dict_get req ''operation'' JNull = JStr (''process.'' @ s) \<longrightarrow> a_fs ag' = a_fs ag)"
    using assms(3)
  proof (cases rule: session_call_cases)
    case refused
    then show ?thesis using assms(2) by simp
  next
    case (passed r ireq resp0)
    have "dict_get ireq ''operation'' JNull = dict_get req ''operation'' JNull" using internal_requestD(1) [OF passed(2)] by simp
    then show ?thesis using no_exec_handle [OF assms(1,2) passed(3)] by auto
  qed
  then show "a_procs ag' = []" "dict_get req ''operation'' JNull = JStr (''process.'' @ s) \<Longrightarrow> a_fs ag' = a_fs ag" by simp_all
qed

lemma host_run_no_procs:
  assumes "host_run cr ph B ag" "started_host he ph" "\<not> wc_allow_process_exec (ph_config ph)"
  shows "a_procs ag = []"
proof -
  have ex: "\<not> allow_process_exec (h_ex (ph_host ph))" "a_procs (ph_agent ph) = []"
    using assms(3) by (rule_tac started_hostD [OF assms(2)]; simp add: host_of_def)+
  show ?thesis
    using assms(1)
  proof (induction rule: host_run.induct)
    case (host_call B ag b now_ms t req resp ag')
    then show ?case using no_exec_call(1) [OF ex(1)] by blast
  next
    case (host_close B ag b now rep ag')
    have "a_procs (snd (session_close (ph_host ph) b now ag)) = []"
      using host_close.IH by (simp add: session_close_def close_session_def case_prod_unfold close_lanes_none)
    then show ?case using host_close.hyps(3) by simp
  qed (use ex(2) in auto)
qed

text \<open>
  A host without process execution creates no process. Where the configuration does not allow it, the process table
  stays empty in every run, and a request for a process operation, \<^verbatim>\<open>process.exec\<close> included, leaves the files as they are.
\<close>
theorem host_without_execution:
  assumes "started_host he ph" "\<not> wc_allow_process_exec (ph_config ph)" "host_run cr ph B ag"
    and "session_call (ph_host ph) b now_ms t req ag = (resp, ag')"
  shows "a_procs ag' = [] \<and> (dict_get req ''operation'' JNull = JStr (''process.'' @ s) \<longrightarrow> a_fs ag' = a_fs ag)"
proof -
  have "\<not> allow_process_exec (h_ex (ph_host ph))" using assms(2) by (rule_tac started_hostD [OF assms(1)]) (simp add: host_of_def)
  then show ?thesis using no_exec_call [OF _ host_run_no_procs [OF assms(3,1,2)] assms(4)] by blast
qed

section \<open>A concrete host\<close>

definition demo_trust :: dict where
  "demo_trust = [(''schema'', JStr ''VERAPORT_CONTROLLER_TRUST_V1''),
     (''controllers'', JList [JObj [(''public_key_pem'', JStr ''k''), (''principal'', JStr ''controller:aa''), (''key_id'', JStr ''aa''),
        (''capabilities'', JList [JStr ''fs.read''])]])]"

definition demo_he :: "(nat, nat) host_env" where
  "demo_he = \<lparr>netloc_ok = (\<lambda>_. True), ipv6_loopback = (\<lambda>_. None), he_py = posix_env\<lparr>json_loads := (\<lambda>_. Inr (JObj demo_trust))\<rparr>,
     he_os = demo_os, he_pe = demo_pe, he_crypto = toy_crypto {client_signature_base Hot_Session.demo_request}, read_private = (\<lambda>_. Some 1),
     read_public = (\<lambda>_. Some 2), db_rows = (\<lambda>_. Inr (None, [])), server_context = (\<lambda>_ _. Inr ()), listen = (\<lambda>_ _. Inr ()),
     he_bridge = demo_be, he_service = says ''x'', he_class = (\<lambda>_. ''ERROR''), he_text = (\<lambda>_. [])\<rparr>"

abbreviation host_path :: rpath where
  "host_path \<equiv> RPath ''/'' [''w'', ''x'']"

definition demo_service :: service_config where
  "demo_service = \<lparr>wc_bind_host = ''127.0.0.1'', wc_bind_port = 9, wc_allowed_roots = [RPath ''/'' [''w'']],
     wc_state_db = RPath ''/'' [''w'', ''db''], wc_tls_cert = host_path, wc_tls_key = host_path,
     wc_workstation_key = host_path, wc_controller_trust = host_path, wc_allow_process_exec = False,
     wc_allow_non_loopback = False, wc_max_lanes = 2, wc_max_inflight = 1, wc_max_read_bytes = 10, wc_workbridge_config = None\<rparr>"

definition demo_exec :: executor where
  "demo_exec = \<lparr>allowed_roots = [RPath ''/'' [''w'', ''/w'']], max_output_bytes = 1048576, max_read_bytes = 10, max_read_chunk_bytes = 10,
     allow_process_exec = False\<rparr>"

definition demo_prepared :: "(nat, nat) prepared_host" where
  "demo_prepared = \<lparr>ph_config = demo_service, ph_host = host_of demo_he demo_exec None,
     ph_agent = \<lparr>a_registry = demo_registry, a_store = Some \<lparr>max_mutation_requests = 100000, warn_at_records = default_warn 100000,
       fence_counter = None, requests = []\<rparr>, a_fs = demo_fs, a_procs = []\<rparr>, ph_authenticator = demo_authenticator\<rparr>"

lemma demo_loopback: "ip_loopback demo_he ''127.0.0.1'' = Some True"
  by (simp add: ip_loopback_def demo_he_def) code_simp

lemma demo_service_valid: "service_validate demo_he demo_service = Inr ()"
  by (simp add: service_validate_def demo_service_def demo_loopback)

lemma demo_service_files: "service_runtime_files demo_he demo_service demo_fs = (Inr (), demo_fs)"
proof -
  have "py_mkdir demo_os True demo_fs (parent (RPath ''/'' [''w'', ''db''])) = (Inr (), demo_fs)" by code_simp
  moreover have "is_dir demo_fs (RPath ''/'' [''w''])" "is_file demo_fs host_path" by code_simp+
  ultimately show ?thesis by (simp add: service_runtime_files_def demo_service_def demo_he_def)
qed

lemma demo_identity:
  "load_identity demo_he demo_fs host_path host_path = Inr \<lparr>id_private = 1, id_controllers = [(''controller:aa'', 2)],
     id_policy = [(''controller:aa'', {''fs.read''})]\<rparr>"
proof -
  have pk: "load_public_pem demo_he ''k'' = Inr 2" by (simp add: load_public_pem_def demo_he_def toy_crypto_def byte_val_def)
  have "file_bytes demo_fs host_path = Inr ''hello''" by code_simp
  then show ?thesis
    using toy_ids [of "{client_signature_base Hot_Session.demo_request}" 2] pk
    by (simp add: load_identity_def file_utf8_def demo_he_def demo_os_def demo_trust_def rbind_def dict_get_def toy_crypto_def
        numeral_2_eq_2)
qed

lemma demo_prepare: "prepare_host demo_he demo_service demo_fs = (Inr demo_prepared, True, demo_fs)"
proof -
  have d: "1 \<le> default_warn 100000" "default_warn 100000 \<le> 100000" by code_simp+
  have f: "wc_workstation_key demo_service = host_path" "wc_controller_trust demo_service = host_path"
    by (simp_all add: demo_service_def)
  have "open_store demo_he p = Inr \<lparr>max_mutation_requests = 100000, warn_at_records = default_warn 100000, fence_counter = None, requests = []\<rparr>" for p
    using d by (simp add: open_store_def AgentStateStore_def rbind_def demo_he_def Let_def)
  moreover have "as_posix (RPath ''/'' [''w'']) = ''/w''" by code_simp
  ultimately show ?thesis
    using toy_ids [of "{client_signature_base Hot_Session.demo_request}" 1]
    by (simp add: prepare_host_def demo_service_valid demo_service_files f demo_identity)
      (simp add: assemble_def host_capabilities_def demo_service_def demo_start rbind_def LocalExecutor_def demo_he_def demo_os_def
        load_bridge_def WorkstationAuthenticator_def toy_crypto_def demo_prepared_def demo_exec_def demo_authenticator_def Let_def)
qed

lemma demo_host_started: "start_host demo_he demo_service demo_fs = (Inr demo_prepared, True, demo_fs)"
  by (simp add: start_host_def demo_prepare) (simp add: demo_he_def)

text \<open>A session that the authenticator of this host accepts opens a lane for reading.\<close>

definition host_open_request :: dict where
  "host_open_request = [(''protocol_version'', JStr ''veraport-v1''), (''request_id'', JStr ''r1''),
     (''operation'', JStr ''lane.open''), (''lane_id'', JStr ''a''), (''task_id'', JStr ''t''),
     (''capabilities'', JList [JStr ''fs.read'']),
     (''claims'', JList [JObj [(''key'', JStr ''fs:/w''), (''mode'', JStr ''read'')]]), (''ttl_s'', JInt 300)]"

definition host_lane :: lane where
  "host_lane = \<lparr>lane_id = ''c2lk::a'', task_id = ''t'', capabilities = {''fs.read''},
     claims = [ResourceClaim ''fs:/w'' READ], fencing_token = 1, expires_at = Fin 310\<rparr>"

abbreviation read_registry :: registry where
  "read_registry \<equiv> demo_registry\<lparr>lanes := [(''c2lk::a'', host_lane)], last_fence := 1\<rparr>"

lemma host_open:
  "open_lane (he_py demo_he) (Some (next_fence False)) ''c2lk::a'' ''t'' {''fs.read''} [ResourceClaim ''fs:/w'' READ]
     (Fin 300) (Fin 10) demo_registry (st\<lparr>fence_counter := None\<rparr>) = (Inr host_lane, read_registry, st\<lparr>fence_counter := Some 1\<rparr>)"
proof -
  have "\<not> is_blank ''c2lk::a''" by code_simp
  then show ?thesis
    by (simp add: open_lane_def demo_registry_def host_lane_def reap_expired_locked_def take_fence_def next_fence_def Let_def)
qed

lemma host_internal:
  "internal_request demo_session ''r1'' host_open_request =
     Some (AList.update ''lane_id'' (JStr ''c2lk::a'') (AList.update ''request_id'' (JStr ''controller:aa::r1'') host_open_request))"
proof -
  have "b64u ''sid'' = ''c2lk''" by code_simp
  then show ?thesis
    by (simp add: internal_request_def host_open_request_def demo_session_def lane_prefix_def request_prefix_def Let_def)
qed

lemma host_open_dispatch:
  assumes "req = AList.update ''lane_id'' (JStr ''c2lk::a'') (AList.update ''request_id'' (JStr ''controller:aa::r1'') host_open_request)"
  shows "a_registry (snd (handle_request (ph_host demo_prepared) (demo_moment\<lparr>t_now := Fin 10\<rparr>) req (ph_agent demo_prepared))) = read_registry"
proof -
  let ?h = "ph_host demo_prepared" and ?t = "demo_moment\<lparr>t_now := Fin 10\<rparr>"
  have v: "valid_request req = Some (''controller:aa::r1'', ''lane.open'')"
    by (simp add: assms valid_request_def host_open_request_def dict_get_def)
  have c: "claim_of_json ?h (JObj [(''key'', JStr ''fs:/w''), (''mode'', JStr ''read'')]) = Inr (ResourceClaim ''fs:/w'' READ)"
    by (simp add: arg_str_def dict_item_def claim_mode_of_def mk_resource_claim_def rbind_def)
  have f: "h_env ?h = he_py demo_he" "fence_fault ?t = False" "t_now ?t = Fin 10"
    by (simp_all add: demo_prepared_def host_of_def demo_moment_def)
  have d: "do_lane_open ?h ?t req ag =
      (case agent_open_lane ?h ?t ''c2lk::a'' ''t'' {''fs.read''} [ResourceClaim ''fs:/w'' READ] (Fin 300) ag
       of (Inl e, ag') \<Rightarrow> (Inl e, ag') | (Inr l, ag') \<Rightarrow> (Inr (lane_json l), ag'))" for ag
    unfolding do_lane_open_def assms
    by (simp add: arg_str_def dict_item_def dict_get_def host_open_request_def rbind_def c del: claim_of_json.simps)
  have o: "a_registry (snd (do_lane_open ?h ?t req ag)) = read_registry" "a_store (snd (do_lane_open ?h ?t req ag)) \<noteq> None"
    if "a_registry ag = demo_registry" "a_store ag = Some st" "fence_counter st = None" for ag st
  proof -
    have st: "st\<lparr>fence_counter := None\<rparr> = st" using that(3) by simp
    show "a_registry (snd (do_lane_open ?h ?t req ag)) = read_registry" "a_store (snd (do_lane_open ?h ?t req ag)) \<noteq> None"
      using host_open [of st, unfolded st] that(1,2) by (simp_all add: d agent_open_lane_def f)
  qed
  obtain st where st: "a_store (ph_agent demo_prepared) = Some st" "fence_counter st = None" "requests st = []" "max_mutation_requests st = 100000"
    by (simp add: demo_prepared_def)
  obtain st1 where b: "begin_request (h_env ?h) (begin_fault demo_moment) ''controller:aa::r1'' sha (t_ms demo_moment) st = (Inr NEW, st1 sha)"
      "fence_counter (st1 sha) = None" for sha
    using st by (simp add: begin_request_def request_record_count_def demo_moment_def)
  have reg: "a_registry (ph_agent demo_prepared) = demo_registry" by (simp add: demo_prepared_def)
  show ?thesis using v o [of "(ph_agent demo_prepared)\<lparr>a_store := Some (st1 (request_digest ?h req))\<rparr>", OF _ _ b(2)] reg
    by (simp add: handle_request_eq handle_checked_def dispatch_def DURABLE_MUTATING_OPERATIONS_def st(1) b(1)
        case_prod_unfold Let_def split: option.split sum.split)
qed

lemma demo_host_run: "\<exists>ag. host_run (he_crypto demo_he) demo_prepared {demo_session} ag \<and> a_registry ag = read_registry"
proof -
  have start: "host_run (he_crypto demo_he) demo_prepared {demo_session} (ph_agent demo_prepared)"
  proof (rule host_session [OF host_start])
    show "accept (he_crypto demo_he) (ph_authenticator demo_prepared) demo_challenge Hot_Session.demo_request 100 50 ''sid'' = Inr (demo_answer, demo_session)"
      using demo_accept by (simp add: demo_he_def demo_prepared_def)
  qed simp
  obtain resp ag' where r: "session_call (ph_host demo_prepared) demo_session 120 (demo_moment\<lparr>t_now := Fin 10\<rparr>) host_open_request
      (ph_agent demo_prepared) = (resp, ag')" by fastforce
  have "dict_get host_open_request ''request_id'' JNull = JStr ''r1''" "dict_get host_open_request ''operation'' JNull = JStr ''lane.open''"
    "denied_capabilities (ph_host demo_prepared) demo_session host_open_request = Inr {}" "expires_at_ms demo_session = 150"
    by (simp_all add: host_open_request_def dict_get_def denied_capabilities_def demo_session_def)
  then have "a_registry ag' = read_registry"
    using r host_open_dispatch [OF refl] by (simp add: session_call_def Let_def host_internal case_prod_unfold)
  then show ?thesis using host_call [OF start _ r] by blast
qed

lemma demo_is_started: "started_host demo_he demo_prepared"
  using demo_host_started unfolding started_host_def by blast



lemma host_without_execution_witness:
  "a_procs (snd (session_call (ph_host demo_prepared) demo_session 120 demo_moment
     [(''operation'', JStr ''process.exec'')] (ph_agent demo_prepared))) = []"
  using host_without_execution [OF demo_is_started _ host_start, of demo_session 120 demo_moment "[(''operation'', JStr ''process.exec'')]"]
  by (metis demo_prepared_def demo_service_def prepared_host.select_convs(1) service_config.select_convs(9) surjective_pairing)

end
