(* ===== verification/Spec2Isabelle.thy ===== *)
theory Spec2Isabelle
  imports Session_Pool TLS_Transport Lane_Locks Live_Edge Public_Process Local_MCP Agent_Host
begin

text \<open>
  A model of VeraMesh, a bridge by which a remote controller works on a workstation, with the theorems that
  make it correct. The sources are under \<^verbatim>\<open>src/reference/veraport_agent/veraport_agent/\<close>.

  \<^bold>\<open>The program.\<close> A workstation runs an agent. A controller opens an authenticated session to it over a
  framed stream, opens \<^emph>\<open>lanes\<close> in it (named leases on resources, each with a fencing token, a set of
  capabilities and a set of claims) and sends requests that name a lane: read and change files, start and
  watch processes. Mutations go through a durable ledger that runs a request id at most once. A controller
  runtime keeps sessions to one workstation over several network paths, selects a path for each request and
  moves requests to another path where that is safe. On top of it, a public gateway gives tools to users that
  hold an OAuth token, with lanes opened and closed behind each call.

  \<^bold>\<open>The workstation.\<close>
  \<^item> \<^verbatim>\<open>core.py\<close> is \<^verbatim>\<open>Lane_Registry\<close>: the record \<open>registry\<close> is the state of \<^verbatim>\<open>LaneRegistry\<close>, and \<open>open_lane\<close>,
    \<open>renew\<close>, \<open>close\<close>, \<open>authorize\<close> and \<open>snapshot\<close> are its methods under the lock. Shown: exclusion of conflicting
    lanes, rejection of stale tokens over all histories, refinement of a map of unexpired leases.
  \<^item> \<^verbatim>\<open>state.py\<close> is \<^verbatim>\<open>Request_Ledger\<close>: the rows of the two tables and one definition per transaction.
    The locale \<open>fence_source\<close> of \<^verbatim>\<open>Lane_Registry\<close> is what a registry asks of its allocator, and the ledger
    interprets it. Shown: a request id is admitted at most once, replay of a stored answer, the capacity bound.
  \<^item> \<^verbatim>\<open>executor.py\<close> and \<^verbatim>\<open>rdc_surface.py\<close> are \<^verbatim>\<open>Local_Executor\<close>, \<^verbatim>\<open>Fs_Search\<close> and \<^verbatim>\<open>Process_Table\<close> over the file tree of
    \<^verbatim>\<open>File_System\<close>. Shown: atomic writes, the bounded searches against a recursive reference, exact output buffers
    and their pages, the watchdog of a process (14401 turns: the longest run time of 3600 s at four
    turns a second, and one).
  \<^item> \<^verbatim>\<open>protocol.py\<close> is \<^verbatim>\<open>Agent\<close>: the state \<open>agent\<close> is the registry, the store, the files and the processes, and
    \<open>handle_request\<close> is one request, all 23 operations included. \<^verbatim>\<open>Agent_Properties\<close> and \<^verbatim>\<open>Lane_Isolation\<close> show what a
    request can change. The per-lane locks of the dispatcher are the step relation of \<^verbatim>\<open>Lane_Locks\<close>.
  \<^item> \<^verbatim>\<open>hot_session.py\<close> is \<^verbatim>\<open>Hot_Session\<close>: challenge, client authentication, acceptance and verification with the byte
    formats that are signed. Shown: each end accepts only what the holder of the other key signed for this handshake, and an
    honest handshake succeeds on both ends.
  \<^item> \<^verbatim>\<open>runtime.py\<close> is \<^verbatim>\<open>Session_Runtime\<close>: the prefixes that keep sessions apart. Shown over all interleavings of
    sessions: isolation and the capability ceiling.
  \<^item> \<^verbatim>\<open>stream.py\<close> is \<^verbatim>\<open>Stream_Frames\<close>: frames as bytes, the table of pending requests as a state machine.
  \<^item> \<^verbatim>\<open>tls_transport.py\<close> is \<^verbatim>\<open>TLS_Transport\<close>: the handshake as bytes on both ends, and a connection from the first frame to the closing of its
    session; of TLS the model has the version and the protocol that were negotiated. Shown: the two ends agree on the wire, only
    an authenticated peer changes anything, and no lane of its session outlives the connection.
  \<^item> \<^verbatim>\<open>workbridge_local.py\<close> is \<^verbatim>\<open>WorkBridge\<close>: a backend for three reading operations that asks a service on the same machine; the
    service is a function of the call. Shown: every path it asks for lies within a configured root, before and after the
    service resolved it.
  \<^item> \<^verbatim>\<open>lappy_host.py\<close>, \<^verbatim>\<open>service_config.py\<close>, \<^verbatim>\<open>identity_store.py\<close> and \<^verbatim>\<open>stdio.py\<close> are \<^verbatim>\<open>Agent_Host\<close>: an agent is assembled from files and
    started, or serves lines of its standard input, taken here in the order they come. Shown: a host refuses to start without
    every file it names, grants only what its trust file and its execution switch allow, and closes its store when a start fails.

  \<^bold>\<open>The controller.\<close>
  \<^item> \<^verbatim>\<open>synchrony.py\<close> is \<^verbatim>\<open>Path_Select\<close> and \<^verbatim>\<open>controller.py\<close> is \<^verbatim>\<open>Session_Pool\<close>: the choice of a path, the request with its
    failover. \<^verbatim>\<open>controller_config.py\<close> and the catalogues of \<^verbatim>\<open>gateway.py\<close> are \<^verbatim>\<open>Controller_Config\<close>; the calls of
    \<^verbatim>\<open>VeraPortGateway\<close> and \<^verbatim>\<open>controller_runtime.py\<close> are \<^verbatim>\<open>Controller_Runtime\<close>; \<^verbatim>\<open>read_lane.py\<close> is \<^verbatim>\<open>Read_Lane\<close>. The log of
    sent requests in the state is a history variable: theorems speak of what reaches a workstation.

  \<^item> \<^verbatim>\<open>edge_adapter.py\<close> and \<^verbatim>\<open>verarelay_live_edge.py\<close> are \<^verbatim>\<open>Live_Edge\<close>: the proxies on the way, and the carrier as a step relation over its
    connections, admission lock and cancellation included. Shown: it holds no more upstream connections than it may, passes on
    a prefix of what arrives byte for byte, and can always end.

  \<^bold>\<open>The public gateway.\<close>
  \<^item> \<^verbatim>\<open>public_gateway.py\<close> is \<^verbatim>\<open>Remote_Path\<close> (the canonical paths of claims) and \<^verbatim>\<open>Public_Gateway\<close> (every call of the facade);
    \<^verbatim>\<open>Public_Calls\<close> holds what its calls send and keep. \<^verbatim>\<open>oauth_verifier.py\<close> and \<^verbatim>\<open>oauth_qualification.py\<close> are
    \<^verbatim>\<open>OAuth_Verifier\<close>, over the URLs of \<^verbatim>\<open>Urls\<close>; \<^verbatim>\<open>public_tool_policy.py\<close> and \<^verbatim>\<open>public_mcp.py\<close> are \<^verbatim>\<open>Public_MCP\<close>.
  \<^item> \<^verbatim>\<open>public_http.py\<close> and \<^verbatim>\<open>public_gateway_runtime.py\<close> are \<^verbatim>\<open>Public_Process\<close>: the gateway put together from its three files, a request with
    its bearer token, the shutdown. Shown: it verifies tokens of the issuer it publishes, for its own URL.
  \<^item> \<^verbatim>\<open>mcp_server.py\<close> is \<^verbatim>\<open>Local_MCP\<close>: the tools for clients on the controller's own machine. Shown: the ceiling of the controller
    holds for every tool and argument, the read-only hints are true, the server listens on loopback.
    The locales \<open>unprobed\<close> and \<open>unsent\<close> of \<^verbatim>\<open>Public_Calls\<close>, interpreted on the calls of the runtime, carry both servers.

  \<^bold>\<open>How code becomes definitions.\<close> \<^verbatim>\<open>VM_Prelude\<close> fixes the Python values, the exceptions and the lemmas on
  dictionaries. A raise is the left value of a sum; state is passed and returned. One request, one
  transaction and one operation of a component are one step; where the code interleaves inside an operation
  (locks of lanes, the multiplexed stream, the watchdog of a process, sessions of one agent) there is a step relation of
  its own. Parameters stand for what the repository does not hold: \<open>pyenv\<close> (case folding, number parsing, JSON text,
  SHA-256), \<open>osenv\<close> and the process environment of the platform, \<open>crypto\<close> (ECDSA on P-256), the transport \<open>net\<close> and the connector of a
  runtime, the HTTP client of the token check, the WorkBridge service, the files and environment variables of a process, the
  argument schemas of the MCP library. What a theorem needs
  of them is a named hypothesis.

  \<^bold>\<open>Not modelled.\<close> The Windows services and
  access lists and the tunnel runtime call interfaces of the platform and of other programs. The scripts that install, upgrade,
  recover, diagnose and qualify a deployment write files and print reports and keep no state. The relays supervise external
  programs, the tools package files, the Go gateway is a second implementation in another language. Rounding of floats
  and the text of messages, on which nothing in the program branches, are left out.
\<close>

end
